(* ===== verification/Prelude.thy ===== *)
theory Prelude
  imports Main "HOL-Library.AList" "HOL-Library.Char_ord" "HOL-Library.List_Lexorder"
begin

text \<open>
  Shared vocabulary of the development.  It holds the collections the component proofs use, the
  model of a JavaScript \<open>Map\<close>, a small error monad on sums, the string helpers of the
  JavaScript standard library the source calls, and two interfaces that several components
  provide: projections that fold a log of events into a keyed table, and at-most-once claims.

  A JavaScript \<open>Map\<close> is an association list in insertion order: \<open>set\<close> on a present key
  overwrites in place and on a new key appends (\<open>AList.update\<close>), \<open>get\<close> is \<open>map_of\<close>.
  Strings are lists of 8-bit characters, ordered lexicographically as JavaScript and SQLite
  order ASCII strings.
\<close>

named_theorems store_simps \<open>rewrite rules on the fields of the event store\<close>
named_theorems store_inv \<open>preservation of the event store's invariant\<close>
named_theorems leg_simps \<open>evaluation of posting legs\<close>

section \<open>Insertion-ordered maps\<close>

type_synonym ('k, 'v) jsmap = "('k \<times> 'v) list"

abbreviation jm_get :: "('k, 'v) jsmap \<Rightarrow> 'k \<Rightarrow> 'v option" where
  "jm_get m k \<equiv> map_of m k"

abbreviation jm_set :: "'k \<Rightarrow> 'v \<Rightarrow> ('k, 'v) jsmap \<Rightarrow> ('k, 'v) jsmap" where
  "jm_set k v m \<equiv> AList.update k v m"

definition jm_has :: "('k, 'v) jsmap \<Rightarrow> 'k \<Rightarrow> bool" where
  "jm_has m k \<longleftrightarrow> k \<in> fst ` set m"

definition jm_keys_distinct :: "('k, 'v) jsmap \<Rightarrow> bool" where
  "jm_keys_distinct m \<longleftrightarrow> distinct (map fst m)"

lemma jm_get_set [simp]: "jm_get (jm_set k v m) k' = (if k' = k then Some v else jm_get m k')"
  by (simp add: update_conv')

lemma jm_has_iff: "jm_has m k \<longleftrightarrow> jm_get m k \<noteq> None"
  by (auto simp: jm_has_def map_of_eq_None_iff)

lemma jm_set_keys_distinct [intro]: "jm_keys_distinct m \<Longrightarrow> jm_keys_distinct (jm_set k v m)"
  by (simp add: jm_keys_distinct_def distinct_update)

lemma jm_keys_distinct_Nil [simp]: "jm_keys_distinct []"
  by (simp add: jm_keys_distinct_def)

lemma jm_keys_set: "fst ` set (jm_set k v m) = insert k (fst ` set m)"
  by (induction m) auto

section \<open>Failing computations\<close>

definition res_bind :: "'e + 'a \<Rightarrow> ('a \<Rightarrow> 'e + 'b) \<Rightarrow> 'e + 'b" where
  "res_bind r f = (case r of Inl e \<Rightarrow> Inl e | Inr x \<Rightarrow> f x)"

lemma res_bind_simps [simp]:
  "res_bind (Inl e) f = Inl e"
  "res_bind (Inr x) f = f x"
  by (simp_all add: res_bind_def)

lemma res_bind_Inr_iff: "res_bind r f = Inr y \<longleftrightarrow> (\<exists>x. r = Inr x \<and> f x = Inr y)"
  by (cases r) auto

lemma res_bind_Inl_iff:
  "res_bind r f = Inl e \<longleftrightarrow> r = Inl e \<or> (\<exists>x. r = Inr x \<and> f x = Inl e)"
  by (cases r) auto

lemma res_bind_cong [fundef_cong]:
  "r = r' \<Longrightarrow> (\<And>x. r' = Inr x \<Longrightarrow> f x = g x) \<Longrightarrow> res_bind r f = res_bind r' g"
  by (cases r') auto

fun res_map :: "('a \<Rightarrow> 'e + 'b) \<Rightarrow> 'a list \<Rightarrow> 'e + 'b list" where
  "res_map f [] = Inr []"
| "res_map f (x # xs) = res_bind (f x) (\<lambda>y. res_bind (res_map f xs) (\<lambda>ys. Inr (y # ys)))"

text \<open>A loop over a list whose body may fail.\<close>

fun res_fold :: "('a \<Rightarrow> 's \<Rightarrow> 'e + 's) \<Rightarrow> 'a list \<Rightarrow> 's \<Rightarrow> 'e + 's" where
  "res_fold f [] st = Inr st"
| "res_fold f (x # xs) st = res_bind (f x st) (res_fold f xs)"

lemma res_map_length: "res_map f xs = Inr ys \<Longrightarrow> length ys = length xs"
  by (induction xs arbitrary: ys) (auto simp: res_bind_Inr_iff)

lemma res_map_cong [fundef_cong]:
  "xs = ys \<Longrightarrow> (\<And>x. x \<in> set ys \<Longrightarrow> f x = g x) \<Longrightarrow> res_map f xs = res_map g ys"
  by (induction ys arbitrary: xs) auto

section \<open>Strings\<close>

definition is_digit :: "char \<Rightarrow> bool" where
  "is_digit c \<longleftrightarrow> CHR ''0'' \<le> c \<and> c \<le> CHR ''9''"

definition digit_val :: "char \<Rightarrow> nat" where
  "digit_val c = of_char c - 48"

text \<open>White space as \<open>String.prototype.trim\<close> and the \<open>\s\<close> class see it, on ASCII.\<close>

definition is_js_space :: "char \<Rightarrow> bool" where
  "is_js_space c \<longleftrightarrow> c \<in> {CHR 0x20, CHR 0x09, CHR 0x0A, CHR 0x0B, CHR 0x0C, CHR 0x0D}"

definition trim :: "string \<Rightarrow> string" where
  "trim s = rev (dropWhile is_js_space (rev (dropWhile is_js_space s)))"

definition starts_with :: "string \<Rightarrow> string \<Rightarrow> bool" where
  "starts_with p s \<longleftrightarrow> take (length p) s = p"

text \<open>Letters and \<open>toLowerCase\<close>, on ASCII.\<close>

definition is_lower :: "char \<Rightarrow> bool" where
  "is_lower c \<longleftrightarrow> CHR ''a'' \<le> c \<and> c \<le> CHR ''z''"

definition is_upper :: "char \<Rightarrow> bool" where
  "is_upper c \<longleftrightarrow> CHR ''A'' \<le> c \<and> c \<le> CHR ''Z''"

definition to_lower :: "char \<Rightarrow> char" where
  "to_lower c = (if is_upper c then char_of (of_char c + 32 :: nat) else c)"

text \<open>The value of a string of decimal digits (\<open>Number.parseInt(s, 10)\<close>, \<open>BigInt(s)\<close>).\<close>

definition parse_nat :: "string \<Rightarrow> nat" where
  "parse_nat s = foldl (\<lambda>n c. 10 * n + digit_val c) 0 s"

definition all_digits :: "string \<Rightarrow> bool" where
  "all_digits s \<longleftrightarrow> s \<noteq> [] \<and> list_all is_digit s"

text \<open>The decimal numeral of an integer (\<open>toString\<close>, template literals).\<close>

definition digit_char :: "nat \<Rightarrow> char" where
  "digit_char d = char_of (48 + d)"

fun nat_str :: "nat \<Rightarrow> string" where
  "nat_str n = (if n < 10 then [digit_char n] else nat_str (n div 10) @ [digit_char (n mod 10)])"

declare nat_str.simps [simp del]

definition int_str :: "int \<Rightarrow> string" where
  "int_str i = (if i < 0 then CHR ''-'' # nat_str (nat (- i)) else nat_str (nat i))"

lemma digit_val_char [simp]: "d < 10 \<Longrightarrow> digit_val (digit_char d) = d"
  by (simp add: digit_val_def digit_char_def)

lemma is_digit_char [simp]: "d < 10 \<Longrightarrow> is_digit (digit_char d)"
  by (simp add: is_digit_def digit_char_def less_eq_char_def)

lemma parse_nat_snoc [simp]: "parse_nat (s @ [c]) = 10 * parse_nat s + digit_val c"
  by (simp add: parse_nat_def)

lemma parse_nat_str [simp]: "parse_nat (nat_str n) = n"
proof (induction n rule: nat_str.induct)
  case (1 n)
  show ?case
  proof (cases "n < 10")
    case True
    then show ?thesis by (subst nat_str.simps) (simp add: parse_nat_def)
  next
    case False
    with 1 show ?thesis by (subst nat_str.simps) simp
  qed
qed

lemma nat_str_digits: "nat_str n \<noteq> [] \<and> list_all is_digit (nat_str n)"
proof (induction n rule: nat_str.induct)
  case (1 n)
  then show ?case by (subst (1 2) nat_str.simps) auto
qed

lemma nat_str_inj [simp]: "nat_str m = nat_str n \<longleftrightarrow> m = n"
  by (metis parse_nat_str)

lemma not_digit_minus [simp]: "\<not> is_digit CHR ''-''"
  by (simp add: is_digit_def less_eq_char_def)

lemma nat_str_not_minus [simp]: "nat_str n \<noteq> CHR ''-'' # s"
  using nat_str_digits [of n] by auto

lemma int_str_inj [simp]: "int_str i = int_str j \<longleftrightarrow> i = j"
  using nat_str_not_minus nat_str_not_minus [symmetric]
  by (auto simp: int_str_def split: if_splits)

text \<open>\<open>s.split(c)\<close> for a one-character separator.\<close>

fun split_on :: "char \<Rightarrow> string \<Rightarrow> string list" where
  "split_on c [] = [[]]"
| "split_on c (x # xs) =
     (if x = c then [] # split_on c xs
      else case split_on c xs of [] \<Rightarrow> [[x]] | p # ps \<Rightarrow> (x # p) # ps)"

text \<open>\<open>s.indexOf(c)\<close> with the two slices around it; \<open>None\<close> where the character is absent.\<close>

definition split_first :: "char \<Rightarrow> string \<Rightarrow> (string \<times> string) option" where
  "split_first c s =
     (case dropWhile (\<lambda>x. x \<noteq> c) s of
        [] \<Rightarrow> None
      | _ # r \<Rightarrow> Some (takeWhile (\<lambda>x. x \<noteq> c) s, r))"

lemma split_first_Some_iff:
  "split_first c s = Some (a, b) \<longleftrightarrow> s = a @ c # b \<and> c \<notin> set a"
proof
  assume "split_first c s = Some (a, b)"
  then obtain x where d: "dropWhile (\<lambda>x. x \<noteq> c) s = x # b" and a: "a = takeWhile (\<lambda>x. x \<noteq> c) s"
    by (auto simp: split_first_def split: list.splits)
  from d have "x = c" by (metis (mono_tags, lifting) dropWhile_eq_Cons_conv)
  with a d show "s = a @ c # b \<and> c \<notin> set a"
    by (metis (mono_tags, lifting) set_takeWhileD takeWhile_dropWhile_id)
next
  assume "s = a @ c # b \<and> c \<notin> set a"
  then show "split_first c s = Some (a, b)"
    by (auto simp: split_first_def takeWhile_append dropWhile_append split: list.splits)
qed

lemma split_first_None_iff: "split_first c s = None \<longleftrightarrow> c \<notin> set s"
proof
  assume "split_first c s = None"
  then have "dropWhile (\<lambda>x. x \<noteq> c) s = []" by (auto simp: split_first_def split: list.splits)
  then show "c \<notin> set s" by (auto simp: dropWhile_eq_Nil_conv)
next
  assume "c \<notin> set s"
  then have "dropWhile (\<lambda>x. x \<noteq> c) s = []" by (auto simp: dropWhile_eq_Nil_conv)
  then show "split_first c s = None" by (simp only: split_first_def list.case)
qed

lemma split_on_nonempty [simp]: "split_on c s \<noteq> []"
  by (cases s) (auto split: list.splits)

lemma split_on_append: "split_on c (a @ c # b) = split_on c a @ split_on c b"
  by (induction a) (auto split: list.splits)

lemma split_on_single: "c \<notin> set a \<Longrightarrow> split_on c a = [a]"
  by (induction a) auto

lemma split_on_inj: "split_on c a = split_on c b \<Longrightarrow> a = b"
proof (induction a arbitrary: b)
  case Nil
  then show ?case by (cases b) (auto split: list.splits if_splits)
next
  case (Cons x a)
  show ?case
  proof (cases b)
    case Nil
    with Cons.prems show ?thesis by (auto split: list.splits if_splits)
  next
    case (Cons y b')
    with Cons.prems Cons.IH [of b'] show ?thesis
      by (cases "split_on c a"; cases "split_on c b'") (auto split: if_splits)
  qed
qed

lemma starts_with_iff: "starts_with p s \<longleftrightarrow> (\<exists>r. s = p @ r)"
  by (metis append_eq_conv_conj starts_with_def)

section \<open>Searching\<close>

lemma find_distinct:
  "distinct (map f xs) \<Longrightarrow> x \<in> set xs \<Longrightarrow> f x = k \<Longrightarrow> find (\<lambda>y. f y = k) xs = Some x"
  by (induction xs) (auto simp: image_iff)

lemma takeWhile_sep: "c \<notin> set s \<Longrightarrow> takeWhile (\<lambda>x. x \<noteq> c) (s @ c # r) = s"
  by (induction s) auto

lemma find_mem: "find P xs = Some x \<Longrightarrow> x \<in> set xs \<and> P x"
  by (auto simp: find_Some_iff)

section \<open>Grouping\<close>

text \<open>
  The idiom \<open>const list = m.get(k) ?? []; list.push(x); m.set(k, list)\<close> over a list.
\<close>

definition push_group :: "('a \<Rightarrow> 'k) \<Rightarrow> 'a \<Rightarrow> ('k, 'a list) jsmap \<Rightarrow> ('k, 'a list) jsmap" where
  "push_group f x m = jm_set (f x) ((case jm_get m (f x) of None \<Rightarrow> [] | Some l \<Rightarrow> l) @ [x]) m"

definition group_by :: "('a \<Rightarrow> 'k) \<Rightarrow> 'a list \<Rightarrow> ('k, 'a list) jsmap" where
  "group_by f xs = fold (push_group f) xs []"

lemma group_by_fold:
  "jm_get (fold (push_group f) xs m) k =
     (let g = filter (\<lambda>x. f x = k) xs in
      case jm_get m k of None \<Rightarrow> (if g = [] then None else Some g) | Some l \<Rightarrow> Some (l @ g))"
  by (induction xs arbitrary: m) (auto simp: push_group_def Let_def split: option.splits)

lemma jm_get_group_by:
  "jm_get (group_by f xs) k =
     (if filter (\<lambda>x. f x = k) xs = [] then None else Some (filter (\<lambda>x. f x = k) xs))"
  by (simp add: group_by_def group_by_fold Let_def)

lemma group_by_keys_distinct: "jm_keys_distinct (group_by f xs)"
proof -
  have "jm_keys_distinct m \<Longrightarrow> jm_keys_distinct (fold (push_group f) xs m)" for m
    by (induction xs arbitrary: m) (auto simp: push_group_def)
  then show ?thesis by (simp add: group_by_def)
qed

lemma group_by_mem:
  assumes "(k, g) \<in> set (group_by f xs)"
  shows "g = filter (\<lambda>x. f x = k) xs \<and> g \<noteq> []"
proof -
  have "distinct (map fst (group_by f xs))"
    using group_by_keys_distinct [of f xs] by (simp add: jm_keys_distinct_def)
  with assms have "jm_get (group_by f xs) k = Some g" by simp
  then show ?thesis by (simp add: jm_get_group_by split: if_splits)
qed

lemma group_by_covers:
  assumes "x \<in> set xs"
  shows "(f x, filter (\<lambda>y. f y = f x) xs) \<in> set (group_by f xs)"
proof -
  have "filter (\<lambda>y. f y = f x) xs \<noteq> []" using assms by (auto simp: filter_empty_conv)
  then have "jm_get (group_by f xs) (f x) = Some (filter (\<lambda>y. f y = f x) xs)"
    by (simp add: jm_get_group_by)
  then show ?thesis by (rule map_of_SomeD)
qed

section \<open>Interface: a projection folded from a log\<close>

text \<open>
  A projection keeps one row per key.  Its provider promises that applying an event touches the
  event's own key only, that the new row depends on the old row of that key only, and that keys
  stay distinct.  Then the row of a key is determined by the events of that key alone.
\<close>

locale keyed_projection =
  fixes key :: "'e \<Rightarrow> 'k option"
    and app :: "'e \<Rightarrow> ('k, 'v) jsmap \<Rightarrow> ('k, 'v) jsmap"
  assumes app_frame: "key e \<noteq> Some k \<Longrightarrow> jm_get (app e m) k = jm_get m k"
    and app_local: "jm_get m k = jm_get m' k \<Longrightarrow> jm_get (app e m) k = jm_get (app e m') k"
    and app_distinct: "jm_keys_distinct m \<Longrightarrow> jm_keys_distinct (app e m)"
begin

lemma fold_local:
  "jm_get m k = jm_get m' k \<Longrightarrow> jm_get (fold app es m) k = jm_get (fold app es m') k"
proof (induction es arbitrary: m m')
  case Nil
  then show ?case by simp
next
  case (Cons e es)
  from Cons.prems have "jm_get (app e m) k = jm_get (app e m') k" by (rule app_local)
  from Cons.IH [OF this] show ?case by simp
qed

lemma fold_own_events:
  "jm_get (fold app es m) k = jm_get (fold app (filter (\<lambda>e. key e = Some k) es) m) k"
proof (induction es arbitrary: m)
  case Nil
  then show ?case by simp
next
  case (Cons e es)
  show ?case
  proof (cases "key e = Some k")
    case True
    with Cons.IH [of "app e m"] show ?thesis by simp
  next
    case False
    have "jm_get (fold app es (app e m)) k = jm_get (fold app es m) k"
      by (rule fold_local) (rule app_frame [OF False])
    with False Cons.IH [of m] show ?thesis by simp
  qed
qed

lemma fold_untouched:
  assumes "\<forall>e \<in> set es. key e \<noteq> Some k"
  shows "jm_get (fold app es m) k = jm_get m k"
proof -
  from assms have "filter (\<lambda>e. key e = Some k) es = []" by (simp add: filter_empty_conv)
  with fold_own_events [of es m k] show ?thesis by simp
qed

lemma fold_distinct: "jm_keys_distinct m \<Longrightarrow> jm_keys_distinct (fold app es m)"
  by (induction es arbitrary: m) (simp_all add: app_distinct)

text \<open>Interleaving: moving an event of another key past the events of \<open>k\<close> changes nothing.\<close>

lemma fold_interleave:
  assumes "filter (\<lambda>e. key e = Some k) es = filter (\<lambda>e. key e = Some k) es'"
  shows "jm_get (fold app es m) k = jm_get (fold app es' m) k"
  using fold_own_events [of es m k] fold_own_events [of es' m k] assms by simp

end

section \<open>Interface: at-most-once claims\<close>

fun claim_run :: "('s \<Rightarrow> 'k \<Rightarrow> bool \<times> 's) \<Rightarrow> 's \<Rightarrow> 'k list \<Rightarrow> 'k list \<times> 's" where
  "claim_run claim s [] = ([], s)"
| "claim_run claim s (k # ks) =
     (case claim s k of (won, s') \<Rightarrow>
        (case claim_run claim s' ks of (ws, s'') \<Rightarrow> ((if won then k # ws else ws), s'')))"

locale claim_registry =
  fixes claim :: "'s \<Rightarrow> 'k \<Rightarrow> bool \<times> 's"
    and claimed :: "'s \<Rightarrow> 'k \<Rightarrow> bool"
    and ok_state :: "'s \<Rightarrow> bool"
    and ok_key :: "'k \<Rightarrow> bool"
  assumes claim_won: "ok_state s \<Longrightarrow> ok_key k \<Longrightarrow> fst (claim s k) \<longleftrightarrow> \<not> claimed s k"
    and claim_claims: "ok_state s \<Longrightarrow> ok_key k \<Longrightarrow>
      claimed (snd (claim s k)) k' \<longleftrightarrow> k' = k \<or> claimed s k'"
    and claim_ok: "ok_state s \<Longrightarrow> ok_key k \<Longrightarrow> ok_state (snd (claim s k))"
begin

lemma claim_run_claimed:
  "ok_state s \<Longrightarrow> \<forall>k \<in> set ks. ok_key k \<Longrightarrow>
   claimed (snd (claim_run claim s ks)) k \<longleftrightarrow> k \<in> set ks \<or> claimed s k"
proof (induction ks arbitrary: s)
  case Nil
  then show ?case by simp
next
  case (Cons x ks)
  have "ok_state (snd (claim s x))" using Cons.prems by (intro claim_ok) simp_all
  from Cons.IH [OF this] Cons.prems show ?case
    by (auto simp: claim_claims split: prod.split)
qed

lemma claim_run_winners:
  "ok_state s \<Longrightarrow> \<forall>k \<in> set ks. ok_key k \<Longrightarrow>
   set (fst (claim_run claim s ks)) = {k \<in> set ks. \<not> claimed s k}
   \<and> distinct (fst (claim_run claim s ks))"
proof (induction ks arbitrary: s)
  case Nil
  then show ?case by simp
next
  case (Cons x ks)
  obtain won s' where c: "claim s x = (won, s')" by fastforce
  with Cons.prems have won: "won \<longleftrightarrow> \<not> claimed s x"
    and cl: "\<And>k. claimed s' k \<longleftrightarrow> k = x \<or> claimed s k" and ok: "ok_state s'"
    using claim_won [of s x] claim_claims [of s x] claim_ok [of s x] by simp_all
  obtain ws s'' where r: "claim_run claim s' ks = (ws, s'')" by fastforce
  with Cons.IH [OF ok] Cons.prems
  have "set ws = {k \<in> set ks. \<not> claimed s' k}" "distinct ws" by simp_all
  with c r won cl show ?case by auto
qed

end

end
