(* ===== verification/JsValue.thy ===== *)
theory JsValue
  imports Prelude Complex_Main
begin

text \<open>
  Values of the JavaScript runtime that the source stores and inspects without a static type
  (\<open>unknown\<close>, \<open>Record<string, unknown>\<close>): a datatype with the cases of \<open>typeof\<close> that occur,
  property access with the inherited names of \<open>Object.prototype\<close> and \<open>Array.prototype\<close>, and
  the round trip through \<open>JSON.stringify\<close> and \<open>JSON.parse\<close> that a payload makes on its way
  into a TEXT column and back.  Numbers are the finite ones, as rationals; \<open>NaN\<close> and the
  infinities are left out.  The accessor \<open>__proto__\<close> is left out too.
\<close>

datatype jsval =
    JUndefined
  | JNull
  | JBool bool
  | JNum rat
  | JBig int
  | JStr string
  | JArr "jsval list"
  | JObj "(string \<times> jsval) list"
  | JFun

section \<open>Property access\<close>

definition object_prototype_methods :: "string list" where
  "object_prototype_methods =
     [''constructor'', ''hasOwnProperty'', ''isPrototypeOf'', ''propertyIsEnumerable'',
      ''toLocaleString'', ''toString'', ''valueOf'', ''__defineGetter__'', ''__defineSetter__'',
      ''__lookupGetter__'', ''__lookupSetter__'']"

definition array_prototype_methods :: "string list" where
  "array_prototype_methods =
     [''at'', ''concat'', ''copyWithin'', ''entries'', ''every'', ''fill'', ''filter'', ''find'',
      ''findIndex'', ''findLast'', ''findLastIndex'', ''flat'', ''flatMap'', ''forEach'',
      ''includes'', ''indexOf'', ''join'', ''keys'', ''lastIndexOf'', ''map'', ''pop'', ''push'',
      ''reduce'', ''reduceRight'', ''reverse'', ''shift'', ''slice'', ''some'', ''sort'',
      ''splice'', ''toReversed'', ''toSorted'', ''toSpliced'', ''unshift'', ''values'', ''with'']"

text \<open>A canonical array index: decimal digits without a leading zero.\<close>

definition array_index :: "string \<Rightarrow> nat option" where
  "array_index s =
     (if all_digits s \<and> (s = ''0'' \<or> hd s \<noteq> CHR ''0'') then Some (parse_nat s) else None)"

text \<open>\<open>prop_get v p\<close> is \<open>None\<close> where \<open>p in v\<close> is false, \<open>Some\<close> of \<open>v[p]\<close> otherwise.\<close>

fun prop_get :: "jsval \<Rightarrow> string \<Rightarrow> jsval option" where
  "prop_get (JObj fs) p =
     (case map_of fs p of
        Some v \<Rightarrow> Some v
      | None \<Rightarrow> if p \<in> set object_prototype_methods then Some JFun else None)"
| "prop_get (JArr xs) p =
     (case array_index p of
        Some i \<Rightarrow> if i < length xs then Some (xs ! i) else None
      | None \<Rightarrow>
          if p = ''length'' then Some (JNum (of_nat (length xs)))
          else if p \<in> set array_prototype_methods \<or> p \<in> set object_prototype_methods
          then Some JFun else None)"
| "prop_get _ p = None"

text \<open>\<open>v !== null && typeof v === "object"\<close>; a function is not of type object.\<close>

fun is_object :: "jsval \<Rightarrow> bool" where
  "is_object (JObj fs) = True"
| "is_object (JArr xs) = True"
| "is_object _ = False"

section \<open>The JSON round trip of a stored payload\<close>

text \<open>
  \<open>JSON.parse(JSON.stringify(v))\<close>.  A bigint makes \<open>stringify\<close> throw (\<open>None\<close>); a field whose
  value is \<open>undefined\<close> or a function is dropped; such an array element becomes \<open>null\<close>.
\<close>

definition json_absent :: "jsval \<Rightarrow> bool" where
  "json_absent v \<longleftrightarrow> v = JUndefined \<or> v = JFun"

fun json_rt :: "jsval \<Rightarrow> jsval option"
  and json_rt_list :: "jsval list \<Rightarrow> jsval list option"
  and json_rt_fields :: "(string \<times> jsval) list \<Rightarrow> (string \<times> jsval) list option"
where
  "json_rt JUndefined = Some JNull"
| "json_rt JFun = Some JNull"
| "json_rt JNull = Some JNull"
| "json_rt (JBool b) = Some (JBool b)"
| "json_rt (JNum q) = Some (JNum q)"
| "json_rt (JBig i) = None"
| "json_rt (JStr s) = Some (JStr s)"
| "json_rt (JArr xs) = map_option JArr (json_rt_list xs)"
| "json_rt (JObj fs) = map_option JObj (json_rt_fields fs)"
| "json_rt_list [] = Some []"
| "json_rt_list (x # xs) =
     (case json_rt x of
        None \<Rightarrow> None
      | Some y \<Rightarrow> map_option (\<lambda>ys. y # ys) (json_rt_list xs))"
| "json_rt_fields [] = Some []"
| "json_rt_fields ((k, v) # fs) =
     (if json_absent v then json_rt_fields fs
      else case json_rt v of
        None \<Rightarrow> None
      | Some w \<Rightarrow> map_option (\<lambda>ws. (k, w) # ws) (json_rt_fields fs))"

text \<open>
  What comes back from the store is a fixed point of the round trip: storing it again changes
  nothing.
\<close>

lemma json_rt_not_absent: "json_rt v = Some w \<Longrightarrow> \<not> json_absent w"
  by (cases v) (auto simp: json_absent_def)

lemma json_rt_idem:
  "json_rt v = Some w \<Longrightarrow> json_rt w = Some w"
  "json_rt_list xs = Some ys \<Longrightarrow> json_rt_list ys = Some ys"
  "json_rt_fields fs = Some gs \<Longrightarrow> json_rt_fields gs = Some gs"
proof (induction v and xs and fs arbitrary: w and ys and gs
    rule: json_rt_json_rt_list_json_rt_fields.induct)
  case (13 k v fs)
  show ?case
  proof (cases "json_absent v")
    case True
    with 13 show ?thesis by simp
  next
    case False
    with "13.prems" obtain u us where "json_rt v = Some u" "json_rt_fields fs = Some us"
      "gs = (k, u) # us"
      by (auto split: option.splits)
    with False "13.IH" json_rt_not_absent [of v u] show ?thesis by simp
  qed
qed (auto split: option.splits)

end
