(* ===== verification/Event.thy ===== *)
theory Event
  imports JsValue
begin

text \<open>
  The canonical event envelope (\<open>platform/event-store/types.ts\<close>) and its provenance tag
  (\<open>platform/event-store/provenance.ts\<close>): the data, the schema checks that run at append, and
  the category-driven default tag.  The category table of \<open>provenance-category.ts\<close>, the
  payload schemas of the event-type registry and the UUID test of the schema library are
  parameters, the fields of \<open>store_config\<close>.
\<close>

datatype actor_type = ActorSystem | ActorHuman | ActorService

record actor =
  actor_kind :: actor_type
  actor_id :: string

datatype provenance_kind = Production | Simulated | BuildPhaseFixture

record provenance_tag =
  pt_kind :: provenance_kind
  pt_scenario :: "string option"
  pt_variant :: "string option"
  pt_sourceLineage :: string
  pt_tags :: "string list option"

record event =
  event_id :: string
  ev_type :: string
  as_of :: string
  entity :: string
  ev_actor :: actor
  citations :: "string list"
  payload :: "(string \<times> jsval) list"
  provenance :: "provenance_tag option"
  aggregateId :: "string option"
  aggregateLabel :: "string option"

record store_config =
  cfg_validatePayload :: "string \<Rightarrow> (string \<times> jsval) list \<Rightarrow> bool"
  cfg_categoryForEventType :: "string \<Rightarrow> string option"
  cfg_categoryPolicy :: "string \<Rightarrow> provenance_kind"
  cfg_substrateActive :: bool
  cfg_isUuid :: "string \<Rightarrow> bool"

section \<open>Schemas\<close>

definition non_empty_opt :: "string option \<Rightarrow> bool" where
  "non_empty_opt x = (case x of None \<Rightarrow> True | Some s \<Rightarrow> s \<noteq> [])"

definition provenanceTagSchema :: "provenance_tag \<Rightarrow> bool" where
  "provenanceTagSchema tag \<longleftrightarrow>
     non_empty_opt (pt_scenario tag) \<and> non_empty_opt (pt_variant tag) \<and>
     pt_sourceLineage tag \<noteq> [] \<and>
     (case pt_tags tag of None \<Rightarrow> True | Some ts \<Rightarrow> list_all (\<lambda>t. t \<noteq> []) ts) \<and>
     \<not> (pt_kind tag = Production \<and> pt_scenario tag \<noteq> None) \<and>
     \<not> (pt_kind tag = Simulated \<and> pt_scenario tag = None) \<and>
     \<not> (pt_kind tag = BuildPhaseFixture \<and> pt_scenario tag \<noteq> None)"

definition actorSchema :: "actor \<Rightarrow> bool" where
  "actorSchema a \<longleftrightarrow> actor_id a \<noteq> []"

definition eventSchema :: "store_config \<Rightarrow> event \<Rightarrow> bool" where
  "eventSchema cfg e \<longleftrightarrow>
     event_id e \<noteq> [] \<and> ev_type e \<noteq> [] \<and> as_of e \<noteq> [] \<and> entity e \<noteq> [] \<and>
     actorSchema (ev_actor e) \<and>
     list_all (\<lambda>c. c \<noteq> []) (citations e) \<and> citations e \<noteq> [] \<and>
     (case provenance e of None \<Rightarrow> True | Some t \<Rightarrow> provenanceTagSchema t) \<and>
     (case aggregateId e of None \<Rightarrow> True | Some u \<Rightarrow> cfg_isUuid cfg u) \<and>
     non_empty_opt (aggregateLabel e)"

section \<open>Default provenance\<close>

definition PRODUCTION_CARVE_OUTS :: "string \<Rightarrow> provenance_tag option" where
  "PRODUCTION_CARVE_OUTS t = map_option
     (\<lambda>l. \<lparr>pt_kind = Production, pt_scenario = None, pt_variant = None,
            pt_sourceLineage = l, pt_tags = None\<rparr>)
     (map_of [(''CeoDecision'', ''ceo-decision-record''), (''AgentBriefIssued'', ''agent-brief''),
              (''Decision'', ''decision-record'')] t)"

definition PRE_SUBSTRATE_BACKFILL_TAG :: provenance_tag where
  "PRE_SUBSTRATE_BACKFILL_TAG =
     \<lparr>pt_kind = Simulated, pt_scenario = Some ''pre-substrate-build-phase'', pt_variant = None,
      pt_sourceLineage = ''pre-substrate-backfill'', pt_tags = None\<rparr>"

definition defaultProvenanceFor :: "store_config \<Rightarrow> string \<Rightarrow> provenance_tag" where
  "defaultProvenanceFor cfg t =
     (case cfg_categoryForEventType cfg t of
        Some (c # cs) \<Rightarrow>
          (if cfg_categoryPolicy cfg (c # cs) = Production
           then (case PRODUCTION_CARVE_OUTS t of
                   Some tag \<Rightarrow> tag
                 | None \<Rightarrow> \<lparr>pt_kind = Production, pt_scenario = None, pt_variant = None,
                            pt_sourceLineage = ''category:'' @ c # cs, pt_tags = None\<rparr>)
           else PRE_SUBSTRATE_BACKFILL_TAG)
      | _ \<Rightarrow> PRE_SUBSTRATE_BACKFILL_TAG)"

text \<open>The default is always a well-formed tag.\<close>

lemma defaultProvenanceFor_schema: "provenanceTagSchema (defaultProvenanceFor cfg t)"
  by (auto simp: defaultProvenanceFor_def provenanceTagSchema_def PRE_SUBSTRATE_BACKFILL_TAG_def
      PRODUCTION_CARVE_OUTS_def non_empty_opt_def split: option.splits list.splits if_splits)

lemma defaultProvenanceFor_backfill_iff:
  "pt_sourceLineage (defaultProvenanceFor cfg t) = ''pre-substrate-backfill'' \<longleftrightarrow>
   defaultProvenanceFor cfg t = PRE_SUBSTRATE_BACKFILL_TAG"
  by (auto simp: defaultProvenanceFor_def PRE_SUBSTRATE_BACKFILL_TAG_def
      PRODUCTION_CARVE_OUTS_def split: option.splits list.splits if_splits)

section \<open>Cross references\<close>

definition checkCrossReference :: "provenance_tag \<Rightarrow> provenance_tag \<Rightarrow> bool" where
  "checkCrossReference source target =
     (if pt_kind source = Production \<and> pt_kind target = Simulated then False
      else if pt_kind source = BuildPhaseFixture \<and> pt_kind target = Simulated then False
      else True)"

text \<open>\<open>deepProvenanceEqual\<close> of \<open>store.ts\<close>: absent and \<open>null\<close> agree, absent tags are the empty list.\<close>

definition tag_list :: "provenance_tag \<Rightarrow> string list" where
  "tag_list t = (case pt_tags t of None \<Rightarrow> [] | Some ts \<Rightarrow> ts)"

definition deepProvenanceEqual :: "provenance_tag \<Rightarrow> provenance_tag \<Rightarrow> bool" where
  "deepProvenanceEqual a b \<longleftrightarrow>
     pt_kind a = pt_kind b \<and> pt_scenario a = pt_scenario b \<and> pt_variant a = pt_variant b \<and>
     pt_sourceLineage a = pt_sourceLineage b \<and>
     length (tag_list a) = length (tag_list b) \<and>
     list_all (\<lambda>i. tag_list a ! i = tag_list b ! i) [0..<length (tag_list a)]"

lemma pointwise_eq_iff:
  "length xs = length ys \<and> list_all (\<lambda>i. xs ! i = ys ! i) [0..<length xs] \<longleftrightarrow> xs = ys"
  by (auto simp: list_all_iff intro: nth_equalityI)

lemma deepProvenanceEqual_iff:
  "deepProvenanceEqual a b \<longleftrightarrow>
     pt_kind a = pt_kind b \<and> pt_scenario a = pt_scenario b \<and> pt_variant a = pt_variant b \<and>
     pt_sourceLineage a = pt_sourceLineage b \<and> tag_list a = tag_list b"
  unfolding deepProvenanceEqual_def by (simp only: pointwise_eq_iff)

end
