(* ===== verification/EventStore.thy ===== *)
theory EventStore
  imports Event
begin

text \<open>
  The append-only event store (\<open>platform/event-store/store.ts\<close>).  The state is the content of
  the SQLite tables the class opens: \<open>events\<close> with its AUTOINCREMENT counter, \<open>snapshots\<close> with
  its counter, \<open>recon_cursors\<close>, \<open>bus_dispatch_claims\<close> and \<open>archive_partitions\<close>.  Each SQL
  statement of the class is a list operation: \<open>WHERE\<close> a filter, \<open>ORDER BY\<close> a sort, a UNIQUE
  violation an error value that leaves the tables alone.  Times (\<open>datetime('now')\<close>) are
  arguments.  The file half of archival is in \<open>EventArchive\<close>.
\<close>

record row =
  sequence :: nat
  r_event_id :: string
  r_type :: string
  r_as_of :: string
  r_entity :: string
  r_actor_type :: actor_type
  r_actor_id :: string
  r_citations :: "string list"
  r_payload :: "(string \<times> jsval) list"
  r_recorded_at :: string
  r_provenance :: "provenance_tag option"
  r_aggregate_id :: "string option"
  r_aggregate_label :: "string option"

record snapshot_row =
  snap_id :: nat
  streamKey :: string
  snap_asOf :: string
  uptoSequence :: int
  snap_payload :: string
  snap_recordedAt :: string

record partition_row =
  partition_id :: string
  path :: string
  min_sequence :: nat
  max_sequence :: nat
  event_count :: nat
  sha256_hash :: string

record event_store =
  es_rows :: "row list"
  es_autoinc :: nat
  es_snapshots :: "snapshot_row list"
  es_snap_autoinc :: nat
  es_cursors :: "(string, int) jsmap"
  es_claims :: "(string \<times> string) list"
  es_partitions :: "partition_row list"
  es_readonly :: bool

datatype store_error =
    SchemaError
  | PayloadSchemaError
  | ProvenanceRejected
  | StringifyError
  | ReadonlyDatabase
  | UniqueViolation
  | ArgumentRequired
  | InvalidArgument
  | ArchiveExists
  | NothingToArchive
  | IntegrityMismatch
  | MissingEventIds
  | IoError
  | ArchiveFileMissing
  | NotADatabase

definition empty_store :: event_store where
  "empty_store = \<lparr>es_rows = [], es_autoinc = 0, es_snapshots = [], es_snap_autoinc = 0,
     es_cursors = [], es_claims = [], es_partitions = [], es_readonly = False\<rparr>"

section \<open>Append\<close>

definition resolveProvenanceForAppend ::
    "store_config \<Rightarrow> event \<Rightarrow> store_error + provenance_tag option" where
  "resolveProvenanceForAppend cfg e =
     (case provenance e of
        Some t \<Rightarrow> if provenanceTagSchema t then Inr (Some t) else Inl SchemaError
      | None \<Rightarrow>
          if \<not> cfg_substrateActive cfg then Inr None
          else (let carveOut = defaultProvenanceFor cfg (ev_type e) in
                if pt_sourceLineage carveOut = ''pre-substrate-backfill'' then Inl ProvenanceRejected
                else Inr (Some carveOut)))"

definition insert_event :: "event_store \<Rightarrow> (nat \<Rightarrow> row) \<Rightarrow> store_error + event_store" where
  "insert_event s mk =
     (let r = mk (Suc (es_autoinc s)) in
      if es_readonly s then Inl ReadonlyDatabase
      else if r_event_id r \<in> r_event_id ` set (es_rows s) then Inl UniqueViolation
      else Inr (s\<lparr>es_rows := es_rows s @ [r], es_autoinc := Suc (es_autoinc s)\<rparr>))"

definition append :: "store_config \<Rightarrow> string \<Rightarrow> event_store \<Rightarrow> event \<Rightarrow> store_error + event_store" where
  "append cfg now s raw =
     (if \<not> eventSchema cfg raw then Inl SchemaError
      else if \<not> cfg_validatePayload cfg (ev_type raw) (payload raw) then Inl PayloadSchemaError
      else res_bind (resolveProvenanceForAppend cfg raw) (\<lambda>prov.
        case json_rt_fields (payload raw) of
          None \<Rightarrow> Inl StringifyError
        | Some stored \<Rightarrow>
            insert_event s (\<lambda>n. \<lparr>sequence = n, r_event_id = event_id raw, r_type = ev_type raw,
              r_as_of = as_of raw, r_entity = entity raw,
              r_actor_type = actor_kind (ev_actor raw), r_actor_id = actor_id (ev_actor raw),
              r_citations = citations raw, r_payload = stored, r_recorded_at = now,
              r_provenance = prov, r_aggregate_id = aggregateId raw,
              r_aggregate_label = aggregateLabel raw\<rparr>)))"

text \<open>The batch runs in one transaction: an error rolls every insert back.\<close>

fun append_batch ::
    "store_config \<Rightarrow> string \<Rightarrow> event_store \<Rightarrow> event list \<Rightarrow> store_error + event_store" where
  "append_batch cfg now s [] = Inr s"
| "append_batch cfg now s (e # es) =
     res_bind (append cfg now s e) (\<lambda>s'. append_batch cfg now s' es)"

definition appendAll ::
    "store_config \<Rightarrow> string \<Rightarrow> event_store \<Rightarrow> event list \<Rightarrow> store_error option \<times> event_store" where
  "appendAll cfg now s es =
     (case append_batch cfg now s es of Inl err \<Rightarrow> (Some err, s) | Inr s' \<Rightarrow> (None, s'))"

section \<open>Replay\<close>

record replay_opts =
  fromSequence :: "int option"
  untilSequence :: "int option"
  opt_entity :: "string option"
  opt_type :: "string option"
  opt_asOf :: "string option"
  opt_aggregateId :: "string option"

definition no_opts :: replay_opts where
  "no_opts = \<lparr>fromSequence = None, untilSequence = None, opt_entity = None, opt_type = None,
     opt_asOf = None, opt_aggregateId = None\<rparr>"

text \<open>An absent or empty string option adds no condition (\<open>if (opts.entity)\<close>).\<close>

definition when_given :: "string option \<Rightarrow> (string \<Rightarrow> bool) \<Rightarrow> bool" where
  "when_given opt P = (case opt of None \<Rightarrow> True | Some s \<Rightarrow> s = [] \<or> P s)"

definition row_matches :: "replay_opts \<Rightarrow> row \<Rightarrow> bool" where
  "row_matches opts r \<longleftrightarrow>
     (case fromSequence opts of None \<Rightarrow> True | Some n \<Rightarrow> n \<le> int (sequence r)) \<and>
     when_given (opt_entity opts) (\<lambda>x. r_entity r = x) \<and>
     when_given (opt_type opts) (\<lambda>x. r_type r = x) \<and>
     when_given (opt_asOf opts) (\<lambda>x. r_as_of r \<le> x) \<and>
     (case untilSequence opts of None \<Rightarrow> True | Some n \<Rightarrow> int (sequence r) \<le> n) \<and>
     when_given (opt_aggregateId opts) (\<lambda>x. r_aggregate_id r = Some x)"

definition truthy_opt :: "string option \<Rightarrow> string option" where
  "truthy_opt x = (case x of Some (c # cs) \<Rightarrow> Some (c # cs) | _ \<Rightarrow> None)"

definition row_to_event :: "row \<Rightarrow> event" where
  "row_to_event r =
     \<lparr>event_id = r_event_id r, ev_type = r_type r, as_of = r_as_of r, entity = r_entity r,
      ev_actor = \<lparr>actor_kind = r_actor_type r, actor_id = r_actor_id r\<rparr>,
      citations = r_citations r, payload = r_payload r, provenance = r_provenance r,
      aggregateId = truthy_opt (r_aggregate_id r),
      aggregateLabel = truthy_opt (r_aggregate_label r)\<rparr>"

definition replay_rows :: "event_store \<Rightarrow> replay_opts \<Rightarrow> row list" where
  "replay_rows s opts = sort_key sequence (filter (row_matches opts) (es_rows s))"

definition replay :: "event_store \<Rightarrow> replay_opts \<Rightarrow> event list" where
  "replay s opts = map row_to_event (replay_rows s opts)"

definition count :: "event_store \<Rightarrow> nat" where
  "count s = length (es_rows s)"

definition highWatermark :: "event_store \<Rightarrow> nat" where
  "highWatermark s = (if es_rows s = [] then 0 else Max (sequence ` set (es_rows s)))"

definition minSequence :: "event_store \<Rightarrow> nat" where
  "minSequence s = (if es_rows s = [] then 0 else Min (sequence ` set (es_rows s)))"

section \<open>Provenance and entity reclassification\<close>

definition softTagUntaggedEvents :: "store_config \<Rightarrow> event_store \<Rightarrow> nat \<times> event_store" where
  "softTagUntaggedEvents cfg s =
     (length (filter (\<lambda>r. r_provenance r = None) (es_rows s)),
      s\<lparr>es_rows := map (\<lambda>r. if r_provenance r = None
          then r\<lparr>r_provenance := Some (defaultProvenanceFor cfg (r_type r))\<rparr> else r) (es_rows s)\<rparr>)"

datatype 'a reclassify_result =
    ReclassifyNotFound
  | ReclassifyAlreadyAtTarget
  | Reclassified 'a

definition set_row :: "string \<Rightarrow> (row \<Rightarrow> row) \<Rightarrow> event_store \<Rightarrow> event_store" where
  "set_row i f s = s\<lparr>es_rows := map (\<lambda>r. if r_event_id r = i then f r else r) (es_rows s)\<rparr>"

definition find_row :: "event_store \<Rightarrow> string \<Rightarrow> row option" where
  "find_row s i = find (\<lambda>r. r_event_id r = i) (es_rows s)"

definition reclassifyProvenance ::
    "store_config \<Rightarrow> event_store \<Rightarrow> string \<Rightarrow> provenance_tag \<Rightarrow>
     store_error + provenance_tag reclassify_result \<times> event_store" where
  "reclassifyProvenance cfg s eventId newTag =
     (if \<not> provenanceTagSchema newTag then Inl SchemaError
      else case find_row s eventId of
        None \<Rightarrow> Inr (ReclassifyNotFound, s)
      | Some r \<Rightarrow>
          (let priorTag = (case r_provenance r of Some t \<Rightarrow> t
                           | None \<Rightarrow> defaultProvenanceFor cfg ''__legacy_untagged__'') in
           if deepProvenanceEqual priorTag newTag then Inr (ReclassifyAlreadyAtTarget, s)
           else if es_readonly s then Inl ReadonlyDatabase
           else Inr (Reclassified priorTag, set_row eventId (r_provenance_update (\<lambda>_. Some newTag)) s)))"

definition reclassifyEntity ::
    "event_store \<Rightarrow> string \<Rightarrow> string \<Rightarrow> store_error + string reclassify_result \<times> event_store" where
  "reclassifyEntity s eventId newEntity =
     (if newEntity = [] \<or> trim newEntity = [] then Inl ArgumentRequired
      else case find_row s eventId of
        None \<Rightarrow> Inr (ReclassifyNotFound, s)
      | Some r \<Rightarrow>
          if r_entity r = newEntity then Inr (ReclassifyAlreadyAtTarget, s)
          else if es_readonly s then Inl ReadonlyDatabase
          else Inr (Reclassified (r_entity r), set_row eventId (r_entity_update (\<lambda>_. newEntity)) s))"

definition count_kind :: "event_store \<Rightarrow> provenance_kind \<Rightarrow> nat" where
  "count_kind s k = length (filter (\<lambda>r. map_option pt_kind (r_provenance r) = Some k) (es_rows s))"

definition countByProvenanceKind :: "event_store \<Rightarrow> nat \<times> nat \<times> nat \<times> nat" where
  "countByProvenanceKind s =
     (count_kind s Production, count_kind s Simulated, count_kind s BuildPhaseFixture,
      length (filter (\<lambda>r. r_provenance r = None) (es_rows s)))"

section \<open>Dispatch claims\<close>

definition insert_claim :: "event_store \<Rightarrow> string \<times> string \<Rightarrow> store_error + event_store" where
  "insert_claim s k =
     (if es_readonly s then Inl ReadonlyDatabase
      else if k \<in> set (es_claims s) then Inl UniqueViolation
      else Inr (s\<lparr>es_claims := es_claims s @ [k]\<rparr>))"

definition claimDispatch ::
    "event_store \<Rightarrow> string \<Rightarrow> string \<Rightarrow> store_error + bool \<times> event_store" where
  "claimDispatch s eventId handlerKey =
     (if eventId = [] \<or> handlerKey = [] then Inl ArgumentRequired
      else case insert_claim s (eventId, handlerKey) of
        Inr s' \<Rightarrow> Inr (True, s')
      | Inl UniqueViolation \<Rightarrow> Inr (False, s)
      | Inl err \<Rightarrow> Inl err)"

definition isDispatchClaimed :: "event_store \<Rightarrow> string \<Rightarrow> string \<Rightarrow> bool" where
  "isDispatchClaimed s eventId handlerKey \<longleftrightarrow> (eventId, handlerKey) \<in> set (es_claims s)"

text \<open>\<open>json_extract(payload, '$.f')\<close> on a string field; \<open>None\<close> is SQL's NULL.\<close>

definition json_extract_string :: "(string \<times> jsval) list \<Rightarrow> string \<Rightarrow> string option" where
  "json_extract_string fs f = (case map_of fs f of Some (JStr v) \<Rightarrow> Some v | _ \<Rightarrow> None)"

definition dispatched_pair :: "row \<Rightarrow> (string \<times> string) option" where
  "dispatched_pair r =
     (if r_type r \<noteq> ''BusDispatched'' then None
      else case (json_extract_string (r_payload r) ''eventId'',
                 json_extract_string (r_payload r) ''handlerKey'') of
        (Some e, Some h) \<Rightarrow> Some (e, h)
      | _ \<Rightarrow> None)"

definition insert_or_ignore :: "event_store \<Rightarrow> string \<times> string \<Rightarrow> event_store" where
  "insert_or_ignore s k =
     (if fst k = [] \<or> snd k = [] then s
      else if k \<in> set (es_claims s) then s
      else s\<lparr>es_claims := es_claims s @ [k]\<rparr>)"

definition backfillDispatchClaims :: "event_store \<Rightarrow> nat \<times> event_store" where
  "backfillDispatchClaims s =
     (let rows = remdups (List.map_filter dispatched_pair (es_rows s));
          s' = fold (\<lambda>k st. insert_or_ignore st k) rows s
      in (length (es_claims s') - length (es_claims s), s'))"

section \<open>Snapshots\<close>

definition snapshots_of :: "event_store \<Rightarrow> string \<Rightarrow> snapshot_row list" where
  "snapshots_of s k = filter (\<lambda>r. streamKey r = k) (es_snapshots s)"

text \<open>\<open>ORDER BY upto_sequence DESC\<close>; among equals the index scan yields the larger id first.\<close>

definition by_upto_desc :: "snapshot_row list \<Rightarrow> snapshot_row list" where
  "by_upto_desc xs = rev (sort_key uptoSequence (sort_key snap_id xs))"

definition pruneSnapshots :: "event_store \<Rightarrow> string \<Rightarrow> nat \<Rightarrow> nat \<times> event_store" where
  "pruneSnapshots s k keepN =
     (let kept = snap_id ` set (take keepN (by_upto_desc (snapshots_of s k)));
          rest = filter (\<lambda>r. \<not> (streamKey r = k \<and> snap_id r \<notin> kept)) (es_snapshots s)
      in (length (es_snapshots s) - length rest, s\<lparr>es_snapshots := rest\<rparr>))"

definition snapshot ::
    "string \<Rightarrow> event_store \<Rightarrow> string \<Rightarrow> string \<Rightarrow> int \<Rightarrow> string \<Rightarrow>
     store_error + snapshot_row \<times> event_store" where
  "snapshot now s key asOf uptoSeq body =
     (if key = [] then Inl ArgumentRequired
      else if asOf = [] then Inl ArgumentRequired
      else if uptoSeq < 0 then Inl InvalidArgument
      else case find (\<lambda>r. streamKey r = key \<and> snap_asOf r = asOf \<and> uptoSequence r = uptoSeq)
                 (es_snapshots s) of
        Some existing \<Rightarrow> Inr (existing, s)
      | None \<Rightarrow>
          if es_readonly s then Inl ReadonlyDatabase
          else (let inserted = \<lparr>snap_id = Suc (es_snap_autoinc s), streamKey = key,
                       snap_asOf = asOf, uptoSequence = uptoSeq, snap_payload = body,
                       snap_recordedAt = now\<rparr>;
                    s' = s\<lparr>es_snapshots := es_snapshots s @ [inserted],
                           es_snap_autoinc := Suc (es_snap_autoinc s)\<rparr>
                in Inr (inserted, snd (pruneSnapshots s' key 5))))"

definition loadSnapshot :: "event_store \<Rightarrow> string \<Rightarrow> string \<Rightarrow> snapshot_row option" where
  "loadSnapshot s k asOf =
     (case by_upto_desc (filter (\<lambda>r. snap_asOf r \<le> asOf) (snapshots_of s k)) of
        [] \<Rightarrow> None | r # _ \<Rightarrow> Some r)"

definition listSnapshots :: "event_store \<Rightarrow> string \<Rightarrow> snapshot_row list" where
  "listSnapshots s k =
     sort_key snap_asOf (sort_key uptoSequence (sort_key snap_id (snapshots_of s k)))"

definition replayFromSnapshot ::
    "event_store \<Rightarrow> string \<Rightarrow> string \<Rightarrow> string option \<Rightarrow> string option \<Rightarrow> store_error + event list" where
  "replayFromSnapshot s key asOf fEntity fType =
     (if key = [] then Inl ArgumentRequired
      else if asOf = [] then Inl ArgumentRequired
      else (let from = (case loadSnapshot s key asOf of
                          Some snap \<Rightarrow> uptoSequence snap + 1 | None \<Rightarrow> 1)
            in Inr (replay s \<lparr>fromSequence = Some from, untilSequence = None, opt_entity = fEntity,
                 opt_type = fType, opt_asOf = Some asOf, opt_aggregateId = None\<rparr>)))"

record cadence =
  everyKEvents :: int
  everyTSeconds :: rat

definition DEFAULT_SNAPSHOT_CADENCE :: cadence where
  "DEFAULT_SNAPSHOT_CADENCE = \<lparr>everyKEvents = 1000, everyTSeconds = 60 * 60\<rparr>"

text \<open>\<open>lookupEventType(t)?.cadence\<close> is the parameter \<open>lookup\<close>.\<close>

definition resolveCadence :: "(string \<Rightarrow> cadence option) \<Rightarrow> string option \<Rightarrow> cadence" where
  "resolveCadence lookup t =
     (case t of
        Some (c # cs) \<Rightarrow> (case lookup (c # cs) of Some cad \<Rightarrow> cad | None \<Rightarrow> DEFAULT_SNAPSHOT_CADENCE)
      | _ \<Rightarrow> DEFAULT_SNAPSHOT_CADENCE)"

definition countEventsSince :: "event_store \<Rightarrow> int \<Rightarrow> int" where
  "countEventsSince s n = int (length (filter (\<lambda>r. n < int (sequence r)) (es_rows s)))"

text \<open>\<open>Date.parse\<close> (milliseconds, \<open>None\<close> for NaN) is the parameter \<open>parse\<close>.\<close>

definition secondsBetween :: "(string \<Rightarrow> int option) \<Rightarrow> string \<Rightarrow> string \<Rightarrow> rat" where
  "secondsBetween parse fromIso toIso =
     (case (parse fromIso, parse toIso) of
        (Some a, Some b) \<Rightarrow> max 0 (of_int (b - a) / 1000)
      | _ \<Rightarrow> 0)"

datatype cadence_reason = FirstSnapshot | EventsThreshold | TimeThreshold | BelowThresholds

text \<open>The result: decision, reason, events since, seconds since (\<open>None\<close> is \<open>Infinity\<close>).\<close>

definition shouldSnapshot ::
    "(string \<Rightarrow> cadence option) \<Rightarrow> (string \<Rightarrow> int option) \<Rightarrow> string \<Rightarrow> event_store \<Rightarrow> string \<Rightarrow>
     string option \<Rightarrow> snapshot_row option \<Rightarrow> bool \<times> cadence_reason \<times> int \<times> rat option" where
  "shouldSnapshot lookup parse now s key eventType lastSnapshot =
     (let cad = resolveCadence lookup eventType;
          last = (case lastSnapshot of Some r \<Rightarrow> Some r
                  | None \<Rightarrow> (case rev (sort_key snap_id (snapshots_of s key)) of
                               [] \<Rightarrow> None | r # _ \<Rightarrow> Some r))
      in case last of
           None \<Rightarrow> (True, FirstSnapshot, countEventsSince s 0, None)
         | Some r \<Rightarrow>
             (let n = countEventsSince s (uptoSequence r);
                  t = secondsBetween parse (snap_recordedAt r) now
              in if everyKEvents cad \<le> n then (True, EventsThreshold, n, Some t)
                 else if everyTSeconds cad \<le> t then (True, TimeThreshold, n, Some t)
                 else (False, BelowThresholds, n, Some t)))"

section \<open>Recon cursors\<close>

definition getReconCursor :: "event_store \<Rightarrow> string \<Rightarrow> int" where
  "getReconCursor s p = (case jm_get (es_cursors s) p of Some n \<Rightarrow> n | None \<Rightarrow> 0)"

definition advanceReconCursor :: "event_store \<Rightarrow> string \<Rightarrow> int \<Rightarrow> store_error + event_store" where
  "advanceReconCursor s p n =
     (if n \<le> 0 then Inr s
      else if es_readonly s then Inl ReadonlyDatabase
      else Inr (s\<lparr>es_cursors := jm_set p
             (case jm_get (es_cursors s) p of None \<Rightarrow> n | Some old \<Rightarrow> max old n) (es_cursors s)\<rparr>))"

definition resetReconCursor :: "event_store \<Rightarrow> string \<Rightarrow> store_error + event_store" where
  "resetReconCursor s p =
     (if es_readonly s then Inl ReadonlyDatabase
      else Inr (s\<lparr>es_cursors := filter (\<lambda>kv. fst kv \<noteq> p) (es_cursors s)\<rparr>))"

end
