(* ===== verification/EventStoreInv.thy ===== *)
theory EventStoreInv
  imports EventStore
begin

text \<open>
  Correctness of the event store: the invariant of its tables and its preservation by every
  operation, appending as an extension of the replayed log, at-most-once claims, bounded and
  idempotent snapshots, the delta that follows a snapshot, and the recon cursors.
\<close>

section \<open>The invariant\<close>

definition rows_inv :: "row list \<Rightarrow> nat \<Rightarrow> bool" where
  "rows_inv rs n \<longleftrightarrow>
     sorted_wrt (<) (map sequence rs) \<and> (\<forall>r \<in> set rs. 0 < sequence r \<and> sequence r \<le> n) \<and>
     distinct (map r_event_id rs) \<and> (\<forall>r \<in> set rs. r_citations r \<noteq> [])"

definition snaps_inv :: "snapshot_row list \<Rightarrow> nat \<Rightarrow> bool" where
  "snaps_inv xs n \<longleftrightarrow>
     distinct (map snap_id xs) \<and> (\<forall>r \<in> set xs. snap_id r \<le> n \<and> snap_asOf r \<noteq> []) \<and>
     distinct (map (\<lambda>r. (streamKey r, snap_asOf r, uptoSequence r)) xs)"

definition store_inv :: "event_store \<Rightarrow> bool" where
  "store_inv s \<longleftrightarrow>
     rows_inv (es_rows s) (es_autoinc s) \<and> snaps_inv (es_snapshots s) (es_snap_autoinc s) \<and>
     distinct (es_claims s) \<and> jm_keys_distinct (es_cursors s)"

lemma store_inv_empty [store_inv]: "store_inv empty_store"
  by (simp add: store_inv_def rows_inv_def snaps_inv_def empty_store_def)

lemma sort_key_filter_sorted:
  fixes f :: "'a \<Rightarrow> nat"
  assumes "sorted_wrt (<) (map f xs)"
  shows "sort_key f (filter P xs) = filter P xs"
proof (rule sort_key_id_if_sorted)
  from assms have "sorted (map f xs)" by (rule strict_sorted_imp_sorted)
  then show "sorted (map f (filter P xs))" by (rule sorted_filter)
qed

lemma store_inv_distinct:
  assumes "store_inv s"
  shows "distinct (map sequence (es_rows s))" "inj_on r_event_id (set (es_rows s))"
  using assms by (auto simp: store_inv_def rows_inv_def distinct_map
      dest: strict_sorted_iff [THEN iffD1])

lemma replay_rows_filter:
  "store_inv s \<Longrightarrow> replay_rows s opts = filter (row_matches opts) (es_rows s)"
  by (simp add: replay_rows_def store_inv_def rows_inv_def sort_key_filter_sorted)

lemma replay_filter:
  "store_inv s \<Longrightarrow> replay s opts = map row_to_event (filter (row_matches opts) (es_rows s))"
  by (simp add: replay_def replay_rows_filter)

lemma highWatermark_bound: "store_inv s \<Longrightarrow> highWatermark s \<le> es_autoinc s"
  by (auto simp: highWatermark_def store_inv_def rows_inv_def)

section \<open>Append\<close>

text \<open>What \<open>append\<close> writes, as an event read back: the JSON form of the payload and the tag in force.\<close>

definition stored_event :: "store_config \<Rightarrow> event \<Rightarrow> event" where
  "stored_event cfg e =
     e\<lparr>payload := the (json_rt_fields (payload e)),
       provenance := (case provenance e of
          Some t \<Rightarrow> Some t
        | None \<Rightarrow> if cfg_substrateActive cfg then Some (defaultProvenanceFor cfg (ev_type e)) else None),
       aggregateId := truthy_opt (aggregateId e)\<rparr>"

lemma resolveProvenance_Inr:
  "resolveProvenanceForAppend cfg e = Inr p \<Longrightarrow>
   p = (case provenance e of
          Some t \<Rightarrow> Some t
        | None \<Rightarrow> if cfg_substrateActive cfg then Some (defaultProvenanceFor cfg (ev_type e)) else None)"
  by (auto simp: resolveProvenanceForAppend_def Let_def split: option.splits if_splits)

lemma truthy_label: "non_empty_opt x \<Longrightarrow> truthy_opt x = x"
  by (auto simp: non_empty_opt_def truthy_opt_def split: option.splits list.splits)

lemma append_InrE:
  assumes "append cfg now s e = Inr s'"
  obtains r where "es_rows s' = es_rows s @ [r]" "es_autoinc s' = Suc (es_autoinc s)"
    "s' = s\<lparr>es_rows := es_rows s @ [r], es_autoinc := Suc (es_autoinc s)\<rparr>"
    "sequence r = Suc (es_autoinc s)" "r_event_id r = event_id e"
    "r_event_id r \<notin> r_event_id ` set (es_rows s)"
    "r_citations r = citations e" "citations e \<noteq> []" "row_to_event r = stored_event cfg e"
    "r_type r = ev_type e" "\<not> es_readonly s"
proof -
  from assms obtain p gs where sch: "eventSchema cfg e"
    and p: "resolveProvenanceForAppend cfg e = Inr p" and gs: "json_rt_fields (payload e) = Some gs"
    and ins: "insert_event s (\<lambda>n. \<lparr>sequence = n, r_event_id = event_id e, r_type = ev_type e,
              r_as_of = as_of e, r_entity = entity e,
              r_actor_type = actor_kind (ev_actor e), r_actor_id = actor_id (ev_actor e),
              r_citations = citations e, r_payload = gs, r_recorded_at = now,
              r_provenance = p, r_aggregate_id = aggregateId e,
              r_aggregate_label = aggregateLabel e\<rparr>) = Inr s'"
    by (auto simp: append_def res_bind_Inr_iff split: if_splits option.splits)
  let ?r = "\<lparr>sequence = Suc (es_autoinc s), r_event_id = event_id e, r_type = ev_type e,
              r_as_of = as_of e, r_entity = entity e,
              r_actor_type = actor_kind (ev_actor e), r_actor_id = actor_id (ev_actor e),
              r_citations = citations e, r_payload = gs, r_recorded_at = now,
              r_provenance = p, r_aggregate_id = aggregateId e,
              r_aggregate_label = aggregateLabel e\<rparr>"
  from ins have s': "s' = s\<lparr>es_rows := es_rows s @ [?r], es_autoinc := Suc (es_autoinc s)\<rparr>"
    and fresh: "event_id e \<notin> r_event_id ` set (es_rows s)" and rw: "\<not> es_readonly s"
    by (auto simp: insert_event_def Let_def split: if_splits)
  from sch have lab: "truthy_opt (aggregateLabel e) = aggregateLabel e"
    by (simp add: eventSchema_def truthy_label)
  have "row_to_event ?r = stored_event cfg e"
    using resolveProvenance_Inr [OF p] by (simp add: row_to_event_def stored_event_def gs lab)
  with s' fresh rw sch show thesis
    by (intro that [of ?r]) (simp_all add: eventSchema_def)
qed

lemma rows_inv_snoc:
  assumes "rows_inv rs n" "sequence r = Suc n" "r_event_id r \<notin> r_event_id ` set rs"
    "r_citations r \<noteq> []"
  shows "rows_inv (rs @ [r]) (Suc n)"
proof -
  from assms have "\<forall>x \<in> set rs. sequence x \<le> n" by (simp add: rows_inv_def)
  then have "\<forall>x \<in> set rs. sequence x < sequence r" "\<forall>x \<in> set rs. sequence x \<le> Suc n"
    using assms(2) by auto
  with assms show ?thesis by (simp add: rows_inv_def sorted_wrt_append)
qed

lemma append_inv [store_inv]:
  assumes "append cfg now s e = Inr s'" "store_inv s"
  shows "store_inv s'"
proof -
  from assms(1) show ?thesis
  proof (rule append_InrE)
    fix r
    assume a: "s' = s\<lparr>es_rows := es_rows s @ [r], es_autoinc := Suc (es_autoinc s)\<rparr>"
      "sequence r = Suc (es_autoinc s)" "r_event_id r \<notin> r_event_id ` set (es_rows s)"
      "r_citations r = citations e" "citations e \<noteq> []"
    with assms(2) rows_inv_snoc [of "es_rows s" "es_autoinc s" r] show "store_inv s'"
      by (simp add: store_inv_def)
  qed
qed

lemma row_matches_no_opts [simp]: "row_matches no_opts r"
  by (simp add: row_matches_def no_opts_def when_given_def)

lemma replay_no_opts: "store_inv s \<Longrightarrow> replay s no_opts = map row_to_event (es_rows s)"
  by (simp add: replay_filter)

lemma append_log:
  assumes "append cfg now s e = Inr s'" "store_inv s"
  shows "replay s' no_opts = replay s no_opts @ [stored_event cfg e]"
proof -
  from assms(1) obtain r where "es_rows s' = es_rows s @ [r]" "row_to_event r = stored_event cfg e"
    by (rule append_InrE)
  then show ?thesis
    by (simp add: replay_no_opts [OF assms(2)] replay_no_opts [OF append_inv [OF assms]])
qed

lemma append_highWatermark:
  assumes "append cfg now s e = Inr s'" "store_inv s"
  shows "highWatermark s' = Suc (es_autoinc s)"
  using assms(1)
proof (rule append_InrE)
  fix r
  assume r: "es_rows s' = es_rows s @ [r]" "sequence r = Suc (es_autoinc s)"
  have "\<forall>x \<in> set (es_rows s). sequence x \<le> Suc (es_autoinc s)"
    using assms(2) by (auto simp: store_inv_def rows_inv_def intro: le_SucI)
  then have "Max (insert (Suc (es_autoinc s)) (sequence ` set (es_rows s))) = Suc (es_autoinc s)"
    by (intro Max_eqI) auto
  with r show "highWatermark s' = Suc (es_autoinc s)" by (simp add: highWatermark_def)
qed

lemma append_batch_log:
  "append_batch cfg now s es = Inr s' \<Longrightarrow> store_inv s \<Longrightarrow>
   store_inv s' \<and> replay s' no_opts = replay s no_opts @ map (stored_event cfg) es"
proof (induction es arbitrary: s)
  case Nil
  then show ?case by simp
next
  case (Cons e es)
  then obtain t where t: "append cfg now s e = Inr t" "append_batch cfg now t es = Inr s'"
    by (auto simp: res_bind_Inr_iff)
  from Cons.IH [OF t(2)] append_inv [OF t(1) Cons.prems(2)] append_log [OF t(1) Cons.prems(2)]
  show ?case by simp
qed

lemma append_batch_rows:
  "append_batch cfg now s es = Inr s' \<Longrightarrow>
   es_partitions s' = es_partitions s \<and> es_autoinc s \<le> es_autoinc s' \<and>
   (\<exists>new. es_rows s' = es_rows s @ new \<and> (\<forall>r \<in> set new. es_autoinc s < sequence r))"
proof (induction es arbitrary: s)
  case (Cons e es)
  then obtain t where t: "append cfg now s e = Inr t" "append_batch cfg now t es = Inr s'"
    by (auto simp: res_bind_Inr_iff)
  from t(1) obtain r where r: "es_rows t = es_rows s @ [r]" "es_autoinc t = Suc (es_autoinc s)"
    "sequence r = Suc (es_autoinc s)" "es_partitions t = es_partitions s"
    by (elim append_InrE) simp
  from Cons.IH [OF t(2)] obtain new where "es_rows s' = es_rows t @ new"
    "\<forall>r \<in> set new. es_autoinc t < sequence r" by blast
  with Cons.IH [OF t(2)] r show ?case by (auto intro!: exI [of _ "r # new"])
qed simp

section \<open>Reclassification and tagging\<close>

text \<open>Two rows agree on everything but the provenance tag and the entity.\<close>

definition row_core :: "row \<Rightarrow> row" where
  "row_core r = r\<lparr>r_provenance := None, r_entity := []\<rparr>"

lemma row_core_simps [simp]:
  "row_core (r\<lparr>r_provenance := p\<rparr>) = row_core r" "row_core (r\<lparr>r_entity := x\<rparr>) = row_core r"
  by (simp_all add: row_core_def)

lemma map_core_rows_inv:
  assumes "map row_core rs' = map row_core rs" "rows_inv rs n"
  shows "rows_inv rs' n"
proof -
  have len: "length rs' = length rs" using assms(1) by (rule map_eq_imp_length_eq)
  have nth: "row_core (rs' ! i) = row_core (rs ! i)" if "i < length rs" for i
    using that len arg_cong [OF assms(1), of "\<lambda>xs. xs ! i"] by simp
  have proj: "sequence (rs' ! i) = sequence (rs ! i) \<and> r_event_id (rs' ! i) = r_event_id (rs ! i) \<and>
      r_citations (rs' ! i) = r_citations (rs ! i)" if "i < length rs" for i
    using nth [OF that] by (cases "rs ! i"; cases "rs' ! i") (simp add: row_core_def)
  have "map sequence rs' = map sequence rs" "map r_event_id rs' = map r_event_id rs"
    "map r_citations rs' = map r_citations rs"
    using len proj by (auto intro: nth_equalityI)
  then have "map sequence rs' = map sequence rs" "map r_event_id rs' = map r_event_id rs"
    "sequence ` set rs' = sequence ` set rs" "r_citations ` set rs' = r_citations ` set rs"
    by (metis list.set_map)+
  with assms(2) show ?thesis
    unfolding rows_inv_def by (metis imageE imageI)
qed

lemma set_row_core:
  assumes "\<And>r. row_core (f r) = row_core r"
  shows "map row_core (es_rows (set_row i f s)) = map row_core (es_rows s)"
  by (simp add: set_row_def assms)

lemma set_row_inv:
  assumes "\<And>r. row_core (f r) = row_core r" "store_inv s"
  shows "store_inv (set_row i f s)"
proof -
  have "rows_inv (es_rows (set_row i f s)) (es_autoinc s)"
    using map_core_rows_inv [OF set_row_core [OF assms(1)]] assms(2) by (simp add: store_inv_def)
  with assms(2) show ?thesis by (simp add: store_inv_def set_row_def)
qed

lemma softTag_core:
  "map row_core (es_rows (snd (softTagUntaggedEvents cfg s))) = map row_core (es_rows s)"
  by (simp add: softTagUntaggedEvents_def)

lemma softTag_inv [store_inv]:
  assumes "store_inv s"
  shows "store_inv (snd (softTagUntaggedEvents cfg s))"
proof -
  have "rows_inv (es_rows (snd (softTagUntaggedEvents cfg s))) (es_autoinc s)"
    using map_core_rows_inv [OF softTag_core] assms by (simp add: store_inv_def)
  with assms show ?thesis by (simp add: store_inv_def softTagUntaggedEvents_def)
qed

lemma reclassifyProvenance_state:
  assumes "reclassifyProvenance cfg s i t = Inr (res, s')"
  shows "s' = s \<or> s' = set_row i (r_provenance_update (\<lambda>_. Some t)) s"
  using assms by (auto simp: reclassifyProvenance_def Let_def split: if_splits option.splits)

lemma reclassifyEntity_state:
  assumes "reclassifyEntity s i x = Inr (res, s')"
  shows "s' = s \<or> s' = set_row i (r_entity_update (\<lambda>_. x)) s"
  using assms by (auto simp: reclassifyEntity_def split: if_splits option.splits)

lemma reclassify_core:
  "reclassifyProvenance cfg s i t = Inr (res, s') \<Longrightarrow>
     map row_core (es_rows s') = map row_core (es_rows s)"
  "reclassifyEntity s i x = Inr (res', s') \<Longrightarrow> map row_core (es_rows s') = map row_core (es_rows s)"
  using set_row_core by (force dest!: reclassifyProvenance_state reclassifyEntity_state)+

lemma reclassify_inv [store_inv]:
  "reclassifyProvenance cfg s i t = Inr (res, s') \<Longrightarrow> store_inv s \<Longrightarrow> store_inv s'"
  "reclassifyEntity s i x = Inr (res', s') \<Longrightarrow> store_inv s \<Longrightarrow> store_inv s'"
  using set_row_inv by (force dest!: reclassifyProvenance_state reclassifyEntity_state)+

section \<open>Claims\<close>

definition claim_pair :: "event_store \<Rightarrow> string \<times> string \<Rightarrow> bool \<times> event_store" where
  "claim_pair s k =
     (case claimDispatch s (fst k) (snd k) of Inl _ \<Rightarrow> (False, s) | Inr r \<Rightarrow> r)"

lemma claimDispatch_writable:
  "\<not> es_readonly s \<Longrightarrow> e \<noteq> [] \<Longrightarrow> h \<noteq> [] \<Longrightarrow>
   claimDispatch s e h =
     Inr (if (e, h) \<in> set (es_claims s) then (False, s)
          else (True, s\<lparr>es_claims := es_claims s @ [(e, h)]\<rparr>))"
  by (simp add: claimDispatch_def insert_claim_def)

interpretation claims: claim_registry claim_pair "\<lambda>s k. k \<in> set (es_claims s)"
  "\<lambda>s. \<not> es_readonly s" "\<lambda>k. fst k \<noteq> [] \<and> snd k \<noteq> []"
  by unfold_locales (auto simp: claim_pair_def claimDispatch_writable)

lemma claimDispatch_state:
  "claimDispatch s e h = Inr (won, s') \<Longrightarrow>
   s' = (if won then s\<lparr>es_claims := es_claims s @ [(e, h)]\<rparr> else s) \<and>
   (won \<longleftrightarrow> (e, h) \<notin> set (es_claims s))"
  by (auto simp: claimDispatch_def insert_claim_def split: if_splits)

lemma claimDispatch_inv [store_inv]:
  "claimDispatch s e h = Inr (won, s') \<Longrightarrow> store_inv s \<Longrightarrow> store_inv s'"
  by (auto dest!: claimDispatch_state simp: store_inv_def)

lemma insert_or_ignore_inv: "store_inv s \<Longrightarrow> store_inv (insert_or_ignore s k)"
  by (simp add: insert_or_ignore_def store_inv_def)

lemma insert_or_ignore_rows [simp]: "es_rows (insert_or_ignore s k) = es_rows s"
  by (simp add: insert_or_ignore_def)

lemma fold_insert_or_ignore:
  "store_inv s \<Longrightarrow> store_inv (fold (\<lambda>k st. insert_or_ignore st k) ks s)"
  "es_rows (fold (\<lambda>k st. insert_or_ignore st k) ks s) = es_rows s"
  "set (es_claims (fold (\<lambda>k st. insert_or_ignore st k) ks s)) =
   set (es_claims s) \<union> {k \<in> set ks. fst k \<noteq> [] \<and> snd k \<noteq> []}"
proof (induction ks arbitrary: s)
  case (Cons k ks)
  { case 1 with Cons.IH(1) show ?case by (simp add: insert_or_ignore_inv) }
  { case 2 from Cons.IH(2) show ?case by simp }
  { case 3 from Cons.IH(3) [of "insert_or_ignore s k"] show ?case
      by (auto simp: insert_or_ignore_def) }
qed simp_all

lemma backfill_inv [store_inv]: "store_inv s \<Longrightarrow> store_inv (snd (backfillDispatchClaims s))"
  by (simp add: backfillDispatchClaims_def Let_def fold_insert_or_ignore)

section \<open>Snapshots\<close>

lemma set_by_upto_desc [simp]: "set (by_upto_desc xs) = set xs"
  by (simp add: by_upto_desc_def)

lemma by_upto_desc_sorted: "sorted_wrt (\<lambda>a b. uptoSequence b \<le> uptoSequence a) (by_upto_desc xs)"
proof -
  have "sorted (map uptoSequence (sort_key uptoSequence (sort_key snap_id xs)))" by simp
  then have "sorted_wrt (\<lambda>a b. uptoSequence a \<le> uptoSequence b)
      (sort_key uptoSequence (sort_key snap_id xs))"
    by (simp only: sorted_wrt_map)
  then show ?thesis by (simp add: by_upto_desc_def sorted_wrt_rev)
qed

text \<open>The rows of a stream that survive a pruning.\<close>

lemma prune_snapshots_of:
  "snapshots_of (snd (pruneSnapshots s k n)) k =
   filter (\<lambda>r. snap_id r \<in> snap_id ` set (take n (by_upto_desc (snapshots_of s k)))) (snapshots_of s k)"
  by (auto simp: pruneSnapshots_def Let_def snapshots_of_def intro: filter_cong)

lemma prune_other_stream:
  "k' \<noteq> k \<Longrightarrow> snapshots_of (snd (pruneSnapshots s k n)) k' = snapshots_of s k'"
  by (auto simp: pruneSnapshots_def Let_def snapshots_of_def intro: filter_cong)

lemma snapshots_of_distinct:
  "store_inv s \<Longrightarrow> distinct (map snap_id (snapshots_of s k))"
  by (simp add: store_inv_def snaps_inv_def snapshots_of_def distinct_map_filter)

lemma prune_bound:
  assumes "store_inv s"
  shows "length (snapshots_of (snd (pruneSnapshots s k n)) k) \<le> n"
proof -
  let ?K = "snap_id ` set (take n (by_upto_desc (snapshots_of s k)))"
  let ?ys = "snapshots_of (snd (pruneSnapshots s k n)) k"
  have "distinct (map snap_id ?ys)"
    using snapshots_of_distinct [OF assms] by (simp add: prune_snapshots_of distinct_map_filter)
  then have "length ?ys = card (snap_id ` set ?ys)"
    by (metis distinct_card length_map set_map)
  also have "\<dots> \<le> card ?K" by (intro card_mono) (auto simp: prune_snapshots_of)
  also have "\<dots> \<le> n"
    using card_length [of "map snap_id (take n (by_upto_desc (snapshots_of s k)))"] by simp
  finally show ?thesis .
qed

text \<open>What is dropped is not newer than what is kept.\<close>

lemma prune_keeps_newest:
  assumes inv: "store_inv s" and old: "r \<in> set (snapshots_of s k)"
    and gone: "r \<notin> set (snapshots_of (snd (pruneSnapshots s k n)) k)"
    and kept: "q \<in> set (snapshots_of (snd (pruneSnapshots s k n)) k)"
  shows "uptoSequence r \<le> uptoSequence q"
proof -
  let ?L = "by_upto_desc (snapshots_of s k)"
  from kept obtain q' where q': "q' \<in> set (take n ?L)" "snap_id q = snap_id q'"
    and q: "q \<in> set (snapshots_of s k)"
    by (auto simp: prune_snapshots_of)
  have "q' \<in> set (snapshots_of s k)" using q'(1) by (metis in_set_takeD set_by_upto_desc)
  with q q'(2) snapshots_of_distinct [OF inv] have "q = q'"
    by (auto simp: distinct_map dest: inj_onD)
  from gone old have "r \<notin> set (take n ?L)" by (auto simp: prune_snapshots_of)
  with old have "r \<in> set (drop n ?L)"
    by (metis Un_iff append_take_drop_id set_append set_by_upto_desc)
  moreover have "\<forall>x \<in> set (take n ?L). \<forall>y \<in> set (drop n ?L). uptoSequence y \<le> uptoSequence x"
    using by_upto_desc_sorted [of "snapshots_of s k"]
      sorted_wrt_append [of _ "take n ?L" "drop n ?L"] by (simp only: append_take_drop_id) blast
  ultimately show ?thesis using q'(1) \<open>q = q'\<close> by blast
qed

lemma prune_inv [store_inv]: "store_inv s \<Longrightarrow> store_inv (snd (pruneSnapshots s k n))"
  by (auto simp: pruneSnapshots_def Let_def store_inv_def snaps_inv_def distinct_map_filter)

lemma prune_rows [simp]:
  "es_rows (snd (pruneSnapshots s k n)) = es_rows s"
  "es_claims (snd (pruneSnapshots s k n)) = es_claims s"
  by (simp_all add: pruneSnapshots_def Let_def)

definition snap_key :: "snapshot_row \<Rightarrow> string \<times> string \<times> int" where
  "snap_key r = (streamKey r, snap_asOf r, uptoSequence r)"

lemma snapshot_cases:
  assumes "snapshot now s key asOf n body = Inr (r, s')"
  obtains "s' = s" "r \<in> set (es_snapshots s)" "snap_key r = (key, asOf, n)"
  | "\<forall>x \<in> set (es_snapshots s). snap_key x \<noteq> (key, asOf, n)"
    "r = \<lparr>snap_id = Suc (es_snap_autoinc s), streamKey = key, snap_asOf = asOf,
          uptoSequence = n, snap_payload = body, snap_recordedAt = now\<rparr>"
    "s' = snd (pruneSnapshots (s\<lparr>es_snapshots := es_snapshots s @ [r],
            es_snap_autoinc := Suc (es_snap_autoinc s)\<rparr>) key 5)" "asOf \<noteq> []"
proof (cases "find (\<lambda>r. streamKey r = key \<and> snap_asOf r = asOf \<and> uptoSequence r = n) (es_snapshots s)")
  case None
  then have "\<forall>x \<in> set (es_snapshots s). snap_key x \<noteq> (key, asOf, n)"
    by (auto simp: find_None_iff snap_key_def)
  moreover from assms None
  have "r = \<lparr>snap_id = Suc (es_snap_autoinc s), streamKey = key, snap_asOf = asOf,
          uptoSequence = n, snap_payload = body, snap_recordedAt = now\<rparr>"
    "s' = snd (pruneSnapshots (s\<lparr>es_snapshots := es_snapshots s @ [r],
            es_snap_autoinc := Suc (es_snap_autoinc s)\<rparr>) key 5)" "asOf \<noteq> []"
    by (auto simp: snapshot_def Let_def split: if_splits)
  ultimately show thesis by (rule that(2))
next
  case (Some x)
  then have x: "x \<in> set (es_snapshots s)" "snap_key x = (key, asOf, n)"
    by (auto simp: find_Some_iff snap_key_def)
  from assms Some have "s' = s" "r = x" by (auto simp: snapshot_def split: if_splits)
  with x that(1) show thesis by simp
qed

lemma snaps_inv_snoc:
  assumes "snaps_inv xs n" "snap_id r = Suc n" "\<forall>x \<in> set xs. snap_key x \<noteq> snap_key r"
    "snap_asOf r \<noteq> []"
  shows "snaps_inv (xs @ [r]) (Suc n)"
  using assms by (fastforce simp: snaps_inv_def snap_key_def)

lemma snapshot_inv [store_inv]:
  assumes "snapshot now s key asOf n body = Inr (r, s')" "store_inv s"
  shows "store_inv s'"
  using assms(1)
proof (cases rule: snapshot_cases)
  case 1
  with assms(2) show ?thesis by simp
next
  case 2
  let ?t = "s\<lparr>es_snapshots := es_snapshots s @ [r], es_snap_autoinc := Suc (es_snap_autoinc s)\<rparr>"
  from 2 have "snap_asOf r \<noteq> []" "snap_id r = Suc (es_snap_autoinc s)" "\<forall>x \<in> set (es_snapshots s). snap_key x \<noteq> snap_key r"
    by (simp_all add: snap_key_def)
  with assms(2) have "store_inv ?t" by (simp add: store_inv_def snaps_inv_snoc)
  with 2(3) show ?thesis by (simp add: prune_inv)
qed

lemma snapshot_again:
  assumes "key \<noteq> []" "asOf \<noteq> []" "\<not> n < 0" "r \<in> set (es_snapshots s)"
    "snap_key r = (key, asOf, n)" "store_inv s"
  shows "snapshot now s key asOf n body = Inr (r, s)"
proof -
  let ?P = "\<lambda>x. streamKey x = key \<and> snap_asOf x = asOf \<and> uptoSequence x = n"
  from assms(4,5) obtain x where x: "find ?P (es_snapshots s) = Some x"
    by (cases "find ?P (es_snapshots s)") (auto simp: find_None_iff snap_key_def)
  then have "x \<in> set (es_snapshots s)" "snap_key x = snap_key r"
    using assms(5) by (auto simp: find_Some_iff snap_key_def)
  with assms(4,6) have "x = r"
    by (auto simp: store_inv_def snaps_inv_def distinct_map snap_key_def dest: inj_onD)
  with x assms(1-3) show ?thesis by (simp add: snapshot_def)
qed

lemma snapshot_rows:
  assumes "snapshot now s key asOf n body = Inr (r, s')"
  shows "es_rows s' = es_rows s"
  using assms by (cases rule: snapshot_cases) simp_all

lemma snapshot_pre_inv:
  assumes "store_inv s" "\<forall>x \<in> set (es_snapshots s). snap_key x \<noteq> (key, asOf, n)"
    "r = \<lparr>snap_id = Suc (es_snap_autoinc s), streamKey = key, snap_asOf = asOf,
          uptoSequence = n, snap_payload = body, snap_recordedAt = now\<rparr>" "asOf \<noteq> []"
  shows "store_inv (s\<lparr>es_snapshots := es_snapshots s @ [r],
            es_snap_autoinc := Suc (es_snap_autoinc s)\<rparr>)"
  using assms snaps_inv_snoc [of "es_snapshots s" "es_snap_autoinc s" r]
  by (simp add: store_inv_def snap_key_def)

section \<open>The delta behind a snapshot\<close>

lemma filter_split_sequence:
  "sorted_wrt (<) (map sequence rs) \<Longrightarrow>
   filter P rs = filter (\<lambda>r. P r \<and> int (sequence r) \<le> u) rs @ filter (\<lambda>r. P r \<and> u < int (sequence r)) rs"
proof (induction rs)
  case Nil
  then show ?case by simp
next
  case (Cons r rs)
  then have IH: "filter P rs = filter (\<lambda>r. P r \<and> int (sequence r) \<le> u) rs
      @ filter (\<lambda>r. P r \<and> u < int (sequence r)) rs" by simp
  show ?case
  proof (cases "int (sequence r) \<le> u")
    case True
    with IH show ?thesis by simp
  next
    case False
    with Cons.prems have "filter (\<lambda>r. P r \<and> int (sequence r) \<le> u) rs = []"
      by (fastforce simp: filter_empty_conv)
    with False IH show ?thesis by simp
  qed
qed

lemma loadSnapshot_Some:
  assumes "loadSnapshot s k asOf = Some r"
  shows "r \<in> set (es_snapshots s)" "streamKey r = k" "snap_asOf r \<le> asOf"
proof -
  from assms obtain xs where
    "by_upto_desc (filter (\<lambda>r. snap_asOf r \<le> asOf) (snapshots_of s k)) = r # xs"
    by (auto simp: loadSnapshot_def split: list.splits)
  then have "r \<in> set (by_upto_desc (filter (\<lambda>r. snap_asOf r \<le> asOf) (snapshots_of s k)))"
    by (simp only: list.set_intros(1))
  then show "r \<in> set (es_snapshots s)" "streamKey r = k" "snap_asOf r \<le> asOf"
    by (auto simp: snapshots_of_def)
qed

text \<open>The replay options of a read as of a time, up to a sequence number or without bound.\<close>

definition as_of_opts :: "int option \<Rightarrow> string \<Rightarrow> string option \<Rightarrow> string option \<Rightarrow> replay_opts" where
  "as_of_opts until asOf fEntity fType =
     \<lparr>fromSequence = None, untilSequence = until, opt_entity = fEntity, opt_type = fType,
      opt_asOf = Some asOf, opt_aggregateId = None\<rparr>"

text \<open>
  Events recorded up to the snapshot that take effect after the snapshot's date and by the date
  asked for: the delta starts behind them and the snapshot does not hold them.
\<close>

definition skipped_rows :: "event_store \<Rightarrow> snapshot_row \<Rightarrow> string \<Rightarrow> row list" where
  "skipped_rows s snap asOf =
     filter (\<lambda>r. int (sequence r) \<le> uptoSequence snap \<and> snap_asOf snap < r_as_of r \<and> r_as_of r \<le> asOf)
       (es_rows s)"

lemma replayFromSnapshot_Some:
  "key \<noteq> [] \<Longrightarrow> asOf \<noteq> [] \<Longrightarrow> loadSnapshot s key asOf = Some snap \<Longrightarrow> store_inv s \<Longrightarrow>
   replayFromSnapshot s key asOf fEntity fType =
     Inr (map row_to_event (filter (\<lambda>r. row_matches (as_of_opts None asOf fEntity fType) r \<and>
       uptoSequence snap < int (sequence r)) (es_rows s)))"
  by (auto simp: replayFromSnapshot_def replay_filter row_matches_def as_of_opts_def
      intro!: arg_cong [where f = "map row_to_event"] filter_cong)

lemma replayFromSnapshot_None:
  assumes "key \<noteq> []" "asOf \<noteq> []" "loadSnapshot s key asOf = None" "store_inv s"
  shows "replayFromSnapshot s key asOf fEntity fType =
     Inr (replay s (as_of_opts None asOf fEntity fType))"
proof -
  have "\<forall>r \<in> set (es_rows s). 1 \<le> int (sequence r)"
    using assms(4) by (auto simp: store_inv_def rows_inv_def Suc_le_eq)
  with assms show ?thesis
    by (auto simp: replayFromSnapshot_def replay_filter row_matches_def as_of_opts_def
        intro!: arg_cong [where f = "map row_to_event"] filter_cong)
qed

lemma snapshot_delta_split:
  assumes inv: "store_inv s" and "key \<noteq> []" "asOf \<noteq> []"
    and load: "loadSnapshot s key asOf = Some snap" and none: "skipped_rows s snap asOf = []"
  shows "\<exists>delta. replayFromSnapshot s key asOf fEntity fType = Inr delta \<and>
    replay s (as_of_opts None asOf fEntity fType) =
      replay s (as_of_opts (Some (uptoSequence snap)) (snap_asOf snap) fEntity fType) @ delta"
proof -
  let ?P = "row_matches (as_of_opts None asOf fEntity fType)" and ?u = "uptoSequence snap"
  from loadSnapshot_Some [OF load] inv have le: "snap_asOf snap \<le> asOf" and ne: "snap_asOf snap \<noteq> []"
    by (auto simp: store_inv_def snaps_inv_def)
  have "?P r \<and> int (sequence r) \<le> ?u \<longleftrightarrow>
      row_matches (as_of_opts (Some ?u) (snap_asOf snap) fEntity fType) r"
    if "r \<in> set (es_rows s)" for r
  proof -
    have "\<not> (int (sequence r) \<le> ?u \<and> snap_asOf snap < r_as_of r \<and> r_as_of r \<le> asOf)"
      using none that by (simp add: skipped_rows_def filter_empty_conv)
    with le ne assms(3) show ?thesis
      by (auto simp: row_matches_def as_of_opts_def when_given_def)
  qed
  then have pre: "filter (\<lambda>r. ?P r \<and> int (sequence r) \<le> ?u) (es_rows s) =
      filter (row_matches (as_of_opts (Some ?u) (snap_asOf snap) fEntity fType)) (es_rows s)"
    by (rule filter_cong [OF refl])
  have "sorted_wrt (<) (map sequence (es_rows s))" using inv by (simp add: store_inv_def rows_inv_def)
  from filter_split_sequence [OF this, of ?P ?u]
  show ?thesis
    by (simp add: replay_filter [OF inv] replayFromSnapshot_Some [OF assms(2,3) load inv] pre)
qed

section \<open>Recon cursors\<close>

lemma advanceReconCursor_get:
  assumes "advanceReconCursor s p n = Inr s'"
  shows "getReconCursor s' q =
    (if q = p \<and> 0 < n then (case jm_get (es_cursors s) p of None \<Rightarrow> n | Some old \<Rightarrow> max old n)
     else getReconCursor s q)"
  using assms by (auto simp: advanceReconCursor_def getReconCursor_def split: if_splits option.splits)

lemma cursor_inv [store_inv]:
  "advanceReconCursor s p n = Inr s' \<Longrightarrow> store_inv s \<Longrightarrow> store_inv s'"
  "resetReconCursor s p = Inr s' \<Longrightarrow> store_inv s \<Longrightarrow> store_inv s'"
  by (auto simp: advanceReconCursor_def resetReconCursor_def store_inv_def jm_keys_distinct_def
      distinct_update distinct_map_filter split: if_splits)

lemma cursor_rows:
  "advanceReconCursor s p n = Inr s' \<Longrightarrow> es_rows s' = es_rows s"
  "resetReconCursor s p = Inr s' \<Longrightarrow> es_rows s' = es_rows s"
  by (auto simp: advanceReconCursor_def resetReconCursor_def split: if_splits)

text \<open>Any number of racing advances, in any order, leave the cursor at their maximum.\<close>

fun advance_all :: "event_store \<Rightarrow> string \<Rightarrow> int list \<Rightarrow> store_error + event_store" where
  "advance_all s p [] = Inr s"
| "advance_all s p (n # ns) = res_bind (advanceReconCursor s p n) (\<lambda>t. advance_all t p ns)"

definition cursors_nonneg :: "event_store \<Rightarrow> bool" where
  "cursors_nonneg s \<longleftrightarrow> (\<forall>kv \<in> set (es_cursors s). 0 < snd kv)"

lemma cursor_get_nonneg: "cursors_nonneg s \<Longrightarrow> 0 \<le> getReconCursor s p"
  by (auto simp: cursors_nonneg_def getReconCursor_def split: option.splits dest!: map_of_SomeD)

lemma advance_nonneg:
  assumes "advanceReconCursor s p n = Inr s'" "cursors_nonneg s"
  shows "cursors_nonneg s' \<and> getReconCursor s' p = max (getReconCursor s p) n"
proof -
  have upd: "\<forall>kv \<in> set (AList.update p w xs). 0 < snd kv" if "\<forall>kv \<in> set xs. 0 < snd kv" "0 < w"
    for w and xs :: "(string \<times> int) list"
    using that by (induction xs) auto
  from assms(1) consider "n \<le> 0" "s' = s"
    | "0 < n" "s' = s\<lparr>es_cursors := jm_set p
         (case jm_get (es_cursors s) p of None \<Rightarrow> n | Some old \<Rightarrow> max old n) (es_cursors s)\<rparr>"
    by (auto simp: advanceReconCursor_def split: if_splits)
  then show ?thesis
  proof cases
    case 1
    with assms(2) cursor_get_nonneg [OF assms(2), of p] show ?thesis by simp
  next
    case 2
    let ?w = "case jm_get (es_cursors s) p of None \<Rightarrow> n | Some old \<Rightarrow> max old n"
    have "0 < ?w" using 2(1) by (auto split: option.splits simp: less_max_iff_disj)
    from upd [OF _ this, of "es_cursors s"] assms(2) 2 show ?thesis
      by (simp add: cursors_nonneg_def getReconCursor_def split: option.splits)
  qed
qed

lemma advance_all_max:
  "advance_all s p ns = Inr s' \<Longrightarrow> cursors_nonneg s \<Longrightarrow>
   cursors_nonneg s' \<and> getReconCursor s' p = fold max ns (getReconCursor s p)"
proof (induction ns arbitrary: s)
  case (Cons n ns)
  then obtain t where t: "advanceReconCursor s p n = Inr t" "advance_all t p ns = Inr s'"
    by (auto simp: res_bind_Inr_iff)
  from Cons.IH [OF t(2)] advance_nonneg [OF t(1) Cons.prems(2)] show ?case by (simp add: max.commute)
qed simp

section \<open>Runs of the store\<close>

text \<open>
  One rule per operation that writes the hot tables without archiving.  \<open>appendAll\<close> is a run of
  appends, and an operation that fails leaves the tables as they are.
\<close>

inductive store_step :: "store_config \<Rightarrow> event_store \<Rightarrow> event_store \<Rightarrow> bool" for cfg where
  step_append: "append cfg now s e = Inr s' \<Longrightarrow> store_step cfg s s'"
| step_softTag: "store_step cfg s (snd (softTagUntaggedEvents cfg s))"
| step_reclassifyProvenance:
    "reclassifyProvenance cfg s i t = Inr (res, s') \<Longrightarrow> store_step cfg s s'"
| step_reclassifyEntity: "reclassifyEntity s i x = Inr (res', s') \<Longrightarrow> store_step cfg s s'"
| step_claim: "claimDispatch s e h = Inr (won, s') \<Longrightarrow> store_step cfg s s'"
| step_backfill: "store_step cfg s (snd (backfillDispatchClaims s))"
| step_snapshot: "snapshot now s k a n body = Inr (r, s') \<Longrightarrow> store_step cfg s s'"
| step_prune: "store_step cfg s (snd (pruneSnapshots s k n))"
| step_advance: "advanceReconCursor s p n = Inr s' \<Longrightarrow> store_step cfg s s'"
| step_reset: "resetReconCursor s p = Inr s' \<Longrightarrow> store_step cfg s s'"

abbreviation store_run :: "store_config \<Rightarrow> event_store \<Rightarrow> event_store \<Rightarrow> bool" where
  "store_run cfg \<equiv> (store_step cfg)\<^sup>*\<^sup>*"

lemma store_step_inv: "store_step cfg s s' \<Longrightarrow> store_inv s \<Longrightarrow> store_inv s'"
  by (induction rule: store_step.induct) (auto intro: store_inv)

lemma store_run_inv: "store_run cfg s s' \<Longrightarrow> store_inv s \<Longrightarrow> store_inv s'"
  by (induction rule: rtranclp_induct) (auto intro: store_step_inv)

lemma claim_rows: "claimDispatch s e h = Inr (won, s') \<Longrightarrow> es_rows s' = es_rows s"
  by (auto dest!: claimDispatch_state)

lemma backfill_rows: "es_rows (snd (backfillDispatchClaims s)) = es_rows s"
  by (simp add: backfillDispatchClaims_def Let_def fold_insert_or_ignore(2))

lemma store_step_core:
  "store_step cfg s s' \<Longrightarrow> \<exists>new. map row_core (es_rows s') = map row_core (es_rows s) @ new"
proof (induction rule: store_step.induct)
  case (step_append now s e s')
  then show ?case by (rule append_InrE) simp
qed (simp_all add: softTag_core reclassify_core claim_rows backfill_rows snapshot_rows cursor_rows)

lemma store_run_core:
  "store_run cfg s s' \<Longrightarrow> \<exists>new. map row_core (es_rows s') = map row_core (es_rows s) @ new"
proof (induction rule: rtranclp_induct)
  case base
  then show ?case by simp
next
  case (step t u)
  then show ?case using store_step_core [OF step.hyps(2)] by fastforce
qed

section \<open>A concrete store\<close>

definition open_config :: store_config where
  "open_config = \<lparr>cfg_validatePayload = (\<lambda>_ _. True), cfg_categoryForEventType = (\<lambda>_. None),
     cfg_categoryPolicy = (\<lambda>_. Simulated), cfg_substrateActive = False, cfg_isUuid = (\<lambda>_. True)\<rparr>"

definition sample_event :: "string \<Rightarrow> string \<Rightarrow> string \<Rightarrow> (string \<times> jsval) list \<Rightarrow> event" where
  "sample_event i t d p =
     \<lparr>event_id = i, ev_type = t, as_of = d, entity = ''LE-ZA-HOZ-BANK'',
      ev_actor = \<lparr>actor_kind = ActorService, actor_id = ''agent:test''\<rparr>,
      citations = [''ORG-CY-01''], payload = p, provenance = None,
      aggregateId = None, aggregateLabel = None\<rparr>"

definition sample_row :: "nat \<Rightarrow> string \<Rightarrow> string \<Rightarrow> string \<Rightarrow> (string \<times> jsval) list \<Rightarrow> row" where
  "sample_row n i t d p =
     \<lparr>sequence = n, r_event_id = i, r_type = t, r_as_of = d, r_entity = ''LE-ZA-HOZ-BANK'',
      r_actor_type = ActorService, r_actor_id = ''agent:test'', r_citations = [''ORG-CY-01''],
      r_payload = p, r_recorded_at = ''now'', r_provenance = None, r_aggregate_id = None,
      r_aggregate_label = None\<rparr>"

lemma append_sample:
  assumes "json_rt_fields p = Some p" "i \<noteq> []" "t \<noteq> []" "d \<noteq> []" "\<not> es_readonly s"
    "i \<notin> r_event_id ` set (es_rows s)"
  shows "append open_config ''now'' s (sample_event i t d p) =
    Inr (s\<lparr>es_rows := es_rows s @ [sample_row (Suc (es_autoinc s)) i t d p],
           es_autoinc := Suc (es_autoinc s)\<rparr>)"
  using assms
  by (simp add: append_def insert_event_def eventSchema_def actorSchema_def open_config_def
      sample_event_def sample_row_def resolveProvenanceForAppend_def non_empty_opt_def Let_def)

section \<open>Properties\<close>

text \<open>
  A successful append extends the replayed log by exactly one event, the appended one in its
  stored form (payload after the JSON round trip, provenance in force), leaves every earlier
  event where it was, assigns a sequence number above every number ever used, and keeps the
  invariant of the tables.
\<close>

theorem append_extends_log:
  assumes "store_inv s" "append cfg now s e = Inr s'"
  shows "replay s' no_opts = replay s no_opts @ [stored_event cfg e] \<and>
    highWatermark s' = Suc (es_autoinc s) \<and> es_autoinc s' = Suc (es_autoinc s) \<and>
    count s' = Suc (count s) \<and> store_inv s'"
proof -
  from assms(2) have "es_autoinc s' = Suc (es_autoinc s)" "count s' = Suc (count s)"
    by (auto elim!: append_InrE simp: count_def)
  with append_log [OF assms(2,1)] append_highWatermark [OF assms(2,1)] append_inv [OF assms(2,1)]
  show ?thesis by simp
qed

theorem append_extends_log_witness:
  "\<exists>s'. append open_config ''now'' empty_store (sample_event ''e1'' ''T'' ''2026-01-01'' []) = Inr s' \<and>
     replay s' no_opts = [stored_event open_config (sample_event ''e1'' ''T'' ''2026-01-01'' [])] \<and>
     highWatermark s' = 1"
proof -
  obtain s' where a: "append open_config ''now'' empty_store
      (sample_event ''e1'' ''T'' ''2026-01-01'' []) = Inr s'"
    by (simp add: append_sample empty_store_def)
  from append_extends_log [OF store_inv_empty a] a show ?thesis
    by (auto simp: replay_no_opts [OF store_inv_empty]) (simp_all add: empty_store_def)
qed

text \<open>
  C34. A batch is atomic: when one event of it is rejected the store is the one before the call,
  and otherwise the log grows by exactly the stored forms of the batch, in the batch's order.
\<close>

theorem appendAll_atomic:
  assumes "store_inv s" "appendAll cfg now s es = (err, s')"
  shows "(if err = None then replay s' no_opts = replay s no_opts @ map (stored_event cfg) es
          else s' = s) \<and> store_inv s'"
  using assms append_batch_log [of cfg now s es s']
  by (auto simp: appendAll_def split: sum.splits)

theorem appendAll_atomic_witness:
  "appendAll open_config ''now'' empty_store
     [sample_event ''e1'' ''T'' ''2026-01-01'' [], sample_event ''e1'' ''T'' ''2026-01-02'' []]
     = (Some UniqueViolation, empty_store) \<and> store_inv empty_store"
proof -
  have a: "appendAll open_config ''now'' empty_store
     [sample_event ''e1'' ''T'' ''2026-01-01'' [], sample_event ''e1'' ''T'' ''2026-01-02'' []]
     = (Some UniqueViolation, empty_store)"
    by (simp add: appendAll_def append_sample empty_store_def)
      (simp add: append_def insert_event_def eventSchema_def actorSchema_def open_config_def
        sample_event_def sample_row_def resolveProvenanceForAppend_def non_empty_opt_def Let_def)
  from appendAll_atomic [OF store_inv_empty a] a show ?thesis by simp
qed

text \<open>
  C1. Whatever the operations do, and in whatever order they interleave, the log is append-only:
  every row keeps its position, its sequence number, its identity, its citations and its payload
  (reclassification rewrites the provenance tag and the entity column only), sequence numbers stay
  strictly increasing, event ids unique, and no row loses its citations.
\<close>

theorem store_run_append_only:
  assumes "store_inv s" "store_run cfg s s'"
  shows "store_inv s' \<and> (\<exists>new. map row_core (es_rows s') = map row_core (es_rows s) @ new)"
  using store_run_inv [OF assms(2,1)] store_run_core [OF assms(2)] by simp

theorem store_run_append_only_witness:
  "\<exists>s'. store_run open_config empty_store s' \<and> store_inv s' \<and> count s' = 1 \<and>
     map r_entity (es_rows s') = [''LE-UK'']"
proof -
  let ?s1 = "empty_store\<lparr>es_rows := [sample_row 1 ''e1'' ''T'' ''2026-01-01'' []], es_autoinc := 1\<rparr>"
  let ?s2 = "set_row ''e1'' (r_entity_update (\<lambda>_. ''LE-UK'')) ?s1"
  have "append open_config ''now'' empty_store (sample_event ''e1'' ''T'' ''2026-01-01'' []) = Inr ?s1"
    by (simp add: append_sample empty_store_def)
  moreover have "reclassifyEntity ?s1 ''e1'' ''LE-UK'' = Inr (Reclassified ''LE-ZA-HOZ-BANK'', ?s2)"
    by (simp add: reclassifyEntity_def find_row_def sample_row_def empty_store_def trim_def is_js_space_def)
  ultimately have run: "store_run open_config empty_store ?s2"
    by (meson step_append step_reclassifyEntity converse_rtranclp_into_rtranclp rtranclp.rtrancl_refl)
  from store_run_append_only [OF store_inv_empty run] run show ?thesis
    by (intro exI [of _ ?s2]) (simp add: count_def set_row_def sample_row_def empty_store_def)
qed

text \<open>
  Exactly one of the workers that race for a dispatch wins: in any interleaving of claim
  attempts over a writable store, each unclaimed pair of event and handler is won exactly once,
  a claimed one never, and all the attempted pairs end up claimed.
\<close>

theorem claim_exactly_once:
  assumes "\<not> es_readonly s" "\<forall>k \<in> set ks. fst k \<noteq> [] \<and> snd k \<noteq> []"
    "claim_run claim_pair s ks = (winners, s')"
  shows "set winners = {k \<in> set ks. \<not> isDispatchClaimed s (fst k) (snd k)} \<and> distinct winners \<and>
    (\<forall>k \<in> set ks. isDispatchClaimed s' (fst k) (snd k))"
  using claims.claim_run_winners [OF assms(1,2)] claims.claim_run_claimed [OF assms(1,2)] assms(3)
  by (simp add: isDispatchClaimed_def)

theorem claim_exactly_once_witness:
  "\<exists>winners s'. claim_run claim_pair empty_store [(''e1'', ''h''), (''e2'', ''h''), (''e1'', ''h'')]
      = (winners, s') \<and> winners = [(''e1'', ''h''), (''e2'', ''h'')] \<and> distinct winners"
proof -
  let ?ks = "[(''e1'', ''h''), (''e2'', ''h''), (''e1'', ''h'')]"
  obtain s' where r: "claim_run claim_pair empty_store ?ks = ([(''e1'', ''h''), (''e2'', ''h'')], s')"
    by (simp add: claim_pair_def claimDispatch_def insert_claim_def empty_store_def)
  have "\<not> es_readonly empty_store" by (simp add: empty_store_def)
  from claim_exactly_once [OF this _ r] r show ?thesis by simp
qed

text \<open>
  Writing a snapshot keeps at most five rows of its stream, drops none that is newer than one
  it keeps, leaves the other streams and the event log alone, and is idempotent on a row that is
  still stored: the second call returns that row and changes nothing, whatever its payload.
\<close>

theorem snapshot_bounded_idempotent:
  assumes "store_inv s" "length (snapshots_of s key) \<le> 5"
    "snapshot now s key asOf n body = Inr (r, s')"
  shows "length (snapshots_of s' key) \<le> 5 \<and>
    (\<forall>x \<in> set (snapshots_of s key) - set (snapshots_of s' key).
       \<forall>y \<in> set (snapshots_of s' key). uptoSequence x \<le> uptoSequence y) \<and>
    (\<forall>k. k \<noteq> key \<longrightarrow> snapshots_of s' k = snapshots_of s k) \<and> es_rows s' = es_rows s \<and>
    (r \<in> set (es_snapshots s') \<longrightarrow> snapshot now' s' key asOf n body' = Inr (r, s'))"
proof -
  from assms(3) have args: "key \<noteq> []" "asOf \<noteq> []" "\<not> n < 0" by (auto simp: snapshot_def split: if_splits)
  have again: "snapshot now' s' key asOf n body' = Inr (r, s')"
    if "r \<in> set (es_snapshots s')" "snap_key r = (key, asOf, n)" "store_inv s'"
    by (rule snapshot_again [OF args that])
  from assms(3) show ?thesis
  proof (cases rule: snapshot_cases)
    case 1
    with again assms(1,2) show ?thesis by auto
  next
    case 2
    let ?t = "s\<lparr>es_snapshots := es_snapshots s @ [r], es_snap_autoinc := Suc (es_snap_autoinc s)\<rparr>"
    have inv: "store_inv ?t" by (rule snapshot_pre_inv [OF assms(1) 2(1,2,4)])
    have mem: "x \<in> set (snapshots_of s key) \<Longrightarrow> x \<in> set (snapshots_of ?t key)" for x
      by (simp add: snapshots_of_def)
    have other: "k \<noteq> key \<Longrightarrow> snapshots_of ?t k = snapshots_of s k" for k
      using 2(2) by (simp add: snapshots_of_def)
    show ?thesis
      using again prune_bound [OF inv, of key 5] prune_keeps_newest [where k = key and n = 5, OF inv mem]
        other prune_inv [OF inv, of key 5] 2
      by (auto simp: prune_other_stream snap_key_def)
  qed
qed

theorem snapshot_bounded_idempotent_witness:
  "\<exists>r s'. snapshot ''now'' empty_store ''balances'' ''2026-01-31'' 7 ''{}'' = Inr (r, s') \<and>
     snapshot ''later'' s' ''balances'' ''2026-01-31'' 7 ''other'' = Inr (r, s')"
proof -
  obtain r s' where a: "snapshot ''now'' empty_store ''balances'' ''2026-01-31'' 7 ''{}'' = Inr (r, s')"
    and m: "r \<in> set (es_snapshots s')"
    by (simp add: snapshot_def empty_store_def Let_def pruneSnapshots_def snapshots_of_def by_upto_desc_def)
  have "length (snapshots_of empty_store ''balances'') \<le> 5" by (simp add: snapshots_of_def empty_store_def)
  from snapshot_bounded_idempotent [OF store_inv_empty this a] a m show ?thesis by blast
qed

text \<open>
  Snapshot plus delta is the full state: when no event recorded up to the snapshot takes
  effect between the snapshot's date and the date asked for, the delta that
  \<open>replayFromSnapshot\<close> yields is exactly what a full read as of that date adds to what the
  snapshot covers, in order, and under the same entity and type filter.
\<close>

theorem snapshot_delta_complete:
  assumes "store_inv s" "key \<noteq> []" "asOf \<noteq> []" "loadSnapshot s key asOf = Some snap"
    "skipped_rows s snap asOf = []"
  shows "\<exists>delta. replayFromSnapshot s key asOf fEntity fType = Inr delta \<and>
    replay s (as_of_opts None asOf fEntity fType) =
      replay s (as_of_opts (Some (uptoSequence snap)) (snap_asOf snap) fEntity fType) @ delta"
  by (rule snapshot_delta_split [OF assms])

definition sample_store :: "string \<Rightarrow> event_store" where
  "sample_store d = empty_store\<lparr>
     es_rows := [sample_row 1 ''e1'' ''T'' ''2026-01-10'' [], sample_row 2 ''e2'' ''T'' d [],
                 sample_row 3 ''e3'' ''T'' ''2026-02-01'' []], es_autoinc := 3,
     es_snapshots := [\<lparr>snap_id = 1, streamKey = ''k'', snap_asOf = ''2026-01-31'',
       uptoSequence = 2, snap_payload = ''{}'', snap_recordedAt = ''now''\<rparr>],
     es_snap_autoinc := 1\<rparr>"

lemma sample_store_inv: "store_inv (sample_store d)"
  by (auto simp: store_inv_def rows_inv_def snaps_inv_def sample_store_def empty_store_def sample_row_def)

lemma sample_store_load: "loadSnapshot (sample_store d) ''k'' ''2026-02-28'' =
    Some (hd (es_snapshots (sample_store d)))"
  by (simp add: loadSnapshot_def snapshots_of_def by_upto_desc_def sample_store_def empty_store_def)

lemma map_sum_Inr_iff: "map_sum id f x = Inr y \<longleftrightarrow> (\<exists>z. x = Inr z \<and> f z = y)"
  by (cases x) auto

lemma sample_store_delta:
  "map_sum id (map event_id) (replayFromSnapshot (sample_store ''2026-02-10'') ''k'' ''2026-02-28'' None None)
     = Inr [''e3'']"
  by code_simp

theorem snapshot_delta_complete_witness:
  "\<exists>delta. replayFromSnapshot (sample_store ''2026-01-20'') ''k'' ''2026-02-28'' None None = Inr delta \<and>
     map event_id delta = [''e3'']"
proof -
  have "skipped_rows (sample_store ''2026-01-20'')
      (hd (es_snapshots (sample_store ''2026-01-20''))) ''2026-02-28'' = []"
    by (simp add: skipped_rows_def sample_store_def empty_store_def sample_row_def)
  from snapshot_delta_complete [OF sample_store_inv _ _ sample_store_load this, of None None]
  show ?thesis
    by (auto simp: replay_filter [OF sample_store_inv])
      (auto simp: as_of_opts_def row_matches_def when_given_def sample_store_def
        empty_store_def sample_row_def row_to_event_def)
qed

text \<open>
  Without that condition snapshot plus delta loses events: an event recorded before the
  snapshot with a date after it (future-dated when the snapshot was taken) is neither in what the
  snapshot covers nor in the delta, although a full read as of the later date yields it.
\<close>

theorem snapshot_delta_loses_future_dated:
  "\<exists>s key asOf snap delta e.
     store_inv s \<and> loadSnapshot s key asOf = Some snap \<and>
     replayFromSnapshot s key asOf None None = Inr delta \<and>
     e \<in> set (replay s (as_of_opts None asOf None None)) \<and>
     e \<notin> set (replay s (as_of_opts (Some (uptoSequence snap)) (snap_asOf snap) None None)) \<and>
     e \<notin> set delta"
proof -
  let ?s = "sample_store ''2026-02-10''" and ?e = "row_to_event (sample_row 2 ''e2'' ''T'' ''2026-02-10'' [])"
  let ?snap = "hd (es_snapshots ?s)"
  obtain delta where d: "replayFromSnapshot ?s ''k'' ''2026-02-28'' None None = Inr delta"
    and e: "''e2'' \<notin> event_id ` set delta"
    using sample_store_delta by (force simp: map_sum_Inr_iff)
  have "''e2'' \<notin> event_id ` set (replay ?s (as_of_opts (Some (uptoSequence ?snap)) (snap_asOf ?snap) None None))"
    "?e \<in> set (replay ?s (as_of_opts None ''2026-02-28'' None None))"
    by code_simp+
  moreover have "event_id ?e = ''e2''" by code_simp
  ultimately have "?e \<notin> set delta" "?e \<in> set (replay ?s (as_of_opts None ''2026-02-28'' None None))"
    "?e \<notin> set (replay ?s (as_of_opts (Some (uptoSequence ?snap)) (snap_asOf ?snap) None None))"
    using e by (force simp: image_iff)+
  with d show ?thesis using sample_store_inv sample_store_load by (intro exI conjI)
qed

text \<open>
  A recon cursor is monotone and race-safe: any sequence of advances, in any order, leaves
  it at the maximum of its old value and the values offered.
\<close>

theorem recon_cursor_is_max:
  assumes "cursors_nonneg s" "advance_all s p ns = Inr s'"
  shows "getReconCursor s' p = fold max ns (getReconCursor s p) \<and> getReconCursor s p \<le> getReconCursor s' p"
proof -
  have "x \<le> fold max ns x" for x :: int
  proof (induction ns arbitrary: x)
    case (Cons n ns)
    then show ?case by (metis fold_simps(2) max.cobounded2 order_trans)
  qed simp
  with advance_all_max [OF assms(2,1)] show ?thesis by simp
qed

theorem recon_cursor_is_max_witness:
  "\<exists>s'. advance_all empty_store ''p'' [4, 9, -1, 7] = Inr s' \<and> getReconCursor s' ''p'' = 9"
proof -
  obtain s' where a: "advance_all empty_store ''p'' [4, 9, -1, 7] = Inr s'"
    by (simp add: advanceReconCursor_def empty_store_def)
  have "cursors_nonneg empty_store" by (simp add: cursors_nonneg_def empty_store_def)
  from recon_cursor_is_max [OF this a] a show ?thesis
    by (simp add: getReconCursor_def empty_store_def)
qed

end
