(* ===== verification/EventArchive.thy ===== *)
theory EventArchive
  imports EventStoreInv "HOL-Library.Multiset"
begin

text \<open>
  Cold archival: \<open>archiveEventsOlderThan\<close> and \<open>extractToArchivePartition\<close> of
  \<open>platform/event-store/store.ts\<close>, and the \<open>PartitionedEventStore\<close> of
  \<open>platform/event-store/partitioned-store.ts\<close> that replays cold files and the hot store as one
  log.  The state is the hot store and the files on disk.  What the code does not control is the
  record \<open>archive_env\<close>: the UUID drawn, the digest function, the step at which an I/O call
  throws, and what other processes do to the hot store while the call runs.
\<close>

section \<open>Hot store and files\<close>

datatype archive_file =
    ArchiveDb "row list"
  | OtherBytes string

record world =
  hot :: event_store
  files :: "string \<Rightarrow> archive_file option"

datatype archive_step = CopyStep | HashStep | RegisterStep | DeleteStep

record archive_env =
  env_uuid :: string
  env_sha256 :: "archive_file \<Rightarrow> string"
  env_fault :: "archive_step option"
  env_before_count :: "event_store \<Rightarrow> event_store"
  env_before_delete :: "event_store \<Rightarrow> event_store"

record archive_result =
  ar_partitionId :: string
  ar_minSeq :: nat
  ar_maxSeq :: nat
  ar_eventCount :: nat
  ar_sha256Hash :: string
  ar_archivePath :: string
  ar_byType :: "(string, nat) jsmap"
  ar_byEntity :: "(string, nat) jsmap"

definition insert_partition :: "event_store \<Rightarrow> partition_row \<Rightarrow> store_error + event_store" where
  "insert_partition s p =
     (if es_readonly s then Inl ReadonlyDatabase
      else if partition_id p \<in> partition_id ` set (es_partitions s) then Inl UniqueViolation
      else if path p \<in> path ` set (es_partitions s) then Inl UniqueViolation
      else Inr (s\<lparr>es_partitions := es_partitions s @ [p]\<rparr>))"

definition partition_for :: "archive_env \<Rightarrow> string \<Rightarrow> row list \<Rightarrow> partition_row" where
  "partition_for env archivePath rows =
     \<lparr>partition_id = env_uuid env, path = archivePath, min_sequence = sequence (hd rows),
      max_sequence = sequence (last rows), event_count = length rows,
      sha256_hash = env_sha256 env (ArchiveDb rows)\<rparr>"

section \<open>archiveEventsOlderThan\<close>

definition cold_rows :: "event_store \<Rightarrow> int \<Rightarrow> row list" where
  "cold_rows s cutoff = sort_key sequence (filter (\<lambda>r. int (sequence r) \<le> cutoff) (es_rows s))"

definition delete_cold :: "event_store \<Rightarrow> int \<Rightarrow> event_store" where
  "delete_cold s cutoff =
     s\<lparr>es_rows := filter (\<lambda>r. \<not> int (sequence r) \<le> cutoff) (es_rows s)\<rparr>"

text \<open>
  On an error the archive file is removed, so the file map is the one before the call.  The
  registry row and the delete are two separate transactions, as in the code.
\<close>

definition archiveEventsOlderThan ::
    "archive_env \<Rightarrow> world \<Rightarrow> int \<Rightarrow> string \<Rightarrow> (store_error + archive_result) \<times> world" where
  "archiveEventsOlderThan env w cutoffSequence archivePath =
     (if cutoffSequence \<le> 0 then (Inl InvalidArgument, w)
      else if archivePath = [] \<or> trim archivePath = [] then (Inl ArgumentRequired, w)
      else if files w archivePath \<noteq> None then (Inl ArchiveExists, w)
      else (let coldRows = cold_rows (hot w) cutoffSequence in
        if coldRows = [] then (Inl NothingToArchive, w)
        else if env_fault env = Some CopyStep then (Inl IoError, w)
        else (let s1 = env_before_count env (hot w); w1 = w\<lparr>hot := s1\<rparr> in
          if length coldRows \<noteq> length (filter (\<lambda>r. int (sequence r) \<le> cutoffSequence) (es_rows s1))
          then (Inl IntegrityMismatch, w1)
          else if env_fault env = Some HashStep then (Inl IoError, w1)
          else (let s2 = env_before_delete env s1; w2 = w\<lparr>hot := s2\<rparr>;
                    p = partition_for env archivePath coldRows in
            if env_fault env = Some RegisterStep then (Inl IoError, w2)
            else case insert_partition s2 p of
              Inl err \<Rightarrow> (Inl err, w2)
            | Inr s3 \<Rightarrow>
                if env_fault env = Some DeleteStep then (Inl IoError, w\<lparr>hot := s3\<rparr>)
                else (Inr \<lparr>ar_partitionId = partition_id p, ar_minSeq = min_sequence p,
                        ar_maxSeq = max_sequence p, ar_eventCount = event_count p,
                        ar_sha256Hash = sha256_hash p, ar_archivePath = archivePath,
                        ar_byType = [], ar_byEntity = []\<rparr>,
                      \<lparr>hot = delete_cold s3 cutoffSequence,
                       files = (files w)(archivePath \<mapsto> ArchiveDb coldRows)\<rparr>)))))"

section \<open>extractToArchivePartition\<close>

text \<open>
  A selection by explicit ids, or by an SQL predicate: the text of the clause and the rows it
  selects with its bound parameters.
\<close>

datatype extraction_selection =
    EventIds "string list"
  | Predicate string "row \<Rightarrow> bool"

text \<open>The code calls \<open>chunked\<close> with the size 500; on size 0 it would not return.\<close>

function chunked :: "'a list \<Rightarrow> nat \<Rightarrow> 'a list list" where
  "chunked items sz =
     (if items = [] \<or> sz = 0 then [] else take sz items # chunked (drop sz items) sz)"
  by pat_completeness auto
termination by (relation "measure (\<lambda>(items, sz). length items)") auto

declare chunked.simps [simp del]

definition unique_ids :: "string list \<Rightarrow> string list" where
  "unique_ids xs = rev (remdups (rev xs))"

definition selectExtractionRows :: "event_store \<Rightarrow> extraction_selection \<Rightarrow> store_error + row list" where
  "selectExtractionRows s selection =
     (case selection of
        EventIds eventIds \<Rightarrow>
          (let unique = unique_ids eventIds;
               rows = concat (map (\<lambda>chunk. filter (\<lambda>r. r_event_id r \<in> set chunk) (es_rows s))
                        (chunked unique 500))
           in if length rows \<noteq> length unique then Inl MissingEventIds
              else Inr (sort_key sequence rows))
      | Predicate whereText meaning \<Rightarrow>
          if trim whereText = [] then Inl ArgumentRequired
          else Inr (sort_key sequence (filter meaning (es_rows s))))"

text \<open>The chunked \<open>DELETE ... WHERE sequence IN (...)\<close>, with the number of rows it removed.\<close>

fun delete_sequences :: "nat list list \<Rightarrow> event_store \<Rightarrow> nat \<times> event_store" where
  "delete_sequences [] s = (0, s)"
| "delete_sequences (chunk # chunks) s =
     (let rest = filter (\<lambda>r. sequence r \<notin> set chunk) (es_rows s);
          (n, s') = delete_sequences chunks (s\<lparr>es_rows := rest\<rparr>)
      in (length (es_rows s) - length rest + n, s'))"

definition tally :: "(row \<Rightarrow> string) \<Rightarrow> row list \<Rightarrow> (string, nat) jsmap" where
  "tally f rows = fold (\<lambda>r m. jm_set (f r)
     (Suc (case jm_get m (f r) of None \<Rightarrow> 0 | Some n \<Rightarrow> n)) m) rows []"

definition final_tx :: "event_store \<Rightarrow> partition_row \<Rightarrow> row list \<Rightarrow> store_error + event_store" where
  "final_tx s p selectedRows =
     res_bind (insert_partition s p) (\<lambda>s1.
       case delete_sequences (chunked (map sequence selectedRows) 500) s1 of (deleted, s2) \<Rightarrow>
         if deleted \<noteq> length selectedRows then Inl IntegrityMismatch else Inr s2)"

definition extractToArchivePartition ::
    "archive_env \<Rightarrow> world \<Rightarrow> extraction_selection \<Rightarrow> string \<Rightarrow> (store_error + archive_result) \<times> world" where
  "extractToArchivePartition env w selection archivePath =
     (if es_readonly (hot w) then (Inl ReadonlyDatabase, w)
      else if archivePath = [] \<or> trim archivePath = [] then (Inl ArgumentRequired, w)
      else if files w archivePath \<noteq> None then (Inl ArchiveExists, w)
      else case selectExtractionRows (hot w) selection of
        Inl err \<Rightarrow> (Inl err, w)
      | Inr selectedRows \<Rightarrow>
          if selectedRows = [] then (Inl NothingToArchive, w)
          else if env_fault env \<in> {Some CopyStep, Some HashStep} then (Inl IoError, w)
          else (let s1 = env_before_delete env (hot w); w1 = w\<lparr>hot := s1\<rparr>;
                    p = partition_for env archivePath selectedRows in
            if env_fault env \<in> {Some RegisterStep, Some DeleteStep} then (Inl IoError, w1)
            else case final_tx s1 p selectedRows of
              Inl err \<Rightarrow> (Inl err, w1)
            | Inr s2 \<Rightarrow>
                (Inr \<lparr>ar_partitionId = partition_id p, ar_minSeq = min_sequence p,
                   ar_maxSeq = max_sequence p, ar_eventCount = event_count p,
                   ar_sha256Hash = sha256_hash p, ar_archivePath = archivePath,
                   ar_byType = tally r_type selectedRows,
                   ar_byEntity = tally r_entity selectedRows\<rparr>,
                 \<lparr>hot = s2, files = (files w)(archivePath \<mapsto> ArchiveDb selectedRows)\<rparr>)))"

section \<open>The partitioned store\<close>

definition listArchivePartitions :: "event_store \<Rightarrow> partition_row list" where
  "listArchivePartitions s = sort_key min_sequence (es_partitions s)"

definition openColdStore :: "world \<Rightarrow> partition_row \<Rightarrow> store_error + event_store" where
  "openColdStore w p =
     (case files w (path p) of
        None \<Rightarrow> Inl ArchiveFileMissing
      | Some (OtherBytes _) \<Rightarrow> Inl NotADatabase
      | Some (ArchiveDb rows) \<Rightarrow> Inr (empty_store\<lparr>es_rows := rows, es_readonly := True\<rparr>))"

fun replay_cold ::
    "world \<Rightarrow> replay_opts \<Rightarrow> partition_row list \<Rightarrow> store_error + event list" where
  "replay_cold w opts [] = Inr []"
| "replay_cold w opts (p # ps) =
     (if int (max_sequence p) < (case fromSequence opts of None \<Rightarrow> 1 | Some n \<Rightarrow> n)
      then replay_cold w opts ps
      else res_bind (openColdStore w p) (\<lambda>cold.
        res_bind (replay_cold w opts ps) (\<lambda>es. Inr (replay cold opts @ es))))"

definition partitioned_replay :: "world \<Rightarrow> replay_opts \<Rightarrow> store_error + event list" where
  "partitioned_replay w opts =
     res_bind (replay_cold w opts (listArchivePartitions (hot w))) (\<lambda>es.
       Inr (es @ replay (hot w) opts))"

datatype verify_error = FileNotFound | HashMismatch

definition verifyArchiveIntegrity ::
    "(archive_file \<Rightarrow> string) \<Rightarrow> world \<Rightarrow> (string \<times> verify_error option) list" where
  "verifyArchiveIntegrity sha256 w = map (\<lambda>p.
     (partition_id p,
      case files w (path p) of
        None \<Rightarrow> Some FileNotFound
      | Some f \<Rightarrow> if sha256 f = sha256_hash p then None else Some HashMismatch))
     (listArchivePartitions (hot w))"

end
