(* ===== verification/EventArchiveInv.thy ===== *)
theory EventArchiveInv
  imports EventArchive
begin

text \<open>
  Correctness of archival: moving events to a cold file never loses, duplicates or alters one, the
  partitioned replay of a chronological archive is unchanged by archiving, failures are atomic,
  and the three situations in which one of these promises does not hold.
\<close>

section \<open>The history spread over files and hot store\<close>

definition partition_rows :: "world \<Rightarrow> partition_row \<Rightarrow> row list" where
  "partition_rows w p = (case files w (path p) of Some (ArchiveDb rows) \<Rightarrow> rows | _ \<Rightarrow> [])"

definition world_log :: "world \<Rightarrow> row list" where
  "world_log w =
     concat (map (partition_rows w) (listArchivePartitions (hot w))) @ es_rows (hot w)"

definition partition_ok :: "(archive_file \<Rightarrow> string) \<Rightarrow> world \<Rightarrow> partition_row \<Rightarrow> bool" where
  "partition_ok sha w p \<longleftrightarrow>
     (\<exists>rows. files w (path p) = Some (ArchiveDb rows) \<and> rows \<noteq> [] \<and>
        sorted_wrt (<) (map sequence rows) \<and> (\<forall>r \<in> set rows. 0 < sequence r) \<and>
        min_sequence p = sequence (hd rows) \<and> max_sequence p = sequence (last rows) \<and>
        event_count p = length rows \<and> sha256_hash p = sha (ArchiveDb rows))"

definition world_inv :: "(archive_file \<Rightarrow> string) \<Rightarrow> world \<Rightarrow> bool" where
  "world_inv sha w \<longleftrightarrow>
     store_inv (hot w) \<and> (\<forall>p \<in> set (es_partitions (hot w)). partition_ok sha w p)"

definition chronological :: "world \<Rightarrow> bool" where
  "chronological w \<longleftrightarrow> sorted_wrt (<) (map sequence (world_log w))"

lemma sorted_wrt_last: "sorted_wrt (<) (map (f :: 'a \<Rightarrow> nat) xs) \<Longrightarrow> x \<in> set xs \<Longrightarrow> f x \<le> f (last xs)"
  by (induction xs) (auto intro: less_imp_le)

lemma set_listArchivePartitions [simp]: "set (listArchivePartitions s) = set (es_partitions s)"
  by (simp add: listArchivePartitions_def)

lemma partition_rows_ok:
  assumes "partition_ok sha w p"
  obtains "files w (path p) = Some (ArchiveDb (partition_rows w p))" "partition_rows w p \<noteq> []"
    "sorted_wrt (<) (map sequence (partition_rows w p))" "\<forall>r \<in> set (partition_rows w p). 0 < sequence r"
    "min_sequence p = sequence (hd (partition_rows w p))"
    "max_sequence p = sequence (last (partition_rows w p))"
    "event_count p = length (partition_rows w p)"
    "sha256_hash p = sha (ArchiveDb (partition_rows w p))"
  using assms by (auto simp: partition_ok_def partition_rows_def)

lemma replay_rows_sorted:
  "sorted_wrt (<) (map sequence (es_rows s)) \<Longrightarrow>
   replay s opts = map row_to_event (filter (row_matches opts) (es_rows s))"
  by (simp add: replay_def replay_rows_def sort_key_filter_sorted)

lemma replay_cold_rows:
  "\<forall>p \<in> set ps. partition_ok sha w p \<Longrightarrow>
   replay_cold w opts ps =
     Inr (map row_to_event (filter (row_matches opts) (concat (map (partition_rows w) ps))))"
proof (induction ps)
  case Nil
  then show ?case by simp
next
  case (Cons p ps)
  then have ok: "partition_ok sha w p" and IH: "replay_cold w opts ps =
     Inr (map row_to_event (filter (row_matches opts) (concat (map (partition_rows w) ps))))" by simp_all
  let ?from = "case fromSequence opts of None \<Rightarrow> 1 | Some n \<Rightarrow> n"
  from ok show ?case
  proof (rule partition_rows_ok)
    let ?rows = "partition_rows w p"
    assume f: "files w (path p) = Some (ArchiveDb ?rows)" and ne: "?rows \<noteq> []"
      and srt: "sorted_wrt (<) (map sequence ?rows)" and pos: "\<forall>r \<in> set ?rows. 0 < sequence r"
      and mx: "max_sequence p = sequence (last ?rows)"
    show ?case
    proof (cases "int (max_sequence p) < ?from")
      case True
      have "\<not> row_matches opts r" if "r \<in> set ?rows" for r
        using sorted_wrt_last [OF srt that] True mx pos that
        by (fastforce simp: row_matches_def split: option.splits)
      with True IH show ?thesis by simp
    next
      case False
      have "openColdStore w p = Inr (empty_store\<lparr>es_rows := ?rows, es_readonly := True\<rparr>)"
        by (simp add: openColdStore_def f)
      with False IH srt show ?thesis by (simp add: replay_rows_sorted)
    qed
  qed
qed

lemma partitioned_replay_log:
  assumes "world_inv sha w"
  shows "partitioned_replay w opts = Inr (map row_to_event (filter (row_matches opts) (world_log w)))"
proof -
  from assms have "\<forall>p \<in> set (listArchivePartitions (hot w)). partition_ok sha w p"
    by (simp add: world_inv_def)
  from replay_cold_rows [OF this] assms show ?thesis
    by (simp add: partitioned_replay_def world_log_def replay_filter world_inv_def)
qed

lemma mset_concat_sort_key:
  "mset (concat (map g (sort_key f xs))) = mset (concat (map g xs))"
  by (simp add: mset_concat sum_mset_sum_list [symmetric])

lemma mset_world_log:
  "mset (world_log w) = mset (concat (map (partition_rows w) (es_partitions (hot w)))) + mset (es_rows (hot w))"
  by (simp add: world_log_def listArchivePartitions_def mset_concat_sort_key)

lemma sort_key_snoc:
  "\<forall>y \<in> set xs. f y \<le> (f x :: nat) \<Longrightarrow> sort_key f (xs @ [x]) = sort_key f xs @ [x]"
proof (induction xs)
  case (Cons y ys)
  have "insort_key f y (zs @ [x]) = insort_key f y zs @ [x]" if "f y \<le> f x" for zs
    using that by (induction zs) auto
  with Cons show ?case by simp
qed simp

section \<open>Moving rows into a new partition\<close>

text \<open>
  What both operations do when they succeed: the hot rows selected by \<open>sel\<close> become the file of a
  new partition, the other rows stay.
\<close>

definition moved :: "archive_env \<Rightarrow> world \<Rightarrow> event_store \<Rightarrow> string \<Rightarrow> row list \<Rightarrow> world \<Rightarrow> bool" where
  "moved env w s archivePath sel w' \<longleftrightarrow>
     files w archivePath = None \<and> sel \<noteq> [] \<and>
     (\<exists>s'. w' = \<lparr>hot = s', files = (files w)(archivePath \<mapsto> ArchiveDb sel)\<rparr> \<and>
        s' = s\<lparr>es_partitions := es_partitions s @ [partition_for env archivePath sel],
               es_rows := filter (\<lambda>r. sequence r \<notin> sequence ` set sel) (es_rows s)\<rparr>)"

lemma moved_rows:
  assumes "moved env w s archivePath sel w'" "\<forall>p \<in> set (es_partitions s). partition_ok sha w p"
    "p \<in> set (es_partitions s)"
  shows "partition_rows w' p = partition_rows w p \<and> partition_ok sha w' p"
proof -
  from assms have "path p \<noteq> archivePath" by (auto simp: moved_def partition_ok_def)
  with assms show ?thesis by (auto simp: moved_def partition_rows_def partition_ok_def)
qed

lemma moved_new_partition:
  assumes "moved env w s archivePath sel w'"
  shows "partition_rows w' (partition_for env archivePath sel) = sel"
  using assms by (auto simp: moved_def partition_rows_def partition_for_def)

lemma moved_inv:
  assumes mv: "moved env w s archivePath sel w'" and inv: "world_inv (env_sha256 env) (w\<lparr>hot := s\<rparr>)"
    and srt: "sorted_wrt (<) (map sequence sel)" and pos: "\<forall>r \<in> set sel. 0 < sequence r"
  shows "world_inv (env_sha256 env) w'"
proof -
  let ?sha = "env_sha256 env" and ?p = "partition_for env archivePath sel"
  have old: "\<forall>p \<in> set (es_partitions s). partition_ok ?sha w p"
    using inv by (auto simp: world_inv_def partition_ok_def)
  have "store_inv (hot w')"
    using mv inv by (auto simp: moved_def world_inv_def store_inv_def rows_inv_def
        sorted_wrt_filter distinct_map_filter sorted_wrt_map)
  moreover have "partition_ok ?sha w' ?p"
    using mv srt pos by (auto simp: moved_def partition_ok_def partition_for_def)
  moreover have "\<forall>p \<in> set (es_partitions s). partition_ok ?sha w' p"
    using moved_rows [OF mv old] by blast
  ultimately show ?thesis using mv by (auto simp: world_inv_def moved_def)
qed

lemma moved_mset:
  assumes mv: "moved env w s archivePath sel w'" and inv: "world_inv sha (w\<lparr>hot := s\<rparr>)"
    and sel: "mset sel = mset (filter (\<lambda>r. sequence r \<in> sequence ` set sel) (es_rows s))"
  shows "mset (world_log w') = mset (world_log (w\<lparr>hot := s\<rparr>))"
proof -
  have old: "\<forall>p \<in> set (es_partitions s). partition_ok sha w p"
    using inv by (auto simp: world_inv_def partition_ok_def)
  have "concat (map (partition_rows w') (es_partitions s)) =
      concat (map (partition_rows (w\<lparr>hot := s\<rparr>)) (es_partitions s))"
    using moved_rows [OF mv old] by (intro arg_cong [where f = concat]) (simp add: partition_rows_def)
  moreover have "es_partitions (hot w') = es_partitions s @ [partition_for env archivePath sel]"
    "es_rows (hot w') = filter (\<lambda>r. sequence r \<notin> sequence ` set sel) (es_rows s)"
    using mv by (auto simp: moved_def)
  ultimately have "mset (world_log w') = mset (concat (map (partition_rows (w\<lparr>hot := s\<rparr>)) (es_partitions s)))
      + (mset sel + mset (filter (\<lambda>r. sequence r \<notin> sequence ` set sel) (es_rows s)))"
    using moved_new_partition [OF mv] by (simp add: mset_world_log)
  also have "mset sel + mset (filter (\<lambda>r. sequence r \<notin> sequence ` set sel) (es_rows s)) = mset (es_rows s)"
    unfolding sel by (simp only: mset_filter multiset_partition [symmetric])
  finally show ?thesis by (simp add: mset_world_log)
qed

lemma chronological_min:
  assumes inv: "world_inv sha (w\<lparr>hot := s\<rparr>)" and chron: "chronological (w\<lparr>hot := s\<rparr>)"
    and p: "p \<in> set (es_partitions s)" and r: "r \<in> set (es_rows s)"
  shows "min_sequence p \<le> sequence r"
proof -
  have ok: "partition_ok sha (w\<lparr>hot := s\<rparr>) p" using inv p by (simp add: world_inv_def)
  then have "partition_rows (w\<lparr>hot := s\<rparr>) p \<noteq> []"
    "min_sequence p = sequence (hd (partition_rows (w\<lparr>hot := s\<rparr>) p))"
    by (auto elim: partition_rows_ok)
  moreover from this p have "hd (partition_rows (w\<lparr>hot := s\<rparr>) p) \<in>
      set (concat (map (partition_rows (w\<lparr>hot := s\<rparr>)) (listArchivePartitions s)))"
    by (auto intro: hd_in_set)
  ultimately show ?thesis
    using chron r by (fastforce simp: chronological_def world_log_def sorted_wrt_append)
qed

text \<open>Moving a prefix of the hot rows of a chronological archive leaves the history as it is.\<close>

lemma moved_chronological:
  assumes mv: "moved env w s archivePath sel w'" and inv: "world_inv sha (w\<lparr>hot := s\<rparr>)"
    and chron: "chronological (w\<lparr>hot := s\<rparr>)"
    and pre: "es_rows s = sel @ filter (\<lambda>r. sequence r \<notin> sequence ` set sel) (es_rows s)"
  shows "world_log w' = world_log (w\<lparr>hot := s\<rparr>)"
proof -
  let ?p = "partition_for env archivePath sel"
  have old: "\<forall>p \<in> set (es_partitions s). partition_ok sha w p"
    using inv by (auto simp: world_inv_def partition_ok_def)
  have ne: "sel \<noteq> []" and hot: "es_partitions (hot w') = es_partitions s @ [?p]"
    "es_rows (hot w') = filter (\<lambda>r. sequence r \<notin> sequence ` set sel) (es_rows s)"
    using mv by (auto simp: moved_def)
  have "hd sel \<in> set (es_rows s)" using pre ne by (metis Un_iff hd_in_set set_append)
  with chronological_min [OF inv chron] have "\<forall>p \<in> set (es_partitions s). min_sequence p \<le> min_sequence ?p"
    by (simp add: partition_for_def)
  with hot have "listArchivePartitions (hot w') = listArchivePartitions s @ [?p]"
    by (simp add: listArchivePartitions_def sort_key_snoc)
  moreover have "concat (map (partition_rows w') (listArchivePartitions s)) =
      concat (map (partition_rows (w\<lparr>hot := s\<rparr>)) (listArchivePartitions s))"
    using moved_rows [OF mv old] by (intro arg_cong [where f = concat]) (simp add: partition_rows_def)
  moreover have "es_rows (hot (w\<lparr>hot := s\<rparr>)) = sel @ es_rows (hot w')" using hot(2) pre by simp
  ultimately show ?thesis by (simp add: world_log_def moved_new_partition [OF mv])
qed

section \<open>The two operations\<close>

lemma insert_partition_Inr:
  "insert_partition s p = Inr s' \<Longrightarrow> s' = s\<lparr>es_partitions := es_partitions s @ [p]\<rparr>"
  by (auto simp: insert_partition_def split: if_splits)

lemma cold_rows_filter:
  "store_inv s \<Longrightarrow> cold_rows s n = filter (\<lambda>r. int (sequence r) \<le> n) (es_rows s)"
  by (simp add: cold_rows_def store_inv_def rows_inv_def sort_key_filter_sorted)

lemma archive_InrE:
  assumes "archiveEventsOlderThan env w n archivePath = (Inr res, w')"
  obtains s where "s = env_before_delete env (env_before_count env (hot w))"
    "files w archivePath = None" "cold_rows (hot w) n \<noteq> []"
    "w' = \<lparr>hot = delete_cold (s\<lparr>es_partitions := es_partitions s @
              [partition_for env archivePath (cold_rows (hot w) n)]\<rparr>) n,
           files = (files w)(archivePath \<mapsto> ArchiveDb (cold_rows (hot w) n))\<rparr>"
  using assms
  by (auto simp: archiveEventsOlderThan_def Let_def dest!: insert_partition_Inr
      split: if_splits sum.splits)

text \<open>Other processes that only append above the cutoff while the call runs do not disturb it.\<close>

lemma archive_moved:
  assumes ar: "archiveEventsOlderThan env w n archivePath = (Inr res, w')"
    and s: "s = env_before_delete env (env_before_count env (hot w))"
    and app: "es_rows s = es_rows (hot w) @ new" and new: "\<forall>r \<in> set new. n < int (sequence r)"
    and inv: "store_inv (hot w)"
  shows "moved env w s archivePath (cold_rows (hot w) n) w'"
    "es_rows s = cold_rows (hot w) n @
       filter (\<lambda>r. sequence r \<notin> sequence ` set (cold_rows (hot w) n)) (es_rows s)"
proof -
  let ?C = "cold_rows (hot w) n"
  have cold: "?C = filter (\<lambda>r. int (sequence r) \<le> n) (es_rows s)"
    using new by (auto simp: cold_rows_filter [OF inv] app filter_empty_conv)
  then have keep: "\<not> int (sequence r) \<le> n \<longleftrightarrow> sequence r \<notin> sequence ` set ?C" if "r \<in> set (es_rows s)" for r
    using that by auto
  have "filter (\<lambda>r. \<not> int (sequence r) \<le> n) (es_rows s) = filter (\<lambda>r. sequence r \<notin> sequence ` set ?C) (es_rows s)"
    by (rule filter_cong [OF refl keep])
  with ar s show "moved env w s archivePath ?C w'"
    by (elim archive_InrE) (simp add: moved_def delete_cold_def)
  have "sorted_wrt (<) (map sequence (es_rows (hot w)))" using inv by (simp add: store_inv_def rows_inv_def)
  from filter_split_sequence [OF this, of "\<lambda>_. True" n]
  have hot: "es_rows (hot w) = ?C @ filter (\<lambda>r. n < int (sequence r)) (es_rows (hot w))"
    by (simp add: cold_rows_filter [OF inv])
  have "filter (\<lambda>r. n < int (sequence r)) (es_rows s) =
      filter (\<lambda>r. n < int (sequence r)) (es_rows (hot w)) @ new"
    using new by (simp add: app)
  with hot app have "es_rows s = ?C @ filter (\<lambda>r. n < int (sequence r)) (es_rows s)"
    by (metis append_assoc)
  moreover have "filter (\<lambda>r. n < int (sequence r)) (es_rows s) =
      filter (\<lambda>r. sequence r \<notin> sequence ` set ?C) (es_rows s)"
    by (rule filter_cong [OF refl]) (simp only: not_le [symmetric] keep)
  ultimately show "es_rows s = ?C @ filter (\<lambda>r. sequence r \<notin> sequence ` set ?C) (es_rows s)"
    by simp
qed

lemma concat_chunked: "0 < n \<Longrightarrow> concat (chunked xs n) = xs"
proof (induction xs n rule: chunked.induct)
  case (1 xs n)
  then show ?case by (subst chunked.simps) auto
qed

lemma set_unique_ids [simp]: "set (unique_ids xs) = set xs"
  and distinct_unique_ids [simp]: "distinct (unique_ids xs)"
  by (simp_all add: unique_ids_def)

lemma distinct_chunk_select:
  assumes "distinct (map sequence rs)" "inj_on r_event_id (set rs)" "distinct (concat chunks)"
  shows "distinct (map sequence (concat (map (\<lambda>c. filter (\<lambda>r. r_event_id r \<in> set c) rs) chunks)))"
  using assms(3)
proof (induction chunks)
  case (Cons c cs)
  let ?F = "\<lambda>c. filter (\<lambda>r. r_event_id r \<in> set c) rs"
  have inj: "inj_on sequence (set rs)" using assms(1) by (simp add: distinct_map)
  have "set (map sequence (?F c)) \<inter> set (map sequence (concat (map ?F cs))) = {}"
    using Cons.prems inj by (auto simp: inj_on_def)
  moreover have "distinct (map sequence (?F c))" using assms(1) by (rule distinct_map_filter)
  ultimately show ?case using Cons by simp
qed simp

lemma selectExtractionRows_Inr:
  assumes sel: "selectExtractionRows s selection = Inr rows" and inv: "store_inv s"
  shows "sorted_wrt (<) (map sequence rows)" "set rows \<subseteq> set (es_rows s)"
proof -
  note dist = store_inv_distinct [OF inv]
  have "\<exists>xs. rows = sort_key sequence xs \<and> distinct (map sequence xs) \<and> set xs \<subseteq> set (es_rows s)"
  proof (cases selection)
    case (EventIds ids)
    let ?xs = "concat (map (\<lambda>c. filter (\<lambda>r. r_event_id r \<in> set c) (es_rows s)) (chunked (unique_ids ids) 500))"
    have "distinct (concat (chunked (unique_ids ids) 500))" by (simp add: concat_chunked)
    from distinct_chunk_select [OF dist this] sel EventIds show ?thesis
      by (intro exI [of _ ?xs]) (auto simp: selectExtractionRows_def Let_def split: if_splits)
  next
    case (Predicate t f)
    with sel dist show ?thesis
      by (intro exI [of _ "filter f (es_rows s)"])
        (auto simp: selectExtractionRows_def distinct_map_filter split: if_splits)
  qed
  then obtain xs where xs: "rows = sort_key sequence xs" "distinct (map sequence xs)" "set xs \<subseteq> set (es_rows s)"
    by blast
  then show "set rows \<subseteq> set (es_rows s)" by simp
  have "distinct (map sequence rows)" using xs(1,2) by (simp add: distinct_map distinct_sort)
  moreover have "sorted (map sequence rows)" using xs(1) by simp
  ultimately show "sorted_wrt (<) (map sequence rows)" by (simp add: strict_sorted_iff)
qed

lemma delete_sequences_eq:
  "delete_sequences chunks s = (n, s') \<Longrightarrow>
   s' = s\<lparr>es_rows := filter (\<lambda>r. sequence r \<notin> set (concat chunks)) (es_rows s)\<rparr> \<and>
   n = length (filter (\<lambda>r. sequence r \<in> set (concat chunks)) (es_rows s))"
proof (induction chunks arbitrary: s n)
  case Nil
  then show ?case by simp
next
  case (Cons c cs)
  let ?t = "s\<lparr>es_rows := filter (\<lambda>r. sequence r \<notin> set c) (es_rows s)\<rparr>"
  from Cons.prems obtain m where m: "delete_sequences cs ?t = (m, s')"
    "n = length (es_rows s) - length (es_rows ?t) + m"
    by (auto simp: Let_def split: prod.splits)
  have "length (es_rows s) = length (es_rows ?t) + length (filter (\<lambda>r. sequence r \<in> set c) (es_rows s))"
    using sum_length_filter_compl [of "\<lambda>r. sequence r \<in> set c" "es_rows s"] by simp
  moreover have "length (filter (\<lambda>r. sequence r \<in> set c) xs) +
      length (filter (\<lambda>r. sequence r \<notin> set c \<and> sequence r \<in> set (concat cs)) xs) =
      length (filter (\<lambda>r. sequence r \<in> set (concat (c # cs))) xs)" for xs
    by (induction xs) auto
  ultimately show ?case using Cons.IH [OF m(1)] m(2)
    by (auto simp: conj_commute intro: filter_cong)
qed

lemma final_tx_Inr:
  assumes "final_tx s p rows = Inr s'"
  shows "s' = s\<lparr>es_partitions := es_partitions s @ [p],
             es_rows := filter (\<lambda>r. sequence r \<notin> sequence ` set rows) (es_rows s)\<rparr>"
    "length (filter (\<lambda>r. sequence r \<in> sequence ` set rows) (es_rows s)) = length rows"
proof -
  let ?t = "s\<lparr>es_partitions := es_partitions s @ [p]\<rparr>"
  obtain n u where d: "delete_sequences (chunked (map sequence rows) 500) ?t = (n, u)" by fastforce
  with assms have "s' = u" "n = length rows"
    by (auto simp: final_tx_def res_bind_Inr_iff dest!: insert_partition_Inr split: if_splits)
  with delete_sequences_eq [OF d] show
    "s' = s\<lparr>es_partitions := es_partitions s @ [p],
             es_rows := filter (\<lambda>r. sequence r \<notin> sequence ` set rows) (es_rows s)\<rparr>"
    "length (filter (\<lambda>r. sequence r \<in> sequence ` set rows) (es_rows s)) = length rows"
    by (simp_all add: concat_chunked)
qed

lemma extract_InrE:
  assumes "extractToArchivePartition env w selection archivePath = (Inr res, w')"
  obtains rows where "selectExtractionRows (hot w) selection = Inr rows"
    "moved env w (env_before_delete env (hot w)) archivePath rows w'"
    "length (filter (\<lambda>r. sequence r \<in> sequence ` set rows) (es_rows (env_before_delete env (hot w))))
       = length rows"
proof -
  from assms obtain rows s2 where "selectExtractionRows (hot w) selection = Inr rows" "rows \<noteq> []"
    "files w archivePath = None"
    "final_tx (env_before_delete env (hot w)) (partition_for env archivePath rows) rows = Inr s2"
    "w' = \<lparr>hot = s2, files = (files w)(archivePath \<mapsto> ArchiveDb rows)\<rparr>"
    by (auto simp: extractToArchivePartition_def Let_def split: if_splits sum.splits)
  with final_tx_Inr that show thesis by (auto simp: moved_def)
qed

lemma mset_select:
  assumes "sorted_wrt (<) (map sequence sel)" "set sel \<subseteq> set rs" "distinct (map sequence rs)"
  shows "mset sel = mset (filter (\<lambda>r. sequence r \<in> sequence ` set sel) rs)"
proof -
  have "distinct sel" using assms(1) by (auto simp: strict_sorted_iff distinct_map)
  moreover have "distinct (filter (\<lambda>r. sequence r \<in> sequence ` set sel) rs)"
    using assms(3) by (simp add: distinct_map)
  moreover have "set (filter (\<lambda>r. sequence r \<in> sequence ` set sel) rs) = set sel"
    using assms(2,3) by (auto simp: distinct_map dest: inj_onD)
  ultimately show ?thesis by (metis set_eq_iff_mset_eq_distinct)
qed

section \<open>Failures\<close>

definition quiet :: "archive_env \<Rightarrow> bool" where
  "quiet env \<longleftrightarrow> (\<forall>s. env_before_count env s = s) \<and> (\<forall>s. env_before_delete env s = s)"

lemma archive_Inl:
  "archiveEventsOlderThan env w n archivePath = (Inl err, w') \<Longrightarrow> quiet env \<Longrightarrow>
   env_fault env \<noteq> Some DeleteStep \<Longrightarrow> w' = w"
  by (auto simp: archiveEventsOlderThan_def Let_def quiet_def split: if_splits sum.splits)

lemma extract_Inl:
  "extractToArchivePartition env w selection archivePath = (Inl err, w') \<Longrightarrow> quiet env \<Longrightarrow> w' = w"
  by (auto simp: extractToArchivePartition_def Let_def quiet_def split: if_splits sum.splits)

section \<open>Runs over hot store and archive\<close>

lemma insert_or_ignore_partitions:
  "es_partitions (fold (\<lambda>k st. insert_or_ignore st k) ks s) = es_partitions s"
proof (induction ks arbitrary: s)
  case (Cons k ks)
  show ?case by (simp add: Cons.IH) (simp add: insert_or_ignore_def)
qed simp

lemma store_step_partitions: "store_step cfg s s' \<Longrightarrow> es_partitions s' = es_partitions s"
proof (induction rule: store_step.induct)
  case (step_append now s e s')
  then show ?case by (rule append_InrE) simp
next
  case (step_snapshot now s k a n body r s')
  then show ?case by (cases rule: snapshot_cases) (simp_all add: pruneSnapshots_def Let_def)
next
  case (step_backfill s)
  show ?case by (simp add: backfillDispatchClaims_def Let_def insert_or_ignore_partitions)
qed (auto simp: softTagUntaggedEvents_def set_row_def pruneSnapshots_def Let_def
    advanceReconCursor_def resetReconCursor_def split: if_splits
    dest!: reclassifyProvenance_state reclassifyEntity_state claimDispatch_state)

inductive world_step :: "store_config \<Rightarrow> (archive_file \<Rightarrow> string) \<Rightarrow> world \<Rightarrow> world \<Rightarrow> bool"
  for cfg sha where
  hot_step: "store_step cfg (hot w) s' \<Longrightarrow> world_step cfg sha w (w\<lparr>hot := s'\<rparr>)"
| archive_step: "archiveEventsOlderThan env w n archivePath = (res, w') \<Longrightarrow> quiet env \<Longrightarrow>
    env_sha256 env = sha \<Longrightarrow> env_fault env \<noteq> Some DeleteStep \<Longrightarrow> world_step cfg sha w w'"
| extract_step: "extractToArchivePartition env w selection archivePath = (res, w') \<Longrightarrow> quiet env \<Longrightarrow>
    env_sha256 env = sha \<Longrightarrow> world_step cfg sha w w'"

lemma archive_step_inv:
  assumes ar: "archiveEventsOlderThan env w n archivePath = (Inr res, w')"
    and s: "s = env_before_delete env (env_before_count env (hot w))"
    and app: "es_rows s = es_rows (hot w) @ new" and new: "\<forall>r \<in> set new. n < int (sequence r)"
    and inv: "store_inv (hot w)" and inv': "world_inv (env_sha256 env) (w\<lparr>hot := s\<rparr>)"
  shows "world_inv (env_sha256 env) w'" "mset (world_log w') = mset (world_log (w\<lparr>hot := s\<rparr>))"
    "chronological (w\<lparr>hot := s\<rparr>) \<Longrightarrow> world_log w' = world_log (w\<lparr>hot := s\<rparr>)"
proof -
  note mv = archive_moved [OF ar s app new inv]
  have srt: "sorted_wrt (<) (map sequence (es_rows (hot w)))" using inv by (simp add: store_inv_def rows_inv_def)
  then have cs: "sorted_wrt (<) (map sequence (cold_rows (hot w) n))"
    by (simp add: cold_rows_filter [OF inv] sorted_wrt_map sorted_wrt_filter)
  have sub: "set (cold_rows (hot w) n) \<subseteq> set (es_rows s)" using app by (auto simp: cold_rows_filter [OF inv])
  have "store_inv s" using inv' by (simp add: world_inv_def)
  then have pos: "\<forall>r \<in> set (cold_rows (hot w) n). 0 < sequence r"
    using sub by (auto simp: store_inv_def rows_inv_def)
  show "world_inv (env_sha256 env) w'" by (rule moved_inv [OF mv(1) inv' cs pos])
  show "mset (world_log w') = mset (world_log (w\<lparr>hot := s\<rparr>))"
    by (rule moved_mset [OF mv(1) inv' mset_select [OF cs sub store_inv_distinct(1) [OF \<open>store_inv s\<close>]]])
  show "chronological (w\<lparr>hot := s\<rparr>) \<Longrightarrow> world_log w' = world_log (w\<lparr>hot := s\<rparr>)"
    by (rule moved_chronological [OF mv(1) inv' _ mv(2)])
qed

lemma extract_step_inv:
  assumes ex: "extractToArchivePartition env w selection archivePath = (Inr res, w')"
    and s: "s = env_before_delete env (hot w)" and app: "es_rows s = es_rows (hot w) @ new"
    and inv: "store_inv (hot w)" and inv': "world_inv (env_sha256 env) (w\<lparr>hot := s\<rparr>)"
  shows "world_inv (env_sha256 env) w'" "mset (world_log w') = mset (world_log (w\<lparr>hot := s\<rparr>))"
proof -
  from ex s obtain rows where sel: "selectExtractionRows (hot w) selection = Inr rows"
    and mv: "moved env w s archivePath rows w'"
    by (blast elim: extract_InrE)
  note rows = selectExtractionRows_Inr [OF sel inv]
  have si: "store_inv s" using inv' by (simp add: world_inv_def)
  have sub: "set rows \<subseteq> set (es_rows s)" using rows(2) app by auto
  then have pos: "\<forall>r \<in> set rows. 0 < sequence r" using si by (auto simp: store_inv_def rows_inv_def)
  show "world_inv (env_sha256 env) w'" by (rule moved_inv [OF mv inv' rows(1) pos])
  show "mset (world_log w') = mset (world_log (w\<lparr>hot := s\<rparr>))"
    by (rule moved_mset [OF mv inv' mset_select [OF rows(1) sub store_inv_distinct(1) [OF si]]])
qed

lemma world_step_inv: "world_step cfg sha w w' \<Longrightarrow> world_inv sha w \<Longrightarrow> world_inv sha w'"
proof (induction rule: world_step.induct)
  case (hot_step w s')
  then show ?case
    using store_step_inv [OF hot_step.hyps] store_step_partitions [OF hot_step.hyps]
    by (simp add: world_inv_def partition_ok_def)
next
  case (archive_step env w n archivePath res w')
  have q: "env_before_delete env (env_before_count env (hot w)) = hot w"
    using archive_step.hyps(2) by (simp add: quiet_def)
  show ?case
  proof (cases res)
    case (Inl err)
    with archive_step archive_Inl show ?thesis by metis
  next
    case (Inr r)
    with archive_step q archive_step_inv(1) [of env w n archivePath r w' "hot w" "[]"]
    show ?thesis by (simp add: world_inv_def)
  qed
next
  case (extract_step env w selection archivePath res w')
  have q: "env_before_delete env (hot w) = hot w" using extract_step.hyps(2) by (simp add: quiet_def)
  show ?case
  proof (cases res)
    case (Inl err)
    with extract_step extract_Inl show ?thesis by metis
  next
    case (Inr r)
    with extract_step q extract_step_inv(1) [of env w selection archivePath r w' "hot w" "[]"]
    show ?thesis by (simp add: world_inv_def)
  qed
qed

lemma world_run_inv: "(world_step cfg sha)\<^sup>*\<^sup>* w w' \<Longrightarrow> world_inv sha w \<Longrightarrow> world_inv sha w'"
  by (induction rule: rtranclp_induct) (auto intro: world_step_inv)

lemma world_inv_append:
  assumes "world_inv sha w" "append_batch cfg now (hot w) es = Inr s"
  shows "world_inv sha (w\<lparr>hot := s\<rparr>)"
  using assms append_batch_log [OF assms(2)] append_batch_rows [OF assms(2)]
  by (auto simp: world_inv_def partition_ok_def)

section \<open>Sample worlds\<close>

definition sample_sha :: "archive_file \<Rightarrow> string" where
  "sample_sha f = (case f of ArchiveDb rows \<Rightarrow> concat (map r_event_id rows) | OtherBytes b \<Rightarrow> CHR ''!'' # b)"

definition sample_env :: "archive_step option \<Rightarrow> (event_store \<Rightarrow> event_store) \<Rightarrow> archive_env" where
  "sample_env fault others = \<lparr>env_uuid = ''p-1'', env_sha256 = sample_sha, env_fault = fault,
     env_before_count = (\<lambda>s. s), env_before_delete = others\<rparr>"

definition sample_world :: world where
  "sample_world = \<lparr>hot = sample_store ''2026-01-20'', files = Map.empty\<rparr>"

lemma sample_world_inv: "world_inv sha sample_world"
  using sample_store_inv by (simp add: world_inv_def sample_world_def sample_store_def empty_store_def)

text \<open>The appender that runs beside the archiver in the samples.\<close>

definition other_append :: "event_store \<Rightarrow> event_store" where
  "other_append s = (case append_batch open_config ''now'' s [sample_event ''e4'' ''T'' ''2026-03-01'' []] of
     Inr s' \<Rightarrow> s' | Inl _ \<Rightarrow> s)"

lemma other_append_batch:
  "append_batch open_config ''now'' (hot sample_world) [sample_event ''e4'' ''T'' ''2026-03-01'' []]
     = Inr (other_append (hot sample_world))"
  by (simp add: other_append_def sample_world_def append_sample sample_store_def empty_store_def sample_row_def)

definition extracted_world :: world where
  "extracted_world =
     snd (extractToArchivePartition (sample_env None (\<lambda>s. s)) sample_world (EventIds [''e2'']) ''cold.db'')"

section \<open>Properties\<close>

text \<open>
  C2. Archiving a prefix of the log is invisible to readers, also when other processes append while
  the call runs: with a cutoff that has already been reached, the files and the hot store
  together hold exactly the events they held (none lost, duplicated or altered), every file
  matches its registry row, and for a chronological archive the partitioned replay yields the
  same sequence under every filter.
\<close>

theorem archive_preserves_history:
  assumes "world_inv (env_sha256 env) w"
    "append_batch cfg now (hot w) es = Inr (env_before_delete env (env_before_count env (hot w)))"
    "n \<le> int (es_autoinc (hot w))"
    "archiveEventsOlderThan env w n archivePath = (Inr res, w')"
    "v = w\<lparr>hot := env_before_delete env (env_before_count env (hot w))\<rparr>"
  shows "world_inv (env_sha256 env) w' \<and> mset (world_log w') = mset (world_log v) \<and>
    (chronological v \<longrightarrow> (\<forall>opts. partitioned_replay w' opts = partitioned_replay v opts))"
proof -
  from append_batch_rows [OF assms(2)] assms(3) obtain new where
    "es_rows (env_before_delete env (env_before_count env (hot w))) = es_rows (hot w) @ new"
    "\<forall>r \<in> set new. n < int (sequence r)" by force
  moreover have "store_inv (hot w)" using assms(1) by (simp add: world_inv_def)
  moreover note inv = world_inv_append [OF assms(1,2)]
  ultimately have "world_inv (env_sha256 env) w'" "mset (world_log w') = mset (world_log v)"
    "chronological v \<Longrightarrow> world_log w' = world_log v"
    using archive_step_inv [OF assms(4) refl] assms(5) by blast+
  with inv assms(5) show ?thesis by (simp add: partitioned_replay_log)
qed

theorem archive_preserves_history_witness:
  "\<exists>res w'. archiveEventsOlderThan (sample_env None other_append) sample_world 2 ''cold.db'' = (Inr res, w') \<and>
     map_sum id (map event_id) (partitioned_replay w' no_opts) = Inr [''e1'', ''e2'', ''e3'', ''e4''] \<and>
     map r_event_id (es_rows (hot w')) = [''e3'', ''e4'']"
proof -
  let ?env = "sample_env None other_append"
  let ?r = "archiveEventsOlderThan ?env sample_world 2 ''cold.db''"
  have "isl (fst ?r) = False" by code_simp
  then obtain res w' where r: "?r = (Inr res, w')" by (metis isl_def prod.collapse sum.exhaust_sel)
  have hot: "map r_event_id (es_rows (hot (snd ?r))) = [''e3'', ''e4'']" by code_simp
  have sha: "env_sha256 ?env = sample_sha" by (simp add: sample_env_def)
  define v where "v = sample_world\<lparr>hot := env_before_delete ?env (env_before_count ?env (hot sample_world))\<rparr>"
  have b: "append_batch open_config ''now'' (hot sample_world) [sample_event ''e4'' ''T'' ''2026-03-01'' []]
      = Inr (env_before_delete ?env (env_before_count ?env (hot sample_world)))"
    using other_append_batch by (simp add: sample_env_def)
  have "2 \<le> int (es_autoinc (hot sample_world))" by (simp add: sample_world_def sample_store_def)
  from archive_preserves_history [OF sample_world_inv b this r v_def]
  have "chronological v \<longrightarrow> partitioned_replay w' no_opts = partitioned_replay v no_opts" by blast
  moreover have "chronological v" unfolding v_def by code_simp
  moreover have "map_sum id (map event_id) (partitioned_replay v no_opts) = Inr [''e1'', ''e2'', ''e3'', ''e4'']"
    unfolding v_def by code_simp
  ultimately show ?thesis using r hot by simp
qed

text \<open>
  C3. Extracting any selection of events, sparse or in the middle of the log and beside a running
  appender, keeps the history: the files and the hot store together hold exactly the events they
  held, in full, and every file still matches its registry row.
\<close>

theorem extract_preserves_history:
  assumes "world_inv (env_sha256 env) w"
    "append_batch cfg now (hot w) es = Inr (env_before_delete env (hot w))"
    "extractToArchivePartition env w selection archivePath = (Inr res, w')"
  shows "world_inv (env_sha256 env) w' \<and>
    mset (world_log w') = mset (world_log (w\<lparr>hot := env_before_delete env (hot w)\<rparr>))"
proof -
  from append_batch_rows [OF assms(2)] obtain new where
    "es_rows (env_before_delete env (hot w)) = es_rows (hot w) @ new" by blast
  moreover have "store_inv (hot w)" using assms(1) by (simp add: world_inv_def)
  moreover note world_inv_append [OF assms(1,2)]
  ultimately show ?thesis using extract_step_inv [OF assms(3) refl] by blast
qed

theorem extract_preserves_history_witness:
  "\<exists>res. extractToArchivePartition (sample_env None (\<lambda>s. s)) sample_world (EventIds [''e2'']) ''cold.db''
       = (Inr res, extracted_world) \<and>
     mset (world_log extracted_world) = mset (world_log sample_world) \<and>
     map r_event_id (es_rows (hot extracted_world)) = [''e1'', ''e3'']"
proof -
  let ?env = "sample_env None (\<lambda>s. s)"
  let ?r = "extractToArchivePartition ?env sample_world (EventIds [''e2'']) ''cold.db''"
  have "isl (fst ?r) = False" by code_simp
  then obtain res where r: "?r = (Inr res, extracted_world)"
    unfolding extracted_world_def by (metis isl_def prod.collapse sum.exhaust_sel)
  have b: "append_batch open_config ''now'' (hot sample_world) [] = Inr (env_before_delete ?env (hot sample_world))"
    by (simp add: sample_env_def)
  have "map r_event_id (es_rows (hot extracted_world)) = [''e1'', ''e3'']" by code_simp
  moreover have "sample_world\<lparr>hot := env_before_delete ?env (hot sample_world)\<rparr> = sample_world"
    by (simp add: sample_env_def)
  ultimately show ?thesis using extract_preserves_history [OF sample_world_inv b r] r by simp
qed

text \<open>
  Both operations are atomic under every error but one: bad arguments, an existing file, an
  empty selection, a count mismatch, a registry conflict or an I/O failure leave the hot store, its
  registry and the files exactly as they were.  The exception is a failure of the final delete
  of \<open>archiveEventsOlderThan\<close>.
\<close>

theorem archival_failure_atomic:
  assumes "quiet env"
  shows "(archiveEventsOlderThan env w n archivePath = (Inl err, w') \<longrightarrow>
            env_fault env \<noteq> Some DeleteStep \<longrightarrow> w' = w) \<and>
    (extractToArchivePartition env w selection archivePath = (Inl err', w'') \<longrightarrow> w'' = w)"
  using archive_Inl [OF _ assms] extract_Inl [OF _ assms] by blast

theorem archival_failure_atomic_witness:
  "archiveEventsOlderThan (sample_env (Some RegisterStep) (\<lambda>s. s)) sample_world 2 ''cold.db''
     = (Inl IoError, sample_world)"
proof -
  let ?env = "sample_env (Some RegisterStep) (\<lambda>s. s)"
  let ?r = "archiveEventsOlderThan ?env sample_world 2 ''cold.db''"
  have e: "map_sum id (\<lambda>_. ()) (fst ?r) = Inl IoError" by code_simp
  then have r: "?r = (Inl IoError, snd ?r)" by (cases ?r; cases "fst ?r") auto
  have q: "quiet ?env" by (simp add: quiet_def sample_env_def)
  have f: "env_fault ?env \<noteq> Some DeleteStep" by (simp add: sample_env_def)
  from archival_failure_atomic [OF q, of sample_world 2 "''cold.db''" IoError "snd ?r"] r f
  have "snd ?r = sample_world" by blast
  with r show ?thesis by simp
qed

text \<open>
  Whatever sequence of appends, reclassifications, claims, snapshots, archivals and extractions
  runs from an empty store, the partitioned replay never fails to open a file, returns exactly the
  stored events that match the options, and every archive file passes the integrity check.
\<close>

theorem archive_always_readable:
  assumes "(world_step cfg sha)\<^sup>*\<^sup>* \<lparr>hot = empty_store, files = Map.empty\<rparr> w"
  shows "partitioned_replay w opts = Inr (map row_to_event (filter (row_matches opts) (world_log w))) \<and>
    (\<forall>r \<in> set (verifyArchiveIntegrity sha w). snd r = None)"
proof -
  have "world_inv sha \<lparr>hot = empty_store, files = Map.empty\<rparr>"
    using store_inv_empty by (simp add: world_inv_def) (simp add: empty_store_def)
  from world_run_inv [OF assms this] have inv: "world_inv sha w" .
  then have "\<forall>r \<in> set (verifyArchiveIntegrity sha w). snd r = None"
    by (auto simp: verifyArchiveIntegrity_def world_inv_def partition_ok_def)
  with partitioned_replay_log [OF inv] show ?thesis by simp
qed

theorem archive_always_readable_witness:
  "\<exists>w. (world_step open_config sample_sha)\<^sup>*\<^sup>* \<lparr>hot = empty_store, files = Map.empty\<rparr> w \<and>
     length (es_partitions (hot w)) = 1 \<and>
     map_sum id (map event_id) (partitioned_replay w no_opts) = Inr [''e1''] \<and>
     (\<forall>r \<in> set (verifyArchiveIntegrity sample_sha w). snd r = None)"
proof -
  let ?w0 = "\<lparr>hot = empty_store, files = Map.empty\<rparr>"
  let ?s1 = "empty_store\<lparr>es_rows := [sample_row 1 ''e1'' ''T'' ''2026-01-01'' []], es_autoinc := 1\<rparr>"
  let ?w1 = "?w0\<lparr>hot := ?s1\<rparr>"
  let ?env = "sample_env None (\<lambda>s. s)"
  let ?r = "archiveEventsOlderThan ?env ?w1 1 ''cold.db''"
  have "append open_config ''now'' (hot ?w0) (sample_event ''e1'' ''T'' ''2026-01-01'' []) = Inr ?s1"
    by (simp add: append_sample empty_store_def)
  then have 1: "world_step open_config sample_sha ?w0 ?w1" by (rule hot_step [OF step_append])
  have "?r = (fst ?r, snd ?r)" by simp
  moreover have "quiet ?env" "env_sha256 ?env = sample_sha" "env_fault ?env \<noteq> Some DeleteStep"
    by (simp_all add: quiet_def sample_env_def)
  ultimately have 2: "world_step open_config sample_sha ?w1 (snd ?r)" by (rule archive_step)
  from 1 2 have run: "(world_step open_config sample_sha)\<^sup>*\<^sup>* ?w0 (snd ?r)" by auto
  have n: "length (es_partitions (hot (snd ?r))) = 1" by code_simp
  have l: "map_sum id (map event_id) (partitioned_replay (snd ?r) no_opts) = Inr [''e1'']"
    by code_simp
  have v: "\<forall>r \<in> set (verifyArchiveIntegrity sample_sha (snd ?r)). snd r = None"
    using archive_always_readable [OF run, of no_opts] by (rule conjunct2)
  show ?thesis by (rule exI [of _ "snd ?r"], intro conjI) (fact run, fact n, fact l, fact v)
qed

text \<open>
  With a cutoff beyond the last sequence number, an event that another process appends between
  the count check and the delete of \<open>archiveEventsOlderThan\<close> is lost: the call succeeds, and the
  event is in no file and not in the hot store.
\<close>

theorem archive_race_loses_event:
  "\<exists>env w n archivePath res w'.
     world_inv (env_sha256 env) w \<and>
     append_batch open_config ''now'' (hot w) [sample_event ''e4'' ''T'' ''2026-03-01'' []]
       = Inr (env_before_delete env (hot w)) \<and>
     archiveEventsOlderThan env w n archivePath = (Inr res, w') \<and>
     ''e4'' \<notin> r_event_id ` set (world_log w')"
proof -
  let ?env = "sample_env None other_append"
  let ?r = "archiveEventsOlderThan ?env sample_world 10 ''cold.db''"
  have "isl (fst ?r) = False" by code_simp
  then obtain res where r: "?r = (Inr res, snd ?r)" by (metis isl_def prod.collapse sum.exhaust_sel)
  have "''e4'' \<notin> r_event_id ` set (world_log (snd ?r))" by code_simp
  moreover have "append_batch open_config ''now'' (hot sample_world) [sample_event ''e4'' ''T'' ''2026-03-01'' []]
      = Inr (env_before_delete ?env (hot sample_world))"
    using other_append_batch by (simp add: sample_env_def)
  ultimately show ?thesis using r sample_world_inv by blast
qed

text \<open>
  When the final delete of \<open>archiveEventsOlderThan\<close> fails, the archive file is removed but its
  registry row stays, so every later partitioned replay of the full log fails on the missing file.
\<close>

theorem archive_delete_fault_dangles:
  "\<exists>env w n archivePath w'. world_inv (env_sha256 env) w \<and> quiet env \<and>
     archiveEventsOlderThan env w n archivePath = (Inl IoError, w') \<and>
     es_rows (hot w') = es_rows (hot w) \<and> files w' = files w \<and>
     partitioned_replay w' no_opts = Inl ArchiveFileMissing"
proof -
  let ?env = "sample_env (Some DeleteStep) (\<lambda>s. s)"
  let ?r = "archiveEventsOlderThan ?env sample_world 2 ''cold.db''"
  have "map_sum id (\<lambda>_. ()) (fst ?r) = Inl IoError" by code_simp
  then have r: "?r = (Inl IoError, snd ?r)" by (cases ?r; cases "fst ?r") auto
  have "map_sum id (map event_id) (partitioned_replay (snd ?r) no_opts) = Inl ArchiveFileMissing"
    by code_simp
  then have p: "partitioned_replay (snd ?r) no_opts = Inl ArchiveFileMissing"
    by (cases "partitioned_replay (snd ?r) no_opts") auto
  have q: "quiet ?env" by (simp add: quiet_def sample_env_def)
  from r have "es_rows (hot (snd ?r)) = es_rows (hot sample_world)" "files (snd ?r) = files sample_world"
    by (auto simp: archiveEventsOlderThan_def Let_def sample_env_def dest!: insert_partition_Inr
        split: if_splits sum.splits)
  with r p q sample_world_inv show ?thesis by blast
qed

text \<open>
  After an extraction the partitioned replay is not in sequence order: the cold files come
  first, also when their events lie between events that are still in the hot store.
\<close>

theorem extraction_breaks_sequence_order:
  "\<exists>w. world_inv sample_sha w \<and> \<not> chronological w \<and>
     map_sum id (map event_id) (partitioned_replay w no_opts) = Inr [''e2'', ''e1'', ''e3''] \<and>
     map r_event_id (es_rows (hot sample_world)) = [''e1'', ''e2'', ''e3''] \<and> w = extracted_world"
proof -
  let ?env = "sample_env None (\<lambda>s. s)"
  have st: "world_step open_config sample_sha sample_world extracted_world"
    unfolding extracted_world_def
    by (rule extract_step [of ?env _ _ _ "fst (extractToArchivePartition ?env sample_world (EventIds [''e2'']) ''cold.db'')"])
      (simp, simp add: quiet_def sample_env_def, simp add: sample_env_def)
  have "world_inv sample_sha extracted_world" by (rule world_step_inv [OF st sample_world_inv])
  moreover have "\<not> chronological extracted_world"
    "map_sum id (map event_id) (partitioned_replay extracted_world no_opts) = Inr [''e2'', ''e1'', ''e3'']"
    "map r_event_id (es_rows (hot sample_world)) = [''e1'', ''e2'', ''e3'']"
    by code_simp+
  ultimately show ?thesis by (intro exI [of _ extracted_world] conjI refl)
qed

end
