(* ===== verification/Projections.thy ===== *)
theory Projections
  imports EventStoreInv
begin

text \<open>
  The projection runtime (\<open>platform/projections/runtime.ts\<close>, \<open>types.ts\<close>) and the provenance
  filter it folds under (\<open>platform/projections/filter.ts\<close>, the lifecycle phase of
  \<open>platform/event-store/provenance.ts\<close>).  A projection folds the accepted events of the store;
  the fast path starts from a stored snapshot.  The process-wide settings the code reads (override
  variables, \<open>BANK_LIFECYCLE_PHASE\<close>) are the record \<open>bank_env\<close>; SHA-256 in hexadecimal is its
  field \<open>be_sha256hex\<close>.
\<close>

section \<open>Lifecycle phase\<close>

datatype lifecycle_phase = BuildPhase | Commencement

datatype provenance_mode = ProductionOnly | SimulatedOnly | Combined | OperatingBook

record bank_env =
  be_phaseOverride :: "lifecycle_phase option"
  be_phaseVar :: "string option"
  be_modeOverride :: "provenance_mode option"
  be_sha256hex :: "string \<Rightarrow> string"

definition bankLifecyclePhase :: "bank_env \<Rightarrow> lifecycle_phase" where
  "bankLifecyclePhase env =
     (case be_phaseOverride env of
        Some ph \<Rightarrow> ph
      | None \<Rightarrow>
          if be_phaseVar env = Some ''commencement'' then Commencement
          else if be_phaseVar env = Some ''build-phase'' then BuildPhase
          else BuildPhase)"

section \<open>The provenance filter\<close>

definition SANDBOX_TAG :: string where
  "SANDBOX_TAG = ''sandbox''"

definition SANDBOX_SCENARIO_PREFIXES :: "string list" where
  "SANDBOX_SCENARIO_PREFIXES =
     [''rehearsal-'', ''stress-'', ''counterfactual-'', ''what-if-'', ''test-pollution'']"

definition isSandboxProvenance :: "provenance_tag \<Rightarrow> bool" where
  "isSandboxProvenance tag =
     (if (case pt_tags tag of Some ts \<Rightarrow> SANDBOX_TAG \<in> set ts | None \<Rightarrow> False) then True
      else case pt_scenario tag of
        Some (c # cs) \<Rightarrow>
          (if pt_kind tag = Simulated
           then list_ex (\<lambda>p. starts_with p (c # cs)) SANDBOX_SCENARIO_PREFIXES else False)
      | _ \<Rightarrow> False)"

record provenance_filter =
  pf_mode :: provenance_mode
  pf_scenarios :: "string list option"
  pf_variants :: "string list option"
  pf_sourceLineages :: "string list option"

definition mode_only :: "provenance_mode \<Rightarrow> provenance_filter" where
  "mode_only m = \<lparr>pf_mode = m, pf_scenarios = None, pf_variants = None, pf_sourceLineages = None\<rparr>"

definition defaultProvenanceMode :: "bank_env \<Rightarrow> provenance_mode" where
  "defaultProvenanceMode env =
     (case be_modeOverride env of Some m \<Rightarrow> m | None \<Rightarrow> OperatingBook)"

definition defaultProvenanceFilter :: "bank_env \<Rightarrow> provenance_filter" where
  "defaultProvenanceFilter env = mode_only (defaultProvenanceMode env)"

definition operatingBookFilter :: provenance_filter where
  "operatingBookFilter = mode_only OperatingBook"

definition UNTAGGED_AS_SIMULATED :: provenance_tag where
  "UNTAGGED_AS_SIMULATED =
     \<lparr>pt_kind = Simulated, pt_scenario = Some ''pre-substrate-build-phase'', pt_variant = None,
      pt_sourceLineage = ''pre-substrate-backfill'', pt_tags = None\<rparr>"

text \<open>An axis narrows only when it is present and not empty.\<close>

definition narrowing :: "string list option \<Rightarrow> string list option" where
  "narrowing axis = (case axis of Some (x # xs) \<Rightarrow> Some (x # xs) | _ \<Rightarrow> None)"

definition in_axis :: "string list \<Rightarrow> string option \<Rightarrow> bool" where
  "in_axis xs v = (case v of Some (c # cs) \<Rightarrow> (c # cs) \<in> set xs | _ \<Rightarrow> False)"

definition mode_admits :: "bank_env \<Rightarrow> provenance_mode \<Rightarrow> provenance_tag \<Rightarrow> bool" where
  "mode_admits env m tag =
     (case m of
        ProductionOnly \<Rightarrow>
          (case pt_kind tag of
             Production \<Rightarrow> True
           | BuildPhaseFixture \<Rightarrow> bankLifecyclePhase env = BuildPhase
           | Simulated \<Rightarrow> False)
      | SimulatedOnly \<Rightarrow> pt_kind tag = Simulated
      | OperatingBook \<Rightarrow>
          if bankLifecyclePhase env = Commencement then pt_kind tag = Production
          else pt_kind tag \<noteq> BuildPhaseFixture \<and> \<not> isSandboxProvenance tag
      | Combined \<Rightarrow> True)"

definition eventMatchesProvenanceFilter :: "bank_env \<Rightarrow> event \<Rightarrow> provenance_filter \<Rightarrow> bool" where
  "eventMatchesProvenanceFilter env e f =
     (let tag = (case provenance e of Some t \<Rightarrow> t | None \<Rightarrow> UNTAGGED_AS_SIMULATED) in
      mode_admits env (pf_mode f) tag \<and>
      (case narrowing (pf_scenarios f) of
         None \<Rightarrow> True
       | Some xs \<Rightarrow> pt_kind tag \<noteq> Production \<and> in_axis xs (pt_scenario tag)) \<and>
      (case narrowing (pf_variants f) of None \<Rightarrow> True | Some xs \<Rightarrow> in_axis xs (pt_variant tag)) \<and>
      (case narrowing (pf_sourceLineages f) of
         None \<Rightarrow> True | Some xs \<Rightarrow> pt_sourceLineage tag \<in> set xs))"

definition eventInOperatingBook :: "bank_env \<Rightarrow> event \<Rightarrow> bool" where
  "eventInOperatingBook env e = eventMatchesProvenanceFilter env e operatingBookFilter"

section \<open>The effective stream key\<close>

record canonical_filter =
  cf_mode :: string
  cf_scenarios :: "string list option"
  cf_variants :: "string list option"
  cf_sourceLineages :: "string list option"

definition mode_name :: "provenance_mode \<Rightarrow> string" where
  "mode_name m = (case m of ProductionOnly \<Rightarrow> ''production-only'' | SimulatedOnly \<Rightarrow> ''simulated-only''
     | Combined \<Rightarrow> ''combined'' | OperatingBook \<Rightarrow> ''operating-book'')"

definition canonicaliseFilter :: "provenance_filter \<Rightarrow> canonical_filter" where
  "canonicaliseFilter f =
     \<lparr>cf_mode = mode_name (pf_mode f), cf_scenarios = map_option sort (narrowing (pf_scenarios f)),
      cf_variants = map_option sort (narrowing (pf_variants f)),
      cf_sourceLineages = map_option sort (narrowing (pf_sourceLineages f))\<rparr>"

text \<open>\<open>JSON.stringify\<close> of the canonical form; characters below 0x20 have their escapes.\<close>

definition hex_digit :: "nat \<Rightarrow> char" where
  "hex_digit n = ''0123456789abcdef'' ! n"

definition json_escape :: "char \<Rightarrow> string" where
  "json_escape c =
     (if c = CHR 0x22 then [CHR 0x5C, CHR 0x22]
      else if c = CHR 0x5C then [CHR 0x5C, CHR 0x5C]
      else if c = CHR 0x08 then [CHR 0x5C, CHR ''b'']
      else if c = CHR 0x09 then [CHR 0x5C, CHR ''t'']
      else if c = CHR 0x0A then [CHR 0x5C, CHR ''n'']
      else if c = CHR 0x0C then [CHR 0x5C, CHR ''f'']
      else if c = CHR 0x0D then [CHR 0x5C, CHR ''r'']
      else if of_char c < (32 :: nat)
      then CHR 0x5C # ''u00'' @ [hex_digit (of_char c div 16), hex_digit (of_char c mod 16)]
      else [c])"

definition json_quote :: "string \<Rightarrow> string" where
  "json_quote s = CHR 0x22 # concat (map json_escape s) @ [CHR 0x22]"

fun comma_join :: "string list \<Rightarrow> string" where
  "comma_join [] = []"
| "comma_join [x] = x"
| "comma_join (x # y # zs) = x @ '','' @ comma_join (y # zs)"

definition json_axis :: "string \<Rightarrow> string list option \<Rightarrow> string list" where
  "json_axis name axis = (case axis of None \<Rightarrow> []
     | Some xs \<Rightarrow> [json_quote name @ '':['' @ comma_join (map json_quote xs) @ '']''])"

definition canonical_json :: "canonical_filter \<Rightarrow> string" where
  "canonical_json c = ''{'' @ comma_join
     ([json_quote ''mode'' @ '':'' @ json_quote (cf_mode c)]
      @ json_axis ''scenarios'' (cf_scenarios c) @ json_axis ''variants'' (cf_variants c)
      @ json_axis ''sourceLineages'' (cf_sourceLineages c)) @ ''}''"

definition provenanceFilterDigest :: "bank_env \<Rightarrow> provenance_filter \<Rightarrow> string" where
  "provenanceFilterDigest env f = take 12 (be_sha256hex env (canonical_json (canonicaliseFilter f)))"

definition effectiveStreamKey :: "bank_env \<Rightarrow> string \<Rightarrow> provenance_filter \<Rightarrow> string" where
  "effectiveStreamKey env baseStreamKey f = baseStreamKey @ ''#prov='' @ provenanceFilterDigest env f"

section \<open>The projector\<close>

record 's projection =
  initial :: 's
  accepts :: "event \<Rightarrow> bool"
  reduce :: "'s \<Rightarrow> event \<Rightarrow> 's"
  encodeSnapshot :: "('s \<Rightarrow> string) option"
  decodeSnapshot :: "(string \<Rightarrow> 's) option"

definition fold_accepted :: "'s projection \<Rightarrow> 's \<Rightarrow> event list \<Rightarrow> 's" where
  "fold_accepted p s es = foldl (\<lambda>st e. if \<not> accepts p e then st else reduce p st e) s es"

definition fold_projection :: "'s projection \<Rightarrow> event_store \<Rightarrow> 's \<Rightarrow> replay_opts \<Rightarrow> 's" where
  "fold_projection p s init opts = fold_accepted p init (replay s opts)"

definition build :: "'s projection \<Rightarrow> event_store \<Rightarrow> replay_opts \<Rightarrow> 's" where
  "build p s opts = fold_projection p s (initial p) opts"

definition fold_filtered ::
    "bank_env \<Rightarrow> provenance_filter \<Rightarrow> 's projection \<Rightarrow> 's \<Rightarrow> event list \<Rightarrow> 's" where
  "fold_filtered env f p s es =
     foldl (\<lambda>st e. if \<not> eventMatchesProvenanceFilter env e f then st
                   else if \<not> accepts p e then st else reduce p st e) s es"

datatype projection_error = NoDecoder | NoEncoder | StoreFailure store_error

record 's projected =
  pj_state :: 's
  pj_snapshot :: "snapshot_row option"
  pj_deltaCount :: nat

definition given_filter :: "bank_env \<Rightarrow> provenance_filter option \<Rightarrow> provenance_filter" where
  "given_filter env f = (case f of Some pf \<Rightarrow> pf | None \<Rightarrow> defaultProvenanceFilter env)"

definition projectFromSnapshot ::
    "bank_env \<Rightarrow> event_store \<Rightarrow> 's projection \<Rightarrow> string \<Rightarrow> string \<Rightarrow> string option \<Rightarrow> string option \<Rightarrow>
     provenance_filter option \<Rightarrow> projection_error + 's projected" where
  "projectFromSnapshot env s p key asOf fEntity fType pf =
     (case decodeSnapshot p of
        None \<Rightarrow> Inl NoDecoder
      | Some decode \<Rightarrow>
          (let f = given_filter env pf; eff = effectiveStreamKey env key f in
           case loadSnapshot s eff asOf of
             None \<Rightarrow>
               (let es = replay s (as_of_opts None asOf fEntity fType) in
                Inr \<lparr>pj_state = fold_filtered env f p (initial p) es, pj_snapshot = None,
                     pj_deltaCount = length es\<rparr>)
           | Some snap \<Rightarrow>
               (case replayFromSnapshot s eff asOf fEntity fType of
                  Inl err \<Rightarrow> Inl (StoreFailure err)
                | Inr es \<Rightarrow>
                    Inr \<lparr>pj_state = fold_filtered env f p (decode (snap_payload snap)) es,
                         pj_snapshot = Some snap, pj_deltaCount = length es\<rparr>)))"

definition maybeSnapshot ::
    "bank_env \<Rightarrow> (string \<Rightarrow> cadence option) \<Rightarrow> (string \<Rightarrow> int option) \<Rightarrow> string \<Rightarrow> string \<Rightarrow> event_store \<Rightarrow>
     's projection \<Rightarrow> string \<Rightarrow> string \<Rightarrow> int \<Rightarrow> 's \<Rightarrow> string option \<Rightarrow> provenance_filter option \<Rightarrow>
     projection_error + (cadence_reason \<times> snapshot_row option) \<times> event_store" where
  "maybeSnapshot env lookup parse nowUtc now s p key asOf uptoSeq state eventType pf =
     (case encodeSnapshot p of
        None \<Rightarrow> Inl NoEncoder
      | Some encode \<Rightarrow>
          (let eff = effectiveStreamKey env key (given_filter env pf);
               (due, reason, _) = shouldSnapshot lookup parse nowUtc s eff eventType None in
           if \<not> due then Inr ((reason, None), s)
           else (case snapshot now s eff asOf uptoSeq (encode state) of
                   Inl err \<Rightarrow> Inl (StoreFailure err)
                 | Inr (row, s') \<Rightarrow> Inr ((reason, Some row), s'))))"

section \<open>Snapshots hold the naive state\<close>

text \<open>The specification of the fast path: the state folded from the log alone.\<close>

definition naive_state ::
    "bank_env \<Rightarrow> provenance_filter \<Rightarrow> 's projection \<Rightarrow> event_store \<Rightarrow> int option \<Rightarrow> string \<Rightarrow>
     string option \<Rightarrow> string option \<Rightarrow> 's" where
  "naive_state env f p s until asOf fEntity fType =
     fold_filtered env f p (initial p) (replay s (as_of_opts until asOf fEntity fType))"

definition stream_valid ::
    "bank_env \<Rightarrow> provenance_filter \<Rightarrow> 's projection \<Rightarrow> (string \<Rightarrow> 's) \<Rightarrow> event_store \<Rightarrow> string \<Rightarrow>
     string option \<Rightarrow> string option \<Rightarrow> bool" where
  "stream_valid env f p decode s key fEntity fType \<longleftrightarrow>
     (\<forall>r \<in> set (snapshots_of s (effectiveStreamKey env key f)).
        uptoSequence r \<le> int (es_autoinc s) \<and>
        decode (snap_payload r) = naive_state env f p s (Some (uptoSequence r)) (snap_asOf r) fEntity fType)"

lemma effectiveStreamKey_nonempty [simp]: "effectiveStreamKey env key f \<noteq> []"
  by (simp add: effectiveStreamKey_def)

lemma fold_filtered_append:
  "fold_filtered env f p st (xs @ ys) = fold_filtered env f p (fold_filtered env f p st xs) ys"
  by (simp add: fold_filtered_def)

lemma replay_upto_append:
  assumes "append_batch cfg now s es = Inr s'" "store_inv s" "u \<le> int (es_autoinc s)"
  shows "replay s' (as_of_opts (Some u) asOf fEntity fType) = replay s (as_of_opts (Some u) asOf fEntity fType)"
proof -
  have inv': "store_inv s'" using append_batch_log [OF assms(1,2)] by simp
  from append_batch_rows [OF assms(1)] obtain new where new: "es_rows s' = es_rows s @ new"
    "\<forall>r \<in> set new. es_autoinc s < sequence r" by blast
  have "\<forall>r \<in> set new. \<not> row_matches (as_of_opts (Some u) asOf fEntity fType) r"
    using new(2) assms(3) by (fastforce simp: row_matches_def as_of_opts_def)
  then have "filter (row_matches (as_of_opts (Some u) asOf fEntity fType)) new = []"
    by (simp add: filter_empty_conv)
  with new(1) show ?thesis by (simp add: replay_filter [OF inv'] replay_filter [OF assms(2)])
qed

lemma append_batch_snapshots:
  "append_batch cfg now s es = Inr s' \<Longrightarrow> es_snapshots s' = es_snapshots s"
proof (induction es arbitrary: s)
  case (Cons e es)
  then obtain t where t: "append cfg now s e = Inr t" "append_batch cfg now t es = Inr s'"
    by (auto simp: res_bind_Inr_iff)
  from t(1) have "es_snapshots t = es_snapshots s" by (rule append_InrE) simp
  with Cons.IH [OF t(2)] show ?case by simp
qed simp

lemma stream_valid_append:
  assumes "append_batch cfg now s es = Inr s'" "store_inv s" "stream_valid env f p decode s key fE fT"
  shows "stream_valid env f p decode s' key fE fT"
  using assms(3) append_batch_rows [OF assms(1)] append_batch_snapshots [OF assms(1)]
    replay_upto_append [OF assms(1,2)]
  by (fastforce simp: stream_valid_def naive_state_def snapshots_of_def)

lemma snapshot_rows_upto:
  assumes "snapshot now s k asOf n body = Inr (r, s')"
  shows "es_autoinc s' = es_autoinc s" "es_rows s' = es_rows s"
    "set (es_snapshots s') \<subseteq> insert r (set (es_snapshots s))"
    "r \<in> set (es_snapshots s) \<or> (snap_asOf r = asOf \<and> uptoSequence r = n \<and> snap_payload r = body)"
  using assms by (cases rule: snapshot_cases; auto simp: pruneSnapshots_def Let_def)+

lemma stream_valid_snapshot:
  assumes snap: "snapshot now s (effectiveStreamKey env key f) asOf n body = Inr (r, s')"
    and inv: "store_inv s" and valid: "stream_valid env f p decode s key fE fT"
    and n: "n \<le> int (es_autoinc s)"
    and body: "decode body = naive_state env f p s (Some n) asOf fE fT"
  shows "stream_valid env f p decode s' key fE fT"
proof -
  note facts = snapshot_rows_upto [OF snap]
  have same: "naive_state env f p s' u a fE fT = naive_state env f p s u a fE fT" for u a
    using facts(2) by (simp add: naive_state_def replay_def replay_rows_def)
  show ?thesis using facts valid n body unfolding stream_valid_def same
    by (auto simp: snapshots_of_def)
qed

lemma projectFromSnapshot_naive:
  assumes inv: "store_inv s" and dec: "decodeSnapshot p = Some decode" and asOf: "asOf \<noteq> []"
    and f: "f = given_filter env pf" and valid: "stream_valid env f p decode s key fE fT"
    and none: "\<forall>snap. loadSnapshot s (effectiveStreamKey env key f) asOf = Some snap \<longrightarrow>
      skipped_rows s snap asOf = []"
  shows "map_sum id pj_state (projectFromSnapshot env s p key asOf fE fT pf) =
    Inr (naive_state env f p s None asOf fE fT)"
proof (cases "loadSnapshot s (effectiveStreamKey env key f) asOf")
  case None
  then show ?thesis by (simp add: projectFromSnapshot_def dec f naive_state_def Let_def)
next
  case (Some snap)
  with none have "skipped_rows s snap asOf = []" by blast
  from snapshot_delta_split [OF inv effectiveStreamKey_nonempty asOf Some this, of fE fT]
  obtain delta where d: "replayFromSnapshot s (effectiveStreamKey env key f) asOf fE fT = Inr delta"
    "replay s (as_of_opts None asOf fE fT) =
      replay s (as_of_opts (Some (uptoSequence snap)) (snap_asOf snap) fE fT) @ delta" by blast
  have "snap \<in> set (snapshots_of s (effectiveStreamKey env key f))"
    using loadSnapshot_Some [OF Some] by (simp add: snapshots_of_def)
  with valid have "decode (snap_payload snap) =
      naive_state env f p s (Some (uptoSequence snap)) (snap_asOf snap) fE fT"
    by (simp add: stream_valid_def)
  with d Some show ?thesis
    by (simp add: projectFromSnapshot_def dec f Let_def naive_state_def fold_filtered_append)
qed

text \<open>What the owner of a projection does between reads: append events, and offer the state it holds.\<close>

inductive projector_step ::
    "bank_env \<Rightarrow> store_config \<Rightarrow> 's projection \<Rightarrow> provenance_filter option \<Rightarrow> string \<Rightarrow> string option \<Rightarrow>
     string option \<Rightarrow> event_store \<Rightarrow> event_store \<Rightarrow> bool"
  for env cfg p pf key fE fT where
  ps_append: "append_batch cfg now s es = Inr s' \<Longrightarrow> projector_step env cfg p pf key fE fT s s'"
| ps_snapshot: "maybeSnapshot env lookup parse nowUtc now s p key asOf n
      (naive_state env (given_filter env pf) p s (Some n) asOf fE fT) eventType pf = Inr (res, s') \<Longrightarrow>
    n \<le> int (es_autoinc s) \<Longrightarrow> projector_step env cfg p pf key fE fT s s'"

lemma maybeSnapshot_cases:
  assumes "maybeSnapshot env lookup parse nowUtc now s p key asOf n st eventType pf = Inr (res, s')"
    "encodeSnapshot p = Some encode"
  shows "s' = s \<or> (\<exists>r. snapshot now s (effectiveStreamKey env key (given_filter env pf)) asOf n (encode st)
    = Inr (r, s'))"
  using assms by (auto simp: maybeSnapshot_def Let_def split: prod.splits if_splits sum.splits)

lemma projector_step_inv:
  assumes "encodeSnapshot p = Some encode" "\<forall>st. decode (encode st) = st"
    "f = given_filter env pf" "projector_step env cfg p pf key fE fT s s'"
  shows "store_inv s \<Longrightarrow> stream_valid env f p decode s key fE fT \<Longrightarrow>
    store_inv s' \<and> stream_valid env f p decode s' key fE fT"
  using assms(4)
proof (induction rule: projector_step.induct)
  case (ps_append now s es s')
  with stream_valid_append [OF ps_append.hyps ps_append.prems] append_batch_log [OF ps_append.hyps]
  show ?case by simp
next
  case (ps_snapshot lookup parse nowUtc now s asOf n eventType res s')
  from maybeSnapshot_cases [OF ps_snapshot.hyps(1) assms(1)] show ?case
  proof (elim disjE exE)
    assume "s' = s" with ps_snapshot.prems show ?case by simp
  next
    fix r
    assume snap: "snapshot now s (effectiveStreamKey env key (given_filter env pf)) asOf n
      (encode (naive_state env (given_filter env pf) p s (Some n) asOf fE fT)) = Inr (r, s')"
    with stream_valid_snapshot [of now s env key f asOf n _ r s' p decode fE fT]
      ps_snapshot.prems ps_snapshot.hyps(2) assms(2,3) snapshot_inv [OF snap]
    show ?case by simp
  qed
qed

lemma projector_run_inv:
  assumes "encodeSnapshot p = Some encode" "\<forall>st. decode (encode st) = st" "f = given_filter env pf"
    "(projector_step env cfg p pf key fE fT)\<^sup>*\<^sup>* empty_store s"
  shows "store_inv s \<and> stream_valid env f p decode s key fE fT"
  using assms(4)
proof (induction rule: rtranclp_induct)
  case base
  have "snapshots_of empty_store k = []" for k by (simp add: snapshots_of_def empty_store_def)
  then show ?case by (simp add: store_inv_empty stream_valid_def)
next
  case (step t u)
  then show ?case using projector_step_inv [OF assms(1-3) step.hyps(2)] by blast
qed

section \<open>Properties\<close>

text \<open>
  C7. The snapshot fast path refines the naive fold: after any run of appends and cadence-driven
  snapshots of a projection, under one provenance filter and one entity and type filter,
  \<open>projectFromSnapshot\<close> returns, at every date, the state that folding the whole log would return,
  provided no event was recorded before the snapshot it loads with a date after that snapshot's.
\<close>

theorem projector_snapshot_refines_naive:
  assumes "encodeSnapshot p = Some encode" "decodeSnapshot p = Some decode"
    "\<forall>st. decode (encode st) = st"
    "(projector_step env cfg p pf key fE fT)\<^sup>*\<^sup>* empty_store s" "asOf \<noteq> []"
    "\<forall>snap. loadSnapshot s (effectiveStreamKey env key (given_filter env pf)) asOf = Some snap \<longrightarrow>
       skipped_rows s snap asOf = []"
  shows "map_sum id pj_state (projectFromSnapshot env s p key asOf fE fT pf) =
    Inr (naive_state env (given_filter env pf) p s None asOf fE fT)"
proof -
  have "store_inv s \<and> stream_valid env (given_filter env pf) p decode s key fE fT"
    using projector_run_inv [OF assms(1,3) refl assms(4)] .
  then show ?thesis by (intro projectFromSnapshot_naive [OF _ assms(2,5) refl _ assms(6)]) simp_all
qed

text \<open>A projection that records the ids it has folded, with a unary codec of their number.\<close>

definition count_projection :: "nat projection" where
  "count_projection = \<lparr>initial = 0, accepts = (\<lambda>e. ev_type e = ''T''), reduce = (\<lambda>n e. Suc n),
     encodeSnapshot = Some (\<lambda>n. replicate n CHR ''i''), decodeSnapshot = Some length\<rparr>"

definition sample_bank_env :: bank_env where
  "sample_bank_env = \<lparr>be_phaseOverride = None, be_phaseVar = None, be_modeOverride = None,
     be_sha256hex = (\<lambda>s. s)\<rparr>"

definition projected_store :: "event_store" where
  "projected_store = empty_store\<lparr>
     es_rows := [sample_row 1 ''e1'' ''T'' ''2026-01-10'' [], sample_row 2 ''e2'' ''T'' ''2026-02-01'' []],
     es_autoinc := 2,
     es_snapshots := [\<lparr>snap_id = 1, streamKey = effectiveStreamKey sample_bank_env ''k'' operatingBookFilter,
        snap_asOf = ''2026-01-31'', uptoSequence = 1, snap_payload = ''i'', snap_recordedAt = ''now''\<rparr>],
     es_snap_autoinc := 1\<rparr>"

lemma projected_store_run:
  "(projector_step sample_bank_env open_config count_projection None ''k'' None None)\<^sup>*\<^sup>*
     empty_store projected_store"
proof -
  let ?step = "projector_step sample_bank_env open_config count_projection None ''k'' None None"
  let ?s1 = "empty_store\<lparr>es_rows := [sample_row 1 ''e1'' ''T'' ''2026-01-10'' []], es_autoinc := 1\<rparr>"
  let ?s2 = "?s1\<lparr>es_snapshots := es_snapshots projected_store, es_snap_autoinc := 1\<rparr>"
  let ?r = "maybeSnapshot sample_bank_env (\<lambda>_. None) (\<lambda>_. None) ''u'' ''now'' ?s1 count_projection ''k''
    ''2026-01-31'' 1 (naive_state sample_bank_env (given_filter sample_bank_env None) count_projection
      ?s1 (Some 1) ''2026-01-31'' None None) None None"
  have "append_batch open_config ''now'' empty_store [sample_event ''e1'' ''T'' ''2026-01-10'' []] = Inr ?s1"
    by (simp add: append_sample empty_store_def)
  then have 1: "?step empty_store ?s1" by (rule ps_append)
  have "map_sum id (\<lambda>r. es_snapshots (snd r)) ?r = Inr (es_snapshots projected_store)"
    "map_sum id (\<lambda>r. (es_rows (snd r), es_autoinc (snd r), es_snap_autoinc (snd r), es_cursors (snd r),
       es_claims (snd r), es_partitions (snd r), es_readonly (snd r))) ?r =
     Inr (es_rows ?s2, es_autoinc ?s2, es_snap_autoinc ?s2, es_cursors ?s2, es_claims ?s2,
       es_partitions ?s2, es_readonly ?s2)" by code_simp+
  then obtain res where "?r = Inr (res, ?s2)"
    by (cases ?r) (auto simp: map_sum_Inr_iff intro!: event_store.equality)
  then have 2: "?step ?s1 ?s2" by (rule ps_snapshot) (simp add: empty_store_def)
  have "append_batch open_config ''now'' ?s2 [sample_event ''e2'' ''T'' ''2026-02-01'' []] = Inr projected_store"
    by (simp add: append_sample empty_store_def projected_store_def sample_row_def)
  then have 3: "?step ?s2 projected_store" by (rule ps_append)
  from 1 2 3 show ?thesis by (meson converse_rtranclp_into_rtranclp rtranclp.rtrancl_refl)
qed

theorem projector_snapshot_refines_naive_witness:
  "map_sum id pj_state (projectFromSnapshot sample_bank_env projected_store count_projection ''k''
     ''2026-02-28'' None None None) = Inr 2 \<and>
   map_sum id pj_deltaCount (projectFromSnapshot sample_bank_env projected_store count_projection ''k''
     ''2026-02-28'' None None None) = Inr 1"
proof -
  have e: "encodeSnapshot count_projection = Some (\<lambda>n. replicate n CHR ''i'')"
    and d: "decodeSnapshot count_projection = Some length"
    and c: "\<forall>n. length (replicate n CHR ''i'') = n" by (simp_all add: count_projection_def)
  have "list_all (\<lambda>snap. skipped_rows projected_store snap ''2026-02-28'' = []) (es_snapshots projected_store)"
    by code_simp
  then have n: "\<forall>snap. loadSnapshot projected_store (effectiveStreamKey sample_bank_env ''k''
      (given_filter sample_bank_env None)) ''2026-02-28'' = Some snap \<longrightarrow>
      skipped_rows projected_store snap ''2026-02-28'' = []"
    using loadSnapshot_Some(1) by (fastforce simp: list_all_iff)
  have "naive_state sample_bank_env (given_filter sample_bank_env None) count_projection projected_store
      None ''2026-02-28'' None None = 2" by code_simp
  moreover have "map_sum id pj_deltaCount (projectFromSnapshot sample_bank_env projected_store
      count_projection ''k'' ''2026-02-28'' None None None) = Inr 1" by code_simp
  ultimately show ?thesis
    using projector_snapshot_refines_naive [OF e d c projected_store_run _ n] by simp
qed

text \<open>
  The operating book follows the bank's life: before commencement it holds every event but
  seed fixtures and sandbox runs, simulated or not; from commencement on it is exactly the
  production events, as is the production-only view; simulated events, tagged or untagged, are
  never in the production-only view; \<open>combined\<close> holds everything.
\<close>

theorem operating_book_lifecycle:
  "eventInOperatingBook env e =
     (let tag = (case provenance e of Some t \<Rightarrow> t | None \<Rightarrow> UNTAGGED_AS_SIMULATED) in
      if bankLifecyclePhase env = Commencement then pt_kind tag = Production
      else pt_kind tag \<noteq> BuildPhaseFixture \<and> \<not> isSandboxProvenance tag) \<and>
   (bankLifecyclePhase env = Commencement \<longrightarrow>
      eventMatchesProvenanceFilter env e (mode_only ProductionOnly) = eventInOperatingBook env e) \<and>
   (provenance e = None \<longrightarrow> \<not> eventMatchesProvenanceFilter env e (mode_only ProductionOnly)) \<and>
   eventMatchesProvenanceFilter env e (mode_only Combined)"
  by (auto simp: eventInOperatingBook_def operatingBookFilter_def eventMatchesProvenanceFilter_def
      mode_only_def mode_admits_def narrowing_def Let_def UNTAGGED_AS_SIMULATED_def
      split: option.splits provenance_kind.splits)

theorem operating_book_lifecycle_witness:
  "let env = sample_bank_env\<lparr>be_phaseVar := Some ''commencement''\<rparr>;
       e = sample_event ''e1'' ''T'' ''2026-01-01'' [] in
   bankLifecyclePhase env = Commencement \<and> \<not> eventInOperatingBook env e \<and>
   eventInOperatingBook sample_bank_env e"
  using operating_book_lifecycle [of "sample_bank_env\<lparr>be_phaseVar := Some ''commencement''\<rparr>"
      "sample_event ''e1'' ''T'' ''2026-01-01'' []"]
    operating_book_lifecycle [of sample_bank_env "sample_event ''e1'' ''T'' ''2026-01-01'' []"]
  by (simp add: Let_def sample_bank_env_def bankLifecyclePhase_def sample_event_def
      UNTAGGED_AS_SIMULATED_def isSandboxProvenance_def starts_with_def SANDBOX_SCENARIO_PREFIXES_def)

text \<open>
  A scenario narrowing in production-only mode empties the view: no event with a well-formed
  tag matches, production events included.
\<close>

theorem production_only_scenarios_empty:
  assumes "pf_mode f = ProductionOnly" "narrowing (pf_scenarios f) = Some xs"
    "provenance e = Some tag" "provenanceTagSchema tag"
  shows "\<not> eventMatchesProvenanceFilter env e f"
  using assms by (auto simp: eventMatchesProvenanceFilter_def mode_admits_def provenanceTagSchema_def
      in_axis_def split: provenance_kind.splits option.splits list.splits)

theorem production_only_scenarios_empty_witness:
  "\<not> eventMatchesProvenanceFilter sample_bank_env
     ((sample_event ''e1'' ''CeoDecision'' ''2026-01-01'' [])\<lparr>provenance := PRODUCTION_CARVE_OUTS ''CeoDecision''\<rparr>)
     \<lparr>pf_mode = ProductionOnly, pf_scenarios = Some [''stress-1''], pf_variants = None, pf_sourceLineages = None\<rparr>"
  by (rule production_only_scenarios_empty [where xs = "[''stress-1'']" and tag = "\<lparr>pt_kind = Production,
        pt_scenario = None, pt_variant = None, pt_sourceLineage = ''ceo-decision-record'', pt_tags = None\<rparr>"])
    (simp_all add: narrowing_def PRODUCTION_CARVE_OUTS_def provenanceTagSchema_def non_empty_opt_def)

end
