(* ===== verification/EventBus.thy ===== *)
theory EventBus
  imports EventStoreInv
begin

text \<open>
  The event-trigger bus (\<open>platform/event-trigger-bus/bus.ts\<close>): subscriptions derived from the
  handler registry, one \<open>tick\<close> that walks the events from a cursor, claims each pair of event and
  handler in the store, runs the handler and records the outcome.  The handler runner is a
  parameter: it may change the store (handlers append events, other processes run meanwhile) and
  succeeds, reports failure, or throws.  The two audit events come from
  \<open>platform/event-store/event-types/platform.ts\<close>; a fresh event id is a parameter.
\<close>

record handler_meta =
  hm_agent :: string
  hm_trigger :: string
  hm_key :: string
  hm_eventDriven :: bool
  hm_subscribesTo :: "string list"

record subscription =
  handlerKey :: string
  agent :: string
  triggerId :: string
  eventTypes :: "string list"

datatype runner_outcome = RunnerOk | RunnerNotOk | RunnerThrew string

record bus_config =
  bc_store :: store_config
  bc_runner :: "subscription \<Rightarrow> event \<Rightarrow> event_store \<Rightarrow> runner_outcome \<times> event_store"
  bc_entity :: string
  bc_actor :: actor
  bc_citations :: "string list"
  bc_newEventId :: "event_store \<Rightarrow> string"

definition DEFAULT_ACTOR :: actor where
  "DEFAULT_ACTOR = \<lparr>actor_kind = ActorService, actor_id = ''agent:atlas:event-trigger-bus''\<rparr>"

definition DEFAULT_CITATIONS :: "string list" where
  "DEFAULT_CITATIONS = [''GOV-FRAMEWORK-CEO-RESERVED'', ''JOINT-STANDARD-2-2024'', ''ORG-CY-01'']"

section \<open>Subscriptions\<close>

definition eventDrivenHandlers :: "handler_meta list \<Rightarrow> handler_meta list" where
  "eventDrivenHandlers rows = filter hm_eventDriven rows"

definition syncSubscriptions :: "handler_meta list \<Rightarrow> subscription list" where
  "syncSubscriptions rows = map
     (\<lambda>h. \<lparr>handlerKey = hm_key h, agent = hm_agent h, triggerId = hm_trigger h,
            eventTypes = hm_subscribesTo h\<rparr>)
     (filter (\<lambda>h. 0 < length (hm_subscribesTo h)) (eventDrivenHandlers rows))"

definition subscribersOf :: "subscription list \<Rightarrow> string \<Rightarrow> subscription list" where
  "subscribersOf subs t = filter (\<lambda>s. t \<in> set (eventTypes s)) subs"

section \<open>The audit events\<close>

definition is_slug_char :: "char \<Rightarrow> bool" where
  "is_slug_char c \<longleftrightarrow> is_lower c \<or> is_digit c \<or> c = CHR ''-''"

definition is_slug :: "string \<Rightarrow> bool" where
  "is_slug s \<longleftrightarrow> s \<noteq> [] \<and> list_all is_slug_char s"

definition two_parts :: "(string \<Rightarrow> bool) \<Rightarrow> (string \<Rightarrow> bool) \<Rightarrow> string \<Rightarrow> bool" where
  "two_parts P Q s =
     (case dropWhile (\<lambda>c. c \<noteq> CHR '':'') s of
        [] \<Rightarrow> False
      | _ # rest \<Rightarrow> P (takeWhile (\<lambda>c. c \<noteq> CHR '':'') s) \<and> Q rest)"

definition handlerKey_ok :: "string \<Rightarrow> bool" where
  "handlerKey_ok k = two_parts is_slug is_slug k"

definition alertId_ok :: "string \<Rightarrow> bool" where
  "alertId_ok s = two_parts (\<lambda>p. p = ''alert'')
     (two_parts (\<lambda>p. p \<noteq> [] \<and> list_all is_lower p) is_slug) s"

definition outcome_name :: "bool \<Rightarrow> string" where
  "outcome_name ok = (if ok then ''ok'' else ''failed'')"

definition makeBusDispatched ::
    "bus_config \<Rightarrow> event_store \<Rightarrow> string \<Rightarrow> event \<Rightarrow> subscription \<Rightarrow> bool \<Rightarrow> store_error + event" where
  "makeBusDispatched cfg s asOf e sub ok =
     (if event_id e = [] \<or> ev_type e = [] \<or> \<not> handlerKey_ok (handlerKey sub) \<or> asOf = []
      then Inl PayloadSchemaError
      else (let ev = \<lparr>event_id = bc_newEventId cfg s, ev_type = ''BusDispatched'', as_of = asOf,
               entity = bc_entity cfg, ev_actor = bc_actor cfg, citations = bc_citations cfg,
               payload = [(''eventId'', JStr (event_id e)), (''eventType'', JStr (ev_type e)),
                 (''handlerKey'', JStr (handlerKey sub)), (''dispatchedAt'', JStr asOf),
                 (''outcome'', JStr (outcome_name ok))],
               provenance = None, aggregateId = None, aggregateLabel = None\<rparr>
            in if eventSchema (bc_store cfg) ev then Inr ev else Inl SchemaError))"

definition alertIdFor :: "string \<Rightarrow> string \<Rightarrow> string" where
  "alertIdFor eventId key =
     (let short = take 8 (map to_lower (filter (\<lambda>c. is_lower c \<or> is_upper c \<or> is_digit c) eventId));
          handlerSlug = map (\<lambda>c. if c = CHR '':'' then CHR ''-'' else c) key
      in ''alert:integrity:bus-'' @ handlerSlug @ ''-'' @ short)"

definition makeSubstrateAlert ::
    "bus_config \<Rightarrow> event_store \<Rightarrow> string \<Rightarrow> event \<Rightarrow> subscription \<Rightarrow> string \<Rightarrow> store_error + event" where
  "makeSubstrateAlert cfg s asOf e sub reason =
     (let alertId = alertIdFor (event_id e) (handlerKey sub) in
      if \<not> alertId_ok alertId then Inl PayloadSchemaError
      else (let ev = \<lparr>event_id = bc_newEventId cfg s, ev_type = ''SubstrateAlert'', as_of = asOf,
               entity = bc_entity cfg, ev_actor = bc_actor cfg, citations = bc_citations cfg,
               payload = [(''alertId'', JStr alertId), (''alertClass'', JStr ''integrity''),
                 (''agentUrn'', JStr (''agent:'' @ map to_lower (agent sub))),
                 (''details'', JStr (''bus dispatch failed: handler='' @ handlerKey sub @
                    '' eventId='' @ event_id e @ '' reason='' @ reason)),
                 (''severity'', JStr ''high'')],
               provenance = None, aggregateId = None, aggregateLabel = None\<rparr>
            in if eventSchema (bc_store cfg) ev then Inr ev else Inl SchemaError))"

text \<open>An append whose failure is logged and swallowed.\<close>

definition try_append :: "bus_config \<Rightarrow> string \<Rightarrow> event_store \<Rightarrow> store_error + event \<Rightarrow> event_store" where
  "try_append cfg now s ev =
     (case res_bind ev (append (bc_store cfg) now s) of Inl _ \<Rightarrow> s | Inr s' \<Rightarrow> s')"

section \<open>One tick\<close>

record dispatch_result =
  dr_eventId :: string
  dr_eventType :: string
  dr_handlerKey :: string
  dr_ok :: bool
  dr_failureReason :: "string option"

record tick_state =
  ts_dispatched :: "string list"
  ts_store :: event_store
  ts_dispatches :: "dispatch_result list"
  ts_error :: "store_error option"

definition dedupKey :: "string \<Rightarrow> string \<Rightarrow> string" where
  "dedupKey eventId key = eventId @ ''|'' @ key"

definition failure_reason :: "runner_outcome \<Rightarrow> string option" where
  "failure_reason out = (case out of RunnerOk \<Rightarrow> None
     | RunnerNotOk \<Rightarrow> Some ''runner returned ok=false'' | RunnerThrew msg \<Rightarrow> Some msg)"

text \<open>
  One pair of event and subscriber.  A claim that throws ends the tick (\<open>ts_error\<close>); everything
  after a won claim is isolated.  An empty message of a thrown error is falsy in the code, hence
  the absent reason.
\<close>

definition dispatch_pair ::
    "bus_config \<Rightarrow> string \<Rightarrow> event \<Rightarrow> subscription \<Rightarrow> tick_state \<Rightarrow> tick_state" where
  "dispatch_pair cfg now e sub st =
     (let k = dedupKey (event_id e) (handlerKey sub) in
      if ts_error st \<noteq> None then st
      else if k \<in> set (ts_dispatched st) then st
      else case claimDispatch (ts_store st) (event_id e) (handlerKey sub) of
        Inl err \<Rightarrow> st\<lparr>ts_error := Some err\<rparr>
      | Inr (False, s) \<Rightarrow> st\<lparr>ts_dispatched := k # ts_dispatched st, ts_store := s\<rparr>
      | Inr (True, s) \<Rightarrow>
          (let (out, s1) = bc_runner cfg sub e s;
               reason = failure_reason out;
               s2 = try_append cfg now s1 (makeBusDispatched cfg s1 now e sub (out = RunnerOk));
               s3 = (if out = RunnerOk then s2
                     else try_append cfg now s2
                       (makeSubstrateAlert cfg s2 now e sub (the reason)))
           in st\<lparr>ts_dispatched := k # ts_dispatched st, ts_store := s3,
                 ts_dispatches := ts_dispatches st @
                   [\<lparr>dr_eventId = event_id e, dr_eventType = ev_type e,
                     dr_handlerKey = handlerKey sub, dr_ok = (out = RunnerOk),
                     dr_failureReason = truthy_opt reason\<rparr>]\<rparr>))"

definition dispatch_event ::
    "bus_config \<Rightarrow> string \<Rightarrow> subscription list \<Rightarrow> event \<Rightarrow> tick_state \<Rightarrow> tick_state" where
  "dispatch_event cfg now subs e st = fold (dispatch_pair cfg now e) (subscribersOf subs (ev_type e)) st"

text \<open>\<open>String(p.eventId ?? "")\<close>; the payload schema of \<open>BusDispatched\<close> makes the field a string.\<close>

definition payload_string :: "event \<Rightarrow> string \<Rightarrow> string" where
  "payload_string e f = (case map_of (payload e) f of Some (JStr v) \<Rightarrow> v | _ \<Rightarrow> [])"

definition already_dispatched :: "event_store \<Rightarrow> string list" where
  "already_dispatched s =
     map (\<lambda>e. dedupKey (payload_string e ''eventId'') (payload_string e ''handlerKey''))
       (replay s (no_opts\<lparr>opt_type := Some ''BusDispatched''\<rparr>))"

definition source_events :: "event_store \<Rightarrow> int \<Rightarrow> event list" where
  "source_events s cursor =
     filter (\<lambda>e. ev_type e \<noteq> ''BusDispatched'')
       (take (nat (int (highWatermark s) - cursor + 1))
         (replay s (no_opts\<lparr>fromSequence := Some cursor\<rparr>)))"

record tick_result =
  tr_dispatches :: "dispatch_result list"
  tr_considered :: nat
  tr_nextCursor :: nat

definition tick ::
    "bus_config \<Rightarrow> string \<Rightarrow> subscription list \<Rightarrow> event_store \<Rightarrow> int \<Rightarrow>
     (store_error + tick_result) \<times> tick_state" where
  "tick cfg now subs s cursor =
     (let sourceEvents = source_events s cursor;
          st = fold (dispatch_event cfg now subs) sourceEvents
            \<lparr>ts_dispatched = already_dispatched s, ts_store = s, ts_dispatches = [], ts_error = None\<rparr>
      in (case ts_error st of
            Some err \<Rightarrow> Inl err
          | None \<Rightarrow> Inr \<lparr>tr_dispatches = ts_dispatches st, tr_considered = length sourceEvents,
                        tr_nextCursor = highWatermark s + 1\<rparr>, st))"

section \<open>At most once\<close>

definition claimed :: "event_store \<Rightarrow> (string \<times> string) set" where
  "claimed s = set (es_claims s)"

definition invoked :: "tick_state \<Rightarrow> (string \<times> string) list" where
  "invoked st = map (\<lambda>d. (dr_eventId d, dr_handlerKey d)) (ts_dispatches st)"

text \<open>What the bus relies on: while a handler runs, nobody deletes a claim.\<close>

definition runner_keeps_claims :: "bus_config \<Rightarrow> bool" where
  "runner_keeps_claims cfg \<longleftrightarrow>
     (\<forall>sub e s out s'. bc_runner cfg sub e s = (out, s') \<longrightarrow> claimed s \<subseteq> claimed s')"

lemma try_append_claims [simp]: "claimed (try_append cfg now s ev) = claimed s"
proof (cases "res_bind ev (append (bc_store cfg) now s)")
  case (Inr s')
  then obtain e where "append (bc_store cfg) now s e = Inr s'" by (auto simp: res_bind_Inr_iff)
  then have "es_claims s' = es_claims s" by (rule append_InrE) simp
  with Inr show ?thesis by (simp add: try_append_def claimed_def)
qed (simp add: try_append_def)

definition tick_inv :: "event_store \<Rightarrow> tick_state \<Rightarrow> bool" where
  "tick_inv s0 st \<longleftrightarrow> distinct (invoked st) \<and> set (invoked st) \<subseteq> claimed (ts_store st) \<and>
     set (invoked st) \<inter> claimed s0 = {} \<and> claimed s0 \<subseteq> claimed (ts_store st)"

text \<open>The three ways a pair can go.\<close>

lemma dispatch_pair_cases:
  obtains "dispatch_pair cfg now e sub st = st"
      "ts_error st \<noteq> None \<or> dedupKey (event_id e) (handlerKey sub) \<in> set (ts_dispatched st)"
  | err where "dispatch_pair cfg now e sub st = st\<lparr>ts_error := Some err\<rparr>"
  | "dispatch_pair cfg now e sub st =
       st\<lparr>ts_dispatched := dedupKey (event_id e) (handlerKey sub) # ts_dispatched st\<rparr>"
      "(event_id e, handlerKey sub) \<in> claimed (ts_store st)"
  | out s1 s2 d where "(event_id e, handlerKey sub) \<notin> claimed (ts_store st)"
      "bc_runner cfg sub e ((ts_store st)\<lparr>es_claims := es_claims (ts_store st) @
          [(event_id e, handlerKey sub)]\<rparr>) = (out, s1)"
      "claimed s2 = claimed s1" "(dr_eventId d, dr_handlerKey d) = (event_id e, handlerKey sub)"
      "dispatch_pair cfg now e sub st =
        st\<lparr>ts_dispatched := dedupKey (event_id e) (handlerKey sub) # ts_dispatched st,
           ts_store := s2, ts_dispatches := ts_dispatches st @ [d]\<rparr>"
proof -
  let ?k = "dedupKey (event_id e) (handlerKey sub)"
  consider "ts_error st \<noteq> None \<or> ?k \<in> set (ts_dispatched st)"
    | err where "ts_error st = None" "?k \<notin> set (ts_dispatched st)"
        "claimDispatch (ts_store st) (event_id e) (handlerKey sub) = Inl err"
    | won s where "ts_error st = None" "?k \<notin> set (ts_dispatched st)"
        "claimDispatch (ts_store st) (event_id e) (handlerKey sub) = Inr (won, s)"
    by (metis prod.exhaust sum.exhaust)
  then show thesis
  proof cases
    case 1
    then show thesis by (intro that(1)) (auto simp: dispatch_pair_def Let_def)
  next
    case 2
    then show thesis by (intro that(2)) (simp add: dispatch_pair_def Let_def)
  next
    case 3
    note claim = claimDispatch_state [OF 3(3)]
    show thesis
    proof (cases won)
      case False
      with 3 claim show thesis
        by (intro that(3)) (simp_all add: dispatch_pair_def Let_def claimed_def)
    next
      case True
      obtain out s1 where run: "bc_runner cfg sub e s = (out, s1)" by fastforce
      let ?s2 = "try_append cfg now s1 (makeBusDispatched cfg s1 now e sub (out = RunnerOk))"
      let ?s3 = "if out = RunnerOk then ?s2 else try_append cfg now ?s2
          (makeSubstrateAlert cfg ?s2 now e sub (the (failure_reason out)))"
      let ?d = "\<lparr>dr_eventId = event_id e, dr_eventType = ev_type e, dr_handlerKey = handlerKey sub,
          dr_ok = (out = RunnerOk), dr_failureReason = truthy_opt (failure_reason out)\<rparr>"
      show thesis
      proof (rule that(4) [of out s1 ?s3 ?d])
        show "(event_id e, handlerKey sub) \<notin> claimed (ts_store st)"
          using True claim by (simp add: claimed_def)
        show "bc_runner cfg sub e ((ts_store st)\<lparr>es_claims := es_claims (ts_store st) @
            [(event_id e, handlerKey sub)]\<rparr>) = (out, s1)"
          using True claim run by simp
        show "dispatch_pair cfg now e sub st =
          st\<lparr>ts_dispatched := dedupKey (event_id e) (handlerKey sub) # ts_dispatched st,
             ts_store := ?s3, ts_dispatches := ts_dispatches st @ [?d]\<rparr>"
          using True 3 run by (simp add: dispatch_pair_def Let_def)
      qed simp_all
    qed
  qed
qed

lemma runner_claims:
  assumes "runner_keeps_claims cfg"
    "bc_runner cfg sub e (s\<lparr>es_claims := es_claims s @ [k]\<rparr>) = (out, s1)"
  shows "insert k (claimed s) \<subseteq> claimed s1"
  using assms unfolding runner_keeps_claims_def by (fastforce simp: claimed_def)

lemma dispatch_pair_inv:
  assumes keep: "runner_keeps_claims cfg" and inv: "tick_inv s0 st"
  shows "tick_inv s0 (dispatch_pair cfg now e sub st)"
proof (cases rule: dispatch_pair_cases [of cfg now e sub st])
  case (4 out s1 s2 d)
  from runner_claims [OF keep 4(2)] inv 4 show ?thesis
    by (auto simp: tick_inv_def invoked_def)
qed (use inv in \<open>simp_all add: tick_inv_def invoked_def\<close>)

lemma tick_fold_inv:
  assumes "runner_keeps_claims cfg" "tick_inv s0 st"
  shows "tick_inv s0 (fold (dispatch_event cfg now subs) es st)"
  unfolding dispatch_event_def
  by (rule fold_invariant [where Q = "\<lambda>_. True"])
    (auto intro: assms(2) fold_invariant [where Q = "\<lambda>_. True"] dispatch_pair_inv [OF assms(1)])

lemma tick_inv_start: "tick_inv s \<lparr>ts_dispatched = ds, ts_store = s, ts_dispatches = [], ts_error = None\<rparr>"
  by (simp add: tick_inv_def invoked_def)

lemma tick_inv_tick:
  "runner_keeps_claims cfg \<Longrightarrow> tick cfg now subs s cursor = (res, st) \<Longrightarrow> tick_inv s st"
  using tick_fold_inv [OF _ tick_inv_start] by (auto simp: tick_def Let_def)

text \<open>
  Ticks of any number of buses over one store, with other work between them that deletes no
  claim.  The run collects the pairs whose handler was invoked.
\<close>

inductive bus_run ::
    "bus_config \<Rightarrow> event_store \<Rightarrow> (string \<times> string) list \<Rightarrow> event_store \<Rightarrow> bool" for cfg where
  run_start: "bus_run cfg s [] s"
| run_tick: "bus_run cfg s calls s' \<Longrightarrow> tick cfg now subs s' cursor = (res, st) \<Longrightarrow>
    bus_run cfg s (calls @ invoked st) (ts_store st)"
| run_other: "bus_run cfg s calls s' \<Longrightarrow> claimed s' \<subseteq> claimed s'' \<Longrightarrow> bus_run cfg s calls s''"

lemma bus_run_calls:
  assumes "runner_keeps_claims cfg" "bus_run cfg s calls s'"
  shows "distinct calls \<and> set calls \<subseteq> claimed s' \<and> set calls \<inter> claimed s = {} \<and> claimed s \<subseteq> claimed s'"
  using assms(2)
proof (induction rule: bus_run.induct)
  case (run_tick s calls s' now subs cursor res st)
  from tick_inv_tick [OF assms(1) run_tick.hyps(2)] run_tick.IH show ?case
    by (auto simp: tick_inv_def)
qed auto

section \<open>Nothing is skipped\<close>

definition todo :: "subscription list \<Rightarrow> event list \<Rightarrow> (event \<times> subscription) list" where
  "todo subs es = concat (map (\<lambda>e. map (Pair e) (subscribersOf subs (ev_type e))) es)"

lemma fold_dispatch_todo:
  "fold (dispatch_event cfg now subs) es st =
   fold (\<lambda>p. dispatch_pair cfg now (fst p) (snd p)) (todo subs es) st"
proof (induction es arbitrary: st)
  case (Cons e es)
  have "fold (\<lambda>p. dispatch_pair cfg now (fst p) (snd p)) (map (Pair e) xs) st =
      fold (dispatch_pair cfg now e) xs st" for xs st
    by (induction xs arbitrary: st) simp_all
  with Cons show ?case by (simp add: todo_def dispatch_event_def)
qed (simp add: todo_def)

definition keys_claimed :: "string list \<Rightarrow> tick_state \<Rightarrow> bool" where
  "keys_claimed old st \<longleftrightarrow> (\<forall>k \<in> set (ts_dispatched st). k \<in> set old \<or>
     (\<exists>i h. k = dedupKey i h \<and> CHR ''|'' \<notin> set i \<and> (i, h) \<in> claimed (ts_store st)))"

lemma dedupKey_inj:
  assumes "dedupKey i h = dedupKey i' h'" "CHR ''|'' \<notin> set i" "CHR ''|'' \<notin> set i'"
  shows "i = i' \<and> h = h'"
proof -
  have take: "takeWhile (\<lambda>c. c \<noteq> CHR ''|'') (dedupKey j g) = j" if "CHR ''|'' \<notin> set j" for j g
    using that by (auto simp: dedupKey_def takeWhile_append1 takeWhile_eq_all_conv
        intro: takeWhile_append2 [THEN trans])
  have "i = i'" using take [OF assms(2), of h] take [OF assms(3), of h'] assms(1) by simp
  with assms(1) show ?thesis by (simp add: dedupKey_def)
qed

lemma dispatch_pair_covers:
  assumes keep: "runner_keeps_claims cfg" and keys: "keys_claimed old st"
    and bar: "CHR ''|'' \<notin> set (event_id e)" and err: "ts_error (dispatch_pair cfg now e sub st) = None"
  shows "keys_claimed old (dispatch_pair cfg now e sub st) \<and>
    claimed (ts_store st) \<subseteq> claimed (ts_store (dispatch_pair cfg now e sub st)) \<and> ts_error st = None \<and>
    (dedupKey (event_id e) (handlerKey sub) \<in> set old \<or>
     (event_id e, handlerKey sub) \<in> claimed (ts_store (dispatch_pair cfg now e sub st)))"
proof (cases rule: dispatch_pair_cases [of cfg now e sub st])
  case 1
  with err have k: "dedupKey (event_id e) (handlerKey sub) \<in> set (ts_dispatched st)" by auto
  with keys bar have "dedupKey (event_id e) (handlerKey sub) \<in> set old \<or>
      (event_id e, handlerKey sub) \<in> claimed (ts_store st)"
    by (auto simp: keys_claimed_def dest: dedupKey_inj)
  with 1 keys err show ?thesis by simp
next
  case (2 x)
  with err show ?thesis by simp
next
  case 3
  with keys bar err show ?thesis by (auto simp: keys_claimed_def)
next
  case (4 out s1 s2 d)
  have "insert (event_id e, handlerKey sub) (claimed (ts_store st)) \<subseteq> claimed s2"
    using runner_claims [OF keep 4(2)] 4(3) by simp
  with 4(5) keys bar err show ?thesis by (fastforce simp: keys_claimed_def)
qed

lemma fold_covers:
  "runner_keeps_claims cfg \<Longrightarrow> keys_claimed old st \<Longrightarrow>
   \<forall>p \<in> set ps. CHR ''|'' \<notin> set (event_id (fst p)) \<Longrightarrow>
   st' = fold (\<lambda>p. dispatch_pair cfg now (fst p) (snd p)) ps st \<Longrightarrow> ts_error st' = None \<Longrightarrow>
   ts_error st = None \<and> claimed (ts_store st) \<subseteq> claimed (ts_store st') \<and>
   (\<forall>p \<in> set ps. dedupKey (event_id (fst p)) (handlerKey (snd p)) \<in> set old \<or>
      (event_id (fst p), handlerKey (snd p)) \<in> claimed (ts_store st'))"
proof (induction ps arbitrary: st)
  case (Cons p ps)
  let ?st1 = "dispatch_pair cfg now (fst p) (snd p) st"
  have "keys_claimed old ?st1" if "ts_error ?st1 = None"
    using dispatch_pair_covers [OF Cons.prems(1,2) _ that] Cons.prems(3) by simp
  moreover have err: "ts_error ?st1 = None"
  proof (rule ccontr)
    assume e: "ts_error ?st1 \<noteq> None"
    have "ts_error (dispatch_pair cfg now x y u) \<noteq> None" if "ts_error u \<noteq> None" for x y u
      using that by (auto simp: dispatch_pair_def Let_def)
    then have "ts_error (fold (\<lambda>p. dispatch_pair cfg now (fst p) (snd p)) ps ?st1) \<noteq> None"
      using e by (intro fold_invariant [where Q = "\<lambda>_. True" and P = "\<lambda>u. ts_error u \<noteq> None"]) auto
    with Cons.prems show False by simp
  qed
  ultimately have IH: "claimed (ts_store ?st1) \<subseteq> claimed (ts_store st') \<and>
     (\<forall>p \<in> set ps. dedupKey (event_id (fst p)) (handlerKey (snd p)) \<in> set old \<or>
      (event_id (fst p), handlerKey (snd p)) \<in> claimed (ts_store st'))"
    using Cons.IH [of ?st1] Cons.prems by simp
  with dispatch_pair_covers [OF Cons.prems(1,2) _ err] Cons.prems(3) show ?case by auto
qed simp

lemma row_to_event_simps:
  "ev_type (row_to_event r) = r_type r" "event_id (row_to_event r) = r_event_id r"
  by (simp_all add: row_to_event_def)

text \<open>The walk budget of a tick never cuts an event off: sequence numbers are distinct.\<close>

lemma source_events_all:
  assumes inv: "store_inv s"
  shows "source_events s cursor = filter (\<lambda>e. ev_type e \<noteq> ''BusDispatched'')
    (map row_to_event (filter (\<lambda>r. cursor \<le> int (sequence r)) (es_rows s)))"
proof -
  let ?rs = "filter (\<lambda>r. cursor \<le> int (sequence r)) (es_rows s)"
  have m: "row_matches (no_opts\<lparr>fromSequence := Some cursor\<rparr>) = (\<lambda>r. cursor \<le> int (sequence r))"
    by (auto simp: row_matches_def no_opts_def when_given_def)
  have "inj_on sequence (set (es_rows s))" using store_inv_distinct(1) [OF inv] by (simp add: distinct_map)
  then have inj: "inj_on (\<lambda>r. int (sequence r)) (set ?rs)" by (auto simp: inj_on_def)
  have "distinct ?rs" using store_inv_distinct(1) [OF inv] by (auto simp: distinct_map)
  then have "length ?rs = card (set ?rs)" by (metis distinct_card)
  also have "\<dots> = card ((\<lambda>r. int (sequence r)) ` set ?rs)" by (rule card_image [OF inj, symmetric])
  also have "\<dots> \<le> card {cursor..int (highWatermark s)}"
    by (intro card_mono) (auto simp: highWatermark_def)
  finally have "length ?rs \<le> nat (int (highWatermark s) - cursor + 1)" by simp
  then show ?thesis by (simp add: source_events_def replay_filter [OF inv] m)
qed

section \<open>Properties\<close>

text \<open>
  C6. No handler is invoked twice for the same event, nor for an event that was claimed before:
  over any run of ticks by any number of buses on one store, from any cursors and whatever the
  handlers and other processes do in between (short of deleting claims), the invoked pairs of
  event and handler are distinct and were unclaimed at the start.  This holds also when a handler
  fails or when its audit event cannot be appended: there is no retry.
\<close>

theorem bus_at_most_once:
  assumes "runner_keeps_claims cfg" "bus_run cfg s calls s'"
  shows "distinct calls \<and> set calls \<inter> claimed s = {} \<and> set calls \<subseteq> claimed s'"
  using bus_run_calls [OF assms] by blast

text \<open>A bus whose only handler always throws.\<close>

definition failing_bus :: bus_config where
  "failing_bus = \<lparr>bc_store = open_config, bc_runner = (\<lambda>sub e s. (RunnerThrew ''boom'', s)),
     bc_entity = ''LE-ZA-HOZ-BANK'', bc_actor = DEFAULT_ACTOR, bc_citations = DEFAULT_CITATIONS,
     bc_newEventId = (\<lambda>s. CHR ''u'' # replicate (es_autoinc s) CHR ''i'')\<rparr>"

definition triage :: "string list \<Rightarrow> subscription" where
  "triage ts = \<lparr>handlerKey = ''atlas:event-triage'', agent = ''Atlas'', triggerId = ''event-triage'',
     eventTypes = ts\<rparr>"

definition bus_store :: event_store where
  "bus_store = empty_store\<lparr>es_rows := [sample_row 1 ''e1'' ''T'' ''2026-01-01'' []], es_autoinc := 1\<rparr>"

lemma failing_bus_keeps: "runner_keeps_claims failing_bus"
  by (simp add: runner_keeps_claims_def failing_bus_def)

theorem bus_at_most_once_witness:
  "\<exists>calls s'. bus_run failing_bus bus_store calls s' \<and> calls = [(''e1'', ''atlas:event-triage'')] \<and>
     distinct calls \<and> set calls \<subseteq> claimed s'"
proof -
  let ?t = "tick failing_bus ''2026-01-02'' [triage [''T'']]"
  let ?st = "snd (?t bus_store 0)"
  have 1: "bus_run failing_bus bus_store ([] @ invoked ?st) (ts_store ?st)"
    by (rule run_tick [OF run_start]) (rule prod.collapse [symmetric])
  have 2: "bus_run failing_bus bus_store (([] @ invoked ?st) @ invoked (snd (?t (ts_store ?st) 0)))
      (ts_store (snd (?t (ts_store ?st) 0)))"
    by (rule run_tick [OF 1]) (rule prod.collapse [symmetric])
  have c: "([] @ invoked ?st) @ invoked (snd (?t (ts_store ?st) 0)) = [(''e1'', ''atlas:event-triage'')]"
    by code_simp
  note run = 2 [unfolded c]
  from bus_at_most_once [OF failing_bus_keeps run] run show ?thesis by blast
qed

text \<open>
  C37. A tick that returns skips nothing: it considers every stored event from the cursor on but
  the bus's own audit events (the walk budget never cuts the list short), and afterwards every
  pair of a considered event and a subscriber of its type is claimed or was already in the
  dispatch log; the next cursor is one past the last sequence number at the start.
\<close>

theorem tick_covers_all:
  assumes "runner_keeps_claims cfg" "store_inv s" "tick cfg now subs s cursor = (Inr res, st)"
    "\<forall>r \<in> set (es_rows s). CHR ''|'' \<notin> set (r_event_id r)"
    "r \<in> set (es_rows s)" "cursor \<le> int (sequence r)" "r_type r \<noteq> ''BusDispatched''"
    "sub \<in> set subs" "r_type r \<in> set (eventTypes sub)"
  shows "((r_event_id r, handlerKey sub) \<in> claimed (ts_store st) \<or>
      dedupKey (r_event_id r) (handlerKey sub) \<in> set (already_dispatched s)) \<and>
    tr_nextCursor res = highWatermark s + 1"
proof -
  let ?es = "source_events s cursor"
  let ?st0 = "\<lparr>ts_dispatched = already_dispatched s, ts_store = s, ts_dispatches = [], ts_error = None\<rparr>"
  have st: "st = fold (\<lambda>p. dispatch_pair cfg now (fst p) (snd p)) (todo subs ?es) ?st0"
    and err: "ts_error st = None" and cur: "tr_nextCursor res = highWatermark s + 1"
    using assms(3) by (auto simp: tick_def Let_def fold_dispatch_todo split: option.splits)
  have mem: "row_to_event r \<in> set ?es" using assms(5-7)
    by (auto simp: source_events_all [OF assms(2)] row_to_event_simps)
  then have "(row_to_event r, sub) \<in> set (todo subs ?es)" using assms(8,9)
    by (auto simp: todo_def subscribersOf_def row_to_event_simps intro!: bexI [of _ "row_to_event r"])
  moreover have "\<forall>p \<in> set (todo subs ?es). CHR ''|'' \<notin> set (event_id (fst p))" using assms(4)
    by (auto simp: todo_def source_events_all [OF assms(2)] row_to_event_simps)
  moreover have "keys_claimed (already_dispatched s) ?st0" by (simp add: keys_claimed_def)
  ultimately show ?thesis using fold_covers [OF assms(1) _ _ st err] cur
    by (fastforce simp: row_to_event_simps)
qed

theorem tick_covers_all_witness:
  "\<exists>res st. tick failing_bus ''2026-01-02'' [triage [''T'']] bus_store 0 = (Inr res, st) \<and>
     (''e1'', ''atlas:event-triage'') \<in> claimed (ts_store st) \<and> tr_nextCursor res = 2"
proof -
  let ?r = "tick failing_bus ''2026-01-02'' [triage [''T'']] bus_store 0"
  have "isl (fst ?r) = False" by code_simp
  then obtain res where r: "?r = (Inr res, snd ?r)" by (metis isl_def prod.collapse sum.exhaust_sel)
  have inv: "store_inv bus_store" by (simp add: store_inv_def rows_inv_def snaps_inv_def bus_store_def
        empty_store_def sample_row_def)
  have l: "already_dispatched bus_store = []" "highWatermark bus_store = 1" by code_simp+
  let ?row = "sample_row 1 ''e1'' ''T'' ''2026-01-01'' []"
  have "\<forall>r \<in> set (es_rows bus_store). CHR ''|'' \<notin> set (r_event_id r)" "?row \<in> set (es_rows bus_store)"
    "0 \<le> int (sequence ?row)" "r_type ?row \<noteq> ''BusDispatched''"
    "triage [''T''] \<in> set [triage [''T'']]" "r_type ?row \<in> set (eventTypes (triage [''T'']))"
    by (simp_all add: bus_store_def empty_store_def sample_row_def triage_def)
  from tick_covers_all [OF failing_bus_keeps inv r this] l
  have "(r_event_id ?row, handlerKey (triage [''T''])) \<in> claimed (ts_store (snd ?r)) \<and> tr_nextCursor res = 2"
    by simp
  moreover have "r_event_id ?row = ''e1''" "handlerKey (triage [''T'']) = ''atlas:event-triage''"
    by (simp_all add: sample_row_def triage_def)
  ultimately show ?thesis using r by auto
qed

text \<open>
  A failing handler that subscribes to \<open>SubstrateAlert\<close> feeds itself: each failure appends an
  alert that the next tick dispatches to the same handler again, so three ticks from consecutive
  cursors over a store with one alert all dispatch, and nothing new was recorded by anyone else.
\<close>

theorem failing_alert_handler_feeds_back:
  "\<exists>s1 s2 s3 c1 c2. store_inv s1 \<and> count s1 = 1 \<and>
     (let t = tick failing_bus ''2026-01-02'' [triage [''SubstrateAlert'']];
          n = (\<lambda>r. case fst r of Inr res \<Rightarrow> (length (tr_dispatches res), tr_nextCursor res) | Inl _ \<Rightarrow> (0, 0)) in
      n (t s1 1) = (1, c1) \<and> s2 = ts_store (snd (t s1 1)) \<and>
      n (t s2 (int c1)) = (1, c2) \<and> s3 = ts_store (snd (t s2 (int c1))) \<and>
      fst (n (t s3 (int c2))) = 1)"
proof -
  let ?s1 = "empty_store\<lparr>es_rows := [sample_row 1 ''a1'' ''SubstrateAlert'' ''2026-01-01'' []], es_autoinc := 1\<rparr>"
  have "store_inv ?s1" "count ?s1 = 1"
    by (simp_all add: store_inv_def rows_inv_def snaps_inv_def empty_store_def sample_row_def count_def)
  moreover have "let t = tick failing_bus ''2026-01-02'' [triage [''SubstrateAlert'']];
          n = (\<lambda>r. case fst r of Inr res \<Rightarrow> (length (tr_dispatches res), tr_nextCursor res) | Inl _ \<Rightarrow> (0, 0));
          s2 = ts_store (snd (t ?s1 1)); s3 = ts_store (snd (t s2 2)) in
      n (t ?s1 1) = (1, 2) \<and> n (t s2 2) = (1, 4) \<and> fst (n (t s3 4)) = 1" by code_simp
  ultimately show ?thesis
    by (intro exI [of _ ?s1] exI [of _ "ts_store (snd (tick failing_bus ''2026-01-02'' [triage [''SubstrateAlert'']] ?s1 1))"]
        exI [of _ "ts_store (snd (tick failing_bus ''2026-01-02'' [triage [''SubstrateAlert'']]
          (ts_store (snd (tick failing_bus ''2026-01-02'' [triage [''SubstrateAlert'']] ?s1 1))) 2))"]
        exI [of _ "2 :: nat"] exI [of _ "4 :: nat"]) (simp only: Let_def of_nat_numeral simp_thms)
qed

end
