(* ===== verification/SlaExpression.thy ===== *)
theory SlaExpression
  imports JsValue
begin

text \<open>
  The amount-expression language of the posting rules (\<open>platform/accounting/sla/expression.ts\<close>):
  tokenizer, recursive-descent parser and tree-walking evaluator.  A token's source position is
  used in error messages only and is left out, as is the text of a path (\<open>raw\<close>): an error value
  carries the path's segments.  The five binary levels of the parser, which have one shape, are
  one definition over the level: 0 \<open>parseOr\<close>, 1 \<open>parseAnd\<close>, 2 \<open>parseComparison\<close>, 3 \<open>parseAddSub\<close>,
  4 \<open>parseMulDiv\<close>.  The parser's recursion is bounded by fuel; \<open>SlaGrammar\<close> shows that the fuel
  \<open>parse_fuel\<close> always suffices.
\<close>

datatype expr_error =
    ExpressionParseError
  | UnknownPathError "string list"
  | ExpressionEvalError
  | OutOfFuel

section \<open>Tokens\<close>

datatype token =
    TNumber string
  | TIdent string
  | TString string
  | TOp string
  | TLparen
  | TRparen
  | TLbracket
  | TRbracket
  | TComma
  | TDot
  | TEof

definition OPERATORS :: "string list" where
  "OPERATORS = [''=='', ''!='', ''>='', ''<='', ''&&'', ''||'', ''>'', ''<'', ''+'', ''-'', ''*'', ''/'', ''!'']"

definition is_blank :: "char \<Rightarrow> bool" where
  "is_blank c \<longleftrightarrow> c = CHR '' '' \<or> c = CHR 0x09 \<or> c = CHR 0x0A \<or> c = CHR 0x0D"

definition is_letter :: "char \<Rightarrow> bool" where
  "is_letter c \<longleftrightarrow> (CHR ''a'' \<le> c \<and> c \<le> CHR ''z'') \<or> (CHR ''A'' \<le> c \<and> c \<le> CHR ''Z'')"

definition is_ident_start :: "char \<Rightarrow> bool" where
  "is_ident_start c \<longleftrightarrow> is_letter c \<or> c = CHR ''_''"

definition is_ident_char :: "char \<Rightarrow> bool" where
  "is_ident_char c \<longleftrightarrow> is_letter c \<or> is_digit c \<or> c = CHR ''_''"

text \<open>Digits, then optionally a dot and more digits; the text read and the rest.\<close>

definition lex_number :: "string \<Rightarrow> string \<times> string" where
  "lex_number s =
     (let whole = takeWhile is_digit s; rest = dropWhile is_digit s in
      case rest of
        c # cs \<Rightarrow>
          if c = CHR ''.'' then (whole @ c # takeWhile is_digit cs, dropWhile is_digit cs)
          else (whole, rest)
      | [] \<Rightarrow> (whole, rest))"

text \<open>The body of a string literal up to the closing quote.\<close>

fun lex_string :: "char \<Rightarrow> string \<Rightarrow> (string \<times> string) option" where
  "lex_string q [] = None"
| "lex_string q (c # cs) =
     (if c = q then Some ([], cs)
      else if c = CHR 0x5C then None
      else map_option (\<lambda>(v, r). (c # v, r)) (lex_string q cs))"

definition punctuation :: "char \<Rightarrow> token option" where
  "punctuation c = map_of [(CHR ''('', TLparen), (CHR '')'', TRparen), (CHR ''['', TLbracket),
     (CHR '']'', TRbracket), (CHR '','', TComma), (CHR ''.'', TDot)] c"

definition lex_op :: "string \<Rightarrow> string option" where
  "lex_op s = find (\<lambda>opr. if length opr = 2 then take 2 s = opr else take 1 s = opr) OPERATORS"

lemma lex_string_length: "lex_string q s = Some (v, r) \<Longrightarrow> length r < length s"
  by (induction s arbitrary: v) (fastforce split: if_splits)+

lemma lex_op_nonempty: "lex_op s = Some opr \<Longrightarrow> 0 < length opr"
  by (auto simp: lex_op_def OPERATORS_def split: if_splits)

lemma length_dropWhile_Cons: "length (dropWhile P cs) < Suc (length cs)"
  by (simp add: le_imp_less_Suc length_dropWhile_le)

lemma lex_number_length: "is_digit c \<Longrightarrow> length (snd (lex_number (c # cs))) < Suc (length cs)"
proof -
  assume c: "is_digit c"
  have le: "length (dropWhile is_digit xs) \<le> length xs" for xs by (rule length_dropWhile_le)
  show ?thesis
  proof (cases "dropWhile is_digit cs")
    case Nil
    with c show ?thesis by (simp add: lex_number_def Let_def del: dropWhile_eq_Nil_conv)
  next
    case (Cons d ds)
    then have "Suc (length ds) \<le> length cs" using le [of cs] by simp
    with c Cons le [of ds] show ?thesis by (simp add: lex_number_def Let_def)
  qed
qed

function tokenize :: "string \<Rightarrow> expr_error + token list" where
  "tokenize [] = Inr [TEof]"
| "tokenize (c # cs) =
     (if is_blank c then tokenize cs
      else if is_digit c then
        (case lex_number (c # cs) of (v, r) \<Rightarrow> res_bind (tokenize r) (\<lambda>ts. Inr (TNumber v # ts)))
      else if is_ident_start c then
        res_bind (tokenize (dropWhile is_ident_char cs)) (\<lambda>ts.
          Inr (TIdent (c # takeWhile is_ident_char cs) # ts))
      else if c = CHR 0x22 \<or> c = CHR 0x27 then
        (case lex_string c cs of
           None \<Rightarrow> Inl ExpressionParseError
         | Some (v, r) \<Rightarrow> res_bind (tokenize r) (\<lambda>ts. Inr (TString v # ts)))
      else case punctuation c of
        Some t \<Rightarrow> res_bind (tokenize cs) (\<lambda>ts. Inr (t # ts))
      | None \<Rightarrow>
          (case lex_op (c # cs) of
             None \<Rightarrow> Inl ExpressionParseError
           | Some opr \<Rightarrow>
               res_bind (tokenize (drop (length opr) (c # cs))) (\<lambda>ts. Inr (TOp opr # ts))))"
  by pat_completeness auto
termination
  by (relation "measure length")
    (auto simp: length_dropWhile_Cons dest: lex_string_length lex_op_nonempty lex_number_length
      intro: less_SucI, metis lex_number_length snd_conv)

section \<open>The parser\<close>

datatype ast =
    Num string
  | Str string
  | Path "string list"
  | Unary string ast
  | Binary string ast ast
  | Call string "ast list"

definition FUNCTIONS :: "string list" where
  "FUNCTIONS = [''abs'', ''min'', ''max'', ''neg'', ''if'', ''exists'']"

definition roots :: "string list" where
  "roots = [''event'', ''context'', ''item'']"

definition level_ops :: "nat \<Rightarrow> string list" where
  "level_ops lv =
     (if lv = 0 then [''||''] else if lv = 1 then [''&&'']
      else if lv = 2 then [''=='', ''!='', ''>'', ''>='', ''<'', ''<='']
      else if lv = 3 then [''+'', ''-''] else if lv = 4 then [''*'', ''/''] else [])"

text \<open>The accessors behind the root of a path.\<close>

definition accessor :: "token list \<Rightarrow> (expr_error + string \<times> token list) option" where
  "accessor ts =
     (case ts of
        TDot # r \<Rightarrow> Some (case r of TIdent s # r' \<Rightarrow> Inr (s, r') | _ \<Rightarrow> Inl ExpressionParseError)
      | TLbracket # r \<Rightarrow> Some
          (case r of
             TString s # r' \<Rightarrow>
               (case r' of TRbracket # r'' \<Rightarrow> Inr (s, r'') | _ \<Rightarrow> Inl ExpressionParseError)
           | _ \<Rightarrow> Inl ExpressionParseError)
      | _ \<Rightarrow> None)"

lemma accessor_length: "accessor ts = Some (Inr (s, r)) \<Longrightarrow> length r < length ts"
  by (auto simp: accessor_def split: list.splits token.splits)

function path_segments :: "token list \<Rightarrow> expr_error + string list \<times> token list" where
  "path_segments ts =
     (case accessor ts of
        None \<Rightarrow> Inr ([], ts)
      | Some (Inl err) \<Rightarrow> Inl err
      | Some (Inr (s, r)) \<Rightarrow> res_bind (path_segments r) (\<lambda>(ss, r'). Inr (s # ss, r')))"
  by pat_completeness auto
termination by (relation "measure length") (auto dest: accessor_length)

declare path_segments.simps [simp del]

definition parsePath :: "string \<Rightarrow> token list \<Rightarrow> expr_error + ast \<times> token list" where
  "parsePath rt ts =
     res_bind (path_segments ts) (\<lambda>(ss, r).
       if length (rt # ss) < 2 then Inl ExpressionParseError else Inr (Path (rt # ss), r))"

definition expect :: "token \<Rightarrow> 'a \<times> token list \<Rightarrow> expr_error + 'a \<times> token list" where
  "expect t xr = (case snd xr of
     t' # ts \<Rightarrow> if t' = t then Inr (fst xr, ts) else Inl ExpressionParseError
   | [] \<Rightarrow> Inl ExpressionParseError)"

text \<open>The tests the parser makes on the next token.\<close>

definition op_head :: "string list \<Rightarrow> token list \<Rightarrow> (string \<times> token list) option" where
  "op_head ops ts =
     (case ts of TOp opr # r \<Rightarrow> if opr \<in> set ops then Some (opr, r) else None | _ \<Rightarrow> None)"

definition after :: "token \<Rightarrow> token list \<Rightarrow> token list option" where
  "after t ts = (case ts of t' # r \<Rightarrow> if t' = t then Some r else None | [] \<Rightarrow> None)"

text \<open>The cases of \<open>parsePrimary\<close> that need no recursion, and what the others recurse on.\<close>

datatype primary_head =
    HParen "token list"
  | HCall string "token list"
  | HDone "expr_error + ast \<times> token list"

definition primary_head :: "token list \<Rightarrow> primary_head" where
  "primary_head ts =
     (case ts of
        TLparen # r \<Rightarrow> HParen r
      | TNumber v # r \<Rightarrow> HDone (Inr (Num v, r))
      | TString v # r \<Rightarrow> HDone (Inr (Str v, r))
      | TIdent v # r \<Rightarrow>
          (case (if v \<in> set FUNCTIONS then after TLparen r else None) of
             Some r' \<Rightarrow> HCall v r'
           | None \<Rightarrow> HDone (if v \<in> set roots then parsePath v r else Inl ExpressionParseError))
      | _ \<Rightarrow> HDone (Inl ExpressionParseError))"

function (sequential) parse_binary :: "nat \<Rightarrow> nat \<Rightarrow> token list \<Rightarrow> expr_error + ast \<times> token list"
  and parse_loop :: "nat \<Rightarrow> nat \<Rightarrow> ast \<Rightarrow> token list \<Rightarrow> expr_error + ast \<times> token list"
  and parseUnary :: "nat \<Rightarrow> token list \<Rightarrow> expr_error + ast \<times> token list"
  and parsePrimary :: "nat \<Rightarrow> token list \<Rightarrow> expr_error + ast \<times> token list"
  and parse_args :: "nat \<Rightarrow> token list \<Rightarrow> expr_error + ast list \<times> token list"
where
  "parse_binary 0 lv ts = Inl OutOfFuel"
| "parse_binary (Suc n) lv ts =
     res_bind (if 4 \<le> lv then parseUnary n ts else parse_binary n (Suc lv) ts)
       (\<lambda>p. parse_loop n lv (fst p) (snd p))"
| "parse_loop 0 lv left ts = Inl OutOfFuel"
| "parse_loop (Suc n) lv left ts =
     (case op_head (level_ops lv) ts of
        None \<Rightarrow> Inr (left, ts)
      | Some p \<Rightarrow>
          res_bind (if 4 \<le> lv then parseUnary n (snd p) else parse_binary n (Suc lv) (snd p))
            (\<lambda>q. parse_loop n lv (Binary (fst p) left (fst q)) (snd q)))"
| "parseUnary 0 ts = Inl OutOfFuel"
| "parseUnary (Suc n) ts =
     (case op_head [''-'', ''!''] ts of
        None \<Rightarrow> parsePrimary n ts
      | Some p \<Rightarrow> res_bind (parseUnary n (snd p)) (\<lambda>q. Inr (Unary (fst p) (fst q), snd q)))"
| "parsePrimary 0 ts = Inl OutOfFuel"
| "parsePrimary (Suc n) ts =
     (case primary_head ts of
        HParen r \<Rightarrow> res_bind (parse_binary n 0 r) (expect TRparen)
      | HCall fn r \<Rightarrow>
          (case after TRparen r of
             Some r' \<Rightarrow> Inr (Call fn [], r')
           | None \<Rightarrow> res_bind (parse_args n r) (\<lambda>ar.
               res_bind (expect TRparen ar) (\<lambda>q. Inr (Call fn (fst q), snd q))))
      | HDone res \<Rightarrow> res)"
| "parse_args 0 ts = Inl OutOfFuel"
| "parse_args (Suc n) ts =
     res_bind (parse_binary n 0 ts) (\<lambda>p.
       case after TComma (snd p) of
         Some r \<Rightarrow> res_bind (parse_args n r) (\<lambda>q. Inr (fst p # fst q, snd q))
       | None \<Rightarrow> Inr ([fst p], snd p))"
  by pat_completeness auto
termination
  by (relation "measure (case_sum (case_sum fst fst) (case_sum fst (case_sum fst fst)))") auto

definition parse_fuel :: "token list \<Rightarrow> nat" where
  "parse_fuel ts = 8 * length ts + 8"

definition parse :: "token list \<Rightarrow> expr_error + ast" where
  "parse ts =
     res_bind (parse_binary (parse_fuel ts) 0 ts) (\<lambda>p.
       case after TEof (snd p) of Some _ \<Rightarrow> Inr (fst p) | None \<Rightarrow> Inl ExpressionParseError)"

definition parseExpression :: "string \<Rightarrow> expr_error + ast" where
  "parseExpression src = res_bind (tokenize src) parse"

section \<open>Evaluation\<close>

record eval_scope =
  sc_event :: jsval
  sc_context :: jsval
  sc_item :: jsval

datatype eval_value = VInt int | VBool bool | VStr string

definition bigIntDivHalfEven :: "int \<Rightarrow> int \<Rightarrow> expr_error + int" where
  "bigIntDivHalfEven numerator denominator =
     (if denominator = 0 then Inl ExpressionEvalError
      else (let negative = ((numerator < 0) \<noteq> (denominator < 0));
                absNum = (if numerator < 0 then - numerator else numerator);
                absDen = (if denominator < 0 then - denominator else denominator);
                q = absNum div absDen;
                r = absNum mod absDen
            in if r = 0 then Inr (if negative then - q else q)
               else (let twice = r * 2;
                         rounded = (if twice < absDen then q
                                    else if twice > absDen then q + 1
                                    else if q mod 2 = 0 then q else q + 1)
                     in Inr (if negative then - rounded else rounded))))"

definition rootValue :: "eval_scope \<Rightarrow> string \<Rightarrow> jsval" where
  "rootValue scope rt =
     (if rt = ''event'' then sc_event scope
      else if rt = ''context'' then sc_context scope
      else if rt = ''item'' then sc_item scope
      else JUndefined)"

fun walk_path :: "jsval \<Rightarrow> string list \<Rightarrow> jsval option" where
  "walk_path current [] = Some current"
| "walk_path current (seg # rest) =
     (if \<not> is_object current then None
      else case prop_get current seg of None \<Rightarrow> None | Some v \<Rightarrow> walk_path v rest)"

definition readPath :: "eval_scope \<Rightarrow> string list \<Rightarrow> expr_error + jsval" where
  "readPath scope segments =
     (case segments of
        [] \<Rightarrow> Inr JUndefined
      | rt # rest \<Rightarrow>
          (case walk_path (rootValue scope rt) rest of
             None \<Rightarrow> Inl (UnknownPathError segments) | Some v \<Rightarrow> Inr v))"

definition pathExists :: "eval_scope \<Rightarrow> string list \<Rightarrow> bool" where
  "pathExists scope segments =
     (case readPath scope segments of Inl _ \<Rightarrow> False | Inr v \<Rightarrow> v \<noteq> JUndefined \<and> v \<noteq> JNull)"

text \<open>\<open>/^-?\d+$/\<close> and \<open>BigInt(s)\<close>.\<close>

definition signed_digits :: "string \<Rightarrow> int option" where
  "signed_digits s =
     (case s of
        [] \<Rightarrow> None
      | c # cs \<Rightarrow>
          if c = CHR ''-'' then (if all_digits cs then Some (- int (parse_nat cs)) else None)
          else if all_digits s then Some (int (parse_nat s)) else None)"

fun coerceScalar :: "jsval \<Rightarrow> expr_error + eval_value" where
  "coerceScalar (JBig i) = Inr (VInt i)"
| "coerceScalar (JBool b) = Inr (VBool b)"
| "coerceScalar (JStr s) = (case signed_digits s of Some i \<Rightarrow> Inr (VInt i) | None \<Rightarrow> Inr (VStr s))"
| "coerceScalar (JNum q) =
     (case quotient_of q of (a, b) \<Rightarrow> if b = 1 then Inr (VInt a) else Inl ExpressionEvalError)"
| "coerceScalar _ = Inl ExpressionEvalError"

fun toBigInt :: "eval_value \<Rightarrow> expr_error + int" where
  "toBigInt (VInt i) = Inr i"
| "toBigInt _ = Inl ExpressionEvalError"

fun to_bool :: "eval_value \<Rightarrow> expr_error + bool" where
  "to_bool (VBool b) = Inr b"
| "to_bool _ = Inl ExpressionEvalError"

fun compareEquality :: "eval_value \<Rightarrow> eval_value \<Rightarrow> bool" where
  "compareEquality (VInt a) (VInt b) = (a = b)"
| "compareEquality (VStr a) (VStr b) = (a = b)"
| "compareEquality (VBool a) (VBool b) = (a = b)"
| "compareEquality (VInt a) (VStr b) = (case signed_digits b of Some i \<Rightarrow> a = i | None \<Rightarrow> False)"
| "compareEquality (VStr a) (VInt b) = (case signed_digits a of Some i \<Rightarrow> b = i | None \<Rightarrow> False)"
| "compareEquality _ _ = False"

text \<open>The operators that evaluate both operands, on their values.\<close>

definition strict_binary :: "string \<Rightarrow> eval_value \<Rightarrow> eval_value \<Rightarrow> expr_error + eval_value" where
  "strict_binary opr l r =
     (if opr = ''=='' then Inr (VBool (compareEquality l r))
      else if opr = ''!='' then Inr (VBool (\<not> compareEquality l r))
      else res_bind (toBigInt l) (\<lambda>a. res_bind (toBigInt r) (\<lambda>b.
        if opr = ''>'' then Inr (VBool (a > b))
        else if opr = ''>='' then Inr (VBool (a \<ge> b))
        else if opr = ''<'' then Inr (VBool (a < b))
        else if opr = ''<='' then Inr (VBool (a \<le> b))
        else if opr = ''+'' then Inr (VInt (a + b))
        else if opr = ''-'' then Inr (VInt (a - b))
        else if opr = ''*'' then Inr (VInt (a * b))
        else if opr = ''/'' then res_bind (bigIntDivHalfEven a b) (\<lambda>q. Inr (VInt q))
        else Inl ExpressionEvalError)))"

fun evalAst :: "eval_scope \<Rightarrow> ast \<Rightarrow> expr_error + eval_value" where
  "evalAst scope (Num v) =
     (if CHR ''.'' \<in> set v then Inl ExpressionEvalError else Inr (VInt (int (parse_nat v))))"
| "evalAst scope (Str v) = Inr (VStr v)"
| "evalAst scope (Path segments) = res_bind (readPath scope segments) coerceScalar"
| "evalAst scope (Unary opr operand) =
     res_bind (evalAst scope operand) (\<lambda>v.
       if opr = ''!'' then res_bind (to_bool v) (\<lambda>b. Inr (VBool (\<not> b)))
       else res_bind (toBigInt v) (\<lambda>i. Inr (VInt (- i))))"
| "evalAst scope (Binary opr left right) =
     (if opr = ''&&'' \<or> opr = ''||'' then
        res_bind (res_bind (evalAst scope left) to_bool) (\<lambda>l.
          if opr = ''&&'' \<and> \<not> l then Inr (VBool False)
          else if opr = ''||'' \<and> l then Inr (VBool True)
          else res_bind (res_bind (evalAst scope right) to_bool) (\<lambda>r. Inr (VBool r)))
      else res_bind (evalAst scope left) (\<lambda>l.
        res_bind (evalAst scope right) (\<lambda>r. strict_binary opr l r)))"
| "evalAst scope (Call fn args) =
     (if fn = ''exists'' then
        (case args of [Path segments] \<Rightarrow> Inr (VBool (pathExists scope segments))
         | _ \<Rightarrow> Inl ExpressionEvalError)
      else if fn = ''abs'' then
        (case args of
           [x] \<Rightarrow> res_bind (res_bind (evalAst scope x) toBigInt) (\<lambda>v. Inr (VInt (if v < 0 then - v else v)))
         | _ \<Rightarrow> Inl ExpressionEvalError)
      else if fn = ''neg'' then
        (case args of
           [x] \<Rightarrow> res_bind (res_bind (evalAst scope x) toBigInt) (\<lambda>v. Inr (VInt (- v)))
         | _ \<Rightarrow> Inl ExpressionEvalError)
      else if fn = ''min'' \<or> fn = ''max'' then
        (if length args < 1 then Inl ExpressionEvalError
         else res_bind (res_map (\<lambda>a. res_bind (evalAst scope a) toBigInt) args) (\<lambda>vals.
           Inr (VInt (foldl (\<lambda>acc v.
             if fn = ''min'' then (if v < acc then v else acc) else (if v > acc then v else acc))
             (hd vals) (tl vals)))))
      else if fn = ''if'' then
        (case args of
           [c, x, y] \<Rightarrow> res_bind (res_bind (evalAst scope c) to_bool) (\<lambda>b.
             evalAst scope (if b then x else y))
         | _ \<Rightarrow> Inl ExpressionEvalError)
      else Inl ExpressionEvalError)"

definition evaluateAmount :: "string \<Rightarrow> eval_scope \<Rightarrow> expr_error + int" where
  "evaluateAmount src scope =
     res_bind (parseExpression src) (\<lambda>a. res_bind (evalAst scope a) (\<lambda>v.
       case v of VInt i \<Rightarrow> Inr i | _ \<Rightarrow> Inl ExpressionEvalError))"

definition evaluatePredicate :: "string \<Rightarrow> eval_scope \<Rightarrow> expr_error + bool" where
  "evaluatePredicate src scope =
     res_bind (parseExpression src) (\<lambda>a. res_bind (evalAst scope a) (\<lambda>v.
       case v of VBool b \<Rightarrow> Inr b | _ \<Rightarrow> Inl ExpressionEvalError))"

definition evaluateString :: "string \<Rightarrow> eval_scope \<Rightarrow> expr_error + string" where
  "evaluateString src scope =
     res_bind (parseExpression src) (\<lambda>a. res_bind (evalAst scope a) (\<lambda>v.
       case v of VStr s \<Rightarrow> Inr s | _ \<Rightarrow> Inl ExpressionEvalError))"

end
