(* ===== verification/SlaGrammar.thy ===== *)
theory SlaGrammar
  imports SlaExpression
begin

text \<open>
  The parser of the expression language: its fuel always suffices, it accepts exactly the
  well-formed syntax trees, and precedence and associativity are those of the grammar.
\<close>

section \<open>The parser does not run out of fuel\<close>

lemma op_head_Some: "op_head ops ts = Some p \<longleftrightarrow> ts = TOp (fst p) # snd p \<and> fst p \<in> set ops"
  by (cases p) (auto simp: op_head_def split: list.splits token.splits)

lemma after_Some: "after t ts = Some r \<longleftrightarrow> ts = t # r"
  by (auto simp: after_def split: list.splits)

lemma expect_Inr [simp]: "expect t p = Inr q \<longleftrightarrow> snd p = t # snd q \<and> fst q = fst p"
  by (cases q) (auto simp: expect_def split: list.splits)

lemma expect_error: "expect t p = Inl err \<Longrightarrow> err = ExpressionParseError"
  by (auto simp: expect_def split: list.splits if_splits)

lemma path_segments_facts:
  "(\<forall>err. path_segments ts = Inl err \<longrightarrow> err = ExpressionParseError) \<and> (\<forall>ss r. path_segments ts = Inr (ss, r) \<longrightarrow> length r \<le> length ts)"
proof (induction ts rule: path_segments.induct)
  case (1 ts)
  show ?case
  proof (cases "accessor ts")
    case None
    then show ?thesis by (simp add: path_segments.simps [of ts])
  next
    case (Some a)
    show ?thesis
    proof (cases a)
      case (Inl err)
      with Some show ?thesis
        by (auto simp: path_segments.simps [of ts] accessor_def split: list.splits token.splits)
    next
      case (Inr p)
      obtain s r where p: "p = (s, r)" by fastforce
      with Some Inr have "length r < length ts" by (auto dest: accessor_length)
      moreover have IH: "\<And>err. path_segments r = Inl err \<Longrightarrow> err = ExpressionParseError"
        "\<And>ss r'. path_segments r = Inr (ss, r') \<Longrightarrow> length r' \<le> length r"
        using "1.IH" [OF Some Inr p [symmetric]] by auto
      ultimately show ?thesis using Some Inr p
        by (auto simp: path_segments.simps [of ts] res_bind_Inl_iff res_bind_Inr_iff split: prod.splits
            dest!: IH)
    qed
  qed
qed

lemma parsePath_facts:
  "parsePath rt ts = Inl err \<Longrightarrow> err = ExpressionParseError"
  "parsePath rt ts = Inr (a, r) \<Longrightarrow> length r \<le> length ts"
  using path_segments_facts [of ts]
  by (auto simp: parsePath_def res_bind_Inl_iff res_bind_Inr_iff split: prod.splits if_splits)

lemma primary_head_cases:
  obtains (paren) r where "ts = TLparen # r" "primary_head ts = HParen r"
  | (call) fn r where "ts = TIdent fn # TLparen # r" "fn \<in> set FUNCTIONS" "primary_head ts = HCall fn r"
  | (finished) res where "primary_head ts = HDone res" "\<And>err. res = Inl err \<Longrightarrow> err = ExpressionParseError"
      "\<And>a r. res = Inr (a, r) \<Longrightarrow> length r < length ts"
proof (cases ts)
  case Nil
  then show thesis by (intro finished [of "Inl ExpressionParseError"]) (simp_all add: primary_head_def)
next
  case (Cons t r)
  show thesis
  proof (cases t)
    case (TIdent v)
    show thesis
    proof (cases "if v \<in> set FUNCTIONS then after TLparen r else None")
      case None
      show thesis
      proof (cases "v \<in> set roots")
        case True
        with None Cons TIdent parsePath_facts(2) [of v r] show thesis
          by (intro finished [of "parsePath v r"])
            (auto simp: primary_head_def dest: parsePath_facts(1) intro: le_imp_less_Suc)
      next
        case False
        with None Cons TIdent show thesis
          by (intro finished [of "Inl ExpressionParseError"]) (auto simp: primary_head_def)
      qed
    next
      case (Some r')
      then have "v \<in> set FUNCTIONS" "r = TLparen # r'" by (auto simp: after_Some split: if_splits)
      with Cons TIdent show thesis
        by (intro call [of v r']) (auto simp: primary_head_def after_def)
    qed
  next
    case TLparen
    with Cons show thesis by (intro paren) (simp_all add: primary_head_def)
  next
    case (TNumber v)
    with Cons show thesis by (intro finished [of "Inr (Num v, r)"]) (simp_all add: primary_head_def)
  next
    case (TString v)
    with Cons show thesis by (intro finished [of "Inr (Str v, r)"]) (simp_all add: primary_head_def)
  qed (use Cons in \<open>intro finished [of "Inl ExpressionParseError"]; simp add: primary_head_def\<close>)+
qed

text \<open>What a call with enough fuel promises: an answer, and a rest shorter than its input.\<close>

definition answers :: "nat \<Rightarrow> expr_error + 'a \<times> token list \<Rightarrow> bool" where
  "answers n res \<longleftrightarrow> (\<forall>err. res = Inl err \<longrightarrow> err = ExpressionParseError) \<and> (\<forall>p. res = Inr p \<longrightarrow> length (snd p) < n)"

lemma answers_bind:
  assumes "answers n res" "\<And>p. res = Inr p \<Longrightarrow> length (snd p) < n \<Longrightarrow> answers m (f p)"
  shows "answers m (res_bind res f)"
  using assms by (cases res) (auto simp: answers_def)

lemma answers_mono: "answers n res \<Longrightarrow> n \<le> m \<Longrightarrow> answers m res"
  by (auto simp: answers_def)

lemma answers_Inr [simp]: "answers n (Inr (a, r)) \<longleftrightarrow> length r < n"
  by (simp add: answers_def)

lemma answers_expect:
  assumes "\<And>q. snd p = t # snd q \<Longrightarrow> length (snd q) < n"
  shows "answers n (expect t p)"
  using assms by (auto simp: answers_def dest: expect_error)

lemma fuel_suffices:
  "lv \<le> 4 \<Longrightarrow> 8 * length ts + 7 \<le> n + lv \<Longrightarrow> answers (length ts) (parse_binary n lv ts)"
  "lv \<le> 4 \<Longrightarrow> 8 * length ts + 1 \<le> n \<Longrightarrow> answers (Suc (length ts)) (parse_loop n lv left ts)"
  "8 * length ts + 2 \<le> n \<Longrightarrow> answers (length ts) (parseUnary n ts)"
  "8 * length ts + 1 \<le> n \<Longrightarrow> answers (length ts) (parsePrimary n ts)"
  "8 * length ts + 8 \<le> n \<Longrightarrow> answers (length ts) (parse_args n ts)"
proof (induction n lv ts and n lv left ts and n ts and n ts and n ts
    rule: parse_binary_parse_loop_parseUnary_parsePrimary_parse_args.induct)
  case (2 n lv ts)
  have "answers (length ts) (if 4 \<le> lv then parseUnary n ts else parse_binary n (Suc lv) ts)"
    using "2.IH"(1,2) "2.prems" by auto
  then show ?case
    using "2.IH"(3) "2.prems" by (auto intro!: answers_bind intro: answers_mono)
next
  case (4 n lv left ts)
  show ?case
  proof (cases "op_head (level_ops lv) ts")
    case None
    then show ?thesis by simp
  next
    case (Some p)
    then have ts: "ts = TOp (fst p) # snd p" by (simp add: op_head_Some)
    have "answers (length (snd p)) (if 4 \<le> lv then parseUnary n (snd p) else parse_binary n (Suc lv) (snd p))"
      using "4.IH"(1,2) [OF Some] "4.prems" ts by auto
    then have "answers (Suc (length ts)) (res_bind
        (if 4 \<le> lv then parseUnary n (snd p) else parse_binary n (Suc lv) (snd p))
        (\<lambda>q. parse_loop n lv (Binary (fst p) left (fst q)) (snd q)))"
      using "4.IH"(3) [OF Some] "4.prems" ts
      by (intro answers_bind) (auto elim!: answers_mono)
    with Some show ?thesis by simp
  qed
next
  case (6 n ts)
  show ?case
  proof (cases "op_head [''-'', ''!''] ts")
    case None
    with "6.IH"(1) "6.prems" show ?thesis by simp
  next
    case (Some p)
    then have ts: "ts = TOp (fst p) # snd p" by (simp add: op_head_Some)
    with "6.IH"(2) [OF Some] "6.prems" have "answers (length (snd p)) (parseUnary n (snd p))" by simp
    with Some ts show ?thesis by (auto intro!: answers_bind)
  qed
next
  case (8 n ts)
  show ?case
  proof (cases rule: primary_head_cases [of ts])
    case (paren r)
    with "8.IH"(1) [OF paren(2)] "8.prems" have "answers (length r) (parse_binary n 0 r)" by simp
    with paren show ?thesis by (auto intro!: answers_bind answers_expect)
  next
    case (call fn r)
    show ?thesis
    proof (cases "after TRparen r")
      case None
      with "8.IH"(2) [OF call(3) None] "8.prems" call have "answers (length r) (parse_args n r)" by simp
      then have "answers (length ts) (res_bind (parse_args n r) (\<lambda>ar.
          res_bind (expect TRparen ar) (\<lambda>q. Inr (Call fn (fst q), snd q))))"
      proof (rule answers_bind)
        fix p :: "ast list \<times> token list"
        assume "length (snd p) < length r"
        with call(1) show "answers (length ts) (res_bind (expect TRparen p) (\<lambda>q. Inr (Call fn (fst q), snd q)))"
          by (intro answers_bind [of "length r"] answers_expect) auto
      qed
      with None call show ?thesis by simp
    next
      case (Some r')
      with call show ?thesis by (simp add: after_Some) (simp add: after_def)
    qed
  next
    case (finished res)
    then show ?thesis by (auto simp: answers_def)
  qed
next
  case (10 n ts)
  from "10.IH"(1) "10.prems" have b: "answers (length ts) (parse_binary n 0 ts)" by simp
  show ?case unfolding parse_args.simps
  proof (rule answers_bind [OF b])
    fix p
    assume p: "parse_binary n 0 ts = Inr p" "length (snd p) < length ts"
    show "answers (length ts) (case after TComma (snd p) of
        Some r \<Rightarrow> res_bind (parse_args n r) (\<lambda>q. Inr (fst p # fst q, snd q))
      | None \<Rightarrow> Inr ([fst p], snd p))"
    proof (cases "after TComma (snd p)")
      case None
      with p show ?thesis by simp
    next
      case (Some r)
      then have r: "snd p = TComma # r" by (simp add: after_Some)
      with "10.IH"(2) [OF p(1) Some] "10.prems" p have "answers (length r) (parse_args n r)" by simp
      with Some p r show ?thesis by (auto intro!: answers_bind)
    qed
  qed
qed auto

section \<open>The parser without fuel\<close>

lemma bind_cong_fuel:
  assumes "res_bind a f \<noteq> Inl OutOfFuel" "a \<noteq> Inl OutOfFuel \<Longrightarrow> b = a"
    "\<And>x. a = Inr x \<Longrightarrow> f x \<noteq> Inl OutOfFuel \<Longrightarrow> g x = f x"
  shows "res_bind b g = res_bind a f"
  using assms by (cases a) auto

text \<open>More fuel does not change an answer.\<close>

lemma more_fuel:
  "parse_binary n lv ts \<noteq> Inl OutOfFuel \<Longrightarrow> parse_binary (n + k) lv ts = parse_binary n lv ts"
  "parse_loop n lv left ts \<noteq> Inl OutOfFuel \<Longrightarrow> parse_loop (n + k) lv left ts = parse_loop n lv left ts"
  "parseUnary n ts \<noteq> Inl OutOfFuel \<Longrightarrow> parseUnary (n + k) ts = parseUnary n ts"
  "parsePrimary n ts \<noteq> Inl OutOfFuel \<Longrightarrow> parsePrimary (n + k) ts = parsePrimary n ts"
  "parse_args n ts \<noteq> Inl OutOfFuel \<Longrightarrow> parse_args (n + k) ts = parse_args n ts"
proof (induction n lv ts and n lv left ts and n ts and n ts and n ts
    rule: parse_binary_parse_loop_parseUnary_parsePrimary_parse_args.induct)
  case (2 n lv ts)
  then show ?case
    by (auto intro!: bind_cong_fuel split: if_splits)
next
  case (4 n lv left ts)
  then show ?case
    by (cases "op_head (level_ops lv) ts") (auto intro!: bind_cong_fuel split: if_splits)
next
  case (6 n ts)
  then show ?case
    by (cases "op_head [''-'', ''!''] ts") (auto intro!: bind_cong_fuel)
next
  case (8 n ts)
  show ?case
  proof (cases "primary_head ts")
    case (HCall fn r)
    with 8 show ?thesis by (cases "after TRparen r") (auto intro!: bind_cong_fuel)
  qed (use 8 in \<open>auto intro!: bind_cong_fuel\<close>)
next
  case (10 n ts)
  have "parse_binary n 0 ts \<noteq> Inl OutOfFuel" using "10.prems" by auto
  from "10.IH"(1) [OF this] have b: "parse_binary (n + k) 0 ts = parse_binary n 0 ts" .
  show ?case
  proof (cases "parse_binary n 0 ts")
    case (Inr p)
    with "10.IH"(2) [OF Inr] "10.prems" b show ?thesis
      by (cases "after TComma (snd p)") (auto intro!: bind_cong_fuel)
  qed (use b in simp)
qed auto

definition p_binary :: "nat \<Rightarrow> token list \<Rightarrow> expr_error + ast \<times> token list" where
  "p_binary lv ts = parse_binary (parse_fuel ts) lv ts"
definition p_loop :: "nat \<Rightarrow> ast \<Rightarrow> token list \<Rightarrow> expr_error + ast \<times> token list" where
  "p_loop lv left ts = parse_loop (parse_fuel ts) lv left ts"
definition p_unary :: "token list \<Rightarrow> expr_error + ast \<times> token list" where
  "p_unary ts = parseUnary (parse_fuel ts) ts"
definition p_primary :: "token list \<Rightarrow> expr_error + ast \<times> token list" where
  "p_primary ts = parsePrimary (parse_fuel ts) ts"
definition p_args :: "token list \<Rightarrow> expr_error + ast list \<times> token list" where
  "p_args ts = parse_args (parse_fuel ts) ts"

definition p_operand :: "nat \<Rightarrow> token list \<Rightarrow> expr_error + ast \<times> token list" where
  "p_operand lv ts = (if 4 \<le> lv then p_unary ts else p_binary (Suc lv) ts)"

text \<open>Any fuel above the bound of \<open>fuel_suffices\<close> gives the same answer.\<close>

lemma enough_unique:
  assumes "\<And>n k. B \<le> n \<Longrightarrow> f (n + k) = (f n :: 'a)" "B \<le> (n :: nat)" "B \<le> m"
  shows "f n = f m"
  using assms(1) [OF assms(2), of "m - n"] assms(1) [OF assms(3), of "n - m"] by (cases "n \<le> m") simp_all

lemma answers_not_fuel: "answers k res \<Longrightarrow> res \<noteq> Inl OutOfFuel"
  by (auto simp: answers_def)

lemma binary_fuel_enough:
  assumes "lv \<le> 4" "8 * length ts + 7 \<le> n + lv"
  shows "parse_binary n lv ts = p_binary lv ts"
  unfolding p_binary_def
proof (rule enough_unique [where B = "8 * length ts + 7 - lv"])
  fix n k
  assume "8 * length ts + 7 - lv \<le> n"
  then have "answers (length ts) (parse_binary n lv ts)" by (intro fuel_suffices(1) assms) simp
  then show "parse_binary (n + k) lv ts = parse_binary n lv ts"
    by (intro more_fuel(1)) (rule answers_not_fuel)
qed (use assms in \<open>simp_all add: parse_fuel_def\<close>)

lemma loop_fuel_enough:
  assumes "lv \<le> 4" "8 * length ts + 1 \<le> n"
  shows "parse_loop n lv left ts = p_loop lv left ts"
  unfolding p_loop_def
  by (rule enough_unique [where B = "8 * length ts + 1"])
    (use assms in \<open>simp_all add: parse_fuel_def more_fuel(2) answers_not_fuel [OF fuel_suffices(2)]\<close>)

lemma unary_fuel_enough: "8 * length ts + 2 \<le> n \<Longrightarrow> parseUnary n ts = p_unary ts"
  unfolding p_unary_def
  by (rule enough_unique [where B = "8 * length ts + 2"])
    (simp_all add: parse_fuel_def more_fuel(3) answers_not_fuel [OF fuel_suffices(3)])

lemma primary_fuel_enough: "8 * length ts + 1 \<le> n \<Longrightarrow> parsePrimary n ts = p_primary ts"
  unfolding p_primary_def
  by (rule enough_unique [where B = "8 * length ts + 1"])
    (simp_all add: parse_fuel_def more_fuel(4) answers_not_fuel [OF fuel_suffices(4)])

lemma args_fuel_enough: "8 * length ts + 8 \<le> n \<Longrightarrow> parse_args n ts = p_args ts"
  unfolding p_args_def
  by (rule enough_unique [where B = "8 * length ts + 8"])
    (simp_all add: parse_fuel_def more_fuel(5) answers_not_fuel [OF fuel_suffices(5)])

lemmas fuel_enough = binary_fuel_enough loop_fuel_enough unary_fuel_enough primary_fuel_enough
  args_fuel_enough

lemma answers_run:
  "lv \<le> 4 \<Longrightarrow> answers (length ts) (p_binary lv ts)"
  "lv \<le> 4 \<Longrightarrow> answers (Suc (length ts)) (p_loop lv left ts)"
  "answers (length ts) (p_unary ts)" "answers (length ts) (p_primary ts)"
  "answers (length ts) (p_args ts)"
  unfolding p_binary_def p_loop_def p_unary_def p_primary_def p_args_def parse_fuel_def
  by (simp_all add: fuel_suffices)

lemma res_bind_cong': "r = r' \<Longrightarrow> (\<And>x. r' = Inr x \<Longrightarrow> f x = g x) \<Longrightarrow> res_bind r f = res_bind r' g"
  by (cases r') auto

lemma p_operand_fuel:
  "lv \<le> 4 \<Longrightarrow> 8 * length ts + 6 \<le> n + lv \<Longrightarrow>
   (if 4 \<le> lv then parseUnary n ts else parse_binary n (Suc lv) ts) = p_operand lv ts"
  by (simp add: p_operand_def fuel_enough)

lemma answers_operand: "lv \<le> 4 \<Longrightarrow> answers (length ts) (p_operand lv ts)"
  by (simp add: p_operand_def answers_run)

lemma p_binary_eq:
  assumes "lv \<le> 4"
  shows "p_binary lv ts = res_bind (p_operand lv ts) (\<lambda>p. p_loop lv (fst p) (snd p))"
proof -
  have F: "parse_fuel ts = Suc (8 * length ts + 7)" by (simp add: parse_fuel_def)
  have "length (snd p) < length ts" if "p_operand lv ts = Inr p" for p
    using answers_operand [OF assms, of ts] that by (auto simp: answers_def)
  with assms show ?thesis
    unfolding p_binary_def F parse_binary.simps
    by (intro res_bind_cong' p_operand_fuel) (simp_all add: fuel_enough)
qed

lemma p_loop_eq:
  assumes "lv \<le> 4"
  shows "p_loop lv left ts =
    (case op_head (level_ops lv) ts of
       None \<Rightarrow> Inr (left, ts)
     | Some p \<Rightarrow> res_bind (p_operand lv (snd p)) (\<lambda>q. p_loop lv (Binary (fst p) left (fst q)) (snd q)))"
proof (cases "op_head (level_ops lv) ts")
  case None
  have F: "parse_fuel ts = Suc (8 * length ts + 7)" by (simp add: parse_fuel_def)
  from None show ?thesis unfolding p_loop_def F parse_loop.simps by simp
next
  case (Some p)
  then have ts: "length ts = Suc (length (snd p))" by (simp add: op_head_Some)
  have F: "parse_fuel ts = Suc (8 * length ts + 7)" by (simp add: parse_fuel_def)
  have "length (snd q) < length (snd p)" if "p_operand lv (snd p) = Inr q" for q
    using answers_operand [OF assms, of "snd p"] that by (auto simp: answers_def)
  with assms Some ts show ?thesis
    unfolding p_loop_def [of lv left ts] F parse_loop.simps Some option.case
    by (intro res_bind_cong' p_operand_fuel) (simp_all add: fuel_enough)
qed

lemma p_unary_eq:
  "p_unary ts = (case op_head [''-'', ''!''] ts of
     None \<Rightarrow> p_primary ts
   | Some p \<Rightarrow> res_bind (p_unary (snd p)) (\<lambda>q. Inr (Unary (fst p) (fst q), snd q)))"
proof -
  have F: "parse_fuel ts = Suc (8 * length ts + 7)" by (simp add: parse_fuel_def)
  show ?thesis
  proof (cases "op_head [''-'', ''!''] ts")
    case None
    then show ?thesis unfolding p_unary_def [of ts] F parseUnary.simps by (simp add: fuel_enough)
  next
    case (Some p)
    then have "length ts = Suc (length (snd p))" by (simp add: op_head_Some)
    with Some show ?thesis unfolding p_unary_def [of ts] F parseUnary.simps by (simp add: fuel_enough)
  qed
qed

lemma p_primary_eq:
  "p_primary ts =
     (case primary_head ts of
        HParen r \<Rightarrow> res_bind (p_binary 0 r) (expect TRparen)
      | HCall fn r \<Rightarrow>
          (case after TRparen r of
             Some r' \<Rightarrow> Inr (Call fn [], r')
           | None \<Rightarrow> res_bind (p_args r) (\<lambda>ar.
               res_bind (expect TRparen ar) (\<lambda>q. Inr (Call fn (fst q), snd q))))
      | HDone res \<Rightarrow> res)"
proof -
  have F: "parse_fuel ts = Suc (8 * length ts + 7)" by (simp add: parse_fuel_def)
  show ?thesis unfolding p_primary_def [of ts] F parsePrimary.simps
    by (cases rule: primary_head_cases [of ts]) (auto simp: fuel_enough cong: option.case_cong)
qed

lemma p_args_eq:
  "p_args ts = res_bind (p_binary 0 ts) (\<lambda>p.
     case after TComma (snd p) of
       Some r \<Rightarrow> res_bind (p_args r) (\<lambda>q. Inr (fst p # fst q, snd q))
     | None \<Rightarrow> Inr ([fst p], snd p))"
proof -
  have F: "parse_fuel ts = Suc (8 * length ts + 7)" by (simp add: parse_fuel_def)
  have "length (snd p) < length ts" if "p_binary 0 ts = Inr p" for p
    using answers_run(1) [of 0 ts] that by (auto simp: answers_def)
  moreover have "length ts' = Suc (length r)" if "after t ts' = Some r" for t r and ts' :: "token list"
    using that by (simp add: after_Some)
  ultimately show ?thesis unfolding p_args_def [of ts] F parse_args.simps
    by (intro res_bind_cong' option.case_cong) (simp_all add: fuel_enough)
qed

lemma parse_eq:
  "parse ts = res_bind (p_binary 0 ts) (\<lambda>p.
     case after TEof (snd p) of Some _ \<Rightarrow> Inr (fst p) | None \<Rightarrow> Inl ExpressionParseError)"
  by (simp add: parse_def p_binary_def)

section \<open>The syntax trees the parser accepts\<close>

fun wf_ast :: "ast \<Rightarrow> bool" where
  "wf_ast (Num v) = True"
| "wf_ast (Str v) = True"
| "wf_ast (Path ss) = (2 \<le> length ss \<and> hd ss \<in> set roots)"
| "wf_ast (Unary opr a) = (opr \<in> {''-'', ''!''} \<and> wf_ast a)"
| "wf_ast (Binary opr a b) = (opr \<in> set (concat (map level_ops [0..<5])) \<and> wf_ast a \<and> wf_ast b)"
| "wf_ast (Call fn as) = (fn \<in> set FUNCTIONS \<and> (\<forall>a \<in> set as. wf_ast a))"

text \<open>A fully parenthesised token list of a syntax tree.\<close>

fun comma_tokens :: "token list list \<Rightarrow> token list" where
  "comma_tokens [] = []"
| "comma_tokens [x] = x"
| "comma_tokens (x # y # zs) = x @ TComma # comma_tokens (y # zs)"

fun unparse :: "ast \<Rightarrow> token list" where
  "unparse (Num v) = [TNumber v]"
| "unparse (Str v) = [TString v]"
| "unparse (Path ss) = TIdent (hd ss) # concat (map (\<lambda>s. [TLbracket, TString s, TRbracket]) (tl ss))"
| "unparse (Unary opr a) = TLparen # TOp opr # unparse a @ [TRparen]"
| "unparse (Binary opr a b) = TLparen # unparse a @ TOp opr # unparse b @ [TRparen]"
| "unparse (Call fn as) = TIdent fn # TLparen # comma_tokens (map unparse as) @ [TRparen]"

lemma level_ops_disjoint: "opr \<in> set (level_ops i) \<Longrightarrow> opr \<in> set (level_ops j) \<Longrightarrow> i = j"
  by (auto simp: level_ops_def split: if_splits)

lemma level_ops_all: "opr \<in> set (concat (map level_ops [0..<5])) \<longleftrightarrow> (\<exists>k \<le> 4. opr \<in> set (level_ops k))"
proof -
  have "set [0..<5] = {k :: nat. k \<le> 4}" by auto
  then show ?thesis unfolding set_concat set_map by auto
qed

lemma parsed_wf:
  "parse_binary n lv ts = Inr p \<Longrightarrow> lv \<le> 4 \<Longrightarrow> wf_ast (fst p)"
  "parse_loop n lv left ts = Inr p \<Longrightarrow> lv \<le> 4 \<Longrightarrow> wf_ast left \<Longrightarrow> wf_ast (fst p)"
  "parseUnary n ts = Inr p \<Longrightarrow> wf_ast (fst p)"
  "parsePrimary n ts = Inr p \<Longrightarrow> wf_ast (fst p)"
  "parse_args n ts = Inr q \<Longrightarrow> \<forall>a \<in> set (fst q). wf_ast a"
proof (induction n lv ts and n lv left ts and n ts and n ts and n ts arbitrary: p and p and p and p and q
    rule: parse_binary_parse_loop_parseUnary_parsePrimary_parse_args.induct)
  case (2 n lv ts)
  then obtain x where x: "(if 4 \<le> lv then parseUnary n ts else parse_binary n (Suc lv) ts) = Inr x"
    "parse_loop n lv (fst x) (snd x) = Inr p" by (auto simp: res_bind_Inr_iff)
  then have "wf_ast (fst x)" using "2.IH"(1,2) "2.prems"(2) by (auto split: if_splits)
  with "2.IH"(3) [OF x(1) x(2) "2.prems"(2)] show ?case by simp
next
  case (4 n lv left ts)
  show ?case
  proof (cases "op_head (level_ops lv) ts")
    case None
    with 4 show ?thesis by auto
  next
    case (Some x)
    then have "fst x \<in> set (level_ops lv)" by (simp add: op_head_Some)
    with "4.prems"(2) have "fst x \<in> set (concat (map level_ops [0..<5]))"
      unfolding level_ops_all by blast
    moreover from "4.prems"(1) Some obtain y where
      y: "(if 4 \<le> lv then parseUnary n (snd x) else parse_binary n (Suc lv) (snd x)) = Inr y"
      "parse_loop n lv (Binary (fst x) left (fst y)) (snd y) = Inr p" by (auto simp: res_bind_Inr_iff)
    moreover have "wf_ast (fst y)" using "4.IH"(1,2) [OF Some] y(1) "4.prems"(2) by (auto split: if_splits)
    ultimately show ?thesis using "4.IH"(3) [OF Some y(1) y(2) "4.prems"(2)] "4.prems"(3) by simp
  qed
next
  case (6 n ts)
  then show ?case
    by (cases "op_head [''-'', ''!''] ts") (auto simp: res_bind_Inr_iff op_head_Some)
next
  case (8 n ts)
  show ?case
  proof (cases rule: primary_head_cases [of ts])
    case (call fn r)
    with 8 show ?thesis
      by (cases "after TRparen r") (auto simp: res_bind_Inr_iff)
  next
    case (finished res)
    with "8.prems" have "primary_head ts = HDone (Inr p)" by simp
    then show ?thesis
      by (auto simp: primary_head_def parsePath_def res_bind_Inr_iff after_def
          Suc_le_eq split: list.splits token.splits if_splits prod.splits)
  qed (use 8 in \<open>auto simp: res_bind_Inr_iff\<close>)
next
  case (10 n ts)
  then obtain x where x: "parse_binary n 0 ts = Inr x" by (auto simp: res_bind_Inr_iff)
  then have wf: "wf_ast (fst x)" using "10.IH"(1) by simp
  show ?case
  proof (cases "after TComma (snd x)")
    case None
    with x wf "10.prems" show ?thesis by auto
  next
    case (Some r)
    with x "10.prems" obtain y where y: "parse_args n r = Inr y" "q = (fst x # fst y, snd y)"
      by (auto simp: res_bind_Inr_iff)
    with "10.IH"(2) [OF x Some y(1)] wf show ?thesis by simp
  qed
qed auto

lemma stops_at:
  assumes "p_operand lv ts = Inr (a, r)" "lv \<le> 4" "op_head (level_ops lv) r = None"
  shows "p_binary lv ts = Inr (a, r)"
  using assms by (simp add: p_binary_eq p_loop_eq)

text \<open>A unary expression followed by no operator of the levels from \<open>lv\<close> on is read by level \<open>lv\<close>.\<close>

lemma unary_binary:
  assumes "p_unary ts = Inr (a, r)" "\<forall>j. lv \<le> j \<longrightarrow> op_head (level_ops j) r = None" "lv \<le> 4"
  shows "p_binary lv ts = Inr (a, r)"
  using assms(2,3)
proof (induction "4 - lv" arbitrary: lv)
  case 0
  with assms(1) show ?case by (intro stops_at) (simp_all add: p_operand_def)
next
  case (Suc d)
  from Suc.hyps have "d = 4 - Suc lv" "\<not> 4 \<le> lv" by simp_all
  note Suc.hyps(1) [OF this(1)] this(2)
  with Suc.prems show ?case by (intro stops_at) (simp_all add: p_operand_def)
qed

lemma unary_operand:
  assumes "p_unary ts = Inr (a, r)" "\<forall>j. lv < j \<longrightarrow> op_head (level_ops j) r = None" "lv \<le> 4"
  shows "p_operand lv ts = Inr (a, r)"
  using assms unary_binary [of ts a r "Suc lv"] by (auto simp: p_operand_def Suc_le_eq)

lemma binary_operand_step:
  assumes "p_operand k ts = Inr (a, TOp opr # ts')" "opr \<in> set (level_ops k)" "k \<le> 4"
    "p_operand k ts' = Inr (b, r)"
  shows "p_binary k ts = p_loop k (Binary opr a b) r"
  using assms by (simp add: p_binary_eq p_loop_eq [of k a] op_head_def)

lemma binary_step:
  assumes "p_operand k ts = Inr (a, TOp opr # ts')" "opr \<in> set (level_ops k)" "k \<le> 4"
    "p_operand k ts' = Inr (b, r)" "\<forall>j. lv \<le> j \<longrightarrow> j \<le> k \<longrightarrow> op_head (level_ops j) r = None" "lv \<le> k"
  shows "p_binary lv ts = Inr (Binary opr a b, r)"
  using assms(5,6)
proof (induction "k - lv" arbitrary: lv)
  case 0
  with assms(1-4) show ?case by (simp add: binary_operand_step p_loop_eq)
next
  case (Suc d)
  from Suc.hyps assms(3) have "d = k - Suc lv" "\<not> 4 \<le> lv" "Suc lv \<le> k" by simp_all
  note Suc.hyps(1) [OF this(1)] this(2,3)
  with Suc.prems assms(3) show ?case by (intro stops_at) (simp_all add: p_operand_def)
qed

lemma lift_zero:
  assumes "p_binary k ts = Inr (a, r)" "k \<le> 4" "\<forall>j. op_head (level_ops j) r = None"
  shows "p_binary 0 ts = Inr (a, r)"
  using assms(1,2)
proof (induction k)
  case (Suc k)
  then have "p_operand k ts = Inr (a, r)" by (simp add: p_operand_def)
  with Suc assms(3) show ?case by (intro Suc.IH stops_at) simp_all
qed

lemma op_head_other:
  "opr \<in> set (level_ops k) \<Longrightarrow> j \<noteq> k \<Longrightarrow> op_head (level_ops j) (TOp opr # ts) = None"
  using level_ops_disjoint by (auto simp: op_head_def)

lemma op_head_punct [simp]:
  "op_head ops (TRparen # ts) = None" "op_head ops (TComma # ts) = None" "op_head ops (TEof # ts) = None"
  "op_head ops (TLparen # ts) = None" "op_head ops (TNumber v # ts) = None"
  "op_head ops (TString v # ts) = None" "op_head ops (TIdent v # ts) = None"
  by (simp_all add: op_head_def)

lemma op_head_unparse [simp]: "op_head ops (unparse a @ ts) = None"
  by (cases a) simp_all

lemma path_segments_brackets:
  "accessor r = None \<Longrightarrow>
   path_segments (concat (map (\<lambda>s. [TLbracket, TString s, TRbracket]) ss) @ r) = Inr (ss, r)"
proof (induction ss)
  case Nil
  then show ?case by (simp add: path_segments.simps [of r])
next
  case (Cons s ss)
  then show ?case by (subst path_segments.simps) (simp add: accessor_def [of "TLbracket # _"])
qed

lemma roots_not_functions: "x \<in> set roots \<Longrightarrow> x \<notin> set FUNCTIONS"
  by (auto simp: roots_def FUNCTIONS_def)

lemma accessor_punct [simp]:
  "accessor (TRparen # ts) = None" "accessor (TComma # ts) = None" "accessor (TEof # ts) = None"
  "accessor (TOp v # ts) = None"
  by (simp_all add: accessor_def)

lemma args_unparse:
  assumes "\<And>a rest. a \<in> set as \<Longrightarrow> accessor rest = None \<Longrightarrow> p_primary (unparse a @ rest) = Inr (a, rest)"
    "as \<noteq> []"
  shows "p_args (comma_tokens (map unparse as) @ TRparen # rest) = Inr (as, TRparen # rest)"
  using assms
proof (induction as)
  case (Cons a as)
  have u: "p_unary (unparse a @ rest) = Inr (a, rest)" if "accessor rest = None" for rest
    using Cons.prems(1) [of a rest] that by (simp add: p_unary_eq)
  show ?case
  proof (cases as)
    case Nil
    have "p_binary 0 (unparse a @ TRparen # rest) = Inr (a, TRparen # rest)"
      by (rule unary_binary [OF u]) simp_all
    with Nil show ?thesis by (simp add: p_args_eq after_def)
  next
    case (Cons b bs)
    let ?more = "comma_tokens (map unparse as) @ TRparen # rest"
    have "p_binary 0 (unparse a @ TComma # ?more) = Inr (a, TComma # ?more)"
      by (rule unary_binary [OF u]) simp_all
    moreover have "p_args ?more = Inr (as, TRparen # rest)"
      using Cons.IH Cons.prems(1) Cons by simp
    ultimately have "p_args (unparse a @ TComma # ?more) = Inr (a # as, TRparen # rest)"
      by (subst p_args_eq) (simp add: after_def)
    with Cons show ?thesis by simp
  qed
qed simp

lemma primary_unparse:
  "wf_ast a \<Longrightarrow> accessor rest = None \<Longrightarrow> p_primary (unparse a @ rest) = Inr (a, rest)"
proof (induction a arbitrary: rest)
  case (Path ss)
  then obtain r s ss' where ss: "ss = r # s # ss'" "r \<in> set roots"
    by (cases ss; cases "tl ss") auto
  with Path.prems(2) path_segments_brackets [of rest "s # ss'"] roots_not_functions [OF ss(2)] show ?case
    by (simp add: p_primary_eq primary_head_def parsePath_def)
next
  case (Unary opr a)
  have "p_unary (unparse a @ TRparen # rest) = Inr (a, TRparen # rest)"
    using Unary by (simp add: p_unary_eq)
  then have "p_unary (TOp opr # unparse a @ TRparen # rest) = Inr (Unary opr a, TRparen # rest)"
    using Unary.prems(1) by (subst p_unary_eq) (simp add: op_head_def)
  then have "p_binary 0 (TOp opr # unparse a @ TRparen # rest) = Inr (Unary opr a, TRparen # rest)"
    by (rule unary_binary) simp_all
  then show ?case by (simp add: p_primary_eq primary_head_def expect_def)
next
  case (Binary opr a b)
  then obtain k where k: "k \<le> 4" "opr \<in> set (level_ops k)" using level_ops_all by auto
  have "p_unary (unparse a @ TOp opr # unparse b @ TRparen # rest) = Inr (a, TOp opr # unparse b @ TRparen # rest)"
    "p_unary (unparse b @ TRparen # rest) = Inr (b, TRparen # rest)"
    using Binary by (simp_all add: p_unary_eq)
  with k have "p_binary 0 (unparse a @ TOp opr # unparse b @ TRparen # rest) = Inr (Binary opr a b, TRparen # rest)"
    by (intro binary_step [OF unary_operand k(2,1) unary_operand]) (auto simp: op_head_other)
  then show ?case by (simp add: p_primary_eq primary_head_def expect_def)
next
  case (Call fn as)
  show ?case
  proof (cases as)
    case Nil
    with Call show ?thesis by (simp add: p_primary_eq primary_head_def after_def)
  next
    case (Cons b bs)
    have "p_args (comma_tokens (map unparse as) @ TRparen # rest) = Inr (as, TRparen # rest)"
      using Call Cons by (intro args_unparse) auto
    moreover have "after TRparen (comma_tokens (map unparse as) @ TRparen # rest) = None"
      unfolding Cons by (cases b; cases bs) (simp_all add: after_def)
    ultimately show ?thesis using Call.prems
      by (simp add: p_primary_eq primary_head_def expect_def after_def [of TLparen])
  qed
qed (simp_all add: p_primary_eq primary_head_def)

lemma unary_unparse: "wf_ast a \<Longrightarrow> accessor rest = None \<Longrightarrow> p_unary (unparse a @ rest) = Inr (a, rest)"
  by (simp add: p_unary_eq primary_unparse)

lemma tokenize_error: "tokenize s = Inl err \<Longrightarrow> err = ExpressionParseError"
  by (induction s rule: tokenize.induct)
    (auto simp: res_bind_Inl_iff split: if_splits prod.splits option.splits)

lemma parse_unparse:
  assumes "wf_ast a"
  shows "parse (unparse a @ [TEof]) = Inr a"
proof -
  have "p_binary 0 (unparse a @ [TEof]) = Inr (a, [TEof])"
    using assms by (intro unary_binary unary_unparse) simp_all
  then show ?thesis by (simp add: parse_eq after_def)
qed

lemma parse_wf: "parse ts = Inr a \<Longrightarrow> wf_ast a"
  using parsed_wf(1) [of "parse_fuel ts" 0 ts]
  by (auto simp: parse_def res_bind_Inr_iff split: option.splits)

section \<open>Properties\<close>

text \<open>
  C40. Parsing is total: for every source text the parser returns a syntax tree or a parse error
  (the fuel of the model is always enough), and every tree it returns is well formed.
\<close>

theorem parse_total:
  "(\<exists>a. parseExpression src = Inr a \<and> wf_ast a) \<or> parseExpression src = Inl ExpressionParseError"
proof (cases "tokenize src")
  case (Inl err)
  then show ?thesis using tokenize_error [OF Inl] by (simp add: parseExpression_def)
next
  case (Inr ts)
  show ?thesis
  proof (cases "p_binary 0 ts")
    case (Inl err)
    with Inr answers_run(1) [of 0 ts] show ?thesis by (simp add: parseExpression_def parse_eq answers_def)
  next
    case p: (Inr p)
    then have "wf_ast (fst p)" using parsed_wf(1) [of "parse_fuel ts" 0 ts p] by (simp add: p_binary_def)
    moreover have "parse ts = Inr (fst p) \<or> parse ts = Inl ExpressionParseError"
      by (simp add: parse_eq p split: option.split)
    ultimately show ?thesis using Inr by (auto simp: parseExpression_def)
  qed
qed



text \<open>
  Operators bind as in the grammar, from \<open>||\<close> over \<open>&&\<close>, comparisons and sums to products, and
  associate to the left: of two operators in a row the one of the tighter or the same level on
  the left is applied first, otherwise the right one, for all operands.
\<close>

theorem parse_precedence:
  assumes "wf_ast x" "wf_ast y" "wf_ast z" "o1 \<in> set (level_ops k1)" "o2 \<in> set (level_ops k2)"
    "k1 \<le> 4" "k2 \<le> 4"
  shows "parse (unparse x @ TOp o1 # unparse y @ TOp o2 # unparse z @ [TEof]) =
    Inr (if k2 \<le> k1 then Binary o2 (Binary o1 x y) z else Binary o1 x (Binary o2 y z))"
proof -
  let ?z = "unparse z @ [TEof]" and ?y = "unparse y @ TOp o2 # unparse z @ [TEof]"
  let ?x = "unparse x @ TOp o1 # unparse y @ TOp o2 # unparse z @ [TEof]"
  have ux: "p_unary ?x = Inr (x, TOp o1 # ?y)" and uy: "p_unary ?y = Inr (y, TOp o2 # ?z)"
    and uz: "p_unary ?z = Inr (z, [TEof])" using assms by (simp_all add: unary_unparse)
  have z: "p_operand k2 ?z = Inr (z, [TEof])" using assms(7) by (intro unary_operand [OF uz]) simp_all
  have x: "p_operand k1 ?x = Inr (x, TOp o1 # ?y)"
    using assms(4,6) by (intro unary_operand [OF ux]) (auto simp: op_head_other)
  have "p_binary 0 ?x = Inr (if k2 \<le> k1 then Binary o2 (Binary o1 x y) z else Binary o1 x (Binary o2 y z), [TEof])"
  proof (cases "k2 \<le> k1")
    case True
    have y: "p_operand k1 ?y = Inr (y, TOp o2 # ?z)"
      using assms(5,6) True by (intro unary_operand [OF uy]) (auto simp: op_head_other)
    show ?thesis
    proof (cases "k1 = k2")
      case True
      have "p_binary k2 ?x = Inr (Binary o2 (Binary o1 x y) z, [TEof])"
        using binary_operand_step [OF x assms(4,6) y] z assms(5,7) True
        by (simp add: p_loop_eq [of k2 "Binary o1 x y"] p_loop_eq [of k2 "Binary o2 _ _"] op_head_def)
      then show ?thesis using True assms(7) lift_zero by auto
    next
      case False
      with True have lt: "k2 < k1" by simp
      have "p_binary (Suc k2) ?x = Inr (Binary o1 x y, TOp o2 # ?z)"
        using lt assms(5) by (intro binary_step [OF x assms(4,6) y]) (auto simp: op_head_other)
      with lt assms(6) have "p_operand k2 ?x = Inr (Binary o1 x y, TOp o2 # ?z)" by (simp add: p_operand_def)
      from binary_step [OF this assms(5,7) z, of 0] True show ?thesis by simp
    qed
  next
    case False
    have y: "p_operand k2 ?y = Inr (y, TOp o2 # ?z)"
      using assms(5,7) by (intro unary_operand [OF uy]) (auto simp: op_head_other)
    have "p_binary (Suc k1) ?y = Inr (Binary o2 y z, [TEof])"
      using False by (intro binary_step [OF y assms(5,7) z]) simp_all
    with False assms(7) have "p_operand k1 ?y = Inr (Binary o2 y z, [TEof])" by (simp add: p_operand_def)
    from binary_step [OF x assms(4,6) this, of 0] False show ?thesis by simp
  qed
  then show ?thesis by (simp add: parse_eq after_def)
qed

theorem parse_precedence_witness:
  "parse (unparse (Num ''1'') @ TOp ''-'' # unparse (Num ''2'') @ TOp ''*'' # unparse (Num ''3'') @ [TEof])
     = Inr (Binary ''-'' (Num ''1'') (Binary ''*'' (Num ''2'') (Num ''3'')))"
  using parse_precedence [of "Num ''1''" "Num ''2''" "Num ''3''" "''-''" 3 "''*''" 4]
  by (simp add: level_ops_def)

end
