(* ===== verification/SlaEval.thy ===== *)
theory SlaEval
  imports SlaGrammar
begin

text \<open>
  The evaluator of the expression language: exact half-even division, dependence on the paths an
  expression names and on nothing else, loud rejection of unknown paths, and the one way an absent
  field can look present.
\<close>

section \<open>Half-even division\<close>

definition half_even :: "int \<Rightarrow> int \<Rightarrow> int \<Rightarrow> bool" where
  "half_even n d q \<longleftrightarrow> 2 * \<bar>n - q * d\<bar> \<le> \<bar>d\<bar> \<and> (2 * \<bar>n - q * d\<bar> = \<bar>d\<bar> \<longrightarrow> even q)"

lemma half_even_neg: "half_even (- n) d (- q) = half_even n d q" "half_even n (- d) (- q) = half_even n d q"
proof -
  have "\<bar>- n + q * d\<bar> = \<bar>n - q * d\<bar>" by arith
  then show "half_even (- n) d (- q) = half_even n d q" "half_even n (- d) (- q) = half_even n d q"
    by (simp_all add: half_even_def)
qed

lemma half_even_unique:
  assumes "half_even n d q" "half_even n d q'" "d \<noteq> 0"
  shows "q = q'"
proof (rule ccontr)
  assume ne: "q \<noteq> q'"
  have "(q - q') * d = (n - q' * d) - (n - q * d)" by (simp add: algebra_simps)
  then have le: "\<bar>q - q'\<bar> * \<bar>d\<bar> \<le> \<bar>n - q' * d\<bar> + \<bar>n - q * d\<bar>"
    by (metis abs_mult abs_triangle_ineq4)
  also have "\<dots> \<le> 1 * \<bar>d\<bar>" using assms(1,2) by (simp add: half_even_def)
  finally have "\<bar>q - q'\<bar> \<le> 1" using assms(3) by (simp add: mult_le_cancel_right)
  with ne have one: "\<bar>q - q'\<bar> = 1" by simp
  with le assms(1,2) have "2 * \<bar>n - q * d\<bar> = \<bar>d\<bar>" "2 * \<bar>n - q' * d\<bar> = \<bar>d\<bar>"
    by (simp_all add: half_even_def)
  with assms(1,2) have "even q" "even q'" by (simp_all add: half_even_def)
  then have "even (q - q')" by simp
  with one show False by presburger
qed

definition round_quotient :: "int \<Rightarrow> int \<Rightarrow> int" where
  "round_quotient a b =
     (let q = a div b; r = a mod b; twice = r * 2 in
      if twice < b then q else if twice > b then q + 1 else if q mod 2 = 0 then q else q + 1)"

lemma half_even_round:
  assumes "0 \<le> r" "r < b"
  shows "half_even (q * b + r) b
    (if r * 2 < b then q else if r * 2 > b then q + 1 else if q mod 2 = 0 then q else q + 1)"
proof -
  have a1: "q * b + r - (q + 1) * b = r - b" by (simp add: algebra_simps)
  consider "r * 2 < b" | "r * 2 > b" | "r * 2 = b" by linarith
  then show ?thesis
  proof cases
    case 3
    then have b: "b = 2 * r" by simp
    show ?thesis
    proof (cases "q mod 2 = 0")
      case True
      then have "even q" by presburger
      with True b assms(1) show ?thesis by (simp add: half_even_def)
    next
      case False
      then have "even (q + 1)" by presburger
      moreover have "\<bar>q * b + r - (q + 1) * b\<bar> = r" using a1 b assms(1) by simp
      ultimately show ?thesis using False b by (simp only: half_even_def) simp
    qed
  qed (use assms a1 in \<open>simp_all add: half_even_def\<close>)
qed

lemma round_quotient_half_even: "0 < b \<Longrightarrow> half_even a b (round_quotient a b)"
  using half_even_round [of "a mod b" b "a div b"] by (simp add: round_quotient_def Let_def)

lemma bigIntDivHalfEven_eq:
  assumes "d \<noteq> 0"
  shows "bigIntDivHalfEven n d =
    Inr (if (n < 0) \<noteq> (d < 0) then - round_quotient \<bar>n\<bar> \<bar>d\<bar> else round_quotient \<bar>n\<bar> \<bar>d\<bar>)"
  using assms by (auto simp: bigIntDivHalfEven_def round_quotient_def Let_def abs_if)

lemma bigIntDivHalfEven_iff:
  "bigIntDivHalfEven n d = Inr q \<longleftrightarrow> d \<noteq> 0 \<and> half_even n d q"
proof (cases "d = 0")
  case True
  then show ?thesis by (simp add: bigIntDivHalfEven_def)
next
  case False
  let ?R = "round_quotient \<bar>n\<bar> \<bar>d\<bar>" and ?q = "if (n < 0) \<noteq> (d < 0) then - round_quotient \<bar>n\<bar> \<bar>d\<bar> else round_quotient \<bar>n\<bar> \<bar>d\<bar>"
  have R: "half_even \<bar>n\<bar> \<bar>d\<bar> ?R" using False by (intro round_quotient_half_even) simp
  have "half_even n d ?q"
  proof (cases "n < 0"; cases "d < 0")
    assume "n < 0" "d < 0"
    with R show ?thesis using half_even_neg [of n "- d" "- ?R"] half_even_neg(2) [of n d ?R] by simp
  next
    assume "n < 0" "\<not> d < 0"
    with R show ?thesis using half_even_neg(1) [of n d "- ?R"] by simp
  next
    assume "\<not> n < 0" "d < 0"
    with R show ?thesis using half_even_neg(2) [of n d "- ?R"] by simp
  qed (use R in simp)
  with False half_even_unique [of n d] show ?thesis by (auto simp: bigIntDivHalfEven_eq)
qed

section \<open>What an expression depends on\<close>

fun paths :: "ast \<Rightarrow> string list set" where
  "paths (Num v) = {}"
| "paths (Str v) = {}"
| "paths (Path ss) = {ss}"
| "paths (Unary opr a) = paths a"
| "paths (Binary opr a b) = paths a \<union> paths b"
| "paths (Call fn as) = \<Union> (paths ` set as)"

lemma eval_agree:
  "\<forall>p \<in> paths a. readPath scope p = readPath scope' p \<Longrightarrow> evalAst scope a = evalAst scope' a"
proof (induction a)
  case (Call fn as)
  have eq: "evalAst scope x = evalAst scope' x" if "x \<in> set as" for x
    using Call that by auto
  have ex: "pathExists scope p = pathExists scope' p" if "Path p \<in> set as" for p
    using Call.prems that by (force simp: pathExists_def)
  have m: "res_map (\<lambda>a. res_bind (evalAst scope a) toBigInt) as =
      res_map (\<lambda>a. res_bind (evalAst scope' a) toBigInt) as"
    using eq by (intro res_map_cong) simp_all
  consider "fn = ''exists''" | "fn = ''abs'' \<or> fn = ''neg''" | "fn = ''if''"
    | "fn \<notin> {''exists'', ''abs'', ''neg'', ''if''}" by blast
  then show ?case
  proof cases
    case 1
    with ex show ?thesis by (cases as; cases "hd as"; cases "tl as") auto
  next
    case 2
    with eq show ?thesis by (cases as; cases "tl as") auto
  next
    case 3
    with eq show ?thesis
      by (cases as; cases "tl as"; cases "tl (tl as)"; cases "tl (tl (tl as))")
        (auto intro!: res_bind_cong)
  next
    case 4
    with m show ?thesis by simp
  qed
qed (auto intro!: res_bind_cong)

text \<open>The expressions that evaluate every part: no short circuit, no conditional, no \<open>exists\<close>.\<close>

fun strict :: "ast \<Rightarrow> bool" where
  "strict (Num v) = True"
| "strict (Str v) = True"
| "strict (Path ss) = True"
| "strict (Unary opr a) = strict a"
| "strict (Binary opr a b) = (opr \<noteq> ''&&'' \<and> opr \<noteq> ''||'' \<and> strict a \<and> strict b)"
| "strict (Call fn as) = (fn \<notin> {''if'', ''exists''} \<and> (\<forall>a \<in> set as. strict a))"

lemma res_map_Inr_all: "res_map f xs = Inr ys \<Longrightarrow> x \<in> set xs \<Longrightarrow> \<exists>y. f x = Inr y"
  by (induction xs arbitrary: ys) (auto simp: res_bind_Inr_iff)

lemma strict_reads_all:
  "strict a \<Longrightarrow> evalAst scope a = Inr v \<Longrightarrow> p \<in> paths a \<Longrightarrow> \<exists>x. readPath scope p = Inr x"
proof (induction a arbitrary: v)
  case (Path ss)
  then show ?case by (auto simp: res_bind_Inr_iff)
next
  case (Unary opr a)
  then show ?case by (auto simp: res_bind_Inr_iff)
next
  case (Binary opr a b)
  then show ?case by (auto simp: res_bind_Inr_iff)
next
  case (Call fn as)
  then obtain x where x: "x \<in> set as" "p \<in> paths x" "strict x" by auto
  have "\<exists>u. evalAst scope x = Inr u"
  proof (cases "fn = ''abs'' \<or> fn = ''neg''")
    case True
    with Call.prems(2) obtain y where "as = [y]" by (cases as; cases "tl as") auto
    with True Call.prems(2) x(1) show ?thesis by (auto simp: res_bind_Inr_iff)
  next
    case False
    have fn: "fn \<noteq> ''if''" "fn \<noteq> ''exists''" using Call.prems(1) by simp_all
    have ev: "evalAst scope (Call fn as) = Inr v" by (fact Call.prems(2))
    from x(1) have "\<not> length as < 1" by (cases as) simp_all
    with ev fn False have "fn = ''min'' \<or> fn = ''max''" by (simp split: if_split_asm)
    with ev fn False \<open>\<not> length as < 1\<close>
    have "\<exists>vals. res_map (\<lambda>a. res_bind (evalAst scope a) toBigInt) as = Inr vals"
      by (cases "res_map (\<lambda>a. res_bind (evalAst scope a) toBigInt) as") auto
    then obtain y where "res_bind (evalAst scope x) toBigInt = Inr y"
      using res_map_Inr_all [where f = "\<lambda>a. res_bind (evalAst scope a) toBigInt", OF _ x(1)] by auto
    then show ?thesis by (auto simp: res_bind_Inr_iff)
  qed
  with Call.IH x show ?case by blast
qed simp_all

section \<open>Properties\<close>

text \<open>
  Division is banker's rounding, exactly: \<open>bigIntDivHalfEven n d\<close> fails precisely on a zero
  divisor, and otherwise returns the one integer nearest to \<open>n / d\<close>, the even one on a tie, for
  every combination of signs and integers of any size.
\<close>

theorem division_is_half_even:
  "(bigIntDivHalfEven n d = Inr q \<longleftrightarrow>
      d \<noteq> 0 \<and> 2 * \<bar>n - q * d\<bar> \<le> \<bar>d\<bar> \<and> (2 * \<bar>n - q * d\<bar> = \<bar>d\<bar> \<longrightarrow> even q)) \<and>
   (bigIntDivHalfEven n d = Inl err \<longleftrightarrow> d = 0 \<and> err = ExpressionEvalError)"
proof -
  have "bigIntDivHalfEven n d = Inl err \<longleftrightarrow> d = 0 \<and> err = ExpressionEvalError"
  proof (cases "d = 0")
    case True
    then show ?thesis by (auto simp: bigIntDivHalfEven_def)
  qed (simp add: bigIntDivHalfEven_eq)
  with bigIntDivHalfEven_iff [of n d q] show ?thesis by (simp add: half_even_def)
qed

theorem division_is_half_even_witness:
  "bigIntDivHalfEven (-7) 2 = Inr (-4) \<and> bigIntDivHalfEven 5 (-2) = Inr (-2) \<and>
   (bigIntDivHalfEven 5 0 :: expr_error + int) = Inl ExpressionEvalError"
  using division_is_half_even [of "-7" 2 "-4"] division_is_half_even [of 5 "-2" "-2"]
    division_is_half_even [of 5 0 0 ExpressionEvalError] by simp

text \<open>
  The evaluator is a sandbox: the value or error of an expression is a function of the values
  of the paths that occur in it, whatever else the event, the context and the item hold.
\<close>

theorem eval_depends_on_paths_only:
  assumes "\<forall>p \<in> paths a. readPath scope p = readPath scope' p"
  shows "evalAst scope a = evalAst scope' a"
  by (rule eval_agree [OF assms])

definition sample_scope :: "(string \<times> jsval) list \<Rightarrow> eval_scope" where
  "sample_scope fs = \<lparr>sc_event = JObj fs, sc_context = JObj [], sc_item = JUndefined\<rparr>"

theorem eval_depends_on_paths_only_witness:
  "evalAst (sample_scope [(''amount'', JNum 5)]) (Path [''event'', ''amount'']) =
   evalAst (sample_scope [(''secret'', JStr ''x''), (''amount'', JNum 5)]) (Path [''event'', ''amount''])"
  by (rule eval_depends_on_paths_only) (simp add: readPath_def rootValue_def sample_scope_def)

text \<open>
  Unknown paths are rejected loudly: an expression without short circuit, conditional or
  \<open>exists\<close> has a value only if every path in it resolves in the scope, so an absent field is never
  read as zero.
\<close>

theorem unknown_path_never_defaults:
  assumes "strict a" "p \<in> paths a" "readPath scope p = Inl err"
  shows "\<exists>e. evalAst scope a = Inl e"
  using strict_reads_all [OF assms(1) _ assms(2), of scope] assms(3)
  by (cases "evalAst scope a") auto

theorem unknown_path_never_defaults_witness:
  "\<exists>e. evalAst (sample_scope [(''amount'', JNum 5)])
     (Binary ''+'' (Path [''event'', ''amount'']) (Path [''event'', ''fee''])) = Inl e"
  by (rule unknown_path_never_defaults [where p = "[''event'', ''fee'']"])
    (simp_all add: readPath_def rootValue_def sample_scope_def object_prototype_methods_def)

text \<open>
  Inherited names count as present: on every event that is an object without a field of that
  name, \<open>exists(event.toString)\<close> is true, because the path walk tests membership with \<open>in\<close>.
\<close>

theorem exists_sees_inherited_names:
  assumes "sc_event scope = JObj fs" "map_of fs ''toString'' = None"
  shows "evaluatePredicate ''exists(event.toString)'' scope = Inr True"
proof -
  have "parseExpression ''exists(event.toString)'' = Inr (Call ''exists'' [Path [''event'', ''toString'']])"
    by code_simp
  with assms show ?thesis
    by (simp add: evaluatePredicate_def pathExists_def readPath_def rootValue_def
        object_prototype_methods_def)
qed

theorem exists_sees_inherited_names_witness:
  "evaluatePredicate ''exists(event.toString)'' (sample_scope []) = Inr True"
  by (rule exists_sees_inherited_names [where fs = "[]"]) (simp_all add: sample_scope_def)

end
