(* ===== verification/SlaRules.thy ===== *)
theory SlaRules
  imports Prelude "HOL-Library.Product_Lexorder"
begin

text \<open>
  Posting rules as data and their governance: the rule types
  (\<open>platform/accounting/sla/generated/sla-types.ts\<close>), versioning by supersession
  (\<open>versioning.ts\<close>) and the approval workflow (\<open>approval.ts\<close>, \<open>approval-loader.ts\<close>).

  Dates are ISO strings compared lexicographically.  \<open>balancing\<close> has one value, the literal
  \<open>"assert_zero"\<close>, and is left out of the record.  The text of messages is not modelled; a defect
  keeps its lineage and its kind, an error its kind and the references it names.
\<close>

section \<open>Rule types\<close>

datatype context_match = MatchOne string | MatchAny "string list"

record applies_to =
  at_event_type :: string
  at_instrument_type :: "context_match option"
  at_entity :: "context_match option"
  at_jurisdiction :: "context_match option"
  at_regulatory_regime :: "context_match option"
  at_product_variant :: "context_match option"
  at_counterparty_classification :: "context_match option"

datatype condition_kind = Always | NonZeroDelta | NonZeroPnl | IntentionalNoImpact

record rule_condition =
  rc_kind :: condition_kind
  rc_delta_path :: "string option"

record account_resolver_ref =
  ar_logical :: string
  ar_product :: "string option"
  ar_currency :: "string option"

datatype posting_side = Debit | Credit

record rule_line =
  rl_account :: account_resolver_ref
  rl_side :: posting_side
  rl_side_path :: "string option"
  rl_amount :: string
  rl_currency :: "string option"
  rl_when :: "string option"
  rl_for_each :: "string option"
  rl_use_physical_account :: bool

record sla_rule =
  sr_rule_id :: string
  sr_representation :: string
  sr_version :: int
  sr_effective_from :: string
  sr_effective_to :: "string option"
  sr_applies_to :: applies_to
  sr_condition :: rule_condition
  sr_lines :: "rule_line list"
  sr_cites :: "string list"
  sr_supersedes :: "string option"
  sr_notes :: "string option"

definition ruleVersionRef :: "sla_rule \<Rightarrow> string" where
  "ruleVersionRef r = sr_rule_id r @ ''@'' @ int_str (sr_version r)"

definition lineageKey :: "sla_rule \<Rightarrow> string" where
  "lineageKey r = sr_representation r @ ''::'' @ sr_rule_id r"

section \<open>Supersession\<close>

datatype version_error =
    NotAfterPrior string
  | PriorAlreadyClosed string
  | VersionsOverlap "string list"

text \<open>The fields a caller of \<open>supersede\<close> supplies: the others are inherited or derived.\<close>

record rule_change =
  ch_effective_from :: string
  ch_effective_to :: "string option"
  ch_applies_to :: applies_to
  ch_condition :: rule_condition
  ch_lines :: "rule_line list"
  ch_cites :: "string list"
  ch_notes :: "string option"

definition supersede :: "sla_rule \<Rightarrow> rule_change \<Rightarrow> version_error + sla_rule \<times> sla_rule" where
  "supersede prior next =
     (if ch_effective_from next \<le> sr_effective_from prior
      then Inl (NotAfterPrior (ruleVersionRef prior))
      else if (case sr_effective_to prior of None \<Rightarrow> False | Some t \<Rightarrow> t \<le> ch_effective_from next)
      then Inl (PriorAlreadyClosed (ruleVersionRef prior))
      else Inr
        (prior\<lparr>sr_effective_to := Some (ch_effective_from next)\<rparr>,
         \<lparr>sr_rule_id = sr_rule_id prior,
          sr_representation = sr_representation prior,
          sr_version = sr_version prior + 1,
          sr_effective_from = ch_effective_from next,
          sr_effective_to = ch_effective_to next,
          sr_applies_to = ch_applies_to next,
          sr_condition = ch_condition next,
          sr_lines = ch_lines next,
          sr_cites = ch_cites next,
          sr_supersedes = Some (ruleVersionRef prior),
          sr_notes = ch_notes next\<rparr>))"

section \<open>Effective windows\<close>

definition withinEffectiveWindow :: "sla_rule \<Rightarrow> string \<Rightarrow> bool" where
  "withinEffectiveWindow r effectiveDate \<longleftrightarrow>
     \<not> effectiveDate < sr_effective_from r \<and>
     (case sr_effective_to r of None \<Rightarrow> True | Some t \<Rightarrow> \<not> effectiveDate \<ge> t)"

definition in_force :: "sla_rule list \<Rightarrow> string \<Rightarrow> string \<Rightarrow> string \<Rightarrow> sla_rule list" where
  "in_force rules representation ruleId effectiveDate =
     filter (\<lambda>r. sr_representation r = representation \<and> sr_rule_id r = ruleId \<and>
                 withinEffectiveWindow r effectiveDate) rules"

definition ruleVersionInForce ::
  "sla_rule list \<Rightarrow> string \<Rightarrow> string \<Rightarrow> string \<Rightarrow> version_error + sla_rule option"
where
  "ruleVersionInForce rules representation ruleId effectiveDate =
     (case in_force rules representation ruleId effectiveDate of
        [] \<Rightarrow> Inr None
      | [r] \<Rightarrow> Inr (Some r)
      | rs \<Rightarrow> Inl (VersionsOverlap (map ruleVersionRef rs)))"

definition findRuleVersion ::
  "sla_rule list \<Rightarrow> string \<Rightarrow> int \<Rightarrow> string option \<Rightarrow> sla_rule option"
where
  "findRuleVersion rules ruleId v representation =
     find (\<lambda>r. sr_rule_id r = ruleId \<and> sr_version r = v \<and>
               (case representation of None \<Rightarrow> True | Some p \<Rightarrow> sr_representation r = p)) rules"

datatype defect_kind = Gap | Overlap | NonMonotonicVersion | DuplicateVersion

record window_defect =
  wd_lineage :: string
  wd_kind :: defect_kind

text \<open>\<open>seen.set(v, (seen.get(v) ?? 0) + 1)\<close>.\<close>

definition count_version :: "sla_rule \<Rightarrow> (int, nat) jsmap \<Rightarrow> (int, nat) jsmap" where
  "count_version r seen =
     jm_set (sr_version r) ((case jm_get seen (sr_version r) of None \<Rightarrow> 0 | Some n \<Rightarrow> n) + 1) seen"

definition duplicate_defects :: "string \<Rightarrow> sla_rule list \<Rightarrow> window_defect list" where
  "duplicate_defects lineage grp =
     map (\<lambda>_. \<lparr>wd_lineage = lineage, wd_kind = DuplicateVersion\<rparr>)
       (filter (\<lambda>(v, n). n > 1) (fold count_version grp []))"

definition window_order :: "sla_rule \<Rightarrow> string \<times> int" where
  "window_order r = (sr_effective_from r, sr_version r)"

definition pair_defects :: "string \<Rightarrow> sla_rule \<Rightarrow> sla_rule \<Rightarrow> window_defect list" where
  "pair_defects lineage cur nxt =
     (case sr_effective_to cur of
        None \<Rightarrow> [\<lparr>wd_lineage = lineage, wd_kind = Overlap\<rparr>]
      | Some t \<Rightarrow>
          if t < sr_effective_from nxt then [\<lparr>wd_lineage = lineage, wd_kind = Gap\<rparr>]
          else if t > sr_effective_from nxt then [\<lparr>wd_lineage = lineage, wd_kind = Overlap\<rparr>]
          else []) @
     (if sr_version nxt \<le> sr_version cur
      then [\<lparr>wd_lineage = lineage, wd_kind = NonMonotonicVersion\<rparr>] else [])"

fun walk_windows :: "string \<Rightarrow> sla_rule list \<Rightarrow> window_defect list" where
  "walk_windows lineage (cur # nxt # rest) =
     pair_defects lineage cur nxt @ walk_windows lineage (nxt # rest)"
| "walk_windows lineage _ = []"

definition analyzeWindowIntegrity :: "sla_rule list \<Rightarrow> window_defect list" where
  "analyzeWindowIntegrity rules =
     concat (map (\<lambda>(lineage, grp).
         duplicate_defects lineage grp @ walk_windows lineage (sort_key window_order grp))
       (group_by lineageKey rules))"

section \<open>Approval\<close>

record approval_key =
  ak_representation :: string
  ak_ruleId :: string
  ak_version :: int

definition approvalKey :: "('a) approval_key_scheme \<Rightarrow> string" where
  "approvalKey k = ak_representation k @ ''::'' @ ak_ruleId k @ ''@'' @ int_str (ak_version k)"

definition ruleApprovalKey :: "sla_rule \<Rightarrow> string" where
  "ruleApprovalKey r = approvalKey \<lparr>ak_representation = sr_representation r,
     ak_ruleId = sr_rule_id r, ak_version = sr_version r\<rparr>"

record publish_record = approval_key +
  pr_publisherName :: string
  pr_publisherPosition :: string
  pr_ruleContentHash :: string

record approve_record = approval_key +
  ap_approverName :: string
  ap_approverPosition :: string
  ap_reviewedRuleHash :: string
  ap_reviewedPreviewHash :: string
  ap_grandfather :: bool

record withhold_record = approval_key +
  wh_approverName :: string
  wh_reason :: string

datatype approval_decision = Approve approve_record | Withhold withhold_record

fun decision_key :: "approval_decision \<Rightarrow> string" where
  "decision_key (Approve a) = approvalKey a"
| "decision_key (Withhold w) = approvalKey w"

record approval_corpus =
  published :: "publish_record list"
  decisions :: "approval_decision list"

datatype four_eyes_failure = NoMatchingPublish | GrandfatherNoPublish | SelfApproval

definition isFourEyesApproval :: "approve_record \<Rightarrow> publish_record list \<Rightarrow> four_eyes_failure option" where
  "isFourEyesApproval approval publishesForKey =
     (case find (\<lambda>p. pr_ruleContentHash p = ap_reviewedRuleHash approval) publishesForKey of
        None \<Rightarrow> Some (if ap_grandfather approval then GrandfatherNoPublish else NoMatchingPublish)
      | Some p \<Rightarrow> if pr_publisherName p = ap_approverName approval then Some SelfApproval else None)"

record eligibility_result =
  er_eligible :: "string list"
  er_defects :: "(string \<times> four_eyes_failure) list"

definition decide ::
  "(string, publish_record list) jsmap \<Rightarrow> approval_decision \<Rightarrow>
   (string, bool) jsmap \<times> (string \<times> four_eyes_failure) list \<Rightarrow>
   (string, bool) jsmap \<times> (string \<times> four_eyes_failure) list"
where
  "decide publishesByKey d st =
     (let k = decision_key d in
      case d of
        Withhold _ \<Rightarrow> (jm_set k False (fst st), snd st)
      | Approve a \<Rightarrow>
          (case isFourEyesApproval a (case jm_get publishesByKey k of None \<Rightarrow> [] | Some l \<Rightarrow> l) of
             Some reason \<Rightarrow> (fst st, snd st @ [(k, reason)])
           | None \<Rightarrow> (jm_set k True (fst st), snd st)))"

definition computeEligibility :: "approval_corpus \<Rightarrow> eligibility_result" where
  "computeEligibility corpus =
     (let publishesByKey = group_by approvalKey (published corpus);
          (lastByKey, defects) = fold (decide publishesByKey) (decisions corpus) ([], [])
      in \<lparr>er_eligible = map fst (filter snd lastByKey), er_defects = defects\<rparr>)"

record approval_gate =
  eligibleKeys :: "string list"
  keyOf :: "sla_rule \<Rightarrow> string"

definition approvalGate :: "string list \<Rightarrow> approval_gate" where
  "approvalGate eligible = \<lparr>eligibleKeys = eligible, keyOf = ruleApprovalKey\<rparr>"

text \<open>The approval event family, with the payloads as the event types declare them.\<close>

datatype sla_approval_payload =
    SlaRulePublished publish_record
  | SlaRuleApproved approve_record
  | SlaRuleWithheld withhold_record
  | OtherEvent

record approval_event =
  ae_as_of :: string
  ae_payload :: sla_approval_payload

definition load_step ::
  "approval_event \<Rightarrow> publish_record list \<times> (string \<times> nat \<times> approval_decision) list \<Rightarrow>
   publish_record list \<times> (string \<times> nat \<times> approval_decision) list"
where
  "load_step e st =
     (case ae_payload e of
        SlaRulePublished p \<Rightarrow> (fst st @ [p], snd st)
      | SlaRuleApproved a \<Rightarrow> (fst st, snd st @ [(ae_as_of e, length (snd st), Approve a)])
      | SlaRuleWithheld w \<Rightarrow> (fst st, snd st @ [(ae_as_of e, length (snd st), Withhold w)])
      | OtherEvent \<Rightarrow> st)"

definition loadApprovalCorpus :: "approval_event list \<Rightarrow> approval_corpus" where
  "loadApprovalCorpus events =
     (let (ps, ds) = fold load_step events ([], [])
      in \<lparr>published = ps,
          decisions = map (\<lambda>(_, _, d). d) (sort_key (\<lambda>(t, s, _). (t, s)) ds)\<rparr>)"

end
