(* ===== verification/SlaResolver.thy ===== *)
theory SlaResolver
  imports Prelude
begin

text \<open>
  From logical to physical accounts: the chart-of-accounts leaves
  (\<open>platform/accounting/sla/generated/sla-types.ts\<close>), the resolver's row tables and its lookup
  (\<open>resolver.ts\<close>).  The free-text notes of the rows are left out.
\<close>

definition ACCOUNT_IDS :: "string list" where
  "ACCOUNT_IDS =
    [''ACC-1000-001'', ''ACC-1100-001'', ''ACC-1100-002'', ''ACC-1100-003'', ''ACC-1100-004'',
     ''ACC-1100-005'', ''ACC-1200-001'', ''ACC-1200-002'', ''ACC-1200-003'', ''ACC-1200-004'',
     ''ACC-1200-005'', ''ACC-1200-006'', ''ACC-1200-007'', ''ACC-1200-099'', ''ACC-2100-001'',
     ''ACC-2100-002'', ''ACC-2100-003'', ''ACC-2100-004'', ''ACC-2100-005'', ''ACC-2100-006'',
     ''ACC-2100-007'', ''ACC-2100-008'', ''ACC-2100-009'', ''ACC-2100-010'', ''ACC-2100-011'',
     ''ACC-2100-012'', ''ACC-2100-013'', ''ACC-2100-014'', ''ACC-2100-015'', ''ACC-2100-016'',
     ''ACC-2100-017'', ''ACC-2100-018'', ''ACC-2100-019'', ''ACC-2100-020'', ''ACC-2100-021'',
     ''ACC-2100-022'', ''ACC-2100-023'', ''ACC-2100-024'', ''ACC-2100-025'', ''ACC-2100-026'',
     ''ACC-2100-027'', ''ACC-2105-001'', ''ACC-2200-001'', ''ACC-2200-002'', ''ACC-2300-001'',
     ''ACC-2300-002'', ''ACC-2300-003'', ''ACC-2300-004'', ''ACC-2300-005'', ''ACC-2300-006'',
     ''ACC-2300-007'', ''ACC-2300-008'', ''ACC-2300-009'', ''ACC-2400-001'', ''ACC-2400-002'',
     ''ACC-3100-001'', ''ACC-3100-002'', ''ACC-3100-003'', ''ACC-3100-004'', ''ACC-3100-005'',
     ''ACC-3100-006'', ''ACC-3200-001'', ''ACC-3200-002'', ''ACC-3200-003'', ''ACC-3200-004'',
     ''ACC-3200-005'', ''ACC-3200-006'', ''ACC-3200-007'', ''ACC-3200-008'', ''ACC-3300-001'',
     ''ACC-3300-002'', ''ACC-3300-003'', ''ACC-4100-001'', ''ACC-4100-002'', ''ACC-4101-001'',
     ''ACC-5000-001'', ''ACC-5000-002'', ''ACC-5000-003'', ''ACC-5000-004'', ''ACC-5050-001'',
     ''ACC-5100-001'', ''ACC-5100-002'', ''ACC-5100-003'', ''ACC-5100-004'', ''ACC-5100-005'',
     ''ACC-5200-001'', ''ACC-5200-002'', ''ACC-6100-001'', ''ACC-6100-002'', ''ACC-6100-003'',
     ''ACC-6100-004'', ''ACC-6100-005'', ''ACC-6100-006'', ''ACC-7100-001'', ''ACC-7100-002'',
     ''ACC-7100-003'', ''ACC-7100-004'', ''ACC-7200-001'', ''ACC-7200-002'', ''ACC-7200-003'',
     ''ACC-7200-004'', ''ACC-7200-005'', ''ACC-7200-006'', ''ACC-7200-007'', ''ACC-9000-001'',
     ''ACC-9000-002'', ''ACC-9100-001'', ''ACC-9100-002'']"

definition isAccountId :: "string \<Rightarrow> bool" where
  "isAccountId value \<longleftrightarrow> value \<in> set ACCOUNT_IDS"

record resolver_key =
  rk_entity :: string
  rk_product :: string
  rk_currency :: string
  rk_jurisdiction :: string
  rk_representation :: string
  rk_logical :: string

record resolver_row = resolver_key +
  rw_physical :: string

datatype resolve_outcome =
    Resolved string
  | UnresolvedCurrency nat
  | NoMatchingRow

section \<open>Rows\<close>

definition ifrs_row :: "string \<Rightarrow> string \<Rightarrow> string \<Rightarrow> string \<Rightarrow> resolver_row" where
  "ifrs_row product currency logical physical =
     \<lparr>rk_entity = ''LE-ZA-HOZ-BANK'', rk_product = product, rk_currency = currency,
      rk_jurisdiction = ''ZA'', rk_representation = ''IFRS'', rk_logical = logical,
      rw_physical = physical\<rparr>"

abbreviation fx_row :: "string \<Rightarrow> string \<Rightarrow> string \<Rightarrow> resolver_row" where
  "fx_row \<equiv> ifrs_row ''FX-spot''"

definition zarRow :: "string \<Rightarrow> string \<Rightarrow> string \<Rightarrow> resolver_row" where
  "zarRow product logical physical = ifrs_row product ''ZAR'' logical physical"

definition payRow :: "string \<Rightarrow> string \<Rightarrow> string \<Rightarrow> resolver_row" where
  "payRow currency logical physical = ifrs_row ''PAY'' currency logical physical"

definition IFRS_FX_SPOT_RESOLVER_ROWS :: "resolver_row list" where
  "IFRS_FX_SPOT_RESOLVER_ROWS =
    [fx_row ''ZAR'' ''fx.receivable'' ''ACC-2100-001'',
     fx_row ''USD'' ''fx.receivable'' ''ACC-2100-002'',
     fx_row ''ZAR'' ''fx.payable'' ''ACC-2100-003'',
     fx_row ''USD'' ''fx.payable'' ''ACC-2100-004'',
     fx_row ''GBP'' ''fx.receivable'' ''ACC-2100-010'',
     fx_row ''EUR'' ''fx.receivable'' ''ACC-2100-013'',
     fx_row ''CHF'' ''fx.receivable'' ''ACC-2100-016'',
     fx_row ''AUD'' ''fx.receivable'' ''ACC-2100-019'',
     fx_row ''JPY'' ''fx.receivable'' ''ACC-2100-022'',
     fx_row ''GBP'' ''fx.payable'' ''ACC-2100-011'',
     fx_row ''EUR'' ''fx.payable'' ''ACC-2100-014'',
     fx_row ''CHF'' ''fx.payable'' ''ACC-2100-017'',
     fx_row ''AUD'' ''fx.payable'' ''ACC-2100-020'',
     fx_row ''JPY'' ''fx.payable'' ''ACC-2100-023'',
     fx_row ''GBP'' ''fx.unrealised_pnl'' ''ACC-2100-012'',
     fx_row ''EUR'' ''fx.unrealised_pnl'' ''ACC-2100-015'',
     fx_row ''CHF'' ''fx.unrealised_pnl'' ''ACC-2100-018'',
     fx_row ''AUD'' ''fx.unrealised_pnl'' ''ACC-2100-021'',
     fx_row ''JPY'' ''fx.unrealised_pnl'' ''ACC-2100-024'',
     fx_row ''ZAR'' ''fx.unrealised_pnl'' ''ACC-2100-005'',
     fx_row ''ZAR'' ''fx.realised_pnl'' ''ACC-2100-006'',
     fx_row ''ZAR'' ''fx.nostro'' ''ACC-1200-001'',
     fx_row ''USD'' ''fx.nostro'' ''ACC-1200-002'',
     fx_row ''EUR'' ''fx.nostro'' ''ACC-1200-003'',
     fx_row ''GBP'' ''fx.nostro'' ''ACC-1200-004'',
     fx_row ''JPY'' ''fx.nostro'' ''ACC-1200-005'',
     fx_row ''CHF'' ''fx.nostro'' ''ACC-1200-006'',
     fx_row ''AUD'' ''fx.nostro'' ''ACC-1200-007'',
     fx_row ''ZAR'' ''fx.settlement_failed_receivable'' ''ACC-2300-001'',
     fx_row ''USD'' ''fx.settlement_failed_receivable'' ''ACC-2300-002'',
     fx_row ''EUR'' ''fx.settlement_failed_receivable'' ''ACC-2300-005'',
     fx_row ''GBP'' ''fx.settlement_failed_receivable'' ''ACC-2300-006'',
     fx_row ''JPY'' ''fx.settlement_failed_receivable'' ''ACC-2300-007'',
     fx_row ''CHF'' ''fx.settlement_failed_receivable'' ''ACC-2300-008'',
     fx_row ''AUD'' ''fx.settlement_failed_receivable'' ''ACC-2300-009'',
     fx_row ''ZAR'' ''fx.ecl_allowance_settlement_failed'' ''ACC-2300-003'',
     fx_row ''ZAR'' ''fx.credit_loss_expense'' ''ACC-2300-004'',
     fx_row ''ZAR'' ''fx.forward_points_deferred_income'' ''ACC-2100-025'',
     fx_row ''ZAR'' ''fx.forward_points_deferred_expense'' ''ACC-2100-026'',
     fx_row ''ZAR'' ''fx.forward_points_pnl'' ''ACC-2100-006'']"

definition IFRS_TREASURY_RESOLVER_ROWS :: "resolver_row list" where
  "IFRS_TREASURY_RESOLVER_ROWS =
    [zarRow ''MMD'' ''deposit.nostro'' ''ACC-1200-001'',
     zarRow ''MMD'' ''deposit.liability_retail_stable'' ''ACC-6100-001'',
     zarRow ''MMD'' ''deposit.liability_retail_less_stable'' ''ACC-6100-002'',
     zarRow ''MMD'' ''deposit.liability_wholesale_operational'' ''ACC-6100-003'',
     zarRow ''MMD'' ''deposit.liability_wholesale_non_operational'' ''ACC-6100-004'',
     zarRow ''MMD'' ''deposit.accrued_interest'' ''ACC-6100-005'',
     zarRow ''MMD'' ''deposit.interest_expense'' ''ACC-6100-006'',
     zarRow ''FUNDING'' ''funding.nostro'' ''ACC-1200-001'',
     zarRow ''FUNDING'' ''funding.liability_wholesale_non_operational'' ''ACC-6100-004'',
     zarRow ''IBL'' ''ibl.nostro'' ''ACC-1200-001'',
     zarRow ''IBL'' ''ibl.due_from_banks_call'' ''ACC-7100-001'',
     zarRow ''IBL'' ''ibl.due_from_banks_fixed'' ''ACC-7100-002'',
     zarRow ''IBL'' ''ibl.accrued_interest'' ''ACC-7100-003'',
     zarRow ''IBL'' ''ibl.interest_income'' ''ACC-7100-004'',
     zarRow ''REPO'' ''repo.nostro'' ''ACC-1200-001'',
     zarRow ''REPO'' ''repo.asset'' ''ACC-5100-001'',
     zarRow ''REPO'' ''repo.accrued_interest'' ''ACC-5100-004'',
     zarRow ''REPO'' ''repo.interest_pnl'' ''ACC-5100-005'']"

definition IFRS_SECURITIES_RESOLVER_ROWS :: "resolver_row list" where
  "IFRS_SECURITIES_RESOLVER_ROWS =
    [zarRow ''BOND'' ''bond.nostro'' ''ACC-1200-001'',
     zarRow ''BOND'' ''bond.asset_banking'' ''ACC-3100-001'',
     zarRow ''BOND'' ''bond.asset_trading'' ''ACC-3100-002'',
     zarRow ''BOND'' ''bond.accrued_interest_receivable'' ''ACC-3100-003'',
     zarRow ''BOND'' ''bond.unrealised_pnl'' ''ACC-3100-005'',
     zarRow ''BOND'' ''bond.realised_pnl'' ''ACC-3100-006'',
     zarRow ''BOND'' ''bond.interest_income_eir'' ''ACC-4101-001'',
     zarRow ''EQUITY'' ''equity.nostro'' ''ACC-1200-001'',
     zarRow ''EQUITY'' ''equity.asset_fvtpl'' ''ACC-3200-001'',
     zarRow ''EQUITY'' ''equity.asset_fvoci'' ''ACC-3200-002'',
     zarRow ''EQUITY'' ''equity.unrealised_pnl_fvtpl'' ''ACC-3200-003'',
     zarRow ''EQUITY'' ''equity.oci_reserve_fvoci'' ''ACC-3200-004'',
     zarRow ''EQUITY'' ''equity.dividend_receivable'' ''ACC-3200-005'',
     zarRow ''EQUITY'' ''equity.dividend_income'' ''ACC-3200-006'',
     zarRow ''EQUITY'' ''equity.withholding_tax_payable'' ''ACC-3200-007'',
     zarRow ''EQUITY'' ''equity.retained_earnings'' ''ACC-5000-002'']"

definition IFRS_IRD_RESOLVER_ROWS :: "resolver_row list" where
  "IFRS_IRD_RESOLVER_ROWS =
    [zarRow ''IRD'' ''ird.nostro'' ''ACC-1200-001'',
     zarRow ''IRD'' ''ird.swap_asset_fvtpl'' ''ACC-3300-001'',
     zarRow ''IRD'' ''ird.swap_liability_fvtpl'' ''ACC-3300-002'',
     zarRow ''IRD'' ''ird.unrealised_pnl'' ''ACC-3300-003'']"

definition IFRS_PAYMENTS_RESOLVER_ROWS :: "resolver_row list" where
  "IFRS_PAYMENTS_RESOLVER_ROWS =
    [payRow ''ZAR'' ''payment.nostro'' ''ACC-1200-001'',
     payRow ''USD'' ''payment.nostro'' ''ACC-1200-002'',
     payRow ''EUR'' ''payment.nostro'' ''ACC-1200-003'',
     payRow ''ZAR'' ''payment.suspense'' ''ACC-2400-001'',
     payRow ''USD'' ''payment.suspense'' ''ACC-2400-002'',
     payRow ''ZAR'' ''payment.customer_payable'' ''ACC-2200-001'',
     payRow ''USD'' ''payment.customer_payable'' ''ACC-2200-002'',
     payRow ''ZAR'' ''payment.settlement_receivable'' ''ACC-4100-001'',
     payRow ''USD'' ''payment.settlement_receivable'' ''ACC-4100-002'']"

definition SARB_BA_NOP_CURRENCIES :: "string list" where
  "SARB_BA_NOP_CURRENCIES = [''ZAR'', ''USD'', ''GBP'', ''EUR'', ''CHF'', ''AUD'', ''JPY'']"

definition sarbNopRows :: "string \<Rightarrow> string \<Rightarrow> resolver_row list" where
  "sarbNopRows logical physical =
     map (\<lambda>currency. \<lparr>rk_entity = ''LE-ZA-HOZ-BANK'', rk_product = ''FX-spot'',
        rk_currency = currency, rk_jurisdiction = ''ZA'', rk_representation = ''SARB-BA-RETURN'',
        rk_logical = logical, rw_physical = physical\<rparr>) SARB_BA_NOP_CURRENCIES"

definition SARB_BA_FX_RESOLVER_ROWS :: "resolver_row list" where
  "SARB_BA_FX_RESOLVER_ROWS =
     sarbNopRows ''reg.nop_long'' ''ACC-9000-001'' @ sarbNopRows ''reg.nop_short'' ''ACC-9000-002''"

definition FX_UNRESOLVED_CURRENCY_SUSPENSE :: string where
  "FX_UNRESOLVED_CURRENCY_SUSPENSE = ''ACC-2100-007''"

section \<open>The resolver\<close>

text \<open>The constructor checks the rows; a resolver is its rows.\<close>

definition new_AccountResolver :: "resolver_row list \<Rightarrow> string + resolver_row list" where
  "new_AccountResolver rows =
     (case find (\<lambda>r. \<not> isAccountId (rw_physical r)) rows of
        Some r \<Rightarrow> Inl (rw_physical r)
      | None \<Rightarrow> Inr rows)"

definition sameAxes :: "resolver_key \<Rightarrow> resolver_row \<Rightarrow> bool" where
  "sameAxes key r \<longleftrightarrow>
     rk_entity r = rk_entity key \<and> rk_product r = rk_product key \<and>
     rk_jurisdiction r = rk_jurisdiction key \<and> rk_representation r = rk_representation key \<and>
     rk_logical r = rk_logical key"

definition resolve :: "resolver_row list \<Rightarrow> resolver_key \<Rightarrow> resolve_outcome" where
  "resolve rows key =
     (case find (\<lambda>r. sameAxes key r \<and> rk_currency r = rk_currency key) rows of
        Some exact \<Rightarrow> Resolved (rw_physical exact)
      | None \<Rightarrow>
          (let candidates = length (filter (sameAxes key) rows) in
           if candidates > 0 then UnresolvedCurrency candidates else NoMatchingRow))"

definition default_rows :: "resolver_row list" where
  "default_rows = IFRS_FX_SPOT_RESOLVER_ROWS @ IFRS_TREASURY_RESOLVER_ROWS @
     IFRS_SECURITIES_RESOLVER_ROWS @ IFRS_IRD_RESOLVER_ROWS @ IFRS_PAYMENTS_RESOLVER_ROWS @
     SARB_BA_FX_RESOLVER_ROWS"

definition defaultResolver :: "string + resolver_row list" where
  "defaultResolver = new_AccountResolver default_rows"

section \<open>Lemmas\<close>

lemma resolve_account:
  "new_AccountResolver rows = Inr rs \<Longrightarrow> resolve rs key = Resolved p \<Longrightarrow> isAccountId p"
  by (auto simp: new_AccountResolver_def resolve_def Let_def find_Some_iff find_None_iff
      split: option.splits if_splits)

lemma suspense_account: "isAccountId FX_UNRESOLVED_CURRENCY_SUSPENSE"
  by (simp add: isAccountId_def FX_UNRESOLVED_CURRENCY_SUSPENSE_def ACCOUNT_IDS_def)

lemma row_accounts:
  "map rw_physical IFRS_FX_SPOT_RESOLVER_ROWS = map ((!) ACCOUNT_IDS)
      [14, 15, 16, 17, 23, 26, 29, 32, 35, 24, 27, 30, 33, 36, 25, 28, 31, 34, 37, 18,
       19, 6, 7, 8, 9, 10, 11, 12, 44, 45, 48, 49, 50, 51, 52, 46, 47, 38, 39, 19]"
  "map rw_physical IFRS_TREASURY_RESOLVER_ROWS = map ((!) ACCOUNT_IDS)
      [6, 87, 88, 89, 90, 91, 92, 6, 90, 6, 93, 94, 95, 96, 6, 80, 83, 84]"
  "map rw_physical IFRS_SECURITIES_RESOLVER_ROWS = map ((!) ACCOUNT_IDS)
      [6, 55, 56, 57, 59, 60, 74, 6, 61, 62, 63, 64, 65, 66, 67, 76]"
  "map rw_physical IFRS_IRD_RESOLVER_ROWS = map ((!) ACCOUNT_IDS)
      [6, 69, 70, 71]"
  "map rw_physical IFRS_PAYMENTS_RESOLVER_ROWS = map ((!) ACCOUNT_IDS)
      [6, 7, 8, 53, 54, 42, 43, 72, 73]"
  by (simp_all add: IFRS_FX_SPOT_RESOLVER_ROWS_def
      IFRS_TREASURY_RESOLVER_ROWS_def
      IFRS_SECURITIES_RESOLVER_ROWS_def
      IFRS_IRD_RESOLVER_ROWS_def
      IFRS_PAYMENTS_RESOLVER_ROWS_def
      zarRow_def payRow_def ifrs_row_def ACCOUNT_IDS_def)

lemma nth_account: "i < 108 \<Longrightarrow> isAccountId (ACCOUNT_IDS ! i)"
  unfolding isAccountId_def by (rule nth_mem) (simp add: ACCOUNT_IDS_def)

lemma sarb_accounts: "isAccountId ''ACC-9000-001''" "isAccountId ''ACC-9000-002''"
  by (simp_all add: isAccountId_def ACCOUNT_IDS_def)

lemma accounts_of_indices:
  assumes "map rw_physical rows = map ((!) ACCOUNT_IDS) is" "\<forall>i \<in> set is. i < 108"
  shows "\<forall>r \<in> set rows. isAccountId (rw_physical r)"
proof -
  have "\<forall>p \<in> set (map rw_physical rows). isAccountId p"
    unfolding assms(1) using assms(2) nth_account by auto
  then show ?thesis by simp
qed

lemma default_rows_accounts: "\<forall>r \<in> set default_rows. isAccountId (rw_physical r)"
proof -
  note t = row_accounts [THEN accounts_of_indices]
  have s: "\<forall>r \<in> set SARB_BA_FX_RESOLVER_ROWS. isAccountId (rw_physical r)"
    by (auto simp: SARB_BA_FX_RESOLVER_ROWS_def sarbNopRows_def sarb_accounts)
  show ?thesis
    unfolding default_rows_def set_append ball_Un
    by (intro conjI t s) simp_all
qed

lemma defaultResolver_rows: "defaultResolver = Inr default_rows"
  using default_rows_accounts
  by (auto simp: defaultResolver_def new_AccountResolver_def find_None_iff
      split: option.splits dest: find_Some_iff [THEN iffD1])

end
