(* ===== verification/DecimalMoney.thy ===== *)
theory DecimalMoney
  imports Prelude Complex_Main
begin

text \<open>
  Exact money: the ISO 4217 scale table (\<open>platform/core/iso4217.ts\<close>), the decimal kernel's string
  and minor-unit operations (\<open>decimal-engine.ts\<close>), and the wire codec and minor-unit bridge of
  \<open>decimal-money.ts\<close> and \<open>money-codec.ts\<close>.

  The arbitrary-precision numbers are those of the package decimal.js, which is not part of the
  repository: its constructor and methods are the fields of \<open>decimal_js\<close>, and \<open>exact_decimal\<close>
  states what its documentation promises under the configured precision of 60 significant digits.
  A lookup in the scale table reads own keys only.
\<close>

section \<open>ISO 4217\<close>

datatype iso4217_exponent = Exponent nat | NoMinorUnit

definition DEFAULT_NO_MINOR_UNIT_EXPONENT :: nat where
  "DEFAULT_NO_MINOR_UNIT_EXPONENT = 2"

definition ISO4217_EXPONENTS :: "(string \<times> iso4217_exponent) list" where
  "ISO4217_EXPONENTS =
    [(''BIF'', Exponent 0), (''CLP'', Exponent 0), (''DJF'', Exponent 0), (''GNF'', Exponent 0),
     (''ISK'', Exponent 0), (''JPY'', Exponent 0), (''KMF'', Exponent 0), (''KRW'', Exponent 0),
     (''PYG'', Exponent 0), (''RWF'', Exponent 0), (''UGX'', Exponent 0), (''UYI'', Exponent 0),
     (''VND'', Exponent 0), (''VUV'', Exponent 0), (''XAF'', Exponent 0), (''XOF'', Exponent 0),
     (''XPF'', Exponent 0), (''AED'', Exponent 2), (''AFN'', Exponent 2), (''ALL'', Exponent 2),
     (''AMD'', Exponent 2), (''ANG'', Exponent 2), (''AOA'', Exponent 2), (''ARS'', Exponent 2),
     (''AUD'', Exponent 2), (''AWG'', Exponent 2), (''AZN'', Exponent 2), (''BAM'', Exponent 2),
     (''BBD'', Exponent 2), (''BDT'', Exponent 2), (''BGN'', Exponent 2), (''BMD'', Exponent 2),
     (''BND'', Exponent 2), (''BOB'', Exponent 2), (''BRL'', Exponent 2), (''BSD'', Exponent 2),
     (''BTN'', Exponent 2), (''BWP'', Exponent 2), (''BYN'', Exponent 2), (''BZD'', Exponent 2),
     (''CAD'', Exponent 2), (''CDF'', Exponent 2), (''CHF'', Exponent 2), (''CNY'', Exponent 2),
     (''COP'', Exponent 2), (''CRC'', Exponent 2), (''CUP'', Exponent 2), (''CVE'', Exponent 2),
     (''CZK'', Exponent 2), (''DKK'', Exponent 2), (''DOP'', Exponent 2), (''DZD'', Exponent 2),
     (''EGP'', Exponent 2), (''ERN'', Exponent 2), (''ETB'', Exponent 2), (''EUR'', Exponent 2),
     (''FJD'', Exponent 2), (''FKP'', Exponent 2), (''GBP'', Exponent 2), (''GEL'', Exponent 2),
     (''GHS'', Exponent 2), (''GIP'', Exponent 2), (''GMD'', Exponent 2), (''GTQ'', Exponent 2),
     (''GYD'', Exponent 2), (''HKD'', Exponent 2), (''HNL'', Exponent 2), (''HRK'', Exponent 2),
     (''HTG'', Exponent 2), (''HUF'', Exponent 2), (''IDR'', Exponent 2), (''ILS'', Exponent 2),
     (''INR'', Exponent 2), (''IRR'', Exponent 2), (''JMD'', Exponent 2), (''KES'', Exponent 2),
     (''KGS'', Exponent 2), (''KHR'', Exponent 2), (''KPW'', Exponent 2), (''KYD'', Exponent 2),
     (''KZT'', Exponent 2), (''LAK'', Exponent 2), (''LBP'', Exponent 2), (''LKR'', Exponent 2),
     (''LRD'', Exponent 2), (''LSL'', Exponent 2), (''MAD'', Exponent 2), (''MDL'', Exponent 2),
     (''MGA'', Exponent 2), (''MKD'', Exponent 2), (''MMK'', Exponent 2), (''MNT'', Exponent 2),
     (''MOP'', Exponent 2), (''MRU'', Exponent 2), (''MUR'', Exponent 2), (''MVR'', Exponent 2),
     (''MWK'', Exponent 2), (''MXN'', Exponent 2), (''MYR'', Exponent 2), (''MZN'', Exponent 2),
     (''NAD'', Exponent 2), (''NGN'', Exponent 2), (''NIO'', Exponent 2), (''NOK'', Exponent 2),
     (''NPR'', Exponent 2), (''NZD'', Exponent 2), (''PAB'', Exponent 2), (''PEN'', Exponent 2),
     (''PGK'', Exponent 2), (''PHP'', Exponent 2), (''PKR'', Exponent 2), (''PLN'', Exponent 2),
     (''QAR'', Exponent 2), (''RON'', Exponent 2), (''RSD'', Exponent 2), (''RUB'', Exponent 2),
     (''SAR'', Exponent 2), (''SBD'', Exponent 2), (''SCR'', Exponent 2), (''SDG'', Exponent 2),
     (''SEK'', Exponent 2), (''SGD'', Exponent 2), (''SHP'', Exponent 2), (''SLE'', Exponent 2),
     (''SOS'', Exponent 2), (''SRD'', Exponent 2), (''SSP'', Exponent 2), (''STN'', Exponent 2),
     (''SVC'', Exponent 2), (''SYP'', Exponent 2), (''SZL'', Exponent 2), (''THB'', Exponent 2),
     (''TJS'', Exponent 2), (''TMT'', Exponent 2), (''TOP'', Exponent 2), (''TRY'', Exponent 2),
     (''TTD'', Exponent 2), (''TWD'', Exponent 2), (''TZS'', Exponent 2), (''UAH'', Exponent 2),
     (''USD'', Exponent 2), (''UYU'', Exponent 2), (''UZS'', Exponent 2), (''VES'', Exponent 2),
     (''WST'', Exponent 2), (''XCD'', Exponent 2), (''YER'', Exponent 2), (''ZAR'', Exponent 2),
     (''ZMW'', Exponent 2), (''ZWL'', Exponent 2), (''BHD'', Exponent 3), (''IQD'', Exponent 3),
     (''JOD'', Exponent 3), (''KWD'', Exponent 3), (''LYD'', Exponent 3), (''OMR'', Exponent 3),
     (''TND'', Exponent 3), (''CLF'', Exponent 4), (''UYW'', Exponent 4), (''XAU'', NoMinorUnit),
     (''XAG'', NoMinorUnit), (''XPT'', NoMinorUnit), (''XPD'', NoMinorUnit), (''XDR'', NoMinorUnit),
     (''XBA'', NoMinorUnit), (''XBB'', NoMinorUnit), (''XBC'', NoMinorUnit), (''XBD'', NoMinorUnit),
     (''XTS'', NoMinorUnit), (''XXX'', NoMinorUnit)]"

definition scaleFor :: "string \<Rightarrow> nat" where
  "scaleFor currency =
     (case map_of ISO4217_EXPONENTS currency of
        Some (Exponent n) \<Rightarrow> n
      | _ \<Rightarrow> DEFAULT_NO_MINOR_UNIT_EXPONENT)"

definition isKnownCurrency :: "string \<Rightarrow> bool" where
  "isKnownCurrency currency \<longleftrightarrow> map_of ISO4217_EXPONENTS currency \<noteq> None"

section \<open>Decimal strings\<close>

text \<open>An optional sign, the digits before the point, and the digits after it if there is one.\<close>

definition decimal_parts :: "string \<Rightarrow> bool \<times> string \<times> string option" where
  "decimal_parts s =
     (let neg = (s \<noteq> [] \<and> hd s = CHR ''-''); u = (if neg then tl s else s)
      in (neg, takeWhile (\<lambda>c. c \<noteq> CHR ''.'') u,
          case dropWhile (\<lambda>c. c \<noteq> CHR ''.'') u of [] \<Rightarrow> None | _ # f \<Rightarrow> Some f))"

definition frac_ok :: "string option \<Rightarrow> bool" where
  "frac_ok f \<longleftrightarrow> (case f of None \<Rightarrow> True | Some ds \<Rightarrow> all_digits ds)"

text \<open>\<open>CANONICAL_DECIMAL\<close>, and \<open>/^-?\d+(\.\d+)?$/\<close>.\<close>

definition CANONICAL_DECIMAL :: "string \<Rightarrow> bool" where
  "CANONICAL_DECIMAL s \<longleftrightarrow>
     (case decimal_parts s of (_, whole, fr) \<Rightarrow>
        (all_digits whole \<and> (whole = ''0'' \<or> hd whole \<noteq> CHR ''0'') \<and> frac_ok fr)
        \<or> ((whole = [] \<or> whole = ''0'') \<and> fr \<noteq> None \<and> frac_ok fr))"

definition plain_decimal :: "string \<Rightarrow> bool" where
  "plain_decimal s \<longleftrightarrow>
     (case decimal_parts s of (_, whole, fr) \<Rightarrow> all_digits whole \<and> frac_ok fr)"

definition decimal_value :: "string \<Rightarrow> rat" where
  "decimal_value s =
     (case decimal_parts s of (neg, whole, fr) \<Rightarrow>
        (let ds = (case fr of None \<Rightarrow> [] | Some f \<Rightarrow> f);
             m = of_nat (parse_nat (whole @ ds)) / 10 ^ length ds
         in if neg then - m else m))"

section \<open>decimal.js\<close>

record 'd decimal_js =
  dj_new :: "string \<Rightarrow> 'd"
  dj_isFinite :: "'d \<Rightarrow> bool"
  dj_toFixed :: "'d \<Rightarrow> string"
  dj_decimalPlaces :: "'d \<Rightarrow> nat"
  dj_times :: "'d \<Rightarrow> 'd \<Rightarrow> 'd"
  dj_pow10 :: "nat \<Rightarrow> 'd"
  dj_toFixed0 :: "'d \<Rightarrow> string"

text \<open>
  The documented behaviour relied on, with \<open>v\<close> the number a Decimal stands for: the constructor is
  exact on decimal strings; \<open>toFixed()\<close> prints every digit in plain notation, so the text has the
  value of the number; \<open>decimalPlaces\<close> is the least number of places that holds it; a product is
  exact when it has at most 60 significant digits; \<open>toFixed(0)\<close> of an integer is its numeral.
\<close>

definition exact_decimal :: "'d decimal_js \<Rightarrow> ('d \<Rightarrow> rat) \<Rightarrow> bool" where
  "exact_decimal D v \<longleftrightarrow>
     (\<forall>s. plain_decimal s \<longrightarrow> dj_isFinite D (dj_new D s) \<and> v (dj_new D s) = decimal_value s) \<and>
     (\<forall>d. plain_decimal (dj_toFixed D d) \<and> decimal_value (dj_toFixed D d) = v d) \<and>
     (\<forall>d z k. v d * 10 ^ k = of_int z \<longrightarrow> dj_decimalPlaces D d \<le> k) \<and>
     (\<forall>k < 60. v (dj_pow10 D k) = 10 ^ k) \<and>
     (\<forall>a b z. v a * v b = of_int z \<longrightarrow> \<bar>z\<bar> < 10 ^ 60 \<longrightarrow> v (dj_times D a b) = v a * v b) \<and>
     (\<forall>d z. v d = of_int z \<longrightarrow> dj_toFixed0 D d = int_str z)"

section \<open>The kernel\<close>

datatype money_error = NotDecimalString | NonFinite | TooManyPlaces | NotBigInt

definition toDecimal :: "'d decimal_js \<Rightarrow> string \<Rightarrow> money_error + 'd" where
  "toDecimal D s =
     (let trimmed = trim s in
      if \<not> CANONICAL_DECIMAL trimmed \<and> \<not> plain_decimal trimmed then Inl NotDecimalString
      else let d = dj_new D trimmed in
        if \<not> dj_isFinite D d then Inl NonFinite else Inr d)"

definition padStart :: "nat \<Rightarrow> char \<Rightarrow> string \<Rightarrow> string" where
  "padStart n c s = replicate (n - length s) c @ s"

definition minor_string :: "int \<Rightarrow> nat \<Rightarrow> string" where
  "minor_string minorUnits scale =
     (let sgn = (if minorUnits < 0 then ''-'' else []);
          ab = int_str (if minorUnits < 0 then - minorUnits else minorUnits)
      in if scale = 0 then sgn @ ab
         else let padded = padStart (scale + 1) CHR ''0'' ab;
                  whole = take (length padded - scale) padded;
                  fr = drop (length padded - scale) padded
              in sgn @ whole @ ''.'' @ fr)"

definition fromMinorUnits :: "'d decimal_js \<Rightarrow> int \<Rightarrow> nat \<Rightarrow> 'd" where
  "fromMinorUnits D minorUnits scale = dj_new D (minor_string minorUnits scale)"

text \<open>\<open>BigInt(s)\<close> on a decimal numeral.\<close>

definition bigint_of :: "string \<Rightarrow> money_error + int" where
  "bigint_of s =
     (if s \<noteq> [] \<and> hd s = CHR ''-'' \<and> all_digits (tl s) then Inr (- int (parse_nat (tl s)))
      else if all_digits s then Inr (int (parse_nat s)) else Inl NotBigInt)"

definition toMinorUnits :: "'d decimal_js \<Rightarrow> 'd \<Rightarrow> nat \<Rightarrow> money_error + int" where
  "toMinorUnits D d scale =
     (if dj_decimalPlaces D d > scale then Inl TooManyPlaces
      else bigint_of (dj_toFixed0 D (dj_times D d (dj_pow10 D scale))))"

section \<open>Money\<close>

record money_value =
  mv_amount :: string
  mv_currency :: string

text \<open>A \<open>MoneyWire\<close> is a \<open>Money\<close> with the constant tag \<open>__money: "v1"\<close>.\<close>

datatype money_wire = MoneyV1 string string

definition moneyFromMinorUnits :: "'d decimal_js \<Rightarrow> int \<Rightarrow> string \<Rightarrow> money_value" where
  "moneyFromMinorUnits D minor currency =
     \<lparr>mv_amount = dj_toFixed D (fromMinorUnits D minor (scaleFor currency)), mv_currency = currency\<rparr>"

definition money :: "'d decimal_js \<Rightarrow> string \<Rightarrow> string \<Rightarrow> money_error + money_value" where
  "money D amount currency =
     res_bind (toDecimal D amount) (\<lambda>d. Inr \<lparr>mv_amount = dj_toFixed D d, mv_currency = currency\<rparr>)"

definition encodeMoney :: "'d decimal_js \<Rightarrow> money_value \<Rightarrow> money_error + money_wire" where
  "encodeMoney D m =
     res_bind (toDecimal D (mv_amount m)) (\<lambda>d. Inr (MoneyV1 (dj_toFixed D d) (mv_currency m)))"

fun decodeMoney :: "'d decimal_js \<Rightarrow> money_wire \<Rightarrow> money_error + money_value" where
  "decodeMoney D (MoneyV1 amount currency) = money D amount currency"

definition amountToMinorUnits :: "'d decimal_js \<Rightarrow> money_value \<Rightarrow> money_error + int" where
  "amountToMinorUnits D m =
     res_bind (toDecimal D (mv_amount m)) (\<lambda>d. toMinorUnits D d (scaleFor (mv_currency m)))"

section \<open>The minor-unit bridge is lossless\<close>

lemma takeWhile_dot: "list_all is_digit w \<Longrightarrow> takeWhile (\<lambda>c. c \<noteq> CHR ''.'') (w @ CHR ''.'' # f) = w"
  by (induction w) (auto simp: is_digit_def less_eq_char_def)

lemma dropWhile_dot:
  "list_all is_digit w \<Longrightarrow> dropWhile (\<lambda>c. c \<noteq> CHR ''.'') (w @ CHR ''.'' # f) = CHR ''.'' # f"
  by (induction w) (auto simp: is_digit_def less_eq_char_def)

lemma no_dot:
  "list_all is_digit w \<Longrightarrow> takeWhile (\<lambda>c. c \<noteq> CHR ''.'') w = w"
  "list_all is_digit w \<Longrightarrow> dropWhile (\<lambda>c. c \<noteq> CHR ''.'') w = []"
  by (auto simp: takeWhile_eq_all_conv dropWhile_eq_Nil_conv list_all_iff is_digit_def
      less_eq_char_def)

lemma hd_digit_not_minus: "all_digits w \<Longrightarrow> hd w \<noteq> CHR ''-''"
  by (cases w) (auto simp: all_digits_def)

lemma decimal_parts_plain:
  assumes "all_digits w"
  shows "decimal_parts (CHR ''-'' # w @ CHR ''.'' # f) = (True, w, Some f)"
    "decimal_parts (w @ CHR ''.'' # f) = (False, w, Some f)"
    "decimal_parts (CHR ''-'' # w) = (True, w, None)"
    "decimal_parts w = (False, w, None)"
  using assms hd_digit_not_minus [OF assms]
  by (auto simp: decimal_parts_def Let_def all_digits_def takeWhile_dot dropWhile_dot no_dot hd_append)

lemma parse_nat_zeros [simp]: "parse_nat (replicate n CHR ''0'' @ s) = parse_nat s"
  by (induction n) (simp_all add: parse_nat_def digit_val_def)

lemma all_digits_append:
  "u \<noteq> [] \<Longrightarrow> v \<noteq> [] \<Longrightarrow> all_digits (u @ v) \<longleftrightarrow> all_digits u \<and> all_digits v"
  by (simp add: all_digits_def)

lemma all_digits_nat_str [simp]: "all_digits (nat_str n)"
  using nat_str_digits by (simp add: all_digits_def)

lemma all_digits_pad: "all_digits s \<Longrightarrow> all_digits (padStart n CHR ''0'' s)"
  by (simp add: all_digits_def padStart_def list_all_length is_digit_def less_eq_char_def nth_append)

lemma all_digits_parts:
  assumes "all_digits s" "0 < k" "k < length s"
  shows "all_digits (take (length s - k) s)" "all_digits (drop (length s - k) s)"
proof -
  have "all_digits (take (length s - k) s @ drop (length s - k) s)" using assms by simp
  then have "all_digits (take (length s - k) s) \<and> all_digits (drop (length s - k) s)"
    by (subst (asm) all_digits_append) (use assms in auto)
  then show "all_digits (take (length s - k) s)" "all_digits (drop (length s - k) s)" by auto
qed

lemma minor_string_ok:
  "plain_decimal (minor_string n k) \<and> decimal_value (minor_string n k) = of_int n / 10 ^ k"
proof -
  let ?a = "nat_str (nat \<bar>n\<bar>)"
  let ?p = "padStart (k + 1) CHR ''0'' ?a"
  let ?w = "take (length ?p - k) ?p" and ?f = "drop (length ?p - k) ?p"
  have ab: "int_str (if n < 0 then - n else n) = ?a" by (simp add: int_str_def abs_if)
  have len: "k < length ?p" by (simp add: padStart_def)
  have v: "parse_nat ?p = nat \<bar>n\<bar>" by (simp add: padStart_def)
  have num: "(of_nat (nat \<bar>n\<bar>) :: rat) = (if n < 0 then - of_int n else of_int n)" by simp
  show ?thesis
  proof (cases "k = 0")
    case True
    then show ?thesis
      by (auto simp: minor_string_def ab plain_decimal_def decimal_value_def Let_def frac_ok_def
          decimal_parts_plain num)
  next
    case False
    have d: "all_digits ?w" "all_digits ?f"
      using all_digits_parts [of ?p k] all_digits_pad [of ?a "k + 1"] len False by auto
    have lf: "length ?f = k" using len by simp
    have "parse_nat (?w @ ?f) = nat \<bar>n\<bar>" using v by (simp only: append_take_drop_id)
    with d lf False show ?thesis
      by (auto simp: minor_string_def ab plain_decimal_def decimal_value_def Let_def frac_ok_def
          decimal_parts_plain num simp del: length_drop take_append drop_append)
  qed
qed

lemma dropWhile_none: "\<forall>c \<in> set s. \<not> P c \<Longrightarrow> dropWhile P s = s"
  by (cases s) auto

lemma plain_no_space:
  assumes "plain_decimal s"
  shows "trim s = s"
proof -
  define u where "u = (if s \<noteq> [] \<and> hd s = CHR ''-'' then tl s else s)"
  obtain neg w f where p: "decimal_parts s = (neg, w, f)" by (cases "decimal_parts s") auto
  have u: "u = w @ (case f of None \<Rightarrow> [] | Some ds \<Rightarrow> CHR ''.'' # ds)"
  proof -
    let ?P = "\<lambda>c. c \<noteq> CHR ''.''"
    have w: "w = takeWhile ?P u"
      and f: "f = (case dropWhile ?P u of [] \<Rightarrow> None | _ # g \<Rightarrow> Some g)"
      using p by (auto simp: decimal_parts_def Let_def u_def)
    have split: "takeWhile ?P u @ dropWhile ?P u = u" by (rule takeWhile_dropWhile_id)
    show ?thesis
    proof (cases "dropWhile ?P u")
      case Nil
      have e: "takeWhile ?P u = u" using split unfolding Nil by (simp only: append_Nil2)
      show ?thesis unfolding w f Nil e by simp
    next
      case (Cons c g)
      then have "c = CHR ''.''" using hd_dropWhile [of ?P u] by simp
      with Cons w f split show ?thesis by simp
    qed
  qed
  have dig: "\<not> is_js_space c" if "is_digit c" for c
    using that by (auto simp: is_digit_def is_js_space_def less_eq_char_def)
  from assms p have wf: "list_all is_digit w" "case f of None \<Rightarrow> True | Some ds \<Rightarrow> list_all is_digit ds"
    by (auto simp: plain_decimal_def frac_ok_def all_digits_def split: option.splits)
  then have "\<forall>c \<in> set u. \<not> is_js_space c"
    using dig by (auto simp: u list_all_iff is_js_space_def split: option.splits)
  then have "\<forall>c \<in> set s. \<not> is_js_space c"
    by (cases s) (auto simp: u_def is_js_space_def split: if_splits)
  then have "dropWhile is_js_space s = s" "dropWhile is_js_space (rev s) = rev s"
    by (simp_all add: dropWhile_none)
  then show ?thesis by (simp add: trim_def)
qed

lemma toDecimal_plain:
  assumes "exact_decimal D v" "plain_decimal s"
  shows "toDecimal D s = Inr (dj_new D s) \<and> v (dj_new D s) = decimal_value s"
  using assms by (simp add: toDecimal_def plain_no_space exact_decimal_def)

lemma toDecimal_fixed:
  assumes "exact_decimal D v"
  shows "toDecimal D (dj_toFixed D d) = Inr (dj_new D (dj_toFixed D d))
       \<and> v (dj_new D (dj_toFixed D d)) = v d"
proof -
  have "plain_decimal (dj_toFixed D d)" "decimal_value (dj_toFixed D d) = v d"
    using assms by (simp_all add: exact_decimal_def)
  with toDecimal_plain [OF assms this(1)] show ?thesis by simp
qed

lemma not_all_digits_minus [simp]: "\<not> all_digits (CHR ''-'' # s)"
  by (simp add: all_digits_def)

lemma bigint_of_int_str [simp]: "bigint_of (int_str z) = Inr z"
  by (auto simp: bigint_of_def int_str_def hd_digit_not_minus)

lemma scaleFor_small: "scaleFor c < 60"
proof -
  have "list_all (\<lambda>(c, e). case e of Exponent n \<Rightarrow> n < 60 | NoMinorUnit \<Rightarrow> True) ISO4217_EXPONENTS"
    by code_simp
  then show ?thesis
    by (auto simp: scaleFor_def DEFAULT_NO_MINOR_UNIT_EXPONENT_def list_all_iff
        dest!: map_of_SomeD split: option.splits iso4217_exponent.splits)
qed

lemma toMinorUnits_exact:
  assumes D: "exact_decimal D v" and v: "v d = of_int n / 10 ^ k" and b: "\<bar>n\<bar> < 10 ^ 60" "k < 60"
  shows "toMinorUnits D d k = Inr n"
proof -
  have p: "v (dj_pow10 D k) = 10 ^ k" using D b(2) by (simp add: exact_decimal_def)
  have m: "v d * v (dj_pow10 D k) = of_int n" using v p by simp
  have "dj_decimalPlaces D d \<le> k" using D m p by (metis exact_decimal_def)
  moreover have "v (dj_times D d (dj_pow10 D k)) = of_int n"
    using D m b(1) by (metis exact_decimal_def)
  then have "dj_toFixed0 D (dj_times D d (dj_pow10 D k)) = int_str n"
    using D by (simp add: exact_decimal_def)
  ultimately show ?thesis by (simp add: toMinorUnits_def)
qed

lemma fromMinorUnits_value:
  "exact_decimal D v \<Longrightarrow> v (fromMinorUnits D n k) = of_int n / 10 ^ k"
  using minor_string_ok [of n k] by (simp add: fromMinorUnits_def exact_decimal_def)

text \<open>A minor-unit amount lifted to money and encoded, as the ledger legs carry it.\<close>

definition encode_minor :: "'d decimal_js \<Rightarrow> int \<Rightarrow> string \<Rightarrow> money_error + money_wire" where
  "encode_minor D n currency = encodeMoney D (moneyFromMinorUnits D n currency)"

definition wire_minor :: "'d decimal_js \<Rightarrow> money_wire \<Rightarrow> money_error + int" where
  "wire_minor D w = res_bind (decodeMoney D w) (amountToMinorUnits D)"

lemma encode_minor_value:
  assumes "exact_decimal D v"
  shows "\<exists>d. encode_minor D n c = Inr (MoneyV1 (dj_toFixed D d) c) \<and>
           v d = of_int n / 10 ^ scaleFor c"
proof -
  let ?d = "fromMinorUnits D n (scaleFor c)"
  from toDecimal_fixed [OF assms, of ?d] fromMinorUnits_value [OF assms] show ?thesis
    by (auto simp: encode_minor_def encodeMoney_def moneyFromMinorUnits_def)
qed

lemma wire_minor_encode:
  assumes "exact_decimal D v" "\<bar>n\<bar> < 10 ^ 60"
  shows "\<exists>w. encode_minor D n c = Inr w \<and> wire_minor D w = Inr n"
proof -
  obtain d where d: "encode_minor D n c = Inr (MoneyV1 (dj_toFixed D d) c)"
    "v d = of_int n / 10 ^ scaleFor c"
    using encode_minor_value [OF assms(1)] by blast
  let ?e = "dj_new D (dj_toFixed D d)"
  have e: "toDecimal D (dj_toFixed D d) = Inr ?e" "v ?e = v d"
    using toDecimal_fixed [OF assms(1)] by auto
  let ?f = "dj_new D (dj_toFixed D ?e)"
  have f: "toDecimal D (dj_toFixed D ?e) = Inr ?f" "v ?f = v ?e"
    using toDecimal_fixed [OF assms(1)] by auto
  have "toMinorUnits D ?f (scaleFor c) = Inr n"
    using d e f by (intro toMinorUnits_exact [OF assms(1) _ assms(2) scaleFor_small]) simp
  with d e f have "wire_minor D (MoneyV1 (dj_toFixed D d) c) = Inr n"
    by (simp add: wire_minor_def money_def amountToMinorUnits_def)
  with d show ?thesis by blast
qed

text \<open>
  C39. An integer count of minor units survives the trip into exact money, onto the wire and back,
  in every currency of the scale table and every other, while it stays below the 60 significant
  digits the decimal kernel carries.
\<close>

theorem minor_units_roundtrip:
  assumes "exact_decimal D v" "\<bar>n\<bar> < 10 ^ 60"
  shows "amountToMinorUnits D (moneyFromMinorUnits D n c) = Inr n
       \<and> res_bind (encodeMoney D (moneyFromMinorUnits D n c)) (wire_minor D) = Inr n"
proof
  let ?d = "fromMinorUnits D n (scaleFor c)"
  have "toMinorUnits D (dj_new D (dj_toFixed D ?d)) (scaleFor c) = Inr n"
    using toDecimal_fixed [OF assms(1), of ?d] fromMinorUnits_value [OF assms(1)]
    by (intro toMinorUnits_exact [OF assms(1) _ assms(2) scaleFor_small]) simp
  then show "amountToMinorUnits D (moneyFromMinorUnits D n c) = Inr n"
    using toDecimal_fixed [OF assms(1), of ?d]
    by (simp add: amountToMinorUnits_def moneyFromMinorUnits_def)
  from wire_minor_encode [OF assms, of c]
  show "res_bind (encodeMoney D (moneyFromMinorUnits D n c)) (wire_minor D) = Inr n"
    by (auto simp: encode_minor_def)
qed

section \<open>The interface can be met\<close>

text \<open>Decimals as a coefficient and a number of places.\<close>

fun least_places :: "int \<Rightarrow> nat \<Rightarrow> nat" where
  "least_places c 0 = 0"
| "least_places c (Suc p) = (if c mod 10 = 0 then least_places (c div 10) p else Suc p)"

definition pair_new :: "string \<Rightarrow> int \<times> nat" where
  "pair_new s =
     (case decimal_parts s of (neg, whole, fr) \<Rightarrow>
        (let ds = (case fr of None \<Rightarrow> [] | Some f \<Rightarrow> f); m = int (parse_nat (whole @ ds))
         in (if neg then - m else m, length ds)))"

definition pair_decimal :: "(int \<times> nat) decimal_js" where
  "pair_decimal = \<lparr>dj_new = pair_new, dj_isFinite = (\<lambda>_. True),
     dj_toFixed = (\<lambda>(c, p). minor_string c p), dj_decimalPlaces = (\<lambda>(c, p). least_places c p),
     dj_times = (\<lambda>(c, p) (d, q). (c * d, p + q)), dj_pow10 = (\<lambda>k. (10 ^ k, 0)),
     dj_toFixed0 = (\<lambda>(c, p). int_str (c div 10 ^ p))\<rparr>"

definition pair_value :: "int \<times> nat \<Rightarrow> rat" where
  "pair_value x = of_int (fst x) / 10 ^ snd x"

lemma scaled_int: "(of_int c :: rat) / 10 ^ p * 10 ^ k = of_int z \<longleftrightarrow> c * 10 ^ k = z * 10 ^ p"
proof -
  have "(of_int c :: rat) / 10 ^ p * 10 ^ k = of_int z \<longleftrightarrow> of_int c * 10 ^ k = (of_int z * 10 ^ p :: rat)"
    by (simp add: field_simps)
  also have "\<dots> \<longleftrightarrow> (of_int (c * 10 ^ k) :: rat) = of_int (z * 10 ^ p)" by simp
  also have "\<dots> \<longleftrightarrow> c * 10 ^ k = z * 10 ^ p" by (rule of_int_eq_iff)
  finally show ?thesis .
qed

lemma least_places_le: "c * 10 ^ k = z * 10 ^ p \<Longrightarrow> least_places c p \<le> k"
proof (induction c p arbitrary: k z rule: least_places.induct)
  case (2 c p)
  show ?case
  proof (cases "c mod 10 = 0")
    case True
    then obtain d where d: "c = 10 * d" by auto
    with "2.prems" have "d * 10 ^ k = z * 10 ^ p" by simp
    with "2.IH" [of k z] True d show ?thesis by simp
  next
    case False
    show ?thesis
    proof (rule ccontr)
      assume "\<not> least_places c (Suc p) \<le> k"
      with False have "k < Suc p" by simp
      then obtain j where j: "Suc p = k + Suc j" by (metis add_Suc_right less_iff_Suc_add)
      with "2.prems" have "c * 10 ^ k = (z * 10 ^ Suc j) * 10 ^ k"
        by (simp add: power_add mult_ac)
      then have "c = z * 10 ^ Suc j" by simp
      with False show False by simp
    qed
  qed
qed simp

lemma pair_decimal_exact: "exact_decimal pair_decimal pair_value"
proof -
  have new: "pair_value (pair_new s) = decimal_value s" for s
    by (auto simp: pair_value_def pair_new_def decimal_value_def Let_def split: prod.splits)
  have fixed: "plain_decimal (minor_string c p) \<and> decimal_value (minor_string c p) = pair_value (c, p)"
    for c p using minor_string_ok [of c p] by (simp add: pair_value_def)
  have places: "least_places c p \<le> k" if "pair_value (c, p) * 10 ^ k = of_int z" for c p k z
    using that unfolding pair_value_def fst_conv snd_conv scaled_int by (rule least_places_le)
  have times: "pair_value (a * b, p + q) = pair_value (a, p) * pair_value (b, q)" for a b p q
    by (simp add: pair_value_def power_add)
  have "c div 10 ^ p = z" if "pair_value (c, p) = of_int z" for c z :: int and p
    using that scaled_int [of c p 0 z] by (simp add: pair_value_def)
  with new fixed places times show ?thesis
    by (auto simp: exact_decimal_def pair_decimal_def split_paired_all) (simp add: pair_value_def)
qed

lemma minor_units_roundtrip_witness:
  "moneyFromMinorUnits pair_decimal (- 12) ''JPY'' =
     \<lparr>mv_amount = ''-12'', mv_currency = ''JPY''\<rparr> \<and>
   moneyFromMinorUnits pair_decimal (- 5) ''KWD'' =
     \<lparr>mv_amount = ''-0.005'', mv_currency = ''KWD''\<rparr> \<and>
   amountToMinorUnits pair_decimal (moneyFromMinorUnits pair_decimal (- 5) ''KWD'') = Inr (- 5)"
proof -
  have "\<bar>- 5 :: int\<bar> < 10 ^ 60" by simp
  from minor_units_roundtrip [OF pair_decimal_exact this, of "''KWD''"]
  have r: "amountToMinorUnits pair_decimal (moneyFromMinorUnits pair_decimal (- 5) ''KWD'') = Inr (- 5)"
    by blast
  have a: "moneyFromMinorUnits pair_decimal (- 12) ''JPY'' =
     \<lparr>mv_amount = ''-12'', mv_currency = ''JPY''\<rparr>" by code_simp
  have b: "moneyFromMinorUnits pair_decimal (- 5) ''KWD'' =
     \<lparr>mv_amount = ''-0.005'', mv_currency = ''KWD''\<rparr>" by code_simp
  from a b r show ?thesis by blast
qed

end
