(* ===== verification/SlaInterpreter.thy ===== *)
theory SlaInterpreter
  imports SlaRules SlaResolver SlaExpression DecimalMoney
begin

text \<open>
  The posting-rule interpreter (\<open>platform/accounting/sla/interpreter.ts\<close>): the context of an event,
  the selection of a rule, the expansion of its template lines into legs, the balance check, and
  the replay of a past posting (\<open>reproduce.ts\<close>).

  An event payload is an object, as in the event envelope; \<open>productTaxonomy\<close> is the string its
  schema makes it.  A thrown error is a value of \<open>rule_error\<close>; the texts of messages are left out.
  The argument \<open>D\<close> is the decimal.js interface of the exact-money kernel.
\<close>

section \<open>Types\<close>

record context_vector =
  cv_instrument_type :: "string option"
  cv_event_type :: string
  cv_entity :: string
  cv_jurisdiction :: "string option"
  cv_regulatory_regime :: "string option"
  cv_product_variant :: "string option"
  cv_counterparty_classification :: "string option"
  cv_effective_date :: string

record interpreter_event =
  ie_type :: string
  ie_entity :: "string option"
  ie_as_of :: string
  ie_payload :: "(string \<times> jsval) list"
  ie_enrichment :: jsval

datatype rule_error =
    ExprError expr_error
  | MoneyError money_error
  | NoCurrencySource
  | NoProduct
  | BadSide string
  | NotAPath
  | NotAnArray
  | TypeErr
  | BadResolver string

record proposed_leg =
  pl_accountId :: string
  pl_debitCredit :: posting_side
  pl_amount :: money_wire
  pl_amountMinor :: string
  pl_currency :: string

datatype resolved_via = ViaExact | ViaSuspense

record resolver_decision =
  rd_logical :: string
  rd_key :: resolver_key
  rd_physical :: string
  rd_via :: resolved_via

record urgent_correction =
  uc_logical :: string
  uc_currency :: string
  uc_suspenseAccount :: string
  uc_ruleId :: string
  uc_representation :: string
  uc_alertId :: string

record proposed_posting =
  pp_representation :: string
  pp_ruleId :: string
  pp_ruleVersion :: int
  pp_legs :: "proposed_leg list"
  pp_resolverDecisions :: "resolver_decision list"
  pp_cites :: "string list"
  pp_urgentCorrections :: "urgent_correction list"
  pp_baselBusinessLine :: "string option"

datatype reject_reason = NoEligibleRule | ResolverMiss | Unbalanced | EvaluationError

datatype interpret_result =
    Post proposed_posting
  | Rejected string reject_reason context_vector
  | Ambiguous string "string list" context_vector
  | NoImpact string string

section \<open>Context\<close>

record built_context =
  bc_context :: context_vector
  bc_eventScope :: jsval
  bc_contextScope :: jsval

type_synonym context_builder = "interpreter_event \<Rightarrow> rule_error + built_context"

text \<open>\<open>if (!s)\<close> and \<open>s ? a : b\<close> on an optional string.\<close>

definition truthy :: "string option \<Rightarrow> bool" where
  "truthy s \<longleftrightarrow> s \<noteq> None \<and> s \<noteq> Some []"

definition deriveJurisdiction :: "string option \<Rightarrow> string option" where
  "deriveJurisdiction ent =
     (if \<not> truthy ent then None
      else let parts = split_on CHR ''-'' (the ent)
           in if length parts \<ge> 2 then Some (parts ! 1) else None)"

definition deriveRegulatoryRegime :: "string option \<Rightarrow> string option" where
  "deriveRegulatoryRegime jurisdiction =
     (if jurisdiction = Some ''ZA'' then Some ''SARB-banks-act'' else None)"

definition isoDate :: "string \<Rightarrow> string" where
  "isoDate asOf = take 10 asOf"

definition fxContextVector :: "interpreter_event \<Rightarrow> string option \<Rightarrow> context_vector" where
  "fxContextVector e instrumentType =
     (let jurisdiction = deriveJurisdiction (ie_entity e) in
      \<lparr>cv_instrument_type = instrumentType, cv_event_type = ie_type e,
       cv_entity = (case ie_entity e of Some s \<Rightarrow> s | None \<Rightarrow> ''UNKNOWN''),
       cv_jurisdiction = jurisdiction, cv_regulatory_regime = deriveRegulatoryRegime jurisdiction,
       cv_product_variant = None, cv_counterparty_classification = None,
       cv_effective_date = isoDate (ie_as_of e)\<rparr>)"

definition makeProductContextVector :: "interpreter_event \<Rightarrow> string \<Rightarrow> context_vector" where
  "makeProductContextVector e product = fxContextVector e (Some product)"

definition withEnrichment :: "(string \<times> jsval) list \<Rightarrow> jsval \<Rightarrow> jsval" where
  "withEnrichment scope enrichment =
     JObj (AList.update ''enrichment''
       (if enrichment = JUndefined \<or> enrichment = JNull then JObj [] else enrichment) scope)"

text \<open>\<open>v.p\<close> read from a value that may be null or undefined.\<close>

definition js_member :: "jsval \<Rightarrow> string \<Rightarrow> rule_error + jsval" where
  "js_member v p =
     (if v = JUndefined \<or> v = JNull then Inl TypeErr
      else Inr (case prop_get v p of Some w \<Rightarrow> w | None \<Rightarrow> JUndefined))"

text \<open>\<open>payload.legs.find((l) => l.legKind === "near")\<close>.\<close>

fun find_near :: "jsval list \<Rightarrow> rule_error + jsval option" where
  "find_near [] = Inr None"
| "find_near (l # ls) =
     res_bind (js_member l ''legKind'') (\<lambda>k. if k = JStr ''near'' then Inr (Some l) else find_near ls)"

definition fxTradeExecutedContextBuilder :: context_builder where
  "fxTradeExecutedContextBuilder e =
     (case map_of (ie_payload e) ''legs'' of
        Some (JArr ls) \<Rightarrow>
          res_bind (find_near ls) (\<lambda>nearLeg. Inr
            \<lparr>bc_context = fxContextVector e
               (case map_of (ie_payload e) ''productTaxonomy'' of Some (JStr s) \<Rightarrow> Some s | _ \<Rightarrow> None),
             bc_eventScope = withEnrichment
               (AList.update ''near'' (case nearLeg of Some l \<Rightarrow> l | None \<Rightarrow> JNull) (ie_payload e))
               (ie_enrichment e),
             bc_contextScope = JObj []\<rparr>)
      | _ \<Rightarrow> Inl TypeErr)"

definition makeFlatFxContextBuilder :: context_builder where
  "makeFlatFxContextBuilder e = Inr
     \<lparr>bc_context = fxContextVector e (Some ''FX-spot''),
      bc_eventScope = withEnrichment (ie_payload e) (ie_enrichment e),
      bc_contextScope = JObj []\<rparr>"

definition makeFlatProductContextBuilder :: "string \<Rightarrow> context_builder" where
  "makeFlatProductContextBuilder product e = Inr
     \<lparr>bc_context = makeProductContextVector e product,
      bc_eventScope = withEnrichment (ie_payload e) (ie_enrichment e),
      bc_contextScope = JObj []\<rparr>"

definition CONTEXT_BUILDERS :: "(string \<times> context_builder) list" where
  "CONTEXT_BUILDERS =
    [(''FxTradeExecuted'', fxTradeExecutedContextBuilder),
     (''FxPositionRevalued'', makeFlatFxContextBuilder),
     (''PrincipalPayment'', makeFlatFxContextBuilder),
     (''SettlementConfirmed'', makeFlatFxContextBuilder),
     (''FxSettlementFailed'', makeFlatFxContextBuilder),
     (''FxTradeCancelled'', makeFlatFxContextBuilder),
     (''TradeCancelled'', makeFlatFxContextBuilder),
     (''FxSettlementInstructed'', makeFlatFxContextBuilder),
     (''TradeReportSubmitted'', makeFlatFxContextBuilder),
     (''RealisedPnlRecognised'', makeFlatFxContextBuilder),
     (''FxForwardPointsAccrued'', makeFlatFxContextBuilder),
     (''DepositTaken'', makeFlatProductContextBuilder ''MMD''),
     (''DepositInterestAccrued'', makeFlatProductContextBuilder ''MMD''),
     (''DepositMatured'', makeFlatProductContextBuilder ''MMD''),
     (''DepositWithdrawnEarly'', makeFlatProductContextBuilder ''MMD''),
     (''FundingLineDrawn'', makeFlatProductContextBuilder ''FUNDING''),
     (''FundingLineRepaid'', makeFlatProductContextBuilder ''FUNDING''),
     (''InterbankLoanPlaced'', makeFlatProductContextBuilder ''IBL''),
     (''InterbankLoanInterestAccrued'', makeFlatProductContextBuilder ''IBL''),
     (''InterbankLoanMatured'', makeFlatProductContextBuilder ''IBL''),
     (''InterbankLoanRecalledEarly'', makeFlatProductContextBuilder ''IBL''),
     (''RepoTradeOpened'', makeFlatProductContextBuilder ''REPO''),
     (''RepoStartLegSettled'', makeFlatProductContextBuilder ''REPO''),
     (''RepoInterestAccrued'', makeFlatProductContextBuilder ''REPO''),
     (''RepoEndLegSettled'', makeFlatProductContextBuilder ''REPO''),
     (''RepoTradeTerminatedEarly'', makeFlatProductContextBuilder ''REPO''),
     (''BondTradeExecuted'', makeFlatProductContextBuilder ''BOND''),
     (''BondInterestAccrued'', makeFlatProductContextBuilder ''BOND''),
     (''BondPositionRevalued'', makeFlatProductContextBuilder ''BOND''),
     (''BondMatured'', makeFlatProductContextBuilder ''BOND''),
     (''BondSold'', makeFlatProductContextBuilder ''BOND''),
     (''EquityTradeExecuted'', makeFlatProductContextBuilder ''EQUITY''),
     (''EquityPositionRevalued'', makeFlatProductContextBuilder ''EQUITY''),
     (''EquityDividendAccrued'', makeFlatProductContextBuilder ''EQUITY''),
     (''EquitySettlementInstructed'', makeFlatProductContextBuilder ''EQUITY''),
     (''EquitySold'', makeFlatProductContextBuilder ''EQUITY''),
     (''IrdSwapTradeExecuted'', makeFlatProductContextBuilder ''IRD''),
     (''IrdSwapPositionRevalued'', makeFlatProductContextBuilder ''IRD''),
     (''IrdSwapCouponSettled'', makeFlatProductContextBuilder ''IRD''),
     (''IrdSwapTerminated'', makeFlatProductContextBuilder ''IRD''),
     (''IrsCouponScheduleGenerated'', makeFlatProductContextBuilder ''IRD''),
     (''IrsCouponPaymentInstructed'', makeFlatProductContextBuilder ''IRD''),
     (''PaymentInitiated'', makeFlatProductContextBuilder ''PAY''),
     (''PaymentSettled'', makeFlatProductContextBuilder ''PAY''),
     (''SettlementInstructionReceived'', makeFlatProductContextBuilder ''PAY'')]"

definition PRODUCT_TO_BUSINESS_LINE :: "(string \<times> string) list" where
  "PRODUCT_TO_BUSINESS_LINE =
    [(''MMD'', ''commercial-banking''),
     (''IBL'', ''commercial-banking''),
     (''FUNDING'', ''commercial-banking''),
     (''REPO'', ''trading-and-sales''),
     (''BOND'', ''trading-and-sales''),
     (''IRD'', ''trading-and-sales''),
     (''FX-spot'', ''trading-and-sales''),
     (''FX-forward'', ''trading-and-sales''),
     (''FX-swap'', ''trading-and-sales''),
     (''NDF'', ''trading-and-sales''),
     (''EQUITY'', ''trading-and-sales''),
     (''PAY'', ''payment-and-settlement'')]"

section \<open>Rule selection\<close>

datatype dimension =
    DEventType | DInstrumentType | DEntity | DJurisdiction | DRegulatoryRegime
  | DProductVariant | DCounterpartyClassification

definition TIE_BREAK_ORDER :: "dimension list" where
  "TIE_BREAK_ORDER = [DEntity, DJurisdiction, DProductVariant, DCounterpartyClassification,
     DRegulatoryRegime, DInstrumentType, DEventType]"

definition CONTEXT_DIMENSIONS :: "dimension list" where
  "CONTEXT_DIMENSIONS = [DEventType, DInstrumentType, DEntity, DJurisdiction, DRegulatoryRegime,
     DProductVariant, DCounterpartyClassification]"

fun dim_constraint :: "applies_to \<Rightarrow> dimension \<Rightarrow> context_match option" where
  "dim_constraint a DEventType = Some (MatchOne (at_event_type a))"
| "dim_constraint a DInstrumentType = at_instrument_type a"
| "dim_constraint a DEntity = at_entity a"
| "dim_constraint a DJurisdiction = at_jurisdiction a"
| "dim_constraint a DRegulatoryRegime = at_regulatory_regime a"
| "dim_constraint a DProductVariant = at_product_variant a"
| "dim_constraint a DCounterpartyClassification = at_counterparty_classification a"

fun contextValueFor :: "context_vector \<Rightarrow> dimension \<Rightarrow> string option" where
  "contextValueFor ctx DEventType = Some (cv_event_type ctx)"
| "contextValueFor ctx DInstrumentType = cv_instrument_type ctx"
| "contextValueFor ctx DEntity = Some (cv_entity ctx)"
| "contextValueFor ctx DJurisdiction = cv_jurisdiction ctx"
| "contextValueFor ctx DRegulatoryRegime = cv_regulatory_regime ctx"
| "contextValueFor ctx DProductVariant = cv_product_variant ctx"
| "contextValueFor ctx DCounterpartyClassification = cv_counterparty_classification ctx"

fun constraintMatches :: "context_match \<Rightarrow> string option \<Rightarrow> bool" where
  "constraintMatches c None = False"
| "constraintMatches (MatchOne s) (Some v) = (s = v)"
| "constraintMatches (MatchAny ss) (Some v) = (v \<in> set ss)"

definition ruleMatches :: "sla_rule \<Rightarrow> context_vector \<Rightarrow> bool" where
  "ruleMatches r ctx \<longleftrightarrow>
     list_all (\<lambda>d. case dim_constraint (sr_applies_to r) d of None \<Rightarrow> True
       | Some c \<Rightarrow> constraintMatches c (contextValueFor ctx d)) CONTEXT_DIMENSIONS"

definition specificityScore :: "sla_rule \<Rightarrow> nat" where
  "specificityScore r =
     sum_list (map (\<lambda>d. case dim_constraint (sr_applies_to r) d of None \<Rightarrow> 0
       | Some (MatchOne _) \<Rightarrow> 2 | Some (MatchAny _) \<Rightarrow> 1) CONTEXT_DIMENSIONS)"

datatype rule_selection = SelNone | SelWinner sla_rule | SelAmbiguous "sla_rule list"

fun tie_break :: "dimension list \<Rightarrow> sla_rule list \<Rightarrow> rule_selection" where
  "tie_break [] tops = SelAmbiguous tops"
| "tie_break (d # ds) tops =
     (let constrains = filter (\<lambda>r. dim_constraint (sr_applies_to r) d \<noteq> None) tops in
      if 0 < length constrains \<and> length constrains < length tops
      then (if length constrains = 1 then SelWinner (hd constrains) else tie_break ds constrains)
      else tie_break ds tops)"

definition eligible_rules ::
  "sla_rule list \<Rightarrow> context_vector \<Rightarrow> approval_gate option \<Rightarrow> sla_rule list"
where
  "eligible_rules rules ctx gate =
     filter (\<lambda>r. case gate of None \<Rightarrow> True | Some g \<Rightarrow> keyOf g r \<in> set (eligibleKeys g))
       (filter (\<lambda>r. withinEffectiveWindow r (cv_effective_date ctx))
         (filter (\<lambda>r. ruleMatches r ctx) rules))"

definition selectRule ::
  "sla_rule list \<Rightarrow> context_vector \<Rightarrow> approval_gate option \<Rightarrow> rule_selection"
where
  "selectRule rules ctx gate =
     (let eligible = eligible_rules rules ctx gate in
      if eligible = [] then SelNone
      else if length eligible = 1 then SelWinner (hd eligible)
      else let maxScore = Max (set (map specificityScore eligible));
               tops = filter (\<lambda>r. specificityScore r = maxScore) eligible
           in if length tops = 1 then SelWinner (hd tops) else tie_break TIE_BREAK_ORDER tops)"

section \<open>Template lines\<close>

definition lift_expr :: "expr_error + 'a \<Rightarrow> rule_error + 'a" where
  "lift_expr r = map_sum ExprError id r"

definition lift_money :: "money_error + 'a \<Rightarrow> rule_error + 'a" where
  "lift_money r = map_sum MoneyError id r"

text \<open>\<open>/^[A-Z]{3}$/\<close>.\<close>

definition is_currency_code :: "string \<Rightarrow> bool" where
  "is_currency_code s \<longleftrightarrow> length s = 3 \<and> list_all is_upper s"

definition resolveCurrency :: "string \<Rightarrow> eval_scope \<Rightarrow> rule_error + string" where
  "resolveCurrency source scope =
     (if is_currency_code source then Inr source else lift_expr (evaluateString source scope))"

definition resolveSide :: "string \<Rightarrow> eval_scope \<Rightarrow> rule_error + posting_side" where
  "resolveSide path scope =
     res_bind (lift_expr (evaluateString path scope)) (\<lambda>v.
       if v = ''debit'' then Inr Debit else if v = ''credit'' then Inr Credit else Inl (BadSide v))"

definition absMinor :: "int \<Rightarrow> int" where
  "absMinor raw = (if raw < 0 then - raw else raw)"

text \<open>\<open>None\<close> is the early return of the empty array.\<close>

fun array_walk :: "jsval \<Rightarrow> string list \<Rightarrow> jsval option" where
  "array_walk current [] = Some current"
| "array_walk current (seg # rest) =
     (if \<not> is_object current then None
      else array_walk (case prop_get current seg of Some v \<Rightarrow> v | None \<Rightarrow> JUndefined) rest)"

definition readArrayPath :: "string \<Rightarrow> eval_scope \<Rightarrow> rule_error + jsval list" where
  "readArrayPath path scope =
     res_bind (lift_expr (parseExpression path)) (\<lambda>ast.
       case ast of
         Path segments \<Rightarrow>
           (let start = (if segments \<noteq> [] \<and> hd segments = ''event'' then sc_event scope
                         else if segments \<noteq> [] \<and> hd segments = ''context'' then sc_context scope
                         else sc_item scope)
            in case array_walk start (tl segments) of
                 None \<Rightarrow> Inr []
               | Some v \<Rightarrow> if v = JUndefined \<or> v = JNull then Inr []
                           else (case v of JArr xs \<Rightarrow> Inr xs | _ \<Rightarrow> Inl NotAnArray))
       | _ \<Rightarrow> Inl NotAPath)"

text \<open>A line ends in a leg, in a thrown error, or in the rejection of the whole posting.\<close>

datatype line_stop = Throw rule_error | RejectMiss

record emitted_line =
  el_leg :: proposed_leg
  el_decision :: resolver_decision
  el_urgent :: "urgent_correction option"

definition thrown :: "rule_error + 'a \<Rightarrow> line_stop + 'a" where
  "thrown r = map_sum Throw id r"

definition make_leg ::
  "'d decimal_js \<Rightarrow> rule_line \<Rightarrow> eval_scope \<Rightarrow> string \<Rightarrow> posting_side \<Rightarrow> string \<Rightarrow> rule_error + proposed_leg"
where
  "make_leg D line scope physical side currency =
     res_bind (lift_expr (evaluateAmount (rl_amount line) scope)) (\<lambda>raw.
       let magnitude = absMinor raw in
       res_bind (lift_money (encode_minor D magnitude currency)) (\<lambda>wire. Inr
         \<lparr>pl_accountId = physical, pl_debitCredit = side, pl_amount = wire,
          pl_amountMinor = int_str magnitude, pl_currency = currency\<rparr>))"

definition emit_physical ::
  "'d decimal_js \<Rightarrow> rule_line \<Rightarrow> sla_rule \<Rightarrow> context_vector \<Rightarrow> eval_scope \<Rightarrow> string \<Rightarrow> posting_side \<Rightarrow>
   line_stop + emitted_line"
where
  "emit_physical D line r ctx scope currency side =
     res_bind (thrown (lift_expr (evaluateString (ar_logical (rl_account line)) scope))) (\<lambda>physical.
       if \<not> isAccountId physical then Inl RejectMiss
       else res_bind (thrown (make_leg D line scope physical side currency)) (\<lambda>leg. Inr
         \<lparr>el_leg = leg,
          el_decision = \<lparr>rd_logical = ar_logical (rl_account line),
            rd_key = \<lparr>rk_entity = cv_entity ctx,
              rk_product = (case ar_product (rl_account line) of Some p \<Rightarrow> p
                | None \<Rightarrow> (case cv_instrument_type ctx of Some p \<Rightarrow> p | None \<Rightarrow> [])),
              rk_currency = currency,
              rk_jurisdiction = (case cv_jurisdiction ctx of Some j \<Rightarrow> j | None \<Rightarrow> []),
              rk_representation = sr_representation r, rk_logical = physical\<rparr>,
            rd_physical = physical, rd_via = ViaExact\<rparr>,
          el_urgent = None\<rparr>))"

definition emit_resolved ::
  "'d decimal_js \<Rightarrow> rule_line \<Rightarrow> sla_rule \<Rightarrow> context_vector \<Rightarrow> eval_scope \<Rightarrow> resolver_row list \<Rightarrow>
   string \<Rightarrow> string \<Rightarrow> posting_side \<Rightarrow> line_stop + emitted_line"
where
  "emit_resolved D line r ctx scope resolver rep currency side =
     (let product = (case ar_product (rl_account line) of Some p \<Rightarrow> Some p
                     | None \<Rightarrow> cv_instrument_type ctx) in
      if \<not> truthy product then Inl (Throw NoProduct)
      else let key = \<lparr>rk_entity = cv_entity ctx, rk_product = the product, rk_currency = currency,
               rk_jurisdiction = (case cv_jurisdiction ctx of Some j \<Rightarrow> j | None \<Rightarrow> []),
               rk_representation = sr_representation r, rk_logical = ar_logical (rl_account line)\<rparr>
        in (let emit = (\<lambda>physical via urgent.
                res_bind (thrown (make_leg D line scope physical side currency)) (\<lambda>leg. Inr
                  \<lparr>el_leg = leg,
                   el_decision = \<lparr>rd_logical = ar_logical (rl_account line), rd_key = key,
                     rd_physical = physical, rd_via = via\<rparr>,
                   el_urgent = urgent\<rparr>))
            in case resolve resolver key of
                 NoMatchingRow \<Rightarrow> Inl RejectMiss
               | Resolved physical \<Rightarrow> emit physical ViaExact None
               | UnresolvedCurrency _ \<Rightarrow>
                   emit FX_UNRESOLVED_CURRENCY_SUSPENSE ViaSuspense (Some
                     \<lparr>uc_logical = ar_logical (rl_account line), uc_currency = currency,
                      uc_suspenseAccount = FX_UNRESOLVED_CURRENCY_SUSPENSE,
                      uc_ruleId = sr_rule_id r, uc_representation = rep,
                      uc_alertId = ''alert:integrity:sla-unresolved-currency-'' @
                        map to_lower currency\<rparr>)))"

definition emitLine ::
  "'d decimal_js \<Rightarrow> rule_line \<Rightarrow> sla_rule \<Rightarrow> context_vector \<Rightarrow> eval_scope \<Rightarrow> resolver_row list \<Rightarrow>
   string \<Rightarrow> line_stop + emitted_line"
where
  "emitLine D line r ctx scope resolver rep =
     (let currencySource = (case rl_currency line of Some c \<Rightarrow> Some c
                            | None \<Rightarrow> ar_currency (rl_account line)) in
      if \<not> truthy currencySource then Inl (Throw NoCurrencySource)
      else res_bind (thrown (resolveCurrency (the currencySource) scope)) (\<lambda>currency.
        res_bind (if truthy (rl_side_path line) then thrown (resolveSide (the (rl_side_path line)) scope)
                  else Inr (rl_side line)) (\<lambda>side.
          if rl_use_physical_account line then emit_physical D line r ctx scope currency side
          else emit_resolved D line r ctx scope resolver rep currency side)))"

definition line_legs ::
  "'d decimal_js \<Rightarrow> sla_rule \<Rightarrow> context_vector \<Rightarrow> eval_scope \<Rightarrow> resolver_row list \<Rightarrow> string \<Rightarrow>
   rule_line \<Rightarrow> line_stop + emitted_line list"
where
  "line_legs D r ctx scope resolver rep line =
     (if truthy (rl_for_each line) then
        res_bind (thrown (readArrayPath (the (rl_for_each line)) scope))
          (res_map (\<lambda>element. emitLine D line r ctx (scope\<lparr>sc_item := element\<rparr>) resolver rep))
      else res_bind
        (if truthy (rl_when line) then thrown (lift_expr (evaluatePredicate (the (rl_when line)) scope))
         else Inr True) (\<lambda>fires.
          if fires then res_map (\<lambda>s. emitLine D line r ctx s resolver rep) [scope]
          else Inr []))"

section \<open>Postings\<close>

definition signed_leg :: "'d decimal_js \<Rightarrow> proposed_leg \<Rightarrow> money_error + int" where
  "signed_leg D leg =
     res_bind (wire_minor D (pl_amount leg)) (\<lambda>amt.
       Inr (if pl_debitCredit leg = Debit then amt else - amt))"

fun add_legs ::
  "'d decimal_js \<Rightarrow> proposed_leg list \<Rightarrow> (string, int) jsmap \<Rightarrow> money_error + (string, int) jsmap"
where
  "add_legs D [] byCcy = Inr byCcy"
| "add_legs D (leg # legs) byCcy =
     res_bind (signed_leg D leg) (\<lambda>signed.
       add_legs D legs (jm_set (pl_currency leg)
         ((case jm_get byCcy (pl_currency leg) of None \<Rightarrow> 0 | Some v \<Rightarrow> v) + signed) byCcy))"

definition assertBalanced :: "'d decimal_js \<Rightarrow> proposed_leg list \<Rightarrow> money_error + bool" where
  "assertBalanced D legs =
     res_bind (add_legs D legs []) (\<lambda>byCcy. Inr (filter (\<lambda>(c, v). v \<noteq> 0) byCcy = []))"

definition rule_tag :: "sla_rule \<Rightarrow> string" where
  "rule_tag r = sr_rule_id r @ ''@v'' @ int_str (sr_version r)"

definition post_lines ::
  "'d decimal_js \<Rightarrow> sla_rule \<Rightarrow> context_vector \<Rightarrow> eval_scope \<Rightarrow> resolver_row list \<Rightarrow> string \<Rightarrow>
   rule_error + interpret_result"
where
  "post_lines D r ctx scope resolver rep =
     (case res_map (line_legs D r ctx scope resolver rep) (sr_lines r) of
        Inl (Throw e) \<Rightarrow> Inl e
      | Inl RejectMiss \<Rightarrow> Inr (Rejected rep ResolverMiss ctx)
      | Inr ess \<Rightarrow>
          (let es = concat ess; legs = map el_leg es in
           res_bind (lift_money (assertBalanced D legs)) (\<lambda>balanced.
             if \<not> balanced then Inr (Rejected rep Unbalanced ctx)
             else Inr (Post
               \<lparr>pp_representation = rep, pp_ruleId = sr_rule_id r,
                pp_ruleVersion = sr_version r, pp_legs = legs,
                pp_resolverDecisions = map el_decision es, pp_cites = sr_cites r,
                pp_urgentCorrections = map the (filter (\<lambda>u. u \<noteq> None) (map el_urgent es)),
                pp_baselBusinessLine =
                  (if truthy (cv_instrument_type ctx)
                   then map_of PRODUCT_TO_BUSINESS_LINE (the (cv_instrument_type ctx))
                   else None)\<rparr>))))"

definition applyRule ::
  "'d decimal_js \<Rightarrow> sla_rule \<Rightarrow> context_vector \<Rightarrow> eval_scope \<Rightarrow> resolver_row list \<Rightarrow> string \<Rightarrow>
   rule_error + interpret_result"
where
  "applyRule D r ctx scope resolver rep =
     (if rc_kind (sr_condition r) = NonZeroDelta \<or> rc_kind (sr_condition r) = NonZeroPnl then
        (if \<not> truthy (rc_delta_path (sr_condition r))
         then Inr (Rejected rep EvaluationError ctx)
         else res_bind (lift_expr (evaluateAmount (the (rc_delta_path (sr_condition r))) scope)) (\<lambda>value.
           if value = 0 then Inr (NoImpact rep (rule_tag r))
           else post_lines D r ctx scope resolver rep))
      else post_lines D r ctx scope resolver rep)"

record interpret_options =
  io_resolver :: "resolver_row list"
  io_builders :: "(string \<times> context_builder) list"
  io_gate :: "approval_gate option"

definition interpret_one ::
  "'d decimal_js \<Rightarrow> interpret_options \<Rightarrow> context_vector \<Rightarrow> eval_scope \<Rightarrow> sla_rule list \<Rightarrow> string \<Rightarrow>
   interpret_result"
where
  "interpret_one D opts ctx scope rules rep =
     (case selectRule (filter (\<lambda>r. sr_representation r = rep) rules) ctx (io_gate opts) of
        SelAmbiguous rs \<Rightarrow> Ambiguous rep (map rule_tag rs) ctx
      | SelNone \<Rightarrow> Rejected rep NoEligibleRule ctx
      | SelWinner r \<Rightarrow>
          if rc_kind (sr_condition r) = IntentionalNoImpact
          then NoImpact rep (rule_tag r)
          else (case applyRule D r ctx scope (io_resolver opts) rep of
                  Inr outcome \<Rightarrow> outcome
                | Inl _ \<Rightarrow> Rejected rep EvaluationError ctx))"

definition interpret_sla ::
  "'d decimal_js \<Rightarrow> interpreter_event \<Rightarrow> sla_rule list \<Rightarrow> string list \<Rightarrow> interpret_options \<Rightarrow>
   rule_error + interpret_result list"
where
  "interpret_sla D e rules activeRepresentations opts =
     (case map_of (io_builders opts) (ie_type e) of
        None \<Rightarrow> Inr []
      | Some builder \<Rightarrow>
          res_bind (builder e) (\<lambda>b.
            let scope = \<lparr>sc_event = bc_eventScope b, sc_context = bc_contextScope b,
                         sc_item = JUndefined\<rparr>
            in Inr (map (interpret_one D opts (bc_context b) scope rules) activeRepresentations)))"

definition default_options :: interpret_options where
  "default_options = \<lparr>io_resolver = default_rows, io_builders = CONTEXT_BUILDERS, io_gate = None\<rparr>"

section \<open>Replay\<close>

datatype reproduce_outcome =
    Reproduced string string int "proposed_leg list"
  | VersionNotFound
  | NoPost

fun result_representation :: "interpret_result \<Rightarrow> string" where
  "result_representation (Post p) = pp_representation p"
| "result_representation (Rejected rep _ _) = rep"
| "result_representation (Ambiguous rep _ _) = rep"
| "result_representation (NoImpact rep _) = rep"

definition reproduceAsOf ::
  "'d decimal_js \<Rightarrow> sla_rule list \<Rightarrow> interpreter_event \<Rightarrow> string \<Rightarrow> int \<Rightarrow> string option \<Rightarrow>
   jsval \<Rightarrow> rule_error + reproduce_outcome"
where
  "reproduceAsOf D registry e ruleId ruleVersion repOpt enrichment =
     (let rep = (case repOpt of Some p \<Rightarrow> p | None \<Rightarrow> ''IFRS'') in
      case findRuleVersion registry ruleId ruleVersion (Some rep) of
        None \<Rightarrow> Inr VersionNotFound
      | Some r \<Rightarrow>
          (let eventForReplay =
             (if enrichment \<noteq> JUndefined then e\<lparr>ie_enrichment := enrichment\<rparr> else e)
           in res_bind (interpret_sla D eventForReplay [r] [rep] default_options) (\<lambda>results.
                Inr (case find (\<lambda>x. result_representation x = rep) results of
                       Some (Post p) \<Rightarrow>
                         Reproduced (pp_representation p) (pp_ruleId p) (pp_ruleVersion p) (pp_legs p)
                     | _ \<Rightarrow> NoPost))))"

end
