(* ===== verification/SlaGovernance.thy ===== *)
theory SlaGovernance
  imports SlaRules
begin

text \<open>
  What the rule governance promises.  A registry without window defects never has two versions
  of a rule in force on one date; a lineage built by supersession has no defect, and covers
  every date from its first one; a rule version is eligible exactly when the last decision that
  counts for it is an approval by a seat other than the publisher of the reviewed content.
\<close>

section \<open>Window integrity\<close>

definition closes_before :: "sla_rule \<Rightarrow> sla_rule \<Rightarrow> bool" where
  "closes_before a b \<longleftrightarrow>
     (\<exists>t. sr_effective_to a = Some t \<and> t \<le> sr_effective_from b) \<and> sr_version a < sr_version b"

lemma pair_defects_Nil:
  "pair_defects l a b = [] \<longleftrightarrow>
     sr_effective_to a = Some (sr_effective_from b) \<and> sr_version a < sr_version b"
  by (auto simp: pair_defects_def split: option.splits if_splits)

lemma walk_windows_closes:
  "walk_windows l rs = [] \<Longrightarrow> sorted (map sr_effective_from rs) \<Longrightarrow> sorted_wrt closes_before rs"
proof (induction l rs rule: walk_windows.induct)
  case (1 l a b rest)
  then have ab: "sr_effective_to a = Some (sr_effective_from b)" "sr_version a < sr_version b"
    and ih: "sorted_wrt closes_before (b # rest)"
    by (simp_all add: pair_defects_Nil)
  have "closes_before a r" if "r \<in> set (b # rest)" for r
  proof -
    have "sr_effective_from b \<le> sr_effective_from r" using that "1.prems" by auto
    moreover have "sr_version b \<le> sr_version r"
      using that ih by (auto simp: closes_before_def)
    ultimately show ?thesis using ab by (simp add: closes_before_def)
  qed
  with ih show ?case by simp
qed simp_all

lemma closes_before_apart:
  "closes_before a b \<Longrightarrow> \<not> (withinEffectiveWindow a d \<and> withinEffectiveWindow b d)"
  by (auto simp: closes_before_def withinEffectiveWindow_def)

lemma within_at_most_one:
  "sorted_wrt closes_before rs \<Longrightarrow> length (filter (\<lambda>r. withinEffectiveWindow r d) rs) \<le> 1"
proof (induction rs)
  case (Cons r rs)
  show ?case
  proof (cases "withinEffectiveWindow r d")
    case True
    with Cons.prems have "filter (\<lambda>r. withinEffectiveWindow r d) rs = []"
      using closes_before_apart by (auto simp: filter_empty_conv)
    then show ?thesis by simp
  next
    case False
    with Cons show ?thesis by simp
  qed
qed simp

lemma sorted_window_order:
  "sorted (map sr_effective_from (sort_key window_order rs))"
proof -
  have "sorted (map window_order (sort_key window_order rs))" by simp
  then show ?thesis
    by (auto simp: sorted_map window_order_def less_eq_prod_def elim: sorted_wrt_mono_rel [rotated])
qed

lemma clean_lineage:
  assumes "analyzeWindowIntegrity rules = []" "r \<in> set rules"
  shows "sorted_wrt closes_before
           (sort_key window_order (filter (\<lambda>x. lineageKey x = lineageKey r) rules))"
proof (rule walk_windows_closes [OF _ sorted_window_order])
  from group_by_covers [OF assms(2), of lineageKey] assms(1)
  show "walk_windows (lineageKey r)
          (sort_key window_order (filter (\<lambda>x. lineageKey x = lineageKey r) rules)) = []"
    by (force simp: analyzeWindowIntegrity_def)
qed

lemma in_force_at_most_one:
  assumes "analyzeWindowIntegrity rules = []"
  shows "length (in_force rules representation ruleId d) \<le> 1"
proof (cases "in_force rules representation ruleId d")
  case (Cons r rs)
  then have "r \<in> set (in_force rules representation ruleId d)" by simp
  then have r: "r \<in> set rules" "sr_representation r = representation" "sr_rule_id r = ruleId"
    by (simp_all add: in_force_def)
  let ?g = "filter (\<lambda>x. lineageKey x = lineageKey r) rules"
  let ?w = "\<lambda>x. withinEffectiveWindow x d"
  have "in_force rules representation ruleId d =
      filter (\<lambda>x. sr_representation x = representation \<and> sr_rule_id x = ruleId) (filter ?w ?g)"
    using r by (auto simp: in_force_def lineageKey_def intro: filter_cong)
  then have "length (in_force rules representation ruleId d) \<le> length (filter ?w ?g)"
    by (simp only: length_filter_le)
  also have "length (filter ?w ?g) = length (filter ?w (sort_key window_order ?g))"
    by (simp only: filter_sort length_sort)
  also have "\<dots> \<le> 1" by (rule within_at_most_one [OF clean_lineage [OF assms r(1)]])
  finally show ?thesis .
qed simp

lemma find_filter: "find P xs = (case filter P xs of [] \<Rightarrow> None | x # _ \<Rightarrow> Some x)"
  by (induction xs) auto

text \<open>
  In a registry for which the window analysis reports nothing, looking up the version of a
  rule in force on a date never fails, on any date: it returns the one version whose window
  holds the date, or nothing.
\<close>

theorem clean_registry_in_force:
  assumes "analyzeWindowIntegrity rules = []"
  shows "ruleVersionInForce rules representation ruleId d =
           Inr (find (\<lambda>r. sr_representation r = representation \<and> sr_rule_id r = ruleId \<and>
                          withinEffectiveWindow r d) rules)
       \<and> (\<forall>r r'. r \<in> set (in_force rules representation ruleId d) \<longrightarrow>
                 r' \<in> set (in_force rules representation ruleId d) \<longrightarrow> r = r')"
  using in_force_at_most_one [OF assms, of representation ruleId d]
  by (cases "in_force rules representation ruleId d")
    (auto simp: ruleVersionInForce_def find_filter in_force_def split: list.splits)

section \<open>Lineages built by supersession\<close>

text \<open>
  The registry of one lineage as its author keeps it: both rules \<open>supersede\<close> returns are
  committed, the closed prior in the place of the prior.
\<close>

fun amend :: "rule_change \<Rightarrow> sla_rule list \<Rightarrow> version_error + sla_rule list" where
  "amend c h = res_bind (supersede (last h) c) (\<lambda>(p, n). Inr (butlast h @ [p, n]))"

fun amend_all :: "rule_change list \<Rightarrow> sla_rule list \<Rightarrow> version_error + sla_rule list" where
  "amend_all [] h = Inr h"
| "amend_all (c # cs) h = res_bind (amend c h) (amend_all cs)"

text \<open>Adjacent windows abut, dates and versions rise.\<close>

fun abutting :: "sla_rule list \<Rightarrow> bool" where
  "abutting (a # b # rest) \<longleftrightarrow>
     sr_effective_to a = Some (sr_effective_from b) \<and>
     sr_effective_from a < sr_effective_from b \<and>
     sr_version b = sr_version a + 1 \<and> abutting (b # rest)"
| "abutting _ \<longleftrightarrow> True"

definition same_lineage :: "sla_rule \<Rightarrow> sla_rule list \<Rightarrow> bool" where
  "same_lineage r h \<longleftrightarrow>
     (\<forall>x \<in> set h. sr_rule_id x = sr_rule_id r \<and> sr_representation x = sr_representation r)"

lemma supersede_InrE:
  assumes "supersede prior c = Inr (p, n)"
  obtains "sr_effective_from prior < ch_effective_from c"
    "p = prior\<lparr>sr_effective_to := Some (ch_effective_from c)\<rparr>"
    "sr_effective_from n = ch_effective_from c" "sr_version n = sr_version prior + 1"
    "sr_rule_id n = sr_rule_id prior" "sr_representation n = sr_representation prior"
    "sr_effective_to n = ch_effective_to c"
  using assms by (auto simp: supersede_def split: if_splits)

lemma abutting_replace_last:
  "abutting (h @ [r]) \<Longrightarrow> supersede r c = Inr (p, n) \<Longrightarrow> abutting (h @ [p, n])"
proof (induction h rule: abutting.induct)
  case (1 a b rest)
  then show ?case by simp
next
  case "2_1"
  then show ?case by (auto elim: supersede_InrE)
next
  case "2_2"
  then show ?case by (auto elim!: supersede_InrE)
qed

lemma amend_keeps:
  assumes "h \<noteq> []" "abutting h" "same_lineage r h" "amend c h = Inr h'"
  shows "h' \<noteq> [] \<and> abutting h' \<and> same_lineage r h' \<and>
         sr_effective_from (hd h') = sr_effective_from (hd h)"
proof -
  obtain g x where h: "h = g @ [x]" using assms(1) by (metis append_butlast_last_id)
  with assms(4) obtain p n where s: "supersede x c = Inr (p, n)" and h': "h' = g @ [p, n]"
    by (auto simp: res_bind_Inr_iff)
  from abutting_replace_last [OF _ s] assms(2) h have "abutting h'" by (simp add: h')
  moreover from s assms(3) have "same_lineage r h'"
    by (auto simp: h h' same_lineage_def elim!: supersede_InrE)
  moreover from s have "sr_effective_from (hd h') = sr_effective_from (hd h)"
    by (cases g) (auto simp: h h' elim!: supersede_InrE)
  ultimately show ?thesis by (simp add: h')
qed

lemma amend_all_keeps:
  "h \<noteq> [] \<Longrightarrow> abutting h \<Longrightarrow> same_lineage r h \<Longrightarrow> amend_all cs h = Inr h' \<Longrightarrow>
   h' \<noteq> [] \<and> abutting h' \<and> same_lineage r h' \<and>
   sr_effective_from (hd h') = sr_effective_from (hd h)"
proof (induction cs arbitrary: h)
  case (Cons c cs)
  from Cons.prems(4) obtain g where g: "amend c h = Inr g" "amend_all cs g = Inr h'"
    by (auto simp: res_bind_Inr_iff)
  with amend_keeps [OF Cons.prems(1-3) g(1)] Cons.IH [of g] show ?case by auto
qed auto

lemma abutting_facts:
  "abutting rs \<Longrightarrow> sorted_wrt (\<lambda>a b. window_order a < window_order b) rs
     \<and> sorted_wrt (\<lambda>a b. sr_version a < sr_version b) rs \<and> walk_windows l rs = []"
proof (induction l rs rule: walk_windows.induct)
  case (1 l a b rest)
  then have ih: "sorted_wrt (\<lambda>a b. window_order a < window_order b) (b # rest)"
    "sorted_wrt (\<lambda>a b. sr_version a < sr_version b) (b # rest)" "walk_windows l (b # rest) = []"
    by simp_all
  have ab: "window_order a < window_order b" "sr_version a < sr_version b" "pair_defects l a b = []"
    using "1.prems" by (auto simp: window_order_def less_prod_def pair_defects_Nil)
  have "window_order a < window_order r" "sr_version a < sr_version r" if "r \<in> set rest" for r
    using ab ih that by (auto intro: less_trans)
  with ih ab show ?case by auto
qed simp_all

lemma count_versions_get:
  "jm_get (fold count_version rs m) v =
     (let n = length (filter (\<lambda>r. sr_version r = v) rs) in
      case jm_get m v of None \<Rightarrow> (if n = 0 then None else Some n) | Some k \<Rightarrow> Some (k + n))"
  by (induction rs arbitrary: m) (auto simp: count_version_def Let_def split: option.splits)

lemma count_versions_distinct:
  "jm_keys_distinct m \<Longrightarrow> jm_keys_distinct (fold count_version rs m)"
  by (induction rs arbitrary: m) (auto simp: count_version_def)

lemma no_duplicates:
  assumes "sorted_wrt (\<lambda>a b. sr_version a < sr_version b) rs"
  shows "duplicate_defects l rs = []"
proof -
  have one: "length (filter (\<lambda>r. sr_version r = v) rs) \<le> 1" for v
    using assms by (induction rs) (auto simp: filter_empty_conv)
  have "n \<le> 1" if "(v, n) \<in> set (fold count_version rs [])" for v n
  proof -
    have "jm_get (fold count_version rs []) v = Some n"
      using that count_versions_distinct [of "[]" rs] by (simp add: jm_keys_distinct_def)
    with one [of v] show ?thesis by (auto simp: count_versions_get Let_def split: if_splits)
  qed
  then show ?thesis by (fastforce simp: duplicate_defects_def filter_empty_conv)
qed

lemma same_lineage_groups:
  assumes "h \<noteq> []" "same_lineage r h"
  shows "group_by lineageKey h = [(lineageKey (hd h), h)]"
proof -
  have k: "lineageKey x = lineageKey (hd h)" if "x \<in> set h" for x
    using assms that by (auto simp: same_lineage_def lineageKey_def)
  have "fold (push_group lineageKey) xs [(lineageKey (hd h), ys)] = [(lineageKey (hd h), ys @ xs)]"
    if "set xs \<subseteq> set h" for xs ys
    using that k by (induction xs arbitrary: ys) (auto simp: push_group_def)
  note step = this
  from assms(1) obtain x xs where h: "h = x # xs" by (cases h) auto
  have "set xs \<subseteq> set h" using h by auto
  from step [OF this, of "[x]"] h show ?thesis by (simp add: group_by_def push_group_def)
qed

lemma abutting_clean:
  assumes "h \<noteq> []" "abutting h" "same_lineage r h"
  shows "analyzeWindowIntegrity h = []"
proof -
  note f = abutting_facts [OF assms(2)]
  then have "sorted (map window_order h)"
    unfolding sorted_map by (rule sorted_wrt_mono_rel [rotated, OF conjunct1]) simp_all
  then have "sort_key window_order h = h" by (rule sort_key_id_if_sorted)
  with f no_duplicates [of h] show ?thesis
    by (simp add: analyzeWindowIntegrity_def same_lineage_groups [OF assms(1,3)])
qed

lemma abutting_covers:
  assumes "abutting rs" "rs \<noteq> []" "sr_effective_to (last rs) = None"
    "sr_effective_from (hd rs) \<le> d"
  shows "\<exists>r \<in> set rs. withinEffectiveWindow r d"
  using assms
proof (induction rs rule: abutting.induct)
  case (1 a b rest)
  show ?case
  proof (cases "sr_effective_from b \<le> d")
    case True
    with 1 show ?thesis by auto
  next
    case False
    with "1.prems" show ?thesis by (auto simp: withinEffectiveWindow_def)
  qed
qed (auto simp: withinEffectiveWindow_def)

text \<open>
  C35. Whatever changes are applied to a rule by \<open>supersede\<close>, the resulting registry of its
  lineage has no window defect; and if its newest version is open, then every date from the
  first effective date on has exactly one version in force, which the lookup returns.
\<close>

theorem supersession_covers_every_date:
  assumes "amend_all changes [r] = Inr h"
  shows "analyzeWindowIntegrity h = []
       \<and> (sr_effective_to (last h) = None \<longrightarrow> sr_effective_from r \<le> d \<longrightarrow>
           (\<exists>v \<in> set h. withinEffectiveWindow v d \<and>
              ruleVersionInForce h (sr_representation r) (sr_rule_id r) d = Inr (Some v)))"
proof -
  have k: "h \<noteq> []" "abutting h" "same_lineage r h" "sr_effective_from (hd h) = sr_effective_from r"
    using amend_all_keeps [OF _ _ _ assms, of r] by (simp_all add: same_lineage_def)
  have clean: "analyzeWindowIntegrity h = []" by (rule abutting_clean [OF k(1-3)])
  have "\<exists>v \<in> set h. withinEffectiveWindow v d \<and>
      ruleVersionInForce h (sr_representation r) (sr_rule_id r) d = Inr (Some v)"
    if open_end: "sr_effective_to (last h) = None" and first: "sr_effective_from r \<le> d"
  proof -
    let ?f = "in_force h (sr_representation r) (sr_rule_id r) d"
    obtain v where v: "v \<in> set h" "withinEffectiveWindow v d"
      using abutting_covers [OF k(2,1) open_end, of d] k(4) first by auto
    then have "v \<in> set ?f" using k(3) by (simp add: in_force_def same_lineage_def)
    with in_force_at_most_one [OF clean, of "sr_representation r" "sr_rule_id r" d]
    have "?f = [v]" by (cases ?f) auto
    with v show ?thesis by (auto simp: ruleVersionInForce_def)
  qed
  with clean show ?thesis by blast
qed

section \<open>Eligibility\<close>

text \<open>A decision counts for a key when it withholds the key or is a four-eyes approval of it.\<close>

definition counts_for :: "publish_record list \<Rightarrow> string \<Rightarrow> approval_decision \<Rightarrow> bool" where
  "counts_for ps k d \<longleftrightarrow> decision_key d = k \<and>
     (case d of Withhold _ \<Rightarrow> True
      | Approve a \<Rightarrow> isFourEyesApproval a (filter (\<lambda>p. approvalKey p = k) ps) = None)"

definition is_approve :: "approval_decision \<Rightarrow> bool" where
  "is_approve d \<longleftrightarrow> (case d of Approve _ \<Rightarrow> True | Withhold _ \<Rightarrow> False)"

lemma decide_get:
  "jm_get (fst (decide (group_by approvalKey ps) d st)) k =
     (if counts_for ps k d then Some (is_approve d) else jm_get (fst st) k)"
proof (cases d)
  case (Approve a)
  have "(case jm_get (group_by approvalKey ps) (approvalKey a) of None \<Rightarrow> [] | Some l \<Rightarrow> l)
      = filter (\<lambda>p. approvalKey p = approvalKey a) ps"
    by (auto simp: jm_get_group_by)
  with Approve show ?thesis
    by (auto simp: decide_def counts_for_def is_approve_def Let_def split: option.splits)
next
  case (Withhold w)
  then show ?thesis by (simp add: decide_def counts_for_def is_approve_def Let_def)
qed

lemma decide_fold_get:
  "jm_get (fst (fold (decide (group_by approvalKey ps)) ds st)) k =
     (case filter (counts_for ps k) ds of
        [] \<Rightarrow> jm_get (fst st) k | es \<Rightarrow> Some (is_approve (last es)))"
proof (induction ds arbitrary: st)
  case (Cons d ds)
  then show ?case by (auto simp: decide_get split: list.splits)
qed simp

lemma decide_fold_distinct:
  "jm_keys_distinct (fst st) \<Longrightarrow> jm_keys_distinct (fst (fold (decide m) ds st))"
proof (induction ds arbitrary: st)
  case (Cons d ds)
  have "jm_keys_distinct (fst (decide m d st))"
    using Cons.prems by (auto simp: decide_def Let_def split: approval_decision.splits option.splits)
  from Cons.IH [OF this] show ?case by simp
qed simp

lemma eligible_iff_last_counting:
  "k \<in> set (er_eligible (computeEligibility c)) \<longleftrightarrow>
     (let es = filter (counts_for (published c) k) (decisions c) in es \<noteq> [] \<and> is_approve (last es))"
proof -
  let ?st = "fold (decide (group_by approvalKey (published c))) (decisions c) ([], [])"
  have "distinct (map fst (fst ?st))"
    using decide_fold_distinct [of "([], [])"] by (simp add: jm_keys_distinct_def)
  then have "(k, True) \<in> set (fst ?st) \<longleftrightarrow> jm_get (fst ?st) k = Some True" by simp
  moreover have "k \<in> set (er_eligible (computeEligibility c)) \<longleftrightarrow> (k, True) \<in> set (fst ?st)"
    by (force simp: computeEligibility_def Let_def split: prod.splits)
  ultimately show ?thesis
    by (simp add: decide_fold_get Let_def split: list.splits)
qed

lemma last_filter_split:
  "(filter P xs \<noteq> [] \<and> Q (last (filter P xs))) \<longleftrightarrow>
   (\<exists>pre x post. xs = pre @ x # post \<and> P x \<and> Q x \<and> (\<forall>y \<in> set post. \<not> P y))"
proof
  assume l: "filter P xs \<noteq> [] \<and> Q (last (filter P xs))"
  then have "\<exists>x \<in> set xs. P x" by (auto simp: filter_empty_conv)
  then obtain pre x post where s: "xs = pre @ x # post" "P x" "\<forall>y \<in> set post. \<not> P y"
    by (rule split_list_last_propE) blast
  then have "filter P post = []" by (simp add: filter_empty_conv)
  with s l have "Q x" by simp
  with s show "\<exists>pre x post. xs = pre @ x # post \<and> P x \<and> Q x \<and> (\<forall>y \<in> set post. \<not> P y)" by blast
next
  assume "\<exists>pre x post. xs = pre @ x # post \<and> P x \<and> Q x \<and> (\<forall>y \<in> set post. \<not> P y)"
  then obtain pre x post where s: "xs = pre @ x # post" "P x" "Q x" "\<forall>y \<in> set post. \<not> P y"
    by blast
  then have "filter P post = []" by (simp add: filter_empty_conv)
  with s show "filter P xs \<noteq> [] \<and> Q (last (filter P xs))" by simp
qed

lemma find_conj_filter: "find P (filter Q xs) = find (\<lambda>x. Q x \<and> P x) xs"
  by (induction xs) auto

lemma four_eyes_iff:
  "isFourEyesApproval a (filter (\<lambda>p. approvalKey p = k) ps) = None \<longleftrightarrow>
     (\<exists>p. find (\<lambda>p. approvalKey p = k \<and> pr_ruleContentHash p = ap_reviewedRuleHash a) ps = Some p
        \<and> pr_publisherName p \<noteq> ap_approverName a)"
  by (auto simp: isFourEyesApproval_def find_conj_filter split: option.splits)

text \<open>
  C36. Four eyes.  A rule version is eligible exactly when its decisions contain an approval that
  passed the four-eyes check - the first publication of the reviewed content under the same key
  was made by a seat other than the approver - and after which the version was neither withheld
  nor approved anew.  A later approval that fails the check changes nothing.
\<close>

theorem four_eyes_eligibility:
  "k \<in> set (er_eligible (computeEligibility c)) \<longleftrightarrow>
     (\<exists>pre a post p. decisions c = pre @ Approve a # post \<and> approvalKey a = k \<and>
        find (\<lambda>p. approvalKey p = k \<and> pr_ruleContentHash p = ap_reviewedRuleHash a) (published c)
          = Some p \<and>
        pr_publisherName p \<noteq> ap_approverName a \<and>
        (\<forall>d \<in> set post. decision_key d = k \<longrightarrow>
           (\<exists>b. d = Approve b \<and>
              isFourEyesApproval b (filter (\<lambda>p. approvalKey p = k) (published c)) \<noteq> None)))"
    (is "_ \<longleftrightarrow> ?rhs")
proof -
  have later: "(\<not> counts_for (published c) k d) \<longleftrightarrow> (decision_key d = k \<longrightarrow>
      (\<exists>b. d = Approve b \<and>
         isFourEyesApproval b (filter (\<lambda>p. approvalKey p = k) (published c)) \<noteq> None))" for d
    by (cases d) (auto simp: counts_for_def)
  have this_one: "(counts_for (published c) k d \<and> is_approve d) \<longleftrightarrow> (\<exists>a p. d = Approve a \<and>
      approvalKey a = k \<and>
      find (\<lambda>p. approvalKey p = k \<and> pr_ruleContentHash p = ap_reviewedRuleHash a) (published c)
        = Some p \<and> pr_publisherName p \<noteq> ap_approverName a)" for d
    by (cases d) (auto simp: counts_for_def is_approve_def four_eyes_iff)
  have "k \<in> set (er_eligible (computeEligibility c)) \<longleftrightarrow>
      (\<exists>pre d post. decisions c = pre @ d # post \<and>
         (counts_for (published c) k d \<and> is_approve d) \<and>
         (\<forall>y \<in> set post. \<not> counts_for (published c) k y))"
    unfolding eligible_iff_last_counting Let_def last_filter_split by blast
  also have "\<dots> \<longleftrightarrow> ?rhs" unfolding this_one later by blast
  finally show ?thesis .
qed

section \<open>Witnesses\<close>

definition sample_rule :: sla_rule where
  "sample_rule = \<lparr>sr_rule_id = ''PR-FX-001'', sr_representation = ''IFRS'', sr_version = 1,
     sr_effective_from = ''2026-01-01'', sr_effective_to = None,
     sr_applies_to = \<lparr>at_event_type = ''FxTradeExecuted'', at_instrument_type = None,
       at_entity = None, at_jurisdiction = None, at_regulatory_regime = None,
       at_product_variant = None, at_counterparty_classification = None\<rparr>,
     sr_condition = \<lparr>rc_kind = Always, rc_delta_path = None\<rparr>,
     sr_lines = [], sr_cites = [''IAS 21''], sr_supersedes = None, sr_notes = None\<rparr>"

definition sample_change :: "string \<Rightarrow> rule_change" where
  "sample_change cutover = \<lparr>ch_effective_from = cutover, ch_effective_to = None,
     ch_applies_to = sr_applies_to sample_rule, ch_condition = sr_condition sample_rule,
     ch_lines = [], ch_cites = [''IAS 21''], ch_notes = None\<rparr>"

definition sample_history :: "sla_rule list" where
  "sample_history =
     (case amend_all [sample_change ''2026-07-01'', sample_change ''2027-01-01''] [sample_rule] of
        Inr h \<Rightarrow> h | Inl _ \<Rightarrow> [])"

lemma clean_registry_in_force_witness:
  "analyzeWindowIntegrity sample_history = [] \<and>
   map_option sr_version (find (\<lambda>r. sr_representation r = ''IFRS'' \<and> sr_rule_id r = ''PR-FX-001'' \<and>
     withinEffectiveWindow r ''2026-08-15'') sample_history) = Some 2 \<and>
   ruleVersionInForce sample_history ''IFRS'' ''PR-FX-001'' ''2026-08-15'' =
     Inr (find (\<lambda>r. sr_representation r = ''IFRS'' \<and> sr_rule_id r = ''PR-FX-001'' \<and>
       withinEffectiveWindow r ''2026-08-15'') sample_history)"
proof -
  have c: "analyzeWindowIntegrity sample_history = []" by code_simp
  have f: "map_option sr_version (find (\<lambda>r. sr_representation r = ''IFRS'' \<and>
      sr_rule_id r = ''PR-FX-001'' \<and> withinEffectiveWindow r ''2026-08-15'') sample_history) = Some 2"
    by code_simp
  from clean_registry_in_force [OF c] c f show ?thesis by blast
qed

lemma supersession_covers_every_date_witness:
  "amend_all [sample_change ''2026-07-01'', sample_change ''2027-01-01''] [sample_rule]
     = Inr sample_history \<and> length sample_history = 3 \<and>
   (\<exists>v \<in> set sample_history. withinEffectiveWindow v ''2026-12-31'' \<and>
      ruleVersionInForce sample_history ''IFRS'' ''PR-FX-001'' ''2026-12-31'' = Inr (Some v))"
proof -
  let ?cs = "[sample_change ''2026-07-01'', sample_change ''2027-01-01'']"
  have ok: "isl (amend_all ?cs [sample_rule]) = False" by code_simp
  then have h: "amend_all ?cs [sample_rule] = Inr sample_history"
    unfolding sample_history_def by (cases "amend_all ?cs [sample_rule]") auto
  have l: "length sample_history = 3" "sr_effective_to (last sample_history) = None" by code_simp+
  have d: "sr_effective_from sample_rule \<le> ''2026-12-31''" by code_simp
  have i: "sr_representation sample_rule = ''IFRS''" "sr_rule_id sample_rule = ''PR-FX-001''"
    by (simp_all add: sample_rule_def)
  from supersession_covers_every_date [OF h, of "''2026-12-31''"] l d h i show ?thesis by simp
qed

definition deposit_corpus :: approval_corpus where
  "deposit_corpus = \<lparr>published = [\<lparr>ak_representation = ''IFRS'', ak_ruleId = ''D1'', ak_version = 1,
       pr_publisherName = ''Bea'', pr_publisherPosition = ''Accounting'', pr_ruleContentHash = ''h1''\<rparr>],
     decisions = [Approve \<lparr>ak_representation = ''IFRS'', ak_ruleId = ''D1'', ak_version = 1,
       ap_approverName = ''Owen'', ap_approverPosition = ''CoSec'', ap_reviewedRuleHash = ''h1'',
       ap_reviewedPreviewHash = ''p1'', ap_grandfather = False\<rparr>]\<rparr>"

lemma four_eyes_eligibility_witness:
  "''IFRS::D1@1'' \<in> set (er_eligible (computeEligibility deposit_corpus)) \<and>
   (\<exists>a p. Approve a \<in> set (decisions deposit_corpus) \<and> approvalKey a = ''IFRS::D1@1'' \<and>
      p \<in> set (published deposit_corpus) \<and> pr_publisherName p \<noteq> ap_approverName a)"
proof
  show k: "''IFRS::D1@1'' \<in> set (er_eligible (computeEligibility deposit_corpus))" by code_simp
  obtain pre a post p where "decisions deposit_corpus = pre @ Approve a # post"
    "approvalKey a = ''IFRS::D1@1''" "pr_publisherName p \<noteq> ap_approverName a"
    "find (\<lambda>p. approvalKey p = ''IFRS::D1@1'' \<and> pr_ruleContentHash p = ap_reviewedRuleHash a)
       (published deposit_corpus) = Some p"
    using k [unfolded four_eyes_eligibility] by blast
  then show "\<exists>a p. Approve a \<in> set (decisions deposit_corpus) \<and> approvalKey a = ''IFRS::D1@1'' \<and>
      p \<in> set (published deposit_corpus) \<and> pr_publisherName p \<noteq> ap_approverName a"
    by (intro exI [of _ a] exI [of _ p]) (auto simp: find_Some_iff)
qed

end
