(* ===== verification/SlaPosting.thy ===== *)
theory SlaPosting
  imports SlaInterpreter SlaGovernance
begin

text \<open>
  What the interpreter guarantees of a posting: it balances in every currency and touches leaves
  of the chart of accounts only; the rule behind it matched, was in force, was the most specific
  eligible one and was approved by a second seat; a leg parked in suspense is always reported;
  accounting bases do not interfere; and a past posting can be replayed after its rule has been
  superseded.
\<close>

section \<open>Lemmas on emitted lines\<close>

text \<open>The magnitude of a leg, read from its numeral of minor units.\<close>

definition leg_magnitude :: "proposed_leg \<Rightarrow> int" where
  "leg_magnitude l = (case bigint_of (pl_amountMinor l) of Inr n \<Rightarrow> n | Inl _ \<Rightarrow> 0)"

lemma lift_Inr [simp]:
  "lift_expr r = Inr x \<longleftrightarrow> r = Inr x" "lift_money s = Inr y \<longleftrightarrow> s = Inr y"
  "thrown t = Inr z \<longleftrightarrow> t = Inr z"
  by (cases r; cases s; cases t; simp add: lift_expr_def lift_money_def thrown_def)+

definition leg_ok :: "'d decimal_js \<Rightarrow> proposed_leg \<Rightarrow> bool" where
  "leg_ok D l \<longleftrightarrow> 0 \<le> leg_magnitude l \<and> encode_minor D (leg_magnitude l) (pl_currency l) = Inr (pl_amount l)"

definition emitted_ok :: "'d decimal_js \<Rightarrow> emitted_line \<Rightarrow> bool" where
  "emitted_ok D e \<longleftrightarrow> leg_ok D (el_leg e) \<and> isAccountId (pl_accountId (el_leg e)) \<and>
     rd_physical (el_decision e) = pl_accountId (el_leg e) \<and>
     rk_currency (rd_key (el_decision e)) = pl_currency (el_leg e) \<and>
     (case el_urgent e of
        None \<Rightarrow> rd_via (el_decision e) = ViaExact
      | Some u \<Rightarrow> rd_via (el_decision e) = ViaSuspense \<and>
          uc_logical u = rd_logical (el_decision e) \<and> uc_currency u = pl_currency (el_leg e) \<and>
          uc_suspenseAccount u = pl_accountId (el_leg e))"

lemma make_leg_ok:
  "make_leg D line scope physical side c = Inr leg \<Longrightarrow>
   leg_ok D leg \<and> pl_accountId leg = physical \<and> pl_currency leg = c"
  by (auto simp: make_leg_def res_bind_Inr_iff leg_ok_def leg_magnitude_def absMinor_def Let_def)

lemma emitLine_ok:
  assumes "new_AccountResolver rows = Inr resolver"
    and "emitLine D line r ctx scope resolver rp = Inr e"
  shows "emitted_ok D e"
  using assms(2) resolve_account [OF assms(1)] suspense_account
  by (auto simp: emitLine_def emit_physical_def emit_resolved_def Let_def res_bind_Inr_iff
      emitted_ok_def dest!: make_leg_ok split: if_splits resolve_outcome.splits)

lemma res_map_Inr_mem:
  "res_map f xs = Inr ys \<Longrightarrow> y \<in> set ys \<Longrightarrow> \<exists>x \<in> set xs. f x = Inr y"
  by (induction xs arbitrary: ys) (auto simp: res_bind_Inr_iff)

lemma line_legs_ok:
  assumes "new_AccountResolver rows = Inr resolver"
    and "line_legs D r ctx scope resolver rp line = Inr es" "e \<in> set es"
  shows "emitted_ok D e"
proof -
  have "\<exists>s. emitLine D line r ctx s resolver rp = Inr e"
    using assms(2,3)
    by (auto simp: line_legs_def res_bind_Inr_iff split: if_splits dest!: res_map_Inr_mem)
  with emitLine_ok [OF assms(1)] show ?thesis by blast
qed

section \<open>Lemmas on postings\<close>

lemma post_linesE:
  assumes "post_lines D r ctx scope resolver rp = Inr (Post p)"
  obtains ess where "res_map (line_legs D r ctx scope resolver rp) (sr_lines r) = Inr ess"
    "pp_legs p = map el_leg (concat ess)" "pp_resolverDecisions p = map el_decision (concat ess)"
    "pp_urgentCorrections p = map the (filter (\<lambda>u. u \<noteq> None) (map el_urgent (concat ess)))"
    "assertBalanced D (pp_legs p) = Inr True" "pp_ruleId p = sr_rule_id r"
    "pp_ruleVersion p = sr_version r" "pp_representation p = rp"
  using assms
  by (auto simp: post_lines_def Let_def res_bind_Inr_iff split: sum.splits line_stop.splits if_splits)

lemma applyRule_Post:
  "applyRule D r ctx scope resolver rp = Inr (Post p) \<Longrightarrow>
   post_lines D r ctx scope resolver rp = Inr (Post p)"
  by (auto simp: applyRule_def res_bind_Inr_iff split: if_splits)

lemma interpret_one_Post:
  assumes "interpret_one D opts ctx scope rules rp = Post p"
  obtains r where
    "selectRule (filter (\<lambda>r. sr_representation r = rp) rules) ctx (io_gate opts) = SelWinner r"
    "rc_kind (sr_condition r) \<noteq> IntentionalNoImpact"
    "applyRule D r ctx scope (io_resolver opts) rp = Inr (Post p)"
  using assms
  by (auto simp: interpret_one_def split: rule_selection.splits if_splits sum.splits)

lemma interpret_InrE:
  assumes "interpret_sla D e rules reps opts = Inr results" "x \<in> set results"
  obtains builder b rp where "map_of (io_builders opts) (ie_type e) = Some builder"
    "builder e = Inr b" "rp \<in> set reps"
    "x = interpret_one D opts (bc_context b)
       \<lparr>sc_event = bc_eventScope b, sc_context = bc_contextScope b, sc_item = JUndefined\<rparr> rules rp"
  using assms
  by (auto simp: interpret_sla_def Let_def res_bind_Inr_iff split: option.splits)

lemma post_lines_emitted:
  assumes "new_AccountResolver rows = Inr resolver"
    and "post_lines D r ctx scope resolver rp = Inr (Post p)"
  shows "\<exists>es. (\<forall>e \<in> set es. emitted_ok D e) \<and> pp_legs p = map el_leg es \<and>
    pp_resolverDecisions p = map el_decision es \<and>
    pp_urgentCorrections p = map the (filter (\<lambda>u. u \<noteq> None) (map el_urgent es)) \<and>
    assertBalanced D (pp_legs p) = Inr True"
proof -
  obtain ess where ess: "res_map (line_legs D r ctx scope resolver rp) (sr_lines r) = Inr ess"
    "pp_legs p = map el_leg (concat ess)" "pp_resolverDecisions p = map el_decision (concat ess)"
    "pp_urgentCorrections p = map the (filter (\<lambda>u. u \<noteq> None) (map el_urgent (concat ess)))"
    "assertBalanced D (pp_legs p) = Inr True"
    by (rule post_linesE [OF assms(2)])
  have "emitted_ok D e" if "e \<in> set (concat ess)" for e
    using that res_map_Inr_mem [OF ess(1)] line_legs_ok [OF assms(1)] by fastforce
  with ess show ?thesis by blast
qed

lemma posting_emitted:
  assumes "interpret_sla D e rules reps opts = Inr results" "Post p \<in> set results"
    and "new_AccountResolver rows = Inr (io_resolver opts)"
  shows "\<exists>es. (\<forall>e \<in> set es. emitted_ok D e) \<and> pp_legs p = map el_leg es \<and>
    pp_resolverDecisions p = map el_decision es \<and>
    pp_urgentCorrections p = map the (filter (\<lambda>u. u \<noteq> None) (map el_urgent es)) \<and>
    assertBalanced D (pp_legs p) = Inr True"
proof -
  obtain b :: built_context and rp where "interpret_one D opts (bc_context b)
      \<lparr>sc_event = bc_eventScope b, sc_context = bc_contextScope b, sc_item = JUndefined\<rparr> rules rp
      = Post p"
    by (rule interpret_InrE [OF assms(1,2)]) metis
  then obtain r ctx scope where "post_lines D r ctx scope (io_resolver opts) rp = Inr (Post p)"
    by (rule interpret_one_Post) (metis applyRule_Post)
  from post_lines_emitted [OF assms(3) this] show ?thesis .
qed

section \<open>Balance\<close>

lemma signed_leg_value:
  assumes "exact_decimal D v" "leg_ok D l" "leg_magnitude l < 10 ^ 60"
  shows "signed_leg D l = Inr (if pl_debitCredit l = Debit then leg_magnitude l else - leg_magnitude l)"
proof -
  have "\<bar>leg_magnitude l\<bar> < 10 ^ 60" using assms(2,3) by (simp add: leg_ok_def)
  from wire_minor_encode [OF assms(1) this, of "pl_currency l"] assms(2) show ?thesis
    by (auto simp: signed_leg_def leg_ok_def)
qed

definition signed_magnitude :: "proposed_leg \<Rightarrow> int" where
  "signed_magnitude l = (if pl_debitCredit l = Debit then leg_magnitude l else - leg_magnitude l)"

lemma add_legs_get:
  assumes "exact_decimal D v" "\<forall>l \<in> set legs. leg_ok D l \<and> leg_magnitude l < 10 ^ 60"
    and "add_legs D legs m = Inr m'"
  shows "(case jm_get m' c of None \<Rightarrow> 0 | Some x \<Rightarrow> x) =
    (case jm_get m c of None \<Rightarrow> 0 | Some x \<Rightarrow> x) +
      sum_list (map signed_magnitude (filter (\<lambda>l. pl_currency l = c) legs))"
  using assms(2,3)
proof (induction legs arbitrary: m)
  case (Cons l legs)
  have s: "signed_leg D l = Inr (signed_magnitude l)"
    using signed_leg_value [OF assms(1)] Cons.prems(1) by (simp add: signed_magnitude_def)
  with Cons.prems Cons.IH show ?case by (auto split: option.splits)
qed simp

lemma signed_sum:
  "sum_list (map signed_magnitude (filter P legs)) =
     sum_list (map leg_magnitude (filter (\<lambda>l. P l \<and> pl_debitCredit l = Debit) legs)) -
     sum_list (map leg_magnitude (filter (\<lambda>l. P l \<and> pl_debitCredit l = Credit) legs))"
proof (induction legs)
  case (Cons l legs)
  then show ?case by (cases "pl_debitCredit l") (auto simp: signed_magnitude_def)
qed simp

lemma balanced_sums:
  assumes "exact_decimal D v" "\<forall>l \<in> set legs. leg_ok D l \<and> leg_magnitude l < 10 ^ 60"
    and "assertBalanced D legs = Inr True"
  shows "sum_list (map signed_magnitude (filter (\<lambda>l. pl_currency l = c) legs)) = 0"
proof -
  obtain m where m: "add_legs D legs [] = Inr m" "filter (\<lambda>(c, v). v \<noteq> 0) m = []"
    using assms(3) by (auto simp: assertBalanced_def res_bind_Inr_iff)
  then have "\<forall>x. jm_get m c = Some x \<longrightarrow> x = 0"
    by (auto simp: filter_empty_conv dest: map_of_SomeD)
  with add_legs_get [OF assms(1,2) m(1), of c] show ?thesis by (auto split: option.splits)
qed

text \<open>
  C5. Every posting the interpreter proposes balances: in each currency the debits and the credits
  have the same total of minor units.  Every leg has a magnitude of at least zero and an account
  that is a leaf of the chart of accounts.
\<close>

theorem posting_balanced:
  assumes "exact_decimal D v"
    and "new_AccountResolver rows = Inr (io_resolver opts)"
    and "interpret_sla D e rules reps opts = Inr results" "Post p \<in> set results"
    and "\<forall>l \<in> set (pp_legs p). leg_magnitude l < 10 ^ 60"
  shows "sum_list (map leg_magnitude
           (filter (\<lambda>l. pl_currency l = c \<and> pl_debitCredit l = Debit) (pp_legs p))) =
         sum_list (map leg_magnitude
           (filter (\<lambda>l. pl_currency l = c \<and> pl_debitCredit l = Credit) (pp_legs p)))
       \<and> (\<forall>l \<in> set (pp_legs p). 0 \<le> leg_magnitude l \<and> isAccountId (pl_accountId l))"
proof -
  obtain es where es: "\<forall>e \<in> set es. emitted_ok D e" "pp_legs p = map el_leg es"
    "assertBalanced D (pp_legs p) = Inr True"
    using posting_emitted [OF assms(3,4,2)] by blast
  then have ok: "\<forall>l \<in> set (pp_legs p). leg_ok D l" by (auto simp: emitted_ok_def)
  with assms(5) have "sum_list (map signed_magnitude (filter (\<lambda>l. pl_currency l = c) (pp_legs p))) = 0"
    by (intro balanced_sums [OF assms(1) _ es(3)]) auto
  moreover have "\<forall>l \<in> set (pp_legs p). 0 \<le> leg_magnitude l \<and> isAccountId (pl_accountId l)"
    using es(1,2) by (auto simp: emitted_ok_def leg_ok_def)
  ultimately show ?thesis by (simp add: signed_sum)
qed

text \<open>
  C38. A leg is booked to the unresolved-currency suspense account by the resolver exactly where an
  urgent correction is raised: the corrections of a posting are, in order, those of its suspense
  decisions, with the same logical account and currency, and each decision names the account its
  leg was booked to.
\<close>

theorem suspense_always_reported:
  assumes "new_AccountResolver rows = Inr (io_resolver opts)"
    and "interpret_sla D e rules reps opts = Inr results" "Post p \<in> set results"
  shows "map (\<lambda>u. (uc_logical u, uc_currency u, uc_suspenseAccount u)) (pp_urgentCorrections p) =
           map (\<lambda>d. (rd_logical d, rk_currency (rd_key d), rd_physical d))
             (filter (\<lambda>d. rd_via d = ViaSuspense) (pp_resolverDecisions p))
       \<and> map pl_accountId (pp_legs p) = map rd_physical (pp_resolverDecisions p)"
proof -
  obtain es where es: "\<forall>e \<in> set es. emitted_ok D e" "pp_legs p = map el_leg es"
    "pp_resolverDecisions p = map el_decision es"
    "pp_urgentCorrections p = map the (filter (\<lambda>u. u \<noteq> None) (map el_urgent es))"
    using posting_emitted [OF assms(2,3,1)] by blast
  have "map (\<lambda>u. (uc_logical u, uc_currency u, uc_suspenseAccount u))
          (map the (filter (\<lambda>u. u \<noteq> None) (map el_urgent es))) =
        map (\<lambda>d. (rd_logical d, rk_currency (rd_key d), rd_physical d))
          (filter (\<lambda>d. rd_via d = ViaSuspense) (map el_decision es))"
    using es(1) by (induction es) (auto simp: emitted_ok_def split: option.splits)
  moreover have "map pl_accountId (map el_leg es) = map rd_physical (map el_decision es)"
    using es(1) by (induction es) (auto simp: emitted_ok_def)
  ultimately show ?thesis using es by simp
qed

section \<open>Governed selection\<close>

lemma tie_break_winner: "tie_break ds rs = SelWinner r \<Longrightarrow> r \<in> set rs"
proof (induction ds arbitrary: rs)
  case (Cons d ds)
  let ?c = "filter (\<lambda>r. dim_constraint (sr_applies_to r) d \<noteq> None) rs"
  have sub: "set ?c \<subseteq> set rs" by auto
  show ?case
  proof (cases "0 < length ?c \<and> length ?c < length rs")
    case True
    show ?thesis
    proof (cases "length ?c = 1")
      case one: True
      then have "hd ?c \<in> set ?c" by (cases ?c) auto
      with True one sub Cons.prems show ?thesis by auto
    next
      case False
      with True Cons.prems Cons.IH [of ?c] sub show ?thesis by (auto simp: Let_def)
    qed
  next
    case False
    with Cons.prems Cons.IH [of rs] show ?thesis by (auto simp: Let_def)
  qed
qed simp

lemma selectRule_winner:
  assumes "selectRule rules ctx gate = SelWinner r"
  shows "r \<in> set (eligible_rules rules ctx gate) \<and>
    (\<forall>r' \<in> set (eligible_rules rules ctx gate). specificityScore r' \<le> specificityScore r)"
proof -
  let ?e = "eligible_rules rules ctx gate"
  let ?m = "Max (set (map specificityScore ?e))"
  let ?t = "filter (\<lambda>r. specificityScore r = ?m) ?e"
  have e: "?e \<noteq> []" using assms by (auto simp: selectRule_def Let_def)
  show ?thesis
  proof (cases "length ?e = 1")
    case True
    with assms e have "r = hd ?e" by (simp add: selectRule_def Let_def)
    with True show ?thesis by (cases ?e) auto
  next
    case False
    with assms e have "(if length ?t = 1 then SelWinner (hd ?t) else tie_break TIE_BREAK_ORDER ?t)
        = SelWinner r" unfolding selectRule_def Let_def by (simp split del: if_split)
    then have "r \<in> set ?t"
    proof (cases "length ?t = 1")
      case one: True
      then have "hd ?t \<in> set ?t" by (cases ?t) simp_all
      with one \<open>(if length ?t = 1 then SelWinner (hd ?t) else tie_break TIE_BREAK_ORDER ?t)
        = SelWinner r\<close> show ?thesis by simp
    next
      case many: False
      with \<open>(if length ?t = 1 then SelWinner (hd ?t) else tie_break TIE_BREAK_ORDER ?t)
        = SelWinner r\<close> have "tie_break TIE_BREAK_ORDER ?t = SelWinner r" by (simp only: if_False)
      then show ?thesis by (rule tie_break_winner)
    qed
    then show ?thesis by (auto intro: Max_ge)
  qed
qed

lemma posting_rule:
  assumes "interpret_sla D e rules reps opts = Inr results" "Post p \<in> set results"
  obtains builder b r where "map_of (io_builders opts) (ie_type e) = Some builder"
    "builder e = Inr b" "r \<in> set rules" "sr_representation r = pp_representation p"
    "pp_representation p \<in> set reps" "sr_rule_id r = pp_ruleId p" "sr_version r = pp_ruleVersion p"
    "rc_kind (sr_condition r) \<noteq> IntentionalNoImpact"
    "applyRule D r (bc_context b) \<lparr>sc_event = bc_eventScope b, sc_context = bc_contextScope b,
       sc_item = JUndefined\<rparr> (io_resolver opts) (pp_representation p) = Inr (Post p)"
    "r \<in> set (eligible_rules (filter (\<lambda>x. sr_representation x = pp_representation p) rules)
       (bc_context b) (io_gate opts))"
    "\<forall>r' \<in> set (eligible_rules (filter (\<lambda>x. sr_representation x = pp_representation p) rules)
       (bc_context b) (io_gate opts)). specificityScore r' \<le> specificityScore r"
proof -
  obtain builder b rp where i: "map_of (io_builders opts) (ie_type e) = Some builder"
    "builder e = Inr b" "rp \<in> set reps" "Post p = interpret_one D opts (bc_context b)
       \<lparr>sc_event = bc_eventScope b, sc_context = bc_contextScope b, sc_item = JUndefined\<rparr> rules rp"
    by (rule interpret_InrE [OF assms])
  obtain r where r:
    "selectRule (filter (\<lambda>r. sr_representation r = rp) rules) (bc_context b) (io_gate opts) = SelWinner r"
    "rc_kind (sr_condition r) \<noteq> IntentionalNoImpact"
    "applyRule D r (bc_context b) \<lparr>sc_event = bc_eventScope b, sc_context = bc_contextScope b,
       sc_item = JUndefined\<rparr> (io_resolver opts) rp = Inr (Post p)"
    by (rule interpret_one_Post [OF i(4) [symmetric]])
  have f: "pp_ruleId p = sr_rule_id r" "pp_ruleVersion p = sr_version r" "pp_representation p = rp"
    by (rule post_linesE [OF applyRule_Post [OF r(3)]], assumption)+
  note w = selectRule_winner [OF r(1)]
  then have m: "r \<in> set rules" "sr_representation r = rp" by (auto simp: eligible_rules_def)
  show ?thesis
    by (rule that [OF i(1,2), of r, unfolded f, OF m i(3) refl refl r(2,3)]) (use w in auto)
qed

lemma eligible_decision:
  assumes "k \<in> set (er_eligible (computeEligibility c))"
  obtains d where "d \<in> set (decisions c)" "counts_for (published c) k d" "is_approve d"
proof -
  let ?es = "filter (counts_for (published c) k) (decisions c)"
  have "?es \<noteq> []" "is_approve (last ?es)"
    using assms by (simp_all add: eligible_iff_last_counting Let_def)
  moreover from this(1) have "last ?es \<in> set ?es" by (rule last_in_set)
  ultimately show ?thesis by (intro that [of "last ?es"]) auto
qed

text \<open>
  C4. No posting escapes governance.  When the interpreter runs behind the approval gate built from
  a corpus of decisions, a posting comes from a rule of the registry of its own accounting basis
  that matches the event's context, is in force on the event's date, was approved by a seat other
  than the one that published the reviewed content, and is at least as specific as every other
  rule of that basis with these properties.
\<close>

theorem posting_is_governed:
  assumes "io_gate opts = Some (approvalGate (er_eligible (computeEligibility c)))"
    and "interpret_sla D e rules reps opts = Inr results" "Post p \<in> set results"
  shows "\<exists>builder b r a q. map_of (io_builders opts) (ie_type e) = Some builder \<and> builder e = Inr b \<and>
    r \<in> set rules \<and> sr_rule_id r = pp_ruleId p \<and> sr_version r = pp_ruleVersion p \<and>
    sr_representation r = pp_representation p \<and> pp_representation p \<in> set reps \<and>
    ruleMatches r (bc_context b) \<and> withinEffectiveWindow r (cv_effective_date (bc_context b)) \<and>
    Approve a \<in> set (decisions c) \<and> q \<in> set (published c) \<and>
    approvalKey a = ruleApprovalKey r \<and> approvalKey q = ruleApprovalKey r \<and>
    pr_ruleContentHash q = ap_reviewedRuleHash a \<and> pr_publisherName q \<noteq> ap_approverName a \<and>
    (\<forall>r' \<in> set rules. sr_representation r' = pp_representation p \<and> ruleMatches r' (bc_context b) \<and>
       withinEffectiveWindow r' (cv_effective_date (bc_context b)) \<and>
       ruleApprovalKey r' \<in> set (er_eligible (computeEligibility c)) \<longrightarrow>
       specificityScore r' \<le> specificityScore r)"
proof -
  obtain builder b r where r: "map_of (io_builders opts) (ie_type e) = Some builder"
    "builder e = Inr b" "r \<in> set rules" "sr_representation r = pp_representation p"
    "pp_representation p \<in> set reps" "sr_rule_id r = pp_ruleId p" "sr_version r = pp_ruleVersion p"
    and w: "r \<in> set (eligible_rules (filter (\<lambda>x. sr_representation x = pp_representation p) rules)
       (bc_context b) (io_gate opts))"
    "\<forall>r' \<in> set (eligible_rules (filter (\<lambda>x. sr_representation x = pp_representation p) rules)
       (bc_context b) (io_gate opts)). specificityScore r' \<le> specificityScore r"
    by (rule posting_rule [OF assms(2,3)])
  from w(1) have m: "ruleMatches r (bc_context b)"
    "withinEffectiveWindow r (cv_effective_date (bc_context b))"
    and el: "ruleApprovalKey r \<in> set (er_eligible (computeEligibility c))"
    by (auto simp: eligible_rules_def assms(1) approvalGate_def)
  from el obtain d where d: "d \<in> set (decisions c)" "counts_for (published c) (ruleApprovalKey r) d"
    "is_approve d"
    by (rule eligible_decision)
  obtain a where a: "d = Approve a" "approvalKey a = ruleApprovalKey r"
    "isFourEyesApproval a (filter (\<lambda>p. approvalKey p = ruleApprovalKey r) (published c)) = None"
    using d(2,3) by (cases d) (simp_all add: counts_for_def is_approve_def)
  then obtain q where q: "find (\<lambda>p. approvalKey p = ruleApprovalKey r \<and>
      pr_ruleContentHash p = ap_reviewedRuleHash a) (published c) = Some q"
    "pr_publisherName q \<noteq> ap_approverName a"
    by (auto simp: four_eyes_iff)
  then have "q \<in> set (published c)" "approvalKey q = ruleApprovalKey r"
    "pr_ruleContentHash q = ap_reviewedRuleHash a"
    by (auto simp: find_Some_iff)
  note a = a q(2) this
  have "specificityScore r' \<le> specificityScore r"
    if "r' \<in> set rules" "sr_representation r' = pp_representation p" "ruleMatches r' (bc_context b)"
      "withinEffectiveWindow r' (cv_effective_date (bc_context b))"
      "ruleApprovalKey r' \<in> set (er_eligible (computeEligibility c))" for r'
    using w(2) that by (auto simp: eligible_rules_def assms(1) approvalGate_def)
  note best = this
  show ?thesis
    using r m a d(1) best by blast
qed

text \<open>
  Accounting bases do not interfere.  The results for a list of bases are the results for each
  of them in turn, and rules of bases that are not asked for change nothing.
\<close>

theorem bases_isolated:
  assumes "\<forall>r \<in> set others. sr_representation r \<notin> set reps"
  shows "interpret_sla D e (rules @ others) reps opts = interpret_sla D e rules reps opts
       \<and> interpret_sla D e rules (reps @ reps') opts =
           res_bind (interpret_sla D e rules reps opts) (\<lambda>xs.
             res_bind (interpret_sla D e rules reps' opts) (\<lambda>ys. Inr (xs @ ys)))"
proof
  have one: "interpret_one D opts ctx scope (rules @ others) rp = interpret_one D opts ctx scope rules rp"
    if "rp \<in> set reps" for ctx scope rp
  proof -
    have "filter (\<lambda>r. sr_representation r = rp) others = []"
      using that assms(1) by (auto simp: filter_empty_conv)
    then show ?thesis by (simp add: interpret_one_def)
  qed
  have maps: "map (interpret_one D opts ctx scope (rules @ others)) reps =
      map (interpret_one D opts ctx scope rules) reps" for ctx scope
    by (rule map_cong [OF refl one])
  show "interpret_sla D e (rules @ others) reps opts = interpret_sla D e rules reps opts"
    by (simp only: interpret_sla_def Let_def maps)
  show "interpret_sla D e rules (reps @ reps') opts =
      res_bind (interpret_sla D e rules reps opts) (\<lambda>xs.
        res_bind (interpret_sla D e rules reps' opts) (\<lambda>ys. Inr (xs @ ys)))"
  proof (cases "map_of (io_builders opts) (ie_type e)")
    case None
    then show ?thesis by (simp add: interpret_sla_def)
  next
    case (Some builder)
    then show ?thesis by (cases "builder e") (simp_all add: interpret_sla_def Let_def)
  qed
qed

section \<open>Replay of past postings\<close>

lemma closing_keeps_posting:
  "applyRule D (r\<lparr>sr_effective_to := t\<rparr>) = applyRule D r"
proof -
  have "emitLine D line (r\<lparr>sr_effective_to := t\<rparr>) ctx scope resolver rp =
      emitLine D line r ctx scope resolver rp" for line ctx scope resolver rp
  proof -
    have "emit_physical D line (r\<lparr>sr_effective_to := t\<rparr>) = emit_physical D line r"
      by (intro ext) (simp add: emit_physical_def cong: if_cong)
    moreover have "emit_resolved D line (r\<lparr>sr_effective_to := t\<rparr>) = emit_resolved D line r"
      by (intro ext) (simp add: emit_resolved_def Let_def cong: if_cong resolve_outcome.case_cong)
    ultimately show ?thesis by (simp only: emitLine_def)
  qed
  then have "line_legs D (r\<lparr>sr_effective_to := t\<rparr>) ctx scope resolver rp =
      line_legs D r ctx scope resolver rp" for ctx scope resolver rp
    by (intro ext) (simp only: line_legs_def)
  then have "post_lines D (r\<lparr>sr_effective_to := t\<rparr>) = post_lines D r"
    by (intro ext)
      (simp add: post_lines_def Let_def cong: if_cong sum.case_cong line_stop.case_cong)
  then show ?thesis
    by (intro ext) (simp add: applyRule_def rule_tag_def cong: if_cong)
qed

lemma default_builder_date:
  assumes "map_of CONTEXT_BUILDERS t = Some builder" "builder e = Inr b"
  shows "cv_effective_date (bc_context b) = isoDate (ie_as_of e)"
proof -
  have "(t, builder) \<in> set CONTEXT_BUILDERS" using assms(1) by (rule map_of_SomeD)
  then have "builder = fxTradeExecutedContextBuilder \<or> builder = makeFlatFxContextBuilder \<or>
      (\<exists>product. builder = makeFlatProductContextBuilder product)"
    unfolding CONTEXT_BUILDERS_def by auto
  with assms(2) show ?thesis
    by (auto simp: fxTradeExecutedContextBuilder_def makeFlatFxContextBuilder_def Let_def
        makeFlatProductContextBuilder_def fxContextVector_def makeProductContextVector_def
        res_bind_Inr_iff split: option.splits jsval.splits)
qed

lemma find_replaced:
  assumes "r \<in> set rules" "P r'" "\<forall>x \<in> set rules. P x \<longrightarrow> x = r"
  shows "find P (map (\<lambda>x. if x = r then r' else x) rules @ rest) = Some r'"
  using assms
proof (induction rules)
  case (Cons x rules)
  show ?case
  proof (cases "x = r")
    case True
    with Cons.prems(2) show ?thesis by simp
  next
    case False
    with Cons.prems have "\<not> P x" "r \<in> set rules" by auto
    with False Cons.IH Cons.prems show ?thesis by simp
  qed
qed simp

text \<open>
  A posting of the past can be replayed exactly.  After the rule version behind it has been
  superseded with a cutover date later than the event's date, and both rules \<open>supersede\<close> returned
  are in the registry, replaying the event under that version gives the same legs, whatever
  approval gate the posting ran behind.
\<close>

theorem past_posting_reproduces:
  assumes "opts = default_options\<lparr>io_gate := gate\<rparr>"
    and "interpret_sla D e rules reps opts = Inr results" "Post p \<in> set results"
    and "\<forall>x \<in> set rules. \<forall>y \<in> set rules. sr_rule_id x = sr_rule_id y \<longrightarrow>
           sr_version x = sr_version y \<longrightarrow> sr_representation x = sr_representation y \<longrightarrow> x = y"
    and "findRuleVersion rules (pp_ruleId p) (pp_ruleVersion p) (Some (pp_representation p)) = Some r"
    and "supersede r change = Inr (prior, successor)"
    and "isoDate (ie_as_of e) < ch_effective_from change"
  shows "reproduceAsOf D (map (\<lambda>x. if x = r then prior else x) rules @ [successor]) e
           (pp_ruleId p) (pp_ruleVersion p) (Some (pp_representation p)) JUndefined =
         Inr (Reproduced (pp_representation p) (pp_ruleId p) (pp_ruleVersion p) (pp_legs p))"
proof -
  have o: "io_builders opts = CONTEXT_BUILDERS" "io_gate opts = gate" "io_resolver opts = default_rows"
    by (simp_all add: assms(1) default_options_def)
  obtain builder b s where s: "map_of CONTEXT_BUILDERS (ie_type e) = Some builder"
    "builder e = Inr b" "s \<in> set rules" "sr_representation s = pp_representation p"
    "sr_rule_id s = pp_ruleId p" "sr_version s = pp_ruleVersion p"
    "rc_kind (sr_condition s) \<noteq> IntentionalNoImpact"
    and post: "applyRule D s (bc_context b) \<lparr>sc_event = bc_eventScope b,
       sc_context = bc_contextScope b, sc_item = JUndefined\<rparr> default_rows (pp_representation p)
       = Inr (Post p)"
    and el: "s \<in> set (eligible_rules (filter (\<lambda>x. sr_representation x = pp_representation p) rules)
       (bc_context b) gate)"
    by (rule posting_rule [OF assms(2,3), unfolded o]) (rule that, assumption+)
  from assms(5) have r: "r \<in> set rules" "sr_rule_id r = pp_ruleId p"
    "sr_version r = pp_ruleVersion p" "sr_representation r = pp_representation p"
    by (auto simp: findRuleVersion_def find_Some_iff)
  with s assms(4) have sr: "s = r" by metis
  have prior: "prior = r\<lparr>sr_effective_to := Some (ch_effective_from change)\<rparr>"
    using assms(6) by (rule supersede_InrE)
  let ?reg = "map (\<lambda>x. if x = r then prior else x) rules @ [successor]"
  have found: "findRuleVersion ?reg (pp_ruleId p) (pp_ruleVersion p) (Some (pp_representation p))
      = Some prior"
    unfolding findRuleVersion_def using r assms(4) by (intro find_replaced) (auto simp: prior)
  have "eligible_rules [prior] (bc_context b) None = [prior]"
    using el assms(7) default_builder_date [OF s(1,2)]
    by (auto simp: sr prior eligible_rules_def ruleMatches_def withinEffectiveWindow_def)
  then have "selectRule [prior] (bc_context b) None = SelWinner prior"
    by (simp add: selectRule_def)
  moreover have "sr_representation prior = pp_representation p"
    "rc_kind (sr_condition prior) \<noteq> IntentionalNoImpact"
    using r s by (simp_all add: prior sr)
  ultimately have "interpret_one D default_options (bc_context b) \<lparr>sc_event = bc_eventScope b,
      sc_context = bc_contextScope b, sc_item = JUndefined\<rparr> [prior] (pp_representation p) = Post p"
    using post by (simp add: interpret_one_def default_options_def prior closing_keeps_posting sr)
  then have "interpret_sla D e [prior] [pp_representation p] default_options = Inr [Post p]"
    using s(1,2) by (simp add: interpret_sla_def default_options_def)
  with found show ?thesis by (simp add: reproduceAsOf_def)
qed

section \<open>Witnesses\<close>

definition deposit_line :: "string \<Rightarrow> posting_side \<Rightarrow> rule_line" where
  "deposit_line logical side = \<lparr>rl_account = \<lparr>ar_logical = logical, ar_product = None, ar_currency = None\<rparr>,
     rl_side = side, rl_side_path = None, rl_amount = ''event.amount'', rl_currency = Some ''event.ccy'',
     rl_when = None, rl_for_each = None, rl_use_physical_account = False\<rparr>"

definition deposit_rule :: sla_rule where
  "deposit_rule = \<lparr>sr_rule_id = ''D1'', sr_representation = ''IFRS'', sr_version = 1,
     sr_effective_from = ''2026-01-01'', sr_effective_to = None,
     sr_applies_to = \<lparr>at_event_type = ''DepositTaken'', at_instrument_type = Some (MatchOne ''MMD''),
       at_entity = None, at_jurisdiction = None, at_regulatory_regime = None,
       at_product_variant = None, at_counterparty_classification = None\<rparr>,
     sr_condition = \<lparr>rc_kind = Always, rc_delta_path = None\<rparr>,
     sr_lines = [deposit_line ''deposit.nostro'' Debit,
       deposit_line ''deposit.liability_retail_stable'' Credit],
     sr_cites = [''IFRS 9''], sr_supersedes = None, sr_notes = None\<rparr>"

definition deposit_event :: "string \<Rightarrow> interpreter_event" where
  "deposit_event ccy = \<lparr>ie_type = ''DepositTaken'', ie_entity = Some ''LE-ZA-HOZ-BANK'',
     ie_as_of = ''2026-03-01T09:00:00Z'',
     ie_payload = [(''amount'', JStr ''7''), (''ccy'', JStr ccy)], ie_enrichment = JUndefined\<rparr>"

definition deposit_options :: interpret_options where
  "deposit_options = default_options\<lparr>io_gate :=
     Some (approvalGate (er_eligible (computeEligibility deposit_corpus)))\<rparr>"

definition deposit_scope :: "string \<Rightarrow> eval_scope" where
  "deposit_scope ccy = \<lparr>sc_event = JObj [(''amount'', JStr ''7''), (''ccy'', JStr ccy),
     (''enrichment'', JObj [])], sc_context = JObj [], sc_item = JUndefined\<rparr>"

definition deposit_leg :: "string \<Rightarrow> posting_side \<Rightarrow> string \<Rightarrow> proposed_leg" where
  "deposit_leg account side ccy = \<lparr>pl_accountId = account, pl_debitCredit = side,
     pl_amount = MoneyV1 ''0.07'' ccy, pl_amountMinor = ''7'', pl_currency = ccy\<rparr>"

definition deposit_key :: "string \<Rightarrow> string \<Rightarrow> resolver_key" where
  "deposit_key logical ccy = \<lparr>rk_entity = ''LE-ZA-HOZ-BANK'', rk_product = ''MMD'',
     rk_currency = ccy, rk_jurisdiction = ''ZA'', rk_representation = ''IFRS'', rk_logical = logical\<rparr>"

definition deposit_context :: "string \<Rightarrow> context_vector" where
  "deposit_context ccy = makeProductContextVector (deposit_event ccy) ''MMD''"

lemma deposit_context_fields:
  "cv_instrument_type (deposit_context ccy) = Some ''MMD''"
  "cv_event_type (deposit_context ccy) = ''DepositTaken''"
  "cv_entity (deposit_context ccy) = ''LE-ZA-HOZ-BANK''"
  "cv_jurisdiction (deposit_context ccy) = Some ''ZA''"
  "cv_effective_date (deposit_context ccy) = ''2026-03-01''"
  by (simp_all add: deposit_context_def makeProductContextVector_def fxContextVector_def Let_def
      deposit_event_def deriveJurisdiction_def truthy_def isoDate_def)

lemma deposit_paths:
  "parseExpression ''event.amount'' = Inr (Path [''event'', ''amount''])"
  "parseExpression ''event.ccy'' = Inr (Path [''event'', ''ccy''])"
  by code_simp+

lemma deposit_digits:
  "signed_digits ''7'' = Some 7" "signed_digits ''ZAR'' = None" "signed_digits ''USD'' = None"
  by code_simp+

lemma deposit_encoded:
  "encode_minor pair_decimal 7 ''ZAR'' = Inr (MoneyV1 ''0.07'' ''ZAR'')"
  "encode_minor pair_decimal 7 ''USD'' = Inr (MoneyV1 ''0.07'' ''USD'')"
  "int_str 7 = ''7''"
  by code_simp+

lemma deposit_values:
  "evaluateAmount ''event.amount'' (deposit_scope ccy) = Inr 7"
  "resolveCurrency ''event.ccy'' (deposit_scope ''ZAR'') = Inr ''ZAR''"
  "resolveCurrency ''event.ccy'' (deposit_scope ''USD'') = Inr ''USD''"
  by (simp_all add: evaluateAmount_def resolveCurrency_def evaluateString_def deposit_paths
      readPath_def rootValue_def deposit_scope_def deposit_digits lift_expr_def is_currency_code_def)

lemma resolve_candidates:
  "resolve rows key = (let cs = filter (sameAxes key) rows in
     case find (\<lambda>r. rk_currency r = rk_currency key) cs of
       Some r \<Rightarrow> Resolved (rw_physical r)
     | None \<Rightarrow> if cs = [] then NoMatchingRow else UnresolvedCurrency (length cs))"
  by (auto simp: resolve_def find_conj_filter Let_def split: option.splits)

lemma other_products:
  "\<forall>r \<in> set IFRS_FX_SPOT_RESOLVER_ROWS. rk_product r = ''FX-spot''"
  "\<forall>r \<in> set IFRS_SECURITIES_RESOLVER_ROWS. rk_product r \<in> {''BOND'', ''EQUITY''}"
  "\<forall>r \<in> set IFRS_IRD_RESOLVER_ROWS. rk_product r = ''IRD''"
  "\<forall>r \<in> set IFRS_PAYMENTS_RESOLVER_ROWS. rk_product r = ''PAY''"
  "\<forall>r \<in> set SARB_BA_FX_RESOLVER_ROWS. rk_product r = ''FX-spot''"
  by (simp_all add: IFRS_FX_SPOT_RESOLVER_ROWS_def IFRS_SECURITIES_RESOLVER_ROWS_def
      IFRS_IRD_RESOLVER_ROWS_def IFRS_PAYMENTS_RESOLVER_ROWS_def SARB_BA_FX_RESOLVER_ROWS_def
      sarbNopRows_def SARB_BA_NOP_CURRENCIES_def zarRow_def payRow_def ifrs_row_def)

lemma deposit_candidates:
  "filter (sameAxes (deposit_key lg ccy)) default_rows =
     filter (sameAxes (deposit_key lg ccy)) IFRS_TREASURY_RESOLVER_ROWS"
proof -
  have none: "filter (sameAxes (deposit_key lg ccy)) rows = []"
    if "\<forall>r \<in> set rows. rk_product r \<noteq> ''MMD''" for rows
    using that by (auto simp: filter_empty_conv sameAxes_def deposit_key_def)
  have "filter (sameAxes (deposit_key lg ccy)) IFRS_FX_SPOT_RESOLVER_ROWS = []"
    "filter (sameAxes (deposit_key lg ccy)) IFRS_SECURITIES_RESOLVER_ROWS = []"
    "filter (sameAxes (deposit_key lg ccy)) IFRS_IRD_RESOLVER_ROWS = []"
    "filter (sameAxes (deposit_key lg ccy)) IFRS_PAYMENTS_RESOLVER_ROWS = []"
    "filter (sameAxes (deposit_key lg ccy)) SARB_BA_FX_RESOLVER_ROWS = []"
    by (rule none, use other_products in fastforce)+
  then show ?thesis by (simp add: default_rows_def)
qed

lemma deposit_accounts:
  "resolve default_rows (deposit_key ''deposit.nostro'' ''ZAR'') = Resolved ''ACC-1200-001''"
  "resolve default_rows (deposit_key ''deposit.liability_retail_stable'' ''ZAR'')
     = Resolved ''ACC-6100-001''"
  "resolve default_rows (deposit_key ''deposit.nostro'' ''USD'') = UnresolvedCurrency 1"
  "resolve default_rows (deposit_key ''deposit.liability_retail_stable'' ''USD'')
     = UnresolvedCurrency 1"
  unfolding resolve_candidates deposit_candidates
  by (simp_all add: sameAxes_def deposit_key_def IFRS_TREASURY_RESOLVER_ROWS_def zarRow_def
      ifrs_row_def)

lemma deposit_make_leg:
  assumes "ccy \<in> {''ZAR'', ''USD''}"
  shows "make_leg pair_decimal (deposit_line lg side) (deposit_scope ccy) account side ccy
    = Inr (deposit_leg account side ccy)"
  using assms
  by (auto simp: make_leg_def deposit_line_def deposit_values deposit_encoded absMinor_def deposit_leg_def Let_def
      lift_expr_def lift_money_def)

definition deposit_emitted :: "string \<Rightarrow> string \<Rightarrow> posting_side \<Rightarrow> string \<Rightarrow> emitted_line" where
  "deposit_emitted lg account side ccy =
     (let s = (account = FX_UNRESOLVED_CURRENCY_SUSPENSE) in
      \<lparr>el_leg = deposit_leg account side ccy,
       el_decision = \<lparr>rd_logical = lg, rd_key = deposit_key lg ccy, rd_physical = account,
         rd_via = (if s then ViaSuspense else ViaExact)\<rparr>,
       el_urgent = (if s then Some \<lparr>uc_logical = lg, uc_currency = ccy, uc_suspenseAccount = account,
         uc_ruleId = ''D1'', uc_representation = ''IFRS'',
         uc_alertId = ''alert:integrity:sla-unresolved-currency-'' @ map to_lower ccy\<rparr> else None)\<rparr>)"

lemma deposit_emit:
  assumes "ccy \<in> {''ZAR'', ''USD''}"
    and "resolve default_rows (deposit_key lg ccy) = Resolved account \<and>
           account \<noteq> FX_UNRESOLVED_CURRENCY_SUSPENSE
         \<or> resolve default_rows (deposit_key lg ccy) = UnresolvedCurrency 1 \<and>
           account = FX_UNRESOLVED_CURRENCY_SUSPENSE"
  shows "line_legs pair_decimal deposit_rule (deposit_context ccy) (deposit_scope ccy) default_rows
    ''IFRS'' (deposit_line lg side) = Inr [deposit_emitted lg account side ccy]"
proof -
  let ?l = "deposit_line lg side"
  have f: "rl_for_each ?l = None" "rl_when ?l = None" "rl_side_path ?l = None" "rl_side ?l = side"
    "rl_currency ?l = Some ''event.ccy''" "\<not> rl_use_physical_account ?l"
    "ar_product (rl_account ?l) = None" "ar_logical (rl_account ?l) = lg"
    by (simp_all add: deposit_line_def)
  have k: "\<lparr>rk_entity = ''LE-ZA-HOZ-BANK'', rk_product = ''MMD'', rk_currency = ccy,
      rk_jurisdiction = ''ZA'', rk_representation = ''IFRS'', rk_logical = lg\<rparr> = deposit_key lg ccy"
    by (simp add: deposit_key_def)
  have r: "resolveCurrency ''event.ccy'' (deposit_scope ccy) = Inr ccy"
    using assms(1) by (auto simp: deposit_values)
  have d: "sr_representation deposit_rule = ''IFRS''" "sr_rule_id deposit_rule = ''D1''"
    by (simp_all add: deposit_rule_def)
  have "emit_resolved pair_decimal ?l deposit_rule (deposit_context ccy) (deposit_scope ccy)
      default_rows ''IFRS'' ccy side = Inr (deposit_emitted lg account side ccy)"
    using assms(2)
    by (auto simp: emit_resolved_def Let_def f d k deposit_context_fields truthy_def thrown_def
        deposit_make_leg [OF assms(1)] deposit_emitted_def)
  then show ?thesis
    by (simp add: line_legs_def emitLine_def f truthy_def r thrown_def)
qed

definition deposit_posting :: "string \<Rightarrow> string \<Rightarrow> string \<Rightarrow> proposed_posting" where
  "deposit_posting ccy debited credited =
     (let es = [deposit_emitted ''deposit.nostro'' debited Debit ccy,
                deposit_emitted ''deposit.liability_retail_stable'' credited Credit ccy] in
      \<lparr>pp_representation = ''IFRS'', pp_ruleId = ''D1'', pp_ruleVersion = 1,
       pp_legs = map el_leg es, pp_resolverDecisions = map el_decision es,
       pp_cites = [''IFRS 9''],
       pp_urgentCorrections = map the (filter (\<lambda>u. u \<noteq> None) (map el_urgent es)),
       pp_baselBusinessLine = Some ''commercial-banking''\<rparr>)"

lemma deposit_balanced:
  "assertBalanced pair_decimal [deposit_leg a Debit ''ZAR'', deposit_leg b Credit ''ZAR''] = Inr True"
  "assertBalanced pair_decimal [deposit_leg a Debit ''USD'', deposit_leg b Credit ''USD''] = Inr True"
proof -
  have w: "wire_minor pair_decimal (MoneyV1 ''0.07'' ''ZAR'') = Inr 7"
    "wire_minor pair_decimal (MoneyV1 ''0.07'' ''USD'') = Inr 7" by code_simp+
  show "assertBalanced pair_decimal [deposit_leg a Debit ''ZAR'', deposit_leg b Credit ''ZAR''] = Inr True"
    "assertBalanced pair_decimal [deposit_leg a Debit ''USD'', deposit_leg b Credit ''USD''] = Inr True"
    by (simp_all add: assertBalanced_def signed_leg_def deposit_leg_def w)
qed

lemma deposit_gate:
  "ruleApprovalKey deposit_rule \<in> set (er_eligible (computeEligibility deposit_corpus))"
  by code_simp

lemma deposit_selected:
  "selectRule [deposit_rule] (deposit_context ccy) (io_gate deposit_options) = SelWinner deposit_rule"
proof -
  have "ruleMatches deposit_rule (deposit_context ccy)"
    by (simp add: ruleMatches_def CONTEXT_DIMENSIONS_def deposit_context_fields deposit_rule_def)
  moreover have "withinEffectiveWindow deposit_rule ''2026-03-01''" by code_simp
  ultimately show ?thesis
    by (simp add: selectRule_def eligible_rules_def deposit_context_fields deposit_options_def
        approvalGate_def deposit_gate)
qed

lemma deposit_builder: "map_of CONTEXT_BUILDERS ''DepositTaken'' = Some (makeFlatProductContextBuilder ''MMD'')"
  by (simp add: CONTEXT_BUILDERS_def)

lemma deposit_interpreted:
  assumes "ccy \<in> {''ZAR'', ''USD''}"
    and "line_legs pair_decimal deposit_rule (deposit_context ccy) (deposit_scope ccy) default_rows
      ''IFRS'' (deposit_line ''deposit.nostro'' Debit)
      = Inr [deposit_emitted ''deposit.nostro'' debited Debit ccy]"
    and "line_legs pair_decimal deposit_rule (deposit_context ccy) (deposit_scope ccy) default_rows
      ''IFRS'' (deposit_line ''deposit.liability_retail_stable'' Credit)
      = Inr [deposit_emitted ''deposit.liability_retail_stable'' credited Credit ccy]"
  shows "interpret_sla pair_decimal (deposit_event ccy) [deposit_rule] [''IFRS''] deposit_options
    = Inr [Post (deposit_posting ccy debited credited)]"
proof -
  have d: "sr_representation deposit_rule = ''IFRS''" "sr_rule_id deposit_rule = ''D1''"
    "sr_version deposit_rule = 1" "sr_cites deposit_rule = [''IFRS 9'']"
    "rc_kind (sr_condition deposit_rule) = Always"
    "sr_lines deposit_rule = [deposit_line ''deposit.nostro'' Debit,
       deposit_line ''deposit.liability_retail_stable'' Credit]"
    by (simp_all add: deposit_rule_def)
  have legs: "el_leg (deposit_emitted lg account side ccy) = deposit_leg account side ccy"
    for lg account side by (simp add: deposit_emitted_def Let_def)
  have bal: "assertBalanced pair_decimal [deposit_leg debited Debit ccy, deposit_leg credited Credit ccy]
      = Inr True" using assms(1) deposit_balanced by auto
  have "post_lines pair_decimal deposit_rule (deposit_context ccy) (deposit_scope ccy) default_rows
      ''IFRS'' = Inr (Post (deposit_posting ccy debited credited))"
    by (simp add: post_lines_def d assms(2,3) legs bal lift_money_def Let_def truthy_def
        deposit_context_fields PRODUCT_TO_BUSINESS_LINE_def deposit_posting_def)
  then have "interpret_one pair_decimal deposit_options (deposit_context ccy) (deposit_scope ccy)
      [deposit_rule] ''IFRS'' = Post (deposit_posting ccy debited credited)"
    by (simp add: interpret_one_def d deposit_selected applyRule_def)
      (simp add: deposit_options_def default_options_def)
  then show ?thesis
    by (simp add: interpret_sla_def deposit_options_def default_options_def deposit_builder
        deposit_event_def makeFlatProductContextBuilder_def withEnrichment_def deposit_context_def
        deposit_scope_def Let_def)
qed

lemma deposit_zar:
  "interpret_sla pair_decimal (deposit_event ''ZAR'') [deposit_rule] [''IFRS''] deposit_options
    = Inr [Post (deposit_posting ''ZAR'' ''ACC-1200-001'' ''ACC-6100-001'')]"
  by (intro deposit_interpreted deposit_emit)
    (simp_all add: deposit_accounts FX_UNRESOLVED_CURRENCY_SUSPENSE_def)

lemma deposit_usd:
  "interpret_sla pair_decimal (deposit_event ''USD'') [deposit_rule] [''IFRS''] deposit_options
    = Inr [Post (deposit_posting ''USD'' FX_UNRESOLVED_CURRENCY_SUSPENSE FX_UNRESOLVED_CURRENCY_SUSPENSE)]"
  by (intro deposit_interpreted deposit_emit) (simp_all add: deposit_accounts)

lemma deposit_resolver: "new_AccountResolver default_rows = Inr (io_resolver deposit_options)"
  using defaultResolver_rows by (simp add: defaultResolver_def deposit_options_def default_options_def)

lemma deposit_legs:
  "pp_legs (deposit_posting ccy a b) = [deposit_leg a Debit ccy, deposit_leg b Credit ccy]"
  by (simp add: deposit_posting_def deposit_emitted_def Let_def)

lemma deposit_magnitude: "leg_magnitude (deposit_leg account side ccy) = 7"
  using bigint_of_int_str [of 7] by (simp add: leg_magnitude_def deposit_leg_def deposit_encoded)

lemma posting_balanced_witness:
  "exact_decimal pair_decimal pair_value \<and>
   (\<forall>c. sum_list (map leg_magnitude (filter (\<lambda>l. pl_currency l = c \<and> pl_debitCredit l = Debit)
          (pp_legs (deposit_posting ''ZAR'' ''ACC-1200-001'' ''ACC-6100-001'')))) =
        sum_list (map leg_magnitude (filter (\<lambda>l. pl_currency l = c \<and> pl_debitCredit l = Credit)
          (pp_legs (deposit_posting ''ZAR'' ''ACC-1200-001'' ''ACC-6100-001'')))))"
proof -
  have "\<forall>l \<in> set (pp_legs (deposit_posting ''ZAR'' ''ACC-1200-001'' ''ACC-6100-001'')).
      leg_magnitude l < 10 ^ 60"
    by (simp add: deposit_legs deposit_magnitude)
  from posting_balanced [OF pair_decimal_exact deposit_resolver deposit_zar _ this]
  show ?thesis using pair_decimal_exact by simp
qed

lemma suspense_always_reported_witness:
  "map uc_currency (pp_urgentCorrections
     (deposit_posting ''USD'' FX_UNRESOLVED_CURRENCY_SUSPENSE FX_UNRESOLVED_CURRENCY_SUSPENSE))
     = [''USD'', ''USD''] \<and>
   map (\<lambda>u. (uc_logical u, uc_currency u, uc_suspenseAccount u)) (pp_urgentCorrections
     (deposit_posting ''USD'' FX_UNRESOLVED_CURRENCY_SUSPENSE FX_UNRESOLVED_CURRENCY_SUSPENSE)) =
   map (\<lambda>d. (rd_logical d, rk_currency (rd_key d), rd_physical d))
     (filter (\<lambda>d. rd_via d = ViaSuspense) (pp_resolverDecisions
       (deposit_posting ''USD'' FX_UNRESOLVED_CURRENCY_SUSPENSE FX_UNRESOLVED_CURRENCY_SUSPENSE)))"
proof
  show "map uc_currency (pp_urgentCorrections
     (deposit_posting ''USD'' FX_UNRESOLVED_CURRENCY_SUSPENSE FX_UNRESOLVED_CURRENCY_SUSPENSE))
     = [''USD'', ''USD'']"
    by (simp add: deposit_posting_def deposit_emitted_def Let_def)
qed (rule suspense_always_reported [OF deposit_resolver deposit_usd, THEN conjunct1], simp)

lemma posting_is_governed_witness:
  "\<exists>r a q. r \<in> set [deposit_rule] \<and> Approve a \<in> set (decisions deposit_corpus) \<and>
     q \<in> set (published deposit_corpus) \<and> approvalKey a = ruleApprovalKey r \<and>
     pr_publisherName q \<noteq> ap_approverName a"
proof -
  have g: "io_gate deposit_options =
      Some (approvalGate (er_eligible (computeEligibility deposit_corpus)))"
    by (simp add: deposit_options_def)
  from posting_is_governed [OF g deposit_zar, of "deposit_posting ''ZAR'' ''ACC-1200-001'' ''ACC-6100-001''"]
  show ?thesis by auto
qed

lemma bases_isolated_witness:
  "interpret_sla pair_decimal (deposit_event ''ZAR'')
     ([deposit_rule] @ [deposit_rule\<lparr>sr_representation := ''SARB-BA-RETURN''\<rparr>]) [''IFRS''] deposit_options
   = Inr [Post (deposit_posting ''ZAR'' ''ACC-1200-001'' ''ACC-6100-001'')]"
proof -
  have "\<forall>r \<in> set [deposit_rule\<lparr>sr_representation := ''SARB-BA-RETURN''\<rparr>].
      sr_representation r \<notin> set [''IFRS'']" by simp
  from bases_isolated [OF this, THEN conjunct1] show ?thesis by (rule trans) (rule deposit_zar)
qed

definition deposit_change :: rule_change where
  "deposit_change = \<lparr>ch_effective_from = ''2026-07-01'', ch_effective_to = None,
     ch_applies_to = sr_applies_to deposit_rule, ch_condition = sr_condition deposit_rule,
     ch_lines = [], ch_cites = [], ch_notes = None\<rparr>"

lemma past_posting_reproduces_witness:
  "\<exists>prior successor. supersede deposit_rule deposit_change = Inr (prior, successor) \<and>
     reproduceAsOf pair_decimal [prior, successor] (deposit_event ''ZAR'') ''D1'' 1 (Some ''IFRS'')
       JUndefined =
     Inr (Reproduced ''IFRS'' ''D1'' 1
       [deposit_leg ''ACC-1200-001'' Debit ''ZAR'', deposit_leg ''ACC-6100-001'' Credit ''ZAR''])"
proof -
  have "\<not> isl (supersede deposit_rule deposit_change)" by code_simp
  then obtain prior successor where s: "supersede deposit_rule deposit_change = Inr (prior, successor)"
    by (cases "supersede deposit_rule deposit_change") auto
  let ?p = "deposit_posting ''ZAR'' ''ACC-1200-001'' ''ACC-6100-001''"
  have o: "deposit_options = default_options\<lparr>io_gate :=
      Some (approvalGate (er_eligible (computeEligibility deposit_corpus)))\<rparr>"
    by (simp add: deposit_options_def)
  have f: "findRuleVersion [deposit_rule] (pp_ruleId ?p) (pp_ruleVersion ?p)
      (Some (pp_representation ?p)) = Some deposit_rule"
    by (simp add: findRuleVersion_def deposit_posting_def Let_def)
      (simp add: deposit_rule_def)
  have d: "isoDate (ie_as_of (deposit_event ''ZAR'')) < ch_effective_from deposit_change"
    by code_simp
  from past_posting_reproduces [OF o deposit_zar _ _ f s d] s show ?thesis
    by (auto simp: deposit_legs) (simp add: deposit_posting_def Let_def)
qed

end
