(* ===== verification/TradeLifecycle.thy ===== *)
theory TradeLifecycle
  imports Event
begin

text \<open>
  The trade lifecycle (\<open>platform/lifecycle/\<close>): the registry of product lifecycles
  (\<open>trade-lifecycle-registry.ts\<close>, without its description texts) and the resolver the risk and
  position projections use (\<open>trade-lifecycle-state.ts\<close>), which folds the event log into a table
  of instances.  The table is an instance of the \<open>keyed_projection\<close> interface, and the resolver
  is shown equal to a declarative status.
\<close>

section \<open>Registry\<close>

datatype terminal_path = Normal | Cancellation | Failure | Amendment

record terminal_condition =
  tc_eventType :: string
  tc_path :: terminal_path

record lifecycle_definition =
  lifecycleId :: string
  productType :: string
  openingEventType :: string
  instanceIdField :: string
  terminalConditions :: "terminal_condition list"
  inFlightEventTypes :: "string list"

abbreviation tc :: "string \<Rightarrow> terminal_path \<Rightarrow> terminal_condition" where
  "tc t p \<equiv> \<lparr>tc_eventType = t, tc_path = p\<rparr>"

definition TRADE_LIFECYCLE_REGISTRY :: "lifecycle_definition list" where
  "TRADE_LIFECYCLE_REGISTRY =
  [\<lparr>lifecycleId = ''fx-spot-trade'', productType = ''FX_SPOT'',
      openingEventType = ''FxTradeExecuted'', instanceIdField = ''tradeId.value'',
      terminalConditions = [tc ''SettlementConfirmed'' Normal, tc ''TradeMatured'' Normal,
                             tc ''FxTradeCancelled'' Cancellation, tc ''FxSettlementFailed'' Failure],
      inFlightEventTypes = [''ConfirmationMatched'', ''ConfirmationMismatch'', ''FxSettlementInstructed'',
                             ''FxPositionRevalued'', ''PrincipalPayment'', ''MissedExpectedReceipt'',
                             ''SettlementFailureClassified'', ''TradeReportSubmitted'']\<rparr>,
   \<lparr>lifecycleId = ''bond-trade'', productType = ''BOND'',
      openingEventType = ''BondTradeExecuted'', instanceIdField = ''tradeId'',
      terminalConditions = [tc ''BondMatured'' Normal, tc ''BondSold'' Normal],
      inFlightEventTypes = [''BondInterestAccrued'', ''BondPositionRevalued'']\<rparr>,
   \<lparr>lifecycleId = ''equity-trade'', productType = ''EQUITY'',
      openingEventType = ''EquityTradeExecuted'', instanceIdField = ''tradeId'',
      terminalConditions = [tc ''EquitySettlementConfirmed'' Normal],
      inFlightEventTypes = [''EquityTradeBooked'', ''EquitySettlementInstructed'',
                             ''EquityPositionRevalued'', ''EquityCorporateActionApplied'']\<rparr>,
   \<lparr>lifecycleId = ''ird-swap-trade'', productType = ''IRD_SWAP'',
      openingEventType = ''IrsTradeBooked'', instanceIdField = ''tradeId'',
      terminalConditions = [tc ''IrdSwapTerminated'' Normal],
      inFlightEventTypes = [''IrsCouponScheduleGenerated'', ''IrsPositionRevalued'',
                             ''IrsCouponPaymentInstructed'', ''IrsCouponSettlementConfirmed'']\<rparr>,
   \<lparr>lifecycleId = ''financial-instrument-registration'', productType = ''INSTRUMENT'',
      openingEventType = ''FinancialInstrumentDefined'', instanceIdField = ''instrumentId'',
      terminalConditions = [],
      inFlightEventTypes = [''FinancialInstrumentClassified'', ''FinancialInstrumentDecomposed'',
                             ''FinancialInstrumentReconstituted'']\<rparr>,
   \<lparr>lifecycleId = ''financial-instrument-decomposition'', productType = ''INSTRUMENT'',
      openingEventType = ''FinancialInstrumentDecomposed'', instanceIdField = ''parentInstrumentId'',
      terminalConditions = [tc ''FinancialInstrumentReconstituted'' Normal],
      inFlightEventTypes = []\<rparr>,
   \<lparr>lifecycleId = ''repo-trade'', productType = ''REPO'',
      openingEventType = ''RepoTradeOpened'', instanceIdField = ''tradeId'',
      terminalConditions = [tc ''RepoEndLegSettled'' Normal, tc ''RepoTradeTerminatedEarly'' Cancellation],
      inFlightEventTypes = [''RepoStartLegSettled'', ''RepoInterestAccrued'', ''RepoMarginCallIssued'']\<rparr>,
   \<lparr>lifecycleId = ''mmd-deposit'', productType = ''MMD'',
      openingEventType = ''DepositTaken'', instanceIdField = ''depositId'',
      terminalConditions = [tc ''DepositMatured'' Normal, tc ''DepositWithdrawnEarly'' Cancellation],
      inFlightEventTypes = [''DepositRolledOver'', ''DepositInterestAccrued'']\<rparr>,
   \<lparr>lifecycleId = ''funding-line'', productType = ''FUNDING-LINE'',
      openingEventType = ''FundingLineDrawn'', instanceIdField = ''fundingLineId'',
      terminalConditions = [tc ''FundingLineRepaid'' Normal],
      inFlightEventTypes = []\<rparr>,
   \<lparr>lifecycleId = ''interbank-loan'', productType = ''IBL'',
      openingEventType = ''InterbankLoanPlaced'', instanceIdField = ''placementId'',
      terminalConditions = [tc ''InterbankLoanMatured'' Normal,
                             tc ''InterbankLoanRecalledEarly'' Cancellation],
      inFlightEventTypes = [''InterbankLoanInterestAccrued'']\<rparr>]"

definition findLifecycleByOpeningEvent :: "string \<Rightarrow> lifecycle_definition option" where
  "findLifecycleByOpeningEvent t =
     find (\<lambda>d. openingEventType d = t) TRADE_LIFECYCLE_REGISTRY"

definition findLifecycleForEventType :: "string \<Rightarrow> lifecycle_definition option" where
  "findLifecycleForEventType t =
     find (\<lambda>d. openingEventType d = t \<or>
               list_ex (\<lambda>c. tc_eventType c = t) (terminalConditions d) \<or>
               t \<in> set (inFlightEventTypes d)) TRADE_LIFECYCLE_REGISTRY"

datatype lifecycle_stage = StageOpening | StageInFlight | StageTerminal

definition getLifecycleStage :: "string \<Rightarrow> lifecycle_definition \<Rightarrow> lifecycle_stage option" where
  "getLifecycleStage t d =
     (if openingEventType d = t then Some StageOpening
      else if list_ex (\<lambda>c. tc_eventType c = t) (terminalConditions d) then Some StageTerminal
      else if t \<in> set (inFlightEventTypes d) then Some StageInFlight
      else None)"

section \<open>Instance identifiers\<close>

text \<open>\<open>instanceIdField.replace(/\.value$/, "")\<close>.\<close>

definition baseInstanceField :: "string \<Rightarrow> string" where
  "baseInstanceField f =
     (if starts_with (rev ''.value'') (rev f) then take (length f - 6) f else f)"

text \<open>
  The walk along a dotted path: every step needs an object, and an absent property reads
  \<open>undefined\<close>.
\<close>

definition prop_or_undefined :: "jsval \<Rightarrow> string \<Rightarrow> jsval" where
  "prop_or_undefined v p = (case prop_get v p of None \<Rightarrow> JUndefined | Some w \<Rightarrow> w)"

fun walk_path :: "jsval \<Rightarrow> string list \<Rightarrow> jsval option" where
  "walk_path cur [] = Some cur"
| "walk_path cur (part # parts) =
     (if is_object cur then walk_path (prop_or_undefined cur part) parts else None)"

definition extractInstanceId :: "(string \<times> jsval) list \<Rightarrow> string \<Rightarrow> string option" where
  "extractInstanceId pl field =
     (case walk_path (JObj pl) (split_on CHR ''.'' field) of
        None \<Rightarrow> None
      | Some (JStr s) \<Rightarrow> Some s
      | Some cur \<Rightarrow>
          (if is_object cur
           then (case prop_or_undefined cur ''value'' of JStr s \<Rightarrow> Some s | _ \<Rightarrow> None)
           else None))"

definition resolveInstanceId :: "(string \<times> jsval) list \<Rightarrow> string \<Rightarrow> string option" where
  "resolveInstanceId pl dotPath =
     (case walk_path (JObj pl) (split_on CHR ''.'' dotPath) of
        Some (JStr s) \<Rightarrow> if s \<noteq> [] then Some s else None
      | _ \<Rightarrow> None)"

section \<open>The status resolver\<close>

datatype instance_state = Live | Matured | Settled | Cancelled | Failed

record instance_status =
  st_instanceId :: string
  st_lifecycleId :: string
  st_productType :: string
  st_state :: instance_state
  st_terminalPath :: "terminal_path option"
  st_openingEventId :: string

fun str_includes :: "string \<Rightarrow> string \<Rightarrow> bool" where
  "str_includes p s \<longleftrightarrow> starts_with p s \<or> (case s of [] \<Rightarrow> False | c # cs \<Rightarrow> str_includes p cs)"

declare str_includes.simps [simp del]

definition terminalState :: "terminal_path \<Rightarrow> string \<Rightarrow> instance_state" where
  "terminalState path eventType =
     (if path = Cancellation then Cancelled
      else if path = Failure then Failed
      else if str_includes ''Matured'' eventType then Matured
      else Settled)"

text \<open>The two lazily built indexes; a later definition of the same type overwrites.\<close>

definition opening_index :: "(string, lifecycle_definition) jsmap" where
  "opening_index = fold (\<lambda>d. jm_set (openingEventType d) d) TRADE_LIFECYCLE_REGISTRY []"

definition terminal_index :: "(string, lifecycle_definition \<times> terminal_path) jsmap" where
  "terminal_index =
     fold (\<lambda>d idx. fold (\<lambda>t. jm_set (tc_eventType t) (d, tc_path t)) (terminalConditions d) idx)
       TRADE_LIFECYCLE_REGISTRY []"

type_synonym status_table = "(string, instance_status) jsmap"

definition lifecycle_step :: "event \<Rightarrow> status_table \<Rightarrow> status_table" where
  "lifecycle_step ev result =
     (case jm_get opening_index (ev_type ev) of
        Some openDef \<Rightarrow>
          (case extractInstanceId (payload ev) (baseInstanceField (instanceIdField openDef)) of
             None \<Rightarrow> result
           | Some i \<Rightarrow>
               (if i \<noteq> [] \<and> \<not> jm_has result i
                then jm_set i
                  \<lparr>st_instanceId = i, st_lifecycleId = lifecycleId openDef,
                   st_productType = productType openDef, st_state = Live,
                   st_terminalPath = None, st_openingEventId = event_id ev\<rparr> result
                else result))
      | None \<Rightarrow>
          (case jm_get terminal_index (ev_type ev) of
             None \<Rightarrow> result
           | Some (d, path) \<Rightarrow>
               (case extractInstanceId (payload ev) (baseInstanceField (instanceIdField d)) of
                  None \<Rightarrow> result
                | Some i \<Rightarrow>
                    (if i = [] then result
                     else jm_set i
                       \<lparr>st_instanceId = i, st_lifecycleId = lifecycleId d,
                        st_productType = productType d,
                        st_state = terminalState path (ev_type ev),
                        st_terminalPath = Some path,
                        st_openingEventId =
                          (case jm_get result i of
                             None \<Rightarrow> [] | Some st \<Rightarrow> st_openingEventId st)\<rparr> result))))"

definition resolveTradeLifecycle :: "event list \<Rightarrow> status_table" where
  "resolveTradeLifecycle evs = fold lifecycle_step evs []"

definition isLiveInstance :: "instance_status option \<Rightarrow> bool" where
  "isLiveInstance s \<longleftrightarrow> map_option st_state s = Some Live"

definition isCancelledInstance :: "instance_status option \<Rightarrow> bool" where
  "isCancelledInstance s \<longleftrightarrow> map_option st_state s = Some Cancelled"

definition liveInstanceIds :: "status_table \<Rightarrow> string set" where
  "liveInstanceIds index =
     fold (\<lambda>(i, st) live. if st_state st = Live then insert i live else live) index {}"

section \<open>Properties of the status resolver\<close>

text \<open>The instance an event speaks about, and what it says.\<close>

definition opening_def :: "event \<Rightarrow> lifecycle_definition option" where
  "opening_def ev = jm_get opening_index (ev_type ev)"

definition terminal_ref :: "event \<Rightarrow> (lifecycle_definition \<times> terminal_path) option" where
  "terminal_ref ev =
     (if opening_def ev = None then jm_get terminal_index (ev_type ev) else None)"

definition event_instance :: "event \<Rightarrow> string option" where
  "event_instance ev =
     (case (case opening_def ev of Some d \<Rightarrow> Some d | None \<Rightarrow> map_option fst (terminal_ref ev)) of
        None \<Rightarrow> None
      | Some d \<Rightarrow>
          (case extractInstanceId (payload ev) (baseInstanceField (instanceIdField d)) of
             Some i \<Rightarrow> if i = [] then None else Some i
           | None \<Rightarrow> None))"

definition opens :: "string \<Rightarrow> event \<Rightarrow> bool" where
  "opens i ev \<longleftrightarrow> event_instance ev = Some i \<and> opening_def ev \<noteq> None"

definition terminates :: "string \<Rightarrow> event \<Rightarrow> bool" where
  "terminates i ev \<longleftrightarrow> event_instance ev = Some i \<and> terminal_ref ev \<noteq> None"

lemma instance_opens_or_terminates:
  "event_instance ev = Some i \<longleftrightarrow> opens i ev \<or> terminates i ev"
  by (auto simp: opens_def terminates_def event_instance_def split: option.splits)

lemma opens_not_terminates: "opens i ev \<Longrightarrow> \<not> terminates i ev"
  by (auto simp: opens_def terminates_def terminal_ref_def)

definition open_status :: "string \<Rightarrow> event \<Rightarrow> instance_status" where
  "open_status i ev =
     (case opening_def ev of
        Some d \<Rightarrow> \<lparr>st_instanceId = i, st_lifecycleId = lifecycleId d,
          st_productType = productType d, st_state = Live, st_terminalPath = None,
          st_openingEventId = event_id ev\<rparr>)"

definition end_status :: "string \<Rightarrow> string \<Rightarrow> event \<Rightarrow> instance_status" where
  "end_status i o_id ev =
     (case terminal_ref ev of
        Some (d, path) \<Rightarrow> \<lparr>st_instanceId = i, st_lifecycleId = lifecycleId d,
          st_productType = productType d, st_state = terminalState path (ev_type ev),
          st_terminalPath = Some path, st_openingEventId = o_id\<rparr>)"

lemma lifecycle_step_alt:
  "lifecycle_step ev m =
     (case event_instance ev of
        None \<Rightarrow> m
      | Some i \<Rightarrow>
          (if terminal_ref ev = None
           then (if jm_has m i then m else jm_set i (open_status i ev) m)
           else jm_set i (end_status i (case jm_get m i of
                            None \<Rightarrow> [] | Some st \<Rightarrow> st_openingEventId st) ev) m))"
  by (auto simp: lifecycle_step_def event_instance_def opening_def_def terminal_ref_def
      open_status_def end_status_def split: option.splits)

lemma terminal_not_live [simp]: "terminalState p t \<noteq> Live"
  by (simp add: terminalState_def)

interpretation lifecycle: keyed_projection event_instance lifecycle_step
  by unfold_locales (auto simp: lifecycle_step_alt jm_has_iff split: option.splits)

text \<open>
  The declarative status of an instance: nothing if no event speaks about it, the status of its
  first event while no terminal event has been seen, the status of its last terminal event
  afterwards, carrying the opening event when the instance's first event was one.
\<close>

definition lifecycle_status :: "string \<Rightarrow> event list \<Rightarrow> instance_status option" where
  "lifecycle_status i es =
     (let own = filter (\<lambda>e. event_instance e = Some i) es;
          ends = filter (terminates i) own
      in if own = [] then None
         else if ends = [] then Some (open_status i (hd own))
         else Some (end_status i (if opens i (hd own) then event_id (hd own) else []) (last ends)))"

lemma open_status_fields:
  assumes "opens i ev"
  shows "st_state (open_status i ev) = Live \<and> st_openingEventId (open_status i ev) = event_id ev"
  using assms by (auto simp: open_status_def opens_def)

lemma end_status_fields:
  assumes "terminates i ev"
  shows "st_state (end_status i j ev) \<noteq> Live \<and> st_openingEventId (end_status i j ev) = j"
  using assms by (auto simp: end_status_def terminates_def)

lemma lifecycle_status_Nil [simp]: "lifecycle_status i [] = None"
  by (simp add: lifecycle_status_def)

lemma lifecycle_status_None_iff:
  "lifecycle_status i es = None \<longleftrightarrow> (\<forall>e \<in> set es. event_instance e \<noteq> Some i)"
  by (auto simp: lifecycle_status_def Let_def filter_empty_conv)

lemma lifecycle_status_openingId:
  assumes "lifecycle_status i es = Some st"
  shows "st_openingEventId st =
    (let f = hd (filter (\<lambda>e. event_instance e = Some i) es) in if opens i f then event_id f else [])"
proof -
  let ?own = "filter (\<lambda>e. event_instance e = Some i) es"
  from assms have "?own \<noteq> []" by (auto simp: lifecycle_status_def Let_def split: if_splits)
  then have first: "event_instance (hd ?own) = Some i" "hd ?own \<in> set ?own"
    using hd_in_set [of ?own] by auto
  show ?thesis
  proof (cases "filter (terminates i) ?own = []")
    case True
    with first have "opens i (hd ?own)"
      by (metis filter_empty_conv instance_opens_or_terminates)
    with assms True show ?thesis
      using open_status_fields by (auto simp: lifecycle_status_def Let_def split: if_splits)
  next
    case False
    then have "terminates i (last (filter (terminates i) ?own))"
      using last_in_set [OF False] by simp
    with assms False show ?thesis
      using end_status_fields by (auto simp: lifecycle_status_def Let_def split: if_splits)
  qed
qed

lemma lifecycle_status_snoc:
  "lifecycle_status i (es @ [e]) =
     (if event_instance e \<noteq> Some i then lifecycle_status i es
      else if terminates i e
      then Some (end_status i (case lifecycle_status i es of
             None \<Rightarrow> [] | Some st \<Rightarrow> st_openingEventId st) e)
      else (case lifecycle_status i es of None \<Rightarrow> Some (open_status i e) | Some st \<Rightarrow> Some st))"
proof (cases "lifecycle_status i es")
  case None
  then have "filter (\<lambda>e. event_instance e = Some i) es = []"
    by (simp add: lifecycle_status_None_iff filter_empty_conv)
  with None show ?thesis
    by (auto simp: lifecycle_status_def Let_def instance_opens_or_terminates
        dest: opens_not_terminates)
next
  case (Some st)
  then have "filter (\<lambda>e. event_instance e = Some i) es \<noteq> []"
    using lifecycle_status_None_iff [of i es] by (auto simp: filter_empty_conv)
  with Some lifecycle_status_openingId [OF Some] show ?thesis
    by (auto simp: lifecycle_status_def Let_def)
qed

lemma resolver_status:
  "jm_get (resolveTradeLifecycle es) i = lifecycle_status i es"
proof (induction es rule: rev_induct)
  case Nil
  then show ?case by (simp add: resolveTradeLifecycle_def)
next
  case (snoc e es)
  then have "jm_get (fold lifecycle_step es []) i = lifecycle_status i es"
    by (simp add: resolveTradeLifecycle_def)
  then show ?case
    by (auto simp: resolveTradeLifecycle_def lifecycle_step_alt lifecycle_status_snoc
        terminates_def jm_has_iff split: option.splits)
qed

text \<open>
  The status the resolver computes is the declarative one, for every log and every
  instance identifier.
\<close>

theorem resolver_computes_status:
  "jm_get (resolveTradeLifecycle es) i = lifecycle_status i es"
  by (rule resolver_status)

lemma liveInstanceIds_mem:
  "i \<in> liveInstanceIds m \<longleftrightarrow> (\<exists>st. (i, st) \<in> set m \<and> st_state st = Live)"
proof -
  have "fold (\<lambda>(i, st) live. if st_state st = Live then insert i live else live) m S =
          S \<union> {i. \<exists>st. (i, st) \<in> set m \<and> st_state st = Live}" for S
    by (induction m arbitrary: S) (auto split: if_splits)
  then show ?thesis by (simp add: liveInstanceIds_def)
qed

lemma resolver_keys_distinct: "distinct (map fst (resolveTradeLifecycle es))"
  using lifecycle.fold_distinct [of "[]" es]
  by (simp add: resolveTradeLifecycle_def jm_keys_distinct_def)

lemma lifecycle_status_live_iff:
  "(\<exists>st. lifecycle_status i es = Some st \<and> st_state st = Live) \<longleftrightarrow>
     (\<exists>e \<in> set es. opens i e) \<and> \<not> (\<exists>e \<in> set es. terminates i e)"
proof -
  let ?own = "filter (\<lambda>e. event_instance e = Some i) es"
  have ends: "filter (terminates i) ?own = [] \<longleftrightarrow> \<not> (\<exists>e \<in> set es. terminates i e)"
    by (auto simp: filter_empty_conv instance_opens_or_terminates)
  show ?thesis
  proof (cases "filter (terminates i) ?own = []")
    case True
    then have opens_own: "opens i e" if "e \<in> set ?own" for e
      using that by (auto simp: filter_empty_conv instance_opens_or_terminates)
    have own: "?own \<noteq> [] \<longleftrightarrow> (\<exists>e \<in> set es. opens i e)"
      using opens_own by (auto simp: filter_empty_conv instance_opens_or_terminates)
    show ?thesis
    proof (cases "?own = []")
      case True
      with own ends show ?thesis by (simp add: lifecycle_status_def)
    next
      case False
      then have "st_state (open_status i (hd ?own)) = Live"
        using open_status_fields opens_own hd_in_set by blast
      with False True own ends \<open>filter (terminates i) ?own = []\<close> show ?thesis
        by (simp add: lifecycle_status_def Let_def)
    qed
  next
    case False
    then have "terminates i (last (filter (terminates i) ?own))"
      using last_in_set [OF False] by simp
    with False ends show ?thesis
      using end_status_fields by (auto simp: lifecycle_status_def Let_def split: if_splits)
  qed
qed

lemma live_status_iff:
  "i \<in> liveInstanceIds (resolveTradeLifecycle es) \<longleftrightarrow>
     (\<exists>e \<in> set es. opens i e) \<and> \<not> (\<exists>e \<in> set es. terminates i e)"
proof -
  have "(i, st) \<in> set (resolveTradeLifecycle es) \<longleftrightarrow> lifecycle_status i es = Some st" for st
    using resolver_keys_distinct [of es] resolver_status [of es i]
    by (metis map_of_SomeD map_of_eq_Some_iff)
  then show ?thesis
    using lifecycle_status_live_iff [of i es] by (simp add: liveInstanceIds_mem)
qed

text \<open>
  C10. An instance is live exactly when some event of the log opens it and no event of the log,
  at any position, terminates it.  So the live set does not depend on the order of the log, and
  a terminated instance never becomes live again.
\<close>

theorem live_iff_opened_never_terminated:
  "i \<in> liveInstanceIds (resolveTradeLifecycle es) \<longleftrightarrow>
     (\<exists>e \<in> set es. opens i e) \<and> \<not> (\<exists>e \<in> set es. terminates i e)"
  by (rule live_status_iff)
end
