(* ===== verification/TradeLifecycleView.thy ===== *)
theory TradeLifecycleView
  imports TradeLifecycle
begin

text \<open>
  The lifecycle view the ledger coverage check uses (\<open>platform/lifecycle/trade-lifecycle-projection.ts\<close>):
  a second fold of the event log over the same registry.  Each of its rows is shown to be a state
  machine of its own (\<open>row_step\<close>), from which well-formedness and the meaning of a closed instance
  follow; the last section shows where its reading of an FX trade and the resolver's part.
\<close>

section \<open>The lifecycle view\<close>

datatype lifecycle_state = Open | Closed

record lifecycle_instance =
  li_instanceId :: string
  li_lifecycleId :: string
  li_openingEventId :: string
  li_openingEventType :: string
  li_openedAt :: string
  li_state :: lifecycle_state
  li_terminalEventId :: "string option"
  li_terminalEventType :: "string option"
  li_terminalPath :: "terminal_path option"
  li_closedAt :: "string option"
  li_seenEventTypes :: "string list"

definition push_index :: "string \<Rightarrow> 'a \<Rightarrow> (string, 'a list) jsmap \<Rightarrow> (string, 'a list) jsmap" where
  "push_index k x idx = jm_set k ((case jm_get idx k of None \<Rightarrow> [] | Some l \<Rightarrow> l) @ [x]) idx"

definition view_terminal_index :: "(string, (lifecycle_definition \<times> terminal_path) list) jsmap" where
  "view_terminal_index =
     fold (\<lambda>d idx. fold (\<lambda>t. push_index (tc_eventType t) (d, tc_path t)) (terminalConditions d) idx)
       TRADE_LIFECYCLE_REGISTRY []"

definition view_inflight_index :: "(string, string list) jsmap" where
  "view_inflight_index =
     fold (\<lambda>d idx. fold (\<lambda>t. push_index t (lifecycleId d)) (inFlightEventTypes d) idx)
       TRADE_LIFECYCLE_REGISTRY []"

type_synonym instance_table = "(string, lifecycle_definition \<times> lifecycle_instance) jsmap"

definition instance_key :: "string \<Rightarrow> string \<Rightarrow> string" where
  "instance_key l i = l @ '':'' @ i"

definition see_type :: "string \<Rightarrow> lifecycle_instance \<Rightarrow> lifecycle_instance" where
  "see_type t inst =
     (if t \<in> set (li_seenEventTypes inst) then inst
      else inst\<lparr>li_seenEventTypes := li_seenEventTypes inst @ [t]\<rparr>)"

definition view_open :: "event \<Rightarrow> lifecycle_definition \<Rightarrow> instance_table \<Rightarrow> instance_table" where
  "view_open ev d instances =
     (case resolveInstanceId (payload ev) (instanceIdField d) of
        None \<Rightarrow> instances
      | Some i \<Rightarrow>
          (if jm_has instances (instance_key (lifecycleId d) i) then instances
           else jm_set (instance_key (lifecycleId d) i)
             (d, \<lparr>li_instanceId = i, li_lifecycleId = lifecycleId d,
                  li_openingEventId = event_id ev, li_openingEventType = ev_type ev,
                  li_openedAt = as_of ev, li_state = Open, li_terminalEventId = None,
                  li_terminalEventType = None, li_terminalPath = None, li_closedAt = None,
                  li_seenEventTypes = [ev_type ev]\<rparr>) instances))"

definition view_close ::
  "event \<Rightarrow> lifecycle_definition \<times> terminal_path \<Rightarrow> instance_table \<Rightarrow> instance_table" where
  "view_close ev m instances =
     (case m of (d, path) \<Rightarrow>
        (case resolveInstanceId (payload ev) (instanceIdField d) of
           None \<Rightarrow> instances
         | Some i \<Rightarrow>
             (case jm_get instances (instance_key (lifecycleId d) i) of
                None \<Rightarrow> instances
              | Some (d', inst) \<Rightarrow>
                  (if li_state inst = Open
                   then jm_set (instance_key (lifecycleId d) i)
                     (d', see_type (ev_type ev)
                            (inst\<lparr>li_state := Closed, li_terminalEventId := Some (event_id ev),
                                  li_terminalEventType := Some (ev_type ev),
                                  li_terminalPath := Some path,
                                  li_closedAt := Some (as_of ev)\<rparr>)) instances
                   else instances))))"

definition view_see :: "event \<Rightarrow> string \<Rightarrow> instance_table \<Rightarrow> instance_table" where
  "view_see ev l instances =
     (case find (\<lambda>d. lifecycleId d = l) TRADE_LIFECYCLE_REGISTRY of
        None \<Rightarrow> instances
      | Some d \<Rightarrow>
          (case resolveInstanceId (payload ev) (instanceIdField d) of
             None \<Rightarrow> instances
           | Some i \<Rightarrow>
               (case jm_get instances (instance_key l i) of
                  None \<Rightarrow> instances
                | Some (d', inst) \<Rightarrow>
                    jm_set (instance_key l i) (d', see_type (ev_type ev) inst) instances)))"

definition view_step :: "event \<Rightarrow> instance_table \<Rightarrow> instance_table" where
  "view_step ev instances =
     (case find (\<lambda>d. openingEventType d = ev_type ev) TRADE_LIFECYCLE_REGISTRY of
        Some d \<Rightarrow> view_open ev d instances
      | None \<Rightarrow>
          (case jm_get view_terminal_index (ev_type ev) of
             Some ms \<Rightarrow> fold (view_close ev) ms instances
           | None \<Rightarrow>
               (case jm_get view_inflight_index (ev_type ev) of
                  Some ls \<Rightarrow> fold (view_see ev) ls instances
                | None \<Rightarrow> instances)))"

definition buildTradeLifecycleView :: "event list \<Rightarrow> lifecycle_instance list" where
  "buildTradeLifecycleView evs = map (\<lambda>(k, d, inst). inst) (fold view_step evs [])"

section \<open>Properties of the view\<close>

lemma registry_keys:
  "distinct (map lifecycleId TRADE_LIFECYCLE_REGISTRY)"
  "distinct (map openingEventType TRADE_LIFECYCLE_REGISTRY)"
  "list_all (\<lambda>d. CHR '':'' \<notin> set (lifecycleId d)) TRADE_LIFECYCLE_REGISTRY"
  by code_simp+

lemma terminal_types_unique:
  "list_all (\<lambda>d. list_all (\<lambda>c. jm_get view_terminal_index (tc_eventType c) = Some [(d, tc_path c)])
     (terminalConditions d)) TRADE_LIFECYCLE_REGISTRY"
  by code_simp

lemma terminal_index_sound:
  "list_all (\<lambda>(t, ms). list_ex (\<lambda>d. list_ex (\<lambda>c. tc_eventType c = t \<and> ms = [(d, tc_path c)])
     (terminalConditions d)) TRADE_LIFECYCLE_REGISTRY) view_terminal_index"
  by code_simp

lemma terminal_not_opening:
  "list_all (\<lambda>d. list_all (\<lambda>c. find (\<lambda>d. openingEventType d = tc_eventType c) TRADE_LIFECYCLE_REGISTRY = None)
     (terminalConditions d)) TRADE_LIFECYCLE_REGISTRY"
  by code_simp

lemma inflight_sound:
  "list_all (\<lambda>(t, ls). list_ex (\<lambda>d. ls = [lifecycleId d] \<and> t \<in> set (inFlightEventTypes d))
     TRADE_LIFECYCLE_REGISTRY) view_inflight_index"
  by code_simp

lemma inflight_types_unique:
  "list_all (\<lambda>d. list_all (\<lambda>t. jm_get view_inflight_index t = Some [lifecycleId d])
     (inFlightEventTypes d)) TRADE_LIFECYCLE_REGISTRY"
  by code_simp

abbreviation registry :: "lifecycle_definition set" where
  "registry \<equiv> set TRADE_LIFECYCLE_REGISTRY"

lemma instance_key_inj:
  assumes "d \<in> registry" "d' \<in> registry"
  shows "instance_key (lifecycleId d) i = instance_key (lifecycleId d') i' \<longleftrightarrow> d = d' \<and> i = i'"
proof
  assume eq: "instance_key (lifecycleId d) i = instance_key (lifecycleId d') i'"
  have pre: "takeWhile (\<lambda>c. c \<noteq> CHR '':'') (instance_key (lifecycleId e) j) = lifecycleId e"
    if "e \<in> registry" for e j
    using that registry_keys(3)
    by (auto simp: instance_key_def list_all_iff intro!: takeWhile_sep)
  from eq pre [OF assms(1), of i] pre [OF assms(2), of i'] have "lifecycleId d = lifecycleId d'"
    by simp
  with assms registry_keys(1) have "d = d'" by (auto simp: distinct_map dest: inj_onD)
  with eq show "d = d' \<and> i = i'" by (simp add: instance_key_def)
qed simp

lemma find_registry: "find P TRADE_LIFECYCLE_REGISTRY = Some d \<Longrightarrow> d \<in> registry \<and> P d"
  by (auto simp: find_Some_iff)

lemma find_lifecycle: "d \<in> registry \<Longrightarrow>
  find (\<lambda>e. lifecycleId e = lifecycleId d) TRADE_LIFECYCLE_REGISTRY = Some d"
  by (rule find_distinct [OF registry_keys(1)]) simp_all

lemma find_opening: "d \<in> registry \<Longrightarrow> openingEventType d = t \<Longrightarrow>
  find (\<lambda>e. openingEventType e = t) TRADE_LIFECYCLE_REGISTRY = Some d"
  by (rule find_distinct [OF registry_keys(2)]) simp_all

text \<open>What an event does to the row of one instance of one lifecycle.\<close>

definition view_path :: "lifecycle_definition \<Rightarrow> event \<Rightarrow> terminal_path option" where
  "view_path d ev =
     map_option tc_path (find (\<lambda>c. tc_eventType c = ev_type ev) (terminalConditions d))"

definition addresses :: "lifecycle_definition \<Rightarrow> string \<Rightarrow> event \<Rightarrow> bool" where
  "addresses d i ev \<longleftrightarrow> resolveInstanceId (payload ev) (instanceIdField d) = Some i"

definition new_instance :: "lifecycle_definition \<Rightarrow> string \<Rightarrow> event \<Rightarrow> lifecycle_instance" where
  "new_instance d i ev =
     \<lparr>li_instanceId = i, li_lifecycleId = lifecycleId d,
      li_openingEventId = event_id ev, li_openingEventType = ev_type ev,
      li_openedAt = as_of ev, li_state = Open, li_terminalEventId = None,
      li_terminalEventType = None, li_terminalPath = None, li_closedAt = None,
      li_seenEventTypes = [ev_type ev]\<rparr>"

definition close_instance ::
  "event \<Rightarrow> terminal_path \<Rightarrow> lifecycle_instance \<Rightarrow> lifecycle_instance" where
  "close_instance ev p inst =
     (if li_state inst = Open
      then see_type (ev_type ev)
             (inst\<lparr>li_state := Closed, li_terminalEventId := Some (event_id ev),
                   li_terminalEventType := Some (ev_type ev), li_terminalPath := Some p,
                   li_closedAt := Some (as_of ev)\<rparr>)
      else inst)"

definition row_step ::
  "lifecycle_definition \<Rightarrow> string \<Rightarrow> event \<Rightarrow> lifecycle_instance option
     \<Rightarrow> lifecycle_instance option" where
  "row_step d i ev row =
     (if \<not> addresses d i ev then row
      else if openingEventType d = ev_type ev
      then (case row of None \<Rightarrow> Some (new_instance d i ev) | Some r \<Rightarrow> Some r)
      else case view_path d ev of
        Some p \<Rightarrow> map_option (close_instance ev p) row
      | None \<Rightarrow>
          (if find (\<lambda>e. openingEventType e = ev_type ev) TRADE_LIFECYCLE_REGISTRY = None \<and>
              jm_get view_terminal_index (ev_type ev) = None \<and>
              ev_type ev \<in> set (inFlightEventTypes d)
           then map_option (see_type (ev_type ev)) row else row))"

text \<open>Rows are read by definition and identifier; a row remembers its definition.\<close>

definition view_row :: "instance_table \<Rightarrow> lifecycle_definition \<Rightarrow> string \<Rightarrow> lifecycle_instance option" where
  "view_row m d i = map_option snd (jm_get m (instance_key (lifecycleId d) i))"

definition table_ok :: "instance_table \<Rightarrow> bool" where
  "table_ok m \<longleftrightarrow> jm_keys_distinct m \<and>
     (\<forall>k e inst. jm_get m k = Some (e, inst) \<longrightarrow>
        e \<in> registry \<and> k = instance_key (lifecycleId e) (li_instanceId inst) \<and>
        li_lifecycleId inst = lifecycleId e)"

lemma table_okD:
  assumes "table_ok m" "jm_get m k = Some (e, inst)"
  shows "e \<in> registry" "k = instance_key (lifecycleId e) (li_instanceId inst)"
    "li_lifecycleId inst = lifecycleId e"
  using assms by (simp_all add: table_ok_def)

lemma table_ok_set:
  assumes "table_ok m" "e \<in> registry" "k = instance_key (lifecycleId e) (li_instanceId inst)"
    "li_lifecycleId inst = lifecycleId e"
  shows "table_ok (jm_set k (e, inst) m)"
  using assms by (auto simp: table_ok_def)

lemma see_type_fields [simp]:
  "li_instanceId (see_type t inst) = li_instanceId inst"
  "li_lifecycleId (see_type t inst) = li_lifecycleId inst"
  "li_state (see_type t inst) = li_state inst"
  "li_openingEventId (see_type t inst) = li_openingEventId inst"
  "li_openingEventType (see_type t inst) = li_openingEventType inst"
  "li_openedAt (see_type t inst) = li_openedAt inst"
  "li_terminalEventId (see_type t inst) = li_terminalEventId inst"
  "li_terminalEventType (see_type t inst) = li_terminalEventType inst"
  "li_terminalPath (see_type t inst) = li_terminalPath inst"
  "li_closedAt (see_type t inst) = li_closedAt inst"
  by (simp_all add: see_type_def)

lemma view_open_row:
  assumes "table_ok m" "e \<in> registry" "d \<in> registry"
  shows "table_ok (view_open ev e m) \<and>
    view_row (view_open ev e m) d i =
      (if e = d \<and> addresses d i ev
       then (case view_row m d i of None \<Rightarrow> Some (new_instance d i ev) | Some r \<Rightarrow> Some r)
       else view_row m d i)"
  using assms
  by (auto simp: view_open_def view_row_def addresses_def new_instance_def jm_has_iff
      instance_key_inj intro!: table_ok_set split: option.splits)

lemma view_close_row:
  assumes "table_ok m" "e \<in> registry" "d \<in> registry"
  shows "table_ok (view_close ev (e, p) m) \<and>
    view_row (view_close ev (e, p) m) d i =
      (if e = d \<and> addresses d i ev then map_option (close_instance ev p) (view_row m d i)
       else view_row m d i)"
  using assms
  by (auto simp: view_close_def view_row_def addresses_def close_instance_def
      instance_key_inj intro!: table_ok_set dest: table_okD split: option.splits)

lemma view_see_row:
  assumes "table_ok m" "e \<in> registry" "d \<in> registry"
  shows "table_ok (view_see ev (lifecycleId e) m) \<and>
    view_row (view_see ev (lifecycleId e) m) d i =
      (if e = d \<and> addresses d i ev then map_option (see_type (ev_type ev)) (view_row m d i)
       else view_row m d i)"
  using assms
  by (auto simp: view_see_def view_row_def addresses_def find_lifecycle
      instance_key_inj intro!: table_ok_set dest: table_okD split: option.splits)

lemma same_opening:
  "d \<in> registry \<Longrightarrow> e \<in> registry \<Longrightarrow> openingEventType e = openingEventType d \<Longrightarrow> e = d"
  using find_opening [of d "openingEventType d"] find_opening [of e "openingEventType d"] by simp

lemma same_lifecycle:
  "d \<in> registry \<Longrightarrow> e \<in> registry \<Longrightarrow> lifecycleId e = lifecycleId d \<Longrightarrow> e = d"
  using find_lifecycle [of d] find_lifecycle [of e] by simp

lemma terminal_lookup:
  assumes "jm_get view_terminal_index t = Some ms"
  obtains d p where "ms = [(d, p)]" "d \<in> registry" "tc t p \<in> set (terminalConditions d)"
proof -
  from assms have "(t, ms) \<in> set view_terminal_index" by (rule map_of_SomeD)
  with terminal_index_sound obtain d c where
    "d \<in> registry" "c \<in> set (terminalConditions d)" "tc_eventType c = t" "ms = [(d, tc_path c)]"
    unfolding list_all_iff list_ex_iff by blast
  with that [of d "tc_path c"] show thesis by (cases c) auto
qed

lemma inflight_lookup:
  assumes "jm_get view_inflight_index t = Some ls"
  obtains d where "ls = [lifecycleId d]" "d \<in> registry" "t \<in> set (inFlightEventTypes d)"
proof -
  from assms have "(t, ls) \<in> set view_inflight_index" by (rule map_of_SomeD)
  with inflight_sound that show thesis unfolding list_all_iff list_ex_iff by blast
qed

lemma view_path_Some:
  assumes "d \<in> registry" "view_path d ev = Some p"
  shows "jm_get view_terminal_index (ev_type ev) = Some [(d, p)]
    \<and> find (\<lambda>e. openingEventType e = ev_type ev) TRADE_LIFECYCLE_REGISTRY = None
    \<and> tc (ev_type ev) p \<in> set (terminalConditions d)"
proof -
  from assms obtain c where c: "c \<in> set (terminalConditions d)" "tc_eventType c = ev_type ev"
    "tc_path c = p"
    by (auto simp: view_path_def dest: find_mem)
  have "jm_get view_terminal_index (tc_eventType c) = Some [(d, tc_path c)]"
    "find (\<lambda>e. openingEventType e = tc_eventType c) TRADE_LIFECYCLE_REGISTRY = None"
    using c(1) assms(1) terminal_types_unique terminal_not_opening unfolding list_all_iff by blast+
  moreover have "c = tc (tc_eventType c) (tc_path c)" by (cases c) simp
  ultimately show ?thesis using c by metis
qed

lemma view_path_None:
  assumes "view_path d ev = None" "jm_get view_terminal_index (ev_type ev) = Some [(e, p)]"
    "e \<in> registry" "tc (ev_type ev) p \<in> set (terminalConditions e)"
  shows "e \<noteq> d"
  using assms by (auto simp: view_path_def find_None_iff)

lemma view_step_row:
  assumes "table_ok m" "d \<in> registry"
  shows "table_ok (view_step ev m) \<and>
    view_row (view_step ev m) d i = row_step d i ev (view_row m d i)"
proof (cases "find (\<lambda>e. openingEventType e = ev_type ev) TRADE_LIFECYCLE_REGISTRY")
  case (Some e)
  then have e: "e \<in> registry" "openingEventType e = ev_type ev" by (auto dest: find_registry)
  have noterm: "view_path d ev = None"
    using Some view_path_Some [OF assms(2), of ev] by (cases "view_path d ev") auto
  have "openingEventType d = ev_type ev \<longleftrightarrow> e = d"
    using e assms(2) same_opening [of d e] by auto
  with Some view_open_row [OF assms(1) e(1) assms(2), of ev i] noterm show ?thesis
    by (auto simp: view_step_def row_step_def)
next
  case None
  then have noopen: "openingEventType d \<noteq> ev_type ev"
    using assms(2) by (auto simp: find_None_iff)
  show ?thesis
  proof (cases "jm_get view_terminal_index (ev_type ev)")
    case (Some ms)
    then obtain e p where ms: "ms = [(e, p)]" "e \<in> registry"
      "tc (ev_type ev) p \<in> set (terminalConditions e)"
      by (rule terminal_lookup)
    note close = view_close_row [OF assms(1) ms(2) assms(2), of ev p i]
    show ?thesis
    proof (cases "view_path d ev")
      case vp: None
      then have "e \<noteq> d" using view_path_None Some ms by blast
      with None Some ms close noopen vp show ?thesis by (simp add: view_step_def row_step_def)
    next
      case vp: (Some q)
      then have "e = d \<and> p = q" using view_path_Some [OF assms(2) vp] Some ms by simp
      with None Some ms close noopen vp show ?thesis by (simp add: view_step_def row_step_def)
    qed
  next
    case nt: None
    then have vp: "view_path d ev = None"
      using view_path_Some [OF assms(2), of ev] by (cases "view_path d ev") auto
    show ?thesis
    proof (cases "jm_get view_inflight_index (ev_type ev)")
      case ni: None
      then have "ev_type ev \<notin> set (inFlightEventTypes d)"
        using inflight_types_unique assms(2) by (auto simp: list_all_iff)
      with None nt ni noopen vp assms(1) show ?thesis by (simp add: view_step_def row_step_def)
    next
      case (Some ls)
      then obtain e where ls: "ls = [lifecycleId e]" "e \<in> registry"
        "ev_type ev \<in> set (inFlightEventTypes e)"
        by (rule inflight_lookup)
      have "jm_get view_inflight_index (ev_type ev) = Some [lifecycleId d]"
        if "ev_type ev \<in> set (inFlightEventTypes d)"
        using inflight_types_unique assms(2) that by (simp add: list_all_iff)
      with Some ls same_lifecycle [OF assms(2) ls(2)]
      have "ev_type ev \<in> set (inFlightEventTypes d) \<longleftrightarrow> e = d" by auto
      with None nt Some ls noopen vp view_see_row [OF assms(1) ls(2) assms(2), of ev i]
      show ?thesis by (simp add: view_step_def row_step_def)
    qed
  qed
qed

lemma view_fold_row:
  assumes "d \<in> registry"
  shows "table_ok m \<Longrightarrow> table_ok (fold view_step es m) \<and>
    view_row (fold view_step es m) d i = fold (row_step d i) es (view_row m d i)"
proof (induction es arbitrary: m)
  case Nil
  then show ?case by simp
next
  case (Cons e es)
  with view_step_row [OF Cons.prems assms, of e i] show ?case by simp
qed

lemma table_ok_Nil [simp]: "table_ok []"
  by (simp add: table_ok_def)

definition instance_row :: "lifecycle_definition \<Rightarrow> string \<Rightarrow> event list \<Rightarrow> lifecycle_instance option" where
  "instance_row d i es = fold (row_step d i) es None"

lemma view_mem_iff:
  "inst \<in> set (buildTradeLifecycleView es) \<longleftrightarrow>
     (\<exists>d \<in> registry. instance_row d (li_instanceId inst) es = Some inst)"
proof -
  obtain d0 where "d0 \<in> registry" by (auto simp: TRADE_LIFECYCLE_REGISTRY_def)
  from view_fold_row [OF this, of "[]" es] have ok: "table_ok (fold view_step es [])" by simp
  then have keys: "distinct (map fst (fold view_step es []))"
    by (simp add: table_ok_def jm_keys_distinct_def)
  have row: "instance_row d i es = view_row (fold view_step es []) d i" if "d \<in> registry" for d i
    using view_fold_row [OF that, of "[]" es i] by (simp add: view_row_def instance_row_def)
  show ?thesis
  proof
    assume "inst \<in> set (buildTradeLifecycleView es)"
    then obtain k d where "(k, d, inst) \<in> set (fold view_step es [])"
      by (auto simp: buildTradeLifecycleView_def)
    with keys have get: "jm_get (fold view_step es []) k = Some (d, inst)" by simp
    from table_okD [OF ok get] get row show "\<exists>d \<in> registry. instance_row d (li_instanceId inst) es = Some inst"
      by (auto simp: view_row_def)
  next
    assume "\<exists>d \<in> registry. instance_row d (li_instanceId inst) es = Some inst"
    then obtain d e where "d \<in> registry"
      "jm_get (fold view_step es []) (instance_key (lifecycleId d) (li_instanceId inst)) = Some (e, inst)"
      using row by (auto simp: view_row_def)
    then show "inst \<in> set (buildTradeLifecycleView es)"
      by (force simp: buildTradeLifecycleView_def dest: map_of_SomeD)
  qed
qed

text \<open>
  Well-formed instances: the fields name events of the log, an open instance has no terminal
  fields, a closed one was closed by a terminal event of its own definition, and the seen types
  are distinct types of the definition.
\<close>

definition definition_types :: "lifecycle_definition \<Rightarrow> string set" where
  "definition_types d =
     insert (openingEventType d)
       (tc_eventType ` set (terminalConditions d) \<union> set (inFlightEventTypes d))"

definition instance_wf :: "event list \<Rightarrow> lifecycle_definition \<Rightarrow> lifecycle_instance \<Rightarrow> bool" where
  "instance_wf es d inst \<longleftrightarrow>
     li_instanceId inst \<noteq> [] \<and> li_lifecycleId inst = lifecycleId d \<and>
     li_openingEventType inst = openingEventType d \<and>
     (\<exists>e \<in> set es. event_id e = li_openingEventId inst \<and> ev_type e = openingEventType d \<and>
        as_of e = li_openedAt inst \<and> addresses d (li_instanceId inst) e) \<and>
     distinct (li_seenEventTypes inst) \<and> set (li_seenEventTypes inst) \<subseteq> definition_types d \<and>
     openingEventType d \<in> set (li_seenEventTypes inst) \<and>
     (case li_state inst of
        Open \<Rightarrow> li_terminalEventId inst = None \<and> li_terminalEventType inst = None \<and>
                li_terminalPath inst = None \<and> li_closedAt inst = None
      | Closed \<Rightarrow> (\<exists>e p. e \<in> set es \<and> li_terminalEventId inst = Some (event_id e) \<and>
                li_terminalEventType inst = Some (ev_type e) \<and>
                li_closedAt inst = Some (as_of e) \<and> li_terminalPath inst = Some p \<and>
                tc (ev_type e) p \<in> set (terminalConditions d) \<and>
                addresses d (li_instanceId inst) e \<and>
                ev_type e \<in> set (li_seenEventTypes inst)))"

lemma resolveInstanceId_not_Nil: "resolveInstanceId pl f = Some i \<Longrightarrow> i \<noteq> []"
  by (auto simp: resolveInstanceId_def split: option.splits jsval.splits if_splits)

lemma instance_wf_mono: "instance_wf es d inst \<Longrightarrow> set es \<subseteq> set fs \<Longrightarrow> instance_wf fs d inst"
  unfolding instance_wf_def by (cases "li_state inst") (simp_all, blast+)

lemma instance_wf_new:
  assumes "addresses d i e" "openingEventType d = ev_type e" "e \<in> set es"
  shows "instance_wf es d (new_instance d i e)"
  using assms resolveInstanceId_not_Nil
  by (auto simp: instance_wf_def new_instance_def definition_types_def addresses_def)

lemma instance_wf_see:
  assumes "instance_wf es d inst" "t \<in> definition_types d"
  shows "instance_wf es d (see_type t inst)"
  using assms by (cases "li_state inst") (auto simp: instance_wf_def see_type_def)

lemma instance_wf_close:
  assumes "instance_wf es d inst" "tc (ev_type e) p \<in> set (terminalConditions d)"
    "addresses d (li_instanceId inst) e" "e \<in> set es"
  shows "instance_wf es d (close_instance e p inst)"
proof (cases "li_state inst")
  case Open
  have "ev_type e \<in> definition_types d"
    using assms(2) by (force simp: definition_types_def image_iff)
  with assms Open show ?thesis
    by (auto simp: instance_wf_def close_instance_def see_type_def)
next
  case Closed
  with assms show ?thesis by (simp add: close_instance_def)
qed

lemma instance_row_snoc: "instance_row d i (es @ [e]) = row_step d i e (instance_row d i es)"
  by (simp add: instance_row_def)

lemma instance_row_wf:
  assumes "d \<in> registry"
  shows "instance_row d i es = Some inst \<Longrightarrow> instance_wf es d inst \<and> li_instanceId inst = i"
proof (induction es arbitrary: inst rule: rev_induct)
  case Nil
  then show ?case by (simp add: instance_row_def)
next
  case (snoc e es)
  have mono: "instance_wf (es @ [e]) d r" if "instance_wf es d r" for r
    using instance_wf_mono [OF that, of "es @ [e]"] by auto
  from snoc.prems have step: "row_step d i e (instance_row d i es) = Some inst"
    by (simp add: instance_row_snoc)
  show ?case
  proof (cases "instance_row d i es")
    case None
    with step have "inst = new_instance d i e" "addresses d i e" "openingEventType d = ev_type e"
      by (auto simp: row_step_def split: if_splits option.splits)
    with instance_wf_new [of d i e "es @ [e]"] show ?thesis by (simp add: new_instance_def)
  next
    case (Some r)
    then have r: "instance_wf es d r" "li_instanceId r = i" using snoc.IH by simp_all
    note wf = mono [OF r(1)]
    show ?thesis
    proof (cases "addresses d i e \<and> openingEventType d \<noteq> ev_type e")
      case False
      with step Some have "inst = r" by (auto simp: row_step_def split: if_splits)
      with wf r show ?thesis by simp
    next
      case True
      show ?thesis
      proof (cases "view_path d e")
        case None
        with step Some True have "inst = r \<or>
            inst = see_type (ev_type e) r \<and> ev_type e \<in> definition_types d"
          by (auto simp: row_step_def definition_types_def split: if_splits)
        with wf r instance_wf_see show ?thesis by auto
      next
        case vp: (Some p)
        with step Some True have "inst = close_instance e p r" by (simp add: row_step_def)
        moreover have "li_instanceId (close_instance e p r) = li_instanceId r"
          by (simp add: close_instance_def)
        ultimately show ?thesis
          using instance_wf_close [OF wf, of e p] view_path_Some [OF assms vp] True r by simp
      qed
    qed
  qed
qed

definition view_opens :: "lifecycle_definition \<Rightarrow> string \<Rightarrow> event \<Rightarrow> bool" where
  "view_opens d i ev \<longleftrightarrow> addresses d i ev \<and> ev_type ev = openingEventType d"

definition view_terminates :: "lifecycle_definition \<Rightarrow> string \<Rightarrow> event \<Rightarrow> bool" where
  "view_terminates d i ev \<longleftrightarrow>
     addresses d i ev \<and> list_ex (\<lambda>c. tc_eventType c = ev_type ev) (terminalConditions d)"

lemma view_terminates_path: "view_terminates d i ev \<longleftrightarrow> addresses d i ev \<and> view_path d ev \<noteq> None"
  by (auto simp: view_terminates_def view_path_def find_None_iff list_ex_iff)

lemma view_opens_not_terminates:
  assumes "d \<in> registry" "view_terminates d i ev"
  shows "ev_type ev \<noteq> openingEventType d"
proof -
  from assms(2) obtain p where "view_path d ev = Some p" by (auto simp: view_terminates_path)
  from view_path_Some [OF assms(1) this] assms(1) show ?thesis by (auto simp: find_None_iff)
qed

lemma not_open_iff [simp]: "li_state x \<noteq> Open \<longleftrightarrow> li_state x = Closed"
  by (cases "li_state x") simp_all

lemma row_step_state:
  assumes "d \<in> registry"
  shows "(row_step d i ev row \<noteq> None \<longleftrightarrow> row \<noteq> None \<or> view_opens d i ev) \<and>
    (map_option li_state (row_step d i ev row) = Some Closed \<longleftrightarrow>
       map_option li_state row = Some Closed \<or> row \<noteq> None \<and> view_terminates d i ev)"
  using view_opens_not_terminates [OF assms, of i ev]
  by (auto simp: row_step_def view_opens_def view_terminates_path new_instance_def
      close_instance_def split: option.splits)

lemma row_exists_iff:
  "d \<in> registry \<Longrightarrow> instance_row d i es \<noteq> None \<longleftrightarrow> (\<exists>e \<in> set es. view_opens d i e)"
proof (induction es rule: rev_induct)
  case Nil
  then show ?case by (simp add: instance_row_def)
next
  case (snoc e es)
  with row_step_state [OF snoc.prems, of i e "instance_row d i es"] show ?case
    by (auto simp: instance_row_snoc)
qed

definition opened_then_terminated :: "lifecycle_definition \<Rightarrow> string \<Rightarrow> event list \<Rightarrow> bool" where
  "opened_then_terminated d i es \<longleftrightarrow>
     (\<exists>before after. es = before @ after \<and> (\<exists>e \<in> set before. view_opens d i e)
        \<and> (\<exists>e \<in> set after. view_terminates d i e))"

lemma opened_then_terminated_snoc:
  "opened_then_terminated d i (es @ [e]) \<longleftrightarrow>
     opened_then_terminated d i es \<or> (\<exists>x \<in> set es. view_opens d i x) \<and> view_terminates d i e"
proof
  assume "opened_then_terminated d i (es @ [e])"
  then obtain us ws where s: "es @ [e] = us @ ws" "\<exists>x \<in> set us. view_opens d i x"
    "\<exists>x \<in> set ws. view_terminates d i x"
    by (auto simp: opened_then_terminated_def)
  then obtain vs x where "ws = vs @ [x]" by (cases ws rule: rev_cases) auto
  with s show "opened_then_terminated d i es \<or>
      (\<exists>x \<in> set es. view_opens d i x) \<and> view_terminates d i e"
    by (auto simp: opened_then_terminated_def)
next
  assume "opened_then_terminated d i es \<or>
      (\<exists>x \<in> set es. view_opens d i x) \<and> view_terminates d i e"
  then show "opened_then_terminated d i (es @ [e])"
  proof
    assume "opened_then_terminated d i es"
    then obtain us ws where "es = us @ ws" "\<exists>x \<in> set us. view_opens d i x"
      "\<exists>x \<in> set ws. view_terminates d i x"
      by (auto simp: opened_then_terminated_def)
    then show ?thesis
      unfolding opened_then_terminated_def by (intro exI [of _ us] exI [of _ "ws @ [e]"]) auto
  next
    assume "(\<exists>x \<in> set es. view_opens d i x) \<and> view_terminates d i e"
    then show ?thesis
      unfolding opened_then_terminated_def by (intro exI [of _ es] exI [of _ "[e]"]) auto
  qed
qed

lemma row_closed_iff:
  "d \<in> registry \<Longrightarrow>
   map_option li_state (instance_row d i es) = Some Closed \<longleftrightarrow> opened_then_terminated d i es"
proof (induction es rule: rev_induct)
  case Nil
  then show ?case by (simp add: instance_row_def opened_then_terminated_def)
next
  case (snoc e es)
  with row_step_state [OF snoc.prems, of i e "instance_row d i es"]
    row_exists_iff [OF snoc.prems, of i es]
  show ?case by (simp add: instance_row_snoc opened_then_terminated_snoc)
qed

lemma view_row_iff:
  assumes "d \<in> registry"
  shows "inst \<in> set (buildTradeLifecycleView es) \<and> li_lifecycleId inst = lifecycleId d \<and>
      li_instanceId inst = i \<longleftrightarrow> instance_row d i es = Some inst"
proof
  assume l: "inst \<in> set (buildTradeLifecycleView es) \<and> li_lifecycleId inst = lifecycleId d \<and>
    li_instanceId inst = i"
  then obtain e where e: "e \<in> registry" "instance_row e i es = Some inst"
    by (auto simp: view_mem_iff)
  from instance_row_wf [OF this] l have "lifecycleId e = lifecycleId d"
    by (simp add: instance_wf_def)
  with e assms same_lifecycle show "instance_row d i es = Some inst" by blast
next
  assume r: "instance_row d i es = Some inst"
  from instance_row_wf [OF assms r] assms r
  show "inst \<in> set (buildTradeLifecycleView es) \<and> li_lifecycleId inst = lifecycleId d \<and>
    li_instanceId inst = i"
    by (auto simp: view_mem_iff instance_wf_def)
qed

text \<open>
  C29. Every instance of the view is well formed: it belongs to a definition of the registry, its
  opening fields name an event of the log that opens it, it carries terminal fields exactly when
  it is closed and then they name a terminal event of its own definition, and its seen types are
  distinct types of that definition.
\<close>

theorem view_well_formed:
  "inst \<in> set (buildTradeLifecycleView es) \<Longrightarrow>
   \<exists>d \<in> set TRADE_LIFECYCLE_REGISTRY. instance_wf es d inst"
  using view_mem_iff instance_row_wf by blast

text \<open>
  C28. The view has an instance for a definition and an identifier exactly when an event of the
  log opens it, and the instance is closed exactly when a terminal event of the definition
  follows an opening event.  A terminal event ahead of the opening is not counted.
\<close>

theorem view_closed_iff:
  assumes "d \<in> set TRADE_LIFECYCLE_REGISTRY"
  shows "((\<exists>inst \<in> set (buildTradeLifecycleView es).
      li_lifecycleId inst = lifecycleId d \<and> li_instanceId inst = i)
      \<longleftrightarrow> (\<exists>e \<in> set es. view_opens d i e))
    \<and> ((\<exists>inst \<in> set (buildTradeLifecycleView es).
      li_lifecycleId inst = lifecycleId d \<and> li_instanceId inst = i \<and> li_state inst = Closed)
      \<longleftrightarrow> opened_then_terminated d i es)"
proof -
  note row = view_row_iff [OF assms, of _ es i]
  have "(\<exists>inst \<in> set (buildTradeLifecycleView es).
      li_lifecycleId inst = lifecycleId d \<and> li_instanceId inst = i)
    \<longleftrightarrow> instance_row d i es \<noteq> None"
    using row by (metis not_Some_eq)
  moreover have "(\<exists>inst \<in> set (buildTradeLifecycleView es).
      li_lifecycleId inst = lifecycleId d \<and> li_instanceId inst = i \<and> li_state inst = Closed)
    \<longleftrightarrow> map_option li_state (instance_row d i es) = Some Closed"
    unfolding map_option_eq_Some row [symmetric] by blast
  ultimately show ?thesis
    using row_exists_iff [OF assms, of i es] row_closed_iff [OF assms, of i es] by simp
qed

definition lifecycle_event :: "string \<Rightarrow> string \<Rightarrow> (string \<times> jsval) list \<Rightarrow> event" where
  "lifecycle_event i t pl =
     \<lparr>event_id = i, ev_type = t, as_of = ''2026-03-02'', entity = ''BANK'',
      ev_actor = \<lparr>actor_kind = ActorSystem, actor_id = ''ops''\<rparr>, citations = [''c''],
      payload = pl, provenance = None, aggregateId = None, aggregateLabel = None\<rparr>"

definition mmd_log :: "event list" where
  "mmd_log =
     [lifecycle_event ''e1'' ''DepositTaken'' [(''depositId'', JStr ''D1'')],
      lifecycle_event ''e2'' ''DepositInterestAccrued'' [(''depositId'', JStr ''D1'')],
      lifecycle_event ''e3'' ''DepositMatured'' [(''depositId'', JStr ''D1'')]]"

lemma view_well_formed_witness:
  "\<exists>inst \<in> set (buildTradeLifecycleView mmd_log).
     \<exists>d \<in> set TRADE_LIFECYCLE_REGISTRY. instance_wf mmd_log d inst"
proof -
  have "buildTradeLifecycleView mmd_log \<noteq> []" by code_simp
  then show ?thesis using view_well_formed [of _ mmd_log] by (meson last_in_set)
qed

lemma view_closed_iff_witness:
  "\<exists>inst \<in> set (buildTradeLifecycleView mmd_log).
     li_lifecycleId inst = lifecycleId (TRADE_LIFECYCLE_REGISTRY ! 7) \<and>
     li_instanceId inst = ''D1'' \<and> li_state inst = Closed"
proof -
  have "opened_then_terminated (TRADE_LIFECYCLE_REGISTRY ! 7) ''D1'' mmd_log"
    unfolding opened_then_terminated_def
    by (rule exI [of _ "take 1 mmd_log"], rule exI [of _ "drop 1 mmd_log"]) code_simp
  moreover have "TRADE_LIFECYCLE_REGISTRY ! 7 \<in> set TRADE_LIFECYCLE_REGISTRY" by code_simp
  ultimately show ?thesis using view_closed_iff [of "TRADE_LIFECYCLE_REGISTRY ! 7" mmd_log "''D1''"] by blast
qed

section \<open>FX trades: where the two readings part\<close>

text \<open>
  The opening event of an FX trade carries its identifier as an object with a \<open>value\<close> field,
  its terminal events carry a plain string.  The resolver strips \<open>.value\<close> from the registry's
  path and accepts both; the view walks the path as it stands and fails on the string.
\<close>

abbreviation fx_terminal_types :: "string set" where
  "fx_terminal_types \<equiv>
     {''SettlementConfirmed'', ''TradeMatured'', ''FxTradeCancelled'', ''FxSettlementFailed''}"

lemma split_on_fx: "split_on CHR ''.'' ''tradeId.value'' = [''tradeId'', ''value'']"
  by code_simp

lemma fx_base_field: "baseInstanceField ''tradeId.value'' = ''tradeId''"
  by code_simp

lemma split_on_tradeId: "split_on CHR ''.'' ''tradeId'' = [''tradeId'']"
  by code_simp

lemma fx_string_unresolved:
  "map_of pl ''tradeId'' = Some (JStr s) \<Longrightarrow> resolveInstanceId pl ''tradeId.value'' = None"
  by (simp add: resolveInstanceId_def split_on_fx prop_or_undefined_def)

lemma fx_string_extracted:
  "map_of pl ''tradeId'' = Some (JStr s) \<Longrightarrow> extractInstanceId pl ''tradeId'' = Some s"
  by (simp add: extractInstanceId_def split_on_tradeId prop_or_undefined_def)

lemma fx_terminal_refs:
  assumes "ev_type e \<in> fx_terminal_types"
  shows "opening_def e = None \<and> (\<exists>p. terminal_ref e = Some (hd TRADE_LIFECYCLE_REGISTRY, p))"
proof -
  have "list_all (\<lambda>t. jm_get opening_index t = None \<and>
      map_option fst (jm_get terminal_index t) = Some (hd TRADE_LIFECYCLE_REGISTRY))
      [''SettlementConfirmed'', ''TradeMatured'', ''FxTradeCancelled'', ''FxSettlementFailed'']"
    by code_simp
  with assms show ?thesis
    by (auto simp: terminal_ref_def opening_def_def)
qed

lemma fx_definition:
  "hd TRADE_LIFECYCLE_REGISTRY \<in> registry"
  "lifecycleId (hd TRADE_LIFECYCLE_REGISTRY) = ''fx-spot-trade''"
  "instanceIdField (hd TRADE_LIFECYCLE_REGISTRY) = ''tradeId.value''"
  "tc_eventType ` set (terminalConditions (hd TRADE_LIFECYCLE_REGISTRY)) = fx_terminal_types"
  by (simp_all add: TRADE_LIFECYCLE_REGISTRY_def)

text \<open>
  In a log whose FX terminal events carry their trade identifier as a string, as their
  schemas require, the view never closes an FX trade, whatever the log holds; the resolver takes
  every trade such an event names out of the live set.
\<close>

theorem fx_view_never_closes:
  assumes "\<forall>e \<in> set es. ev_type e \<in> fx_terminal_types \<longrightarrow>
             (\<exists>s. map_of (payload e) ''tradeId'' = Some (JStr s))"
  shows "(\<forall>inst \<in> set (buildTradeLifecycleView es).
            li_lifecycleId inst = ''fx-spot-trade'' \<longrightarrow> li_state inst = Open)
    \<and> (\<forall>e \<in> set es. \<forall>s. ev_type e \<in> fx_terminal_types \<longrightarrow>
          map_of (payload e) ''tradeId'' = Some (JStr s) \<longrightarrow> s \<noteq> [] \<longrightarrow>
          s \<notin> liveInstanceIds (resolveTradeLifecycle es))"
proof (intro conjI ballI allI impI)
  fix inst
  assume inst: "inst \<in> set (buildTradeLifecycleView es)" "li_lifecycleId inst = ''fx-spot-trade''"
  have "\<not> view_terminates (hd TRADE_LIFECYCLE_REGISTRY) i e" if "e \<in> set es" for i e
  proof
    assume t: "view_terminates (hd TRADE_LIFECYCLE_REGISTRY) i e"
    then have "ev_type e \<in> fx_terminal_types"
      using fx_definition(4) by (force simp: view_terminates_def list_ex_iff)
    with assms that obtain s where "map_of (payload e) ''tradeId'' = Some (JStr s)" by blast
    then have "resolveInstanceId (payload e) ''tradeId.value'' = None" by (rule fx_string_unresolved)
    with t show False by (simp add: view_terminates_def addresses_def fx_definition(3))
  qed
  then have "\<not> opened_then_terminated (hd TRADE_LIFECYCLE_REGISTRY) i es" for i
    by (fastforce simp: opened_then_terminated_def)
  then have "map_option li_state (instance_row (hd TRADE_LIFECYCLE_REGISTRY) i es) \<noteq> Some Closed" for i
    using row_closed_iff [OF fx_definition(1)] by simp
  moreover have "instance_row (hd TRADE_LIFECYCLE_REGISTRY) (li_instanceId inst) es = Some inst"
    using view_row_iff [OF fx_definition(1)] inst fx_definition(2) by metis
  ultimately show "li_state inst = Open"
    using not_open_iff by (metis option.map(2))
next
  fix e s
  assume e: "e \<in> set es" "ev_type e \<in> fx_terminal_types"
    "map_of (payload e) ''tradeId'' = Some (JStr s)" "s \<noteq> []"
  from fx_terminal_refs [OF e(2)] e(3,4) have "terminates s e"
    by (auto simp: terminates_def event_instance_def fx_definition(3) fx_base_field
        fx_string_extracted)
  with e(1) live_status_iff show "s \<notin> liveInstanceIds (resolveTradeLifecycle es)" by blast
qed

definition fx_log :: "event list" where
  "fx_log =
     [lifecycle_event ''e1'' ''FxTradeExecuted''
        [(''tradeId'', JObj [(''value'', JStr ''T1'')])],
      lifecycle_event ''e2'' ''SettlementConfirmed'' [(''tradeId'', JStr ''T1'')]]"

lemma fx_view_never_closes_witness:
  "map li_state (buildTradeLifecycleView fx_log) = [Open] \<and>
   ''T1'' \<notin> liveInstanceIds (resolveTradeLifecycle fx_log)"
proof
  have h: "\<forall>e \<in> set fx_log. ev_type e \<in> fx_terminal_types \<longrightarrow>
      (\<exists>s. map_of (payload e) ''tradeId'' = Some (JStr s))"
    by (simp add: fx_log_def lifecycle_event_def)
  have ids: "map li_lifecycleId (buildTradeLifecycleView fx_log) = [''fx-spot-trade'']" by code_simp
  then obtain inst where "buildTradeLifecycleView fx_log = [inst]" "li_lifecycleId inst = ''fx-spot-trade''"
    by auto
  with fx_view_never_closes [OF h] show "map li_state (buildTradeLifecycleView fx_log) = [Open]" by simp
  show "''T1'' \<notin> liveInstanceIds (resolveTradeLifecycle fx_log)"
    using fx_view_never_closes [OF h] by (auto simp: fx_log_def lifecycle_event_def)
qed

text \<open>
  An event type listed both as in flight of one lifecycle and as opening or terminal type of
  another is consumed by the other: a registration never records its decompositions.
\<close>

lemma registration_never_sees_decomposition:
  assumes "inst \<in> set (buildTradeLifecycleView es)"
    "li_lifecycleId inst = ''financial-instrument-registration''"
  shows "''FinancialInstrumentDecomposed'' \<notin> set (li_seenEventTypes inst) \<and>
    ''FinancialInstrumentReconstituted'' \<notin> set (li_seenEventTypes inst)"
proof -
  let ?d = "TRADE_LIFECYCLE_REGISTRY ! 4"
  let ?T = "{''FinancialInstrumentDecomposed'', ''FinancialInstrumentReconstituted''}"
  have d: "?d \<in> registry" "lifecycleId ?d = ''financial-instrument-registration''"
    "openingEventType ?d = ''FinancialInstrumentDefined''" "terminalConditions ?d = []"
    by (simp_all add: TRADE_LIFECYCLE_REGISTRY_def)
  have taken: "find (\<lambda>e. openingEventType e = t) TRADE_LIFECYCLE_REGISTRY \<noteq> None \<or>
      jm_get view_terminal_index t \<noteq> None" if "t \<in> ?T" for t
  proof -
    have "list_all (\<lambda>t. find (\<lambda>e. openingEventType e = t) TRADE_LIFECYCLE_REGISTRY \<noteq> None \<or>
      jm_get view_terminal_index t \<noteq> None)
      [''FinancialInstrumentDecomposed'', ''FinancialInstrumentReconstituted'']"
      by code_simp
    with that show ?thesis by auto
  qed
  have notin: "openingEventType ?d \<notin> ?T" by (simp add: d(3))
  have step: "row_step ?d i e row = Some r \<Longrightarrow>
      (\<And>q. row = Some q \<Longrightarrow> set (li_seenEventTypes q) \<inter> ?T = {}) \<Longrightarrow>
      set (li_seenEventTypes r) \<inter> ?T = {}" for i e row r
    using taken [of "ev_type e"] d(4) notin
    by (auto simp: row_step_def view_path_def new_instance_def see_type_def
        split: if_splits option.splits)
  have none: "instance_row ?d i es = Some r \<Longrightarrow> set (li_seenEventTypes r) \<inter> ?T = {}" for i r
  proof (induction es arbitrary: r rule: rev_induct)
    case Nil
    then show ?case by (simp add: instance_row_def)
  next
    case (snoc e es)
    from step [OF snoc.prems [unfolded instance_row_snoc] snoc.IH] show ?case by simp
  qed
  have "instance_row ?d (li_instanceId inst) es = Some inst"
    using view_row_iff [OF d(1), of inst es "li_instanceId inst"] assms d(2) by simp
  from none [OF this] show ?thesis by blast
qed
end
