(* ===== verification/CivilDate.thy ===== *)
theory CivilDate
  imports Prelude
begin

text \<open>
  The calendar arithmetic of the JavaScript \<open>Date\<close> object in UTC, as the language standard
  defines it: day numbers counted from 1970-01-01, years by their leap days, months by a table
  of offsets, the week day, and the parsing of a full \<open>YYYY-MM-DD\<close> date text.  The week-day,
  holiday and review-age rules of the program are built on it.  As in the engines the program
  runs on, a date text with a day of the month from 1 to 31 is accepted in every month and rolls
  over; shorter date forms are read as no date.
\<close>

definition leap_year :: "int \<Rightarrow> bool" where
  "leap_year y \<longleftrightarrow> y mod 4 = 0 \<and> (y mod 100 \<noteq> 0 \<or> y mod 400 = 0)"

definition day_from_year :: "int \<Rightarrow> int" where
  "day_from_year y =
     365 * (y - 1970) + (y - 1969) div 4 - (y - 1901) div 100 + (y - 1601) div 400"

definition month_lengths :: "bool \<Rightarrow> nat list" where
  "month_lengths leap = [31, if leap then 29 else 28, 31, 30, 31, 30, 31, 31, 30, 31, 30, 31]"

text \<open>Months count from 1.\<close>

definition days_in_month :: "int \<Rightarrow> nat \<Rightarrow> nat" where
  "days_in_month y m = month_lengths (leap_year y) ! (m - 1)"

definition month_offset :: "bool \<Rightarrow> nat \<Rightarrow> nat" where
  "month_offset leap m = sum_list (take (m - 1) (month_lengths leap))"

text \<open>\<open>Date.UTC(y, m - 1, d)\<close> in days; the day of the month may run over.\<close>

definition make_day :: "int \<Rightarrow> nat \<Rightarrow> int \<Rightarrow> int" where
  "make_day y m d = day_from_year y + int (month_offset (leap_year y) m) + d - 1"

definition week_day :: "int \<Rightarrow> nat" where
  "week_day n = nat ((n + 4) mod 7)"

definition valid_date :: "int \<Rightarrow> nat \<Rightarrow> nat \<Rightarrow> bool" where
  "valid_date y m d \<longleftrightarrow> 1 \<le> m \<and> m \<le> 12 \<and> 1 \<le> d \<and> d \<le> days_in_month y m"

section \<open>From day numbers to dates\<close>

text \<open>
  The year of a day number: an estimate by the mean length of a year, corrected by at most one.
\<close>

definition year_of_day :: "int \<Rightarrow> int" where
  "year_of_day n =
     (let y = 1970 + (400 * n) div 146097
      in if day_from_year (y + 1) \<le> n then y + 1 else if n < day_from_year y then y - 1 else y)"

definition day_of_year :: "int \<Rightarrow> nat" where
  "day_of_year n = nat (n - day_from_year (year_of_day n))"

definition month_of_doy :: "bool \<Rightarrow> nat \<Rightarrow> nat" where
  "month_of_doy leap doy =
     1 + length (takeWhile (\<lambda>m. month_offset leap (m + 1) \<le> doy) [1..<12])"

definition month_of_day :: "int \<Rightarrow> nat" where
  "month_of_day n = month_of_doy (leap_year (year_of_day n)) (day_of_year n)"

definition date_of_day :: "int \<Rightarrow> nat" where
  "date_of_day n =
     day_of_year n - month_offset (leap_year (year_of_day n)) (month_of_day n) + 1"

lemma div_bounds: "0 < (b::int) \<Longrightarrow> b * (x div b) \<le> x \<and> x < b * (x div b) + b"
  by (metis add.commute mult_div_mod_eq pos_mod_bound pos_mod_sign add_le_same_cancel1 
      add_less_cancel_left le_add_same_cancel1)

lemma day_from_year_bounds:
  "400 * day_from_year y \<le> 146097 * (y - 1970) + 589"
  "146097 * (y - 1970) - 506 \<le> 400 * day_from_year y"
proof -
  note b = div_bounds [of 4 "y - 1969"] div_bounds [of 100 "y - 1901"] div_bounds [of 400 "y - 1601"]
  from b show "400 * day_from_year y \<le> 146097 * (y - 1970) + 589"
    unfolding day_from_year_def by simp
  from b show "146097 * (y - 1970) - 506 \<le> 400 * day_from_year y"
    unfolding day_from_year_def by simp
qed

lemma year_of_day_bounds:
  "day_from_year (year_of_day n) \<le> n \<and> n < day_from_year (year_of_day n + 1)"
proof -
  define k where "k = (400 * n) div 146097"
  have k: "146097 * k \<le> 400 * n" "400 * n < 146097 * k + 146097"
    using div_bounds [of 146097 "400 * n"] by (simp_all add: k_def)
  have "n < day_from_year (1970 + k + 1 + 1)"
    using k day_from_year_bounds(2) [of "1970 + k + 1 + 1"] by simp
  moreover have "day_from_year (1970 + k - 1) \<le> n"
    using k day_from_year_bounds(1) [of "1970 + k - 1"] by simp
  moreover have "year_of_day n = (if day_from_year (1970 + k + 1) \<le> n then 1970 + k + 1
      else if n < day_from_year (1970 + k) then 1970 + k - 1 else 1970 + k)"
    by (simp only: year_of_day_def Let_def k_def)
  ultimately show ?thesis by (auto simp: not_le not_less)
qed

lemma div_step:
  assumes "0 < (b::int)"
  shows "(x + 1) div b = x div b + (if (x + 1) mod b = 0 then 1 else 0)"
proof -
  let ?q = "(x + 1) div b" and ?r = "(x + 1) mod b"
  have eq: "x + 1 = b * ?q + ?r" by simp
  have r: "0 \<le> ?r" "?r < b" using assms by simp_all
  show ?thesis
  proof (cases "?r = 0")
    case True
    have "x div b = ?q - 1"
      by (rule int_div_pos_eq [where r = "b - 1"]) (use eq True assms in \<open>auto simp: algebra_simps\<close>)
    with True show ?thesis by simp
  next
    case False
    have "x div b = ?q"
    proof (rule int_div_pos_eq)
      show "x = b * ?q + (?r - 1)" using eq by linarith
    qed (use False r in auto)
    with False show ?thesis by simp
  qed
qed

lemma mod_shift: "(y - b * k) mod b = y mod (b::int)"
  using mod_mult_self2 [of y b "- k"] by simp

lemma mod_zero_dvd: "(c::int) dvd b \<Longrightarrow> y mod b = 0 \<Longrightarrow> y mod c = 0"
  by (metis dvd_trans dvd_eq_mod_eq_0)

lemma year_length_arith:
  fixes a a' b b' c c' z :: int
  assumes "a = a' + (if p then 1 else 0)" "b = b' + (if q then 1 else 0)"
    "c = c' + (if r then 1 else 0)" "r \<longrightarrow> q" "q \<longrightarrow> p"
  shows "365 * (z + 1) + a - b + c =
    365 * z + a' - b' + c' + (if p \<and> (\<not> q \<or> r) then 366 else 365)"
  using assms by (cases p; cases q; cases r) simp_all

lemma year_length: "day_from_year (y + 1) = day_from_year y + (if leap_year y then 366 else 365)"
proof -
  have "(y + 1 - 1969) div 4 = (y - 1969) div 4 + (if y mod 4 = 0 then 1 else 0)"
    using div_step [of 4 "y - 1969"] mod_shift [of y 4 492] by simp
  moreover have "(y + 1 - 1901) div 100 = (y - 1901) div 100 + (if y mod 100 = 0 then 1 else 0)"
    using div_step [of 100 "y - 1901"] mod_shift [of y 100 19] by simp
  moreover have "(y + 1 - 1601) div 400 = (y - 1601) div 400 + (if y mod 400 = 0 then 1 else 0)"
    using div_step [of 400 "y - 1601"] mod_shift [of y 400 4] by simp
  moreover have "y mod 400 = 0 \<longrightarrow> y mod 100 = 0" "y mod 100 = 0 \<longrightarrow> y mod 4 = 0"
    using mod_zero_dvd [of 100 400 y] mod_zero_dvd [of 4 100 y] by simp_all
  ultimately have len: "365 * (y - 1970 + 1) + (y + 1 - 1969) div 4 - (y + 1 - 1901) div 100
      + (y + 1 - 1601) div 400 = 365 * (y - 1970) + (y - 1969) div 4 - (y - 1901) div 100
      + (y - 1601) div 400
      + (if y mod 4 = 0 \<and> (\<not> y mod 100 = 0 \<or> y mod 400 = 0) then 366 else 365)"
    by (rule year_length_arith)
  have "y + 1 - 1970 = y - 1970 + 1" by simp
  then show ?thesis unfolding day_from_year_def leap_year_def using len by (simp only:)
qed

section \<open>Uniqueness of the calendar date\<close>

lemma year_of_day_unique:
  assumes "day_from_year y \<le> n" "n < day_from_year (y + 1)"
  shows "year_of_day n = y"
proof -
  have mono: "a < b \<Longrightarrow> day_from_year (a + 1) \<le> day_from_year b" for a b
  proof (induction b rule: int_gr_induct [where k = a])
    case (step i)
    then show ?case using year_length [of i] by (auto split: if_splits)
  qed auto
  show ?thesis
    using mono [of y "year_of_day n"] mono [of "year_of_day n" y] assms year_of_day_bounds [of n]
    by linarith
qed

lemma length_month_lengths [simp]: "length (month_lengths leap) = 12"
  by (simp add: month_lengths_def)

lemma month_offset_Suc:
  "m \<le> 12 \<Longrightarrow> 1 \<le> m \<Longrightarrow>
   month_offset leap (m + 1) = month_offset leap m + month_lengths leap ! (m - 1)"
  by (cases m) (simp_all add: month_offset_def take_Suc_conv_app_nth)

lemma month_offset_mono:
  assumes "a \<le> b"
  shows "month_offset leap a \<le> month_offset leap b"
proof -
  from assms obtain k where "b - 1 = (a - 1) + k" using diff_le_mono [of a b 1] le_Suc_ex by blast
  then show ?thesis unfolding month_offset_def by (simp only: take_add) simp
qed

lemma month_offset_1 [simp]: "month_offset leap (Suc 0) = 0"
  by (simp add: month_offset_def)

lemma month_offset_13 [simp]: "month_offset leap 13 = 365 + of_bool leap"
  by (simp add: month_offset_def month_lengths_def)

lemma month_exists:
  assumes "doy < 365 + of_bool leap"
  obtains m where "1 \<le> m" "m \<le> 12" "month_offset leap m \<le> doy" "doy < month_offset leap (m + 1)"
proof -
  have "\<exists>m. 1 \<le> m \<and> m \<le> 12 \<and> month_offset leap m \<le> doy \<and> doy < month_offset leap (m + 1)"
  proof (rule ccontr)
    assume none: "\<not> ?thesis"
    have "k \<le> 12 \<Longrightarrow> month_offset leap (k + 1) \<le> doy" for k
      by (induction k) (use none in \<open>auto simp: not_less\<close>)
    from this [of 12] assms show False by simp
  qed
  with that show thesis by blast
qed

lemma month_of_doy_unique:
  assumes "1 \<le> m" "m \<le> 12" "month_offset leap m \<le> doy" "doy < month_offset leap (m + 1)"
  shows "month_of_doy leap doy = m"
proof -
  let ?P = "\<lambda>k. month_offset leap (k + 1) \<le> doy"
  have split: "[1..<12] = [1..<m] @ [m..<12]" using assms(1,2)
    using upt_add_eq_append [of 1 m "12 - m"] by simp
  have "?P k" if "k \<in> set [1..<m]" for k
    using that assms(3) month_offset_mono [of "k + 1" m leap] by simp
  then have "takeWhile ?P [1..<12] = [1..<m] @ takeWhile ?P [m..<12]"
    unfolding split by (rule takeWhile_append2)
  moreover have "takeWhile ?P [m..<12] = []"
    using assms(4) by (cases "m < 12") (simp_all add: upt_conv_Cons)
  ultimately show ?thesis using assms(1) by (simp add: month_of_doy_def)
qed

lemma day_of_year_bound:
  "int (day_of_year n) = n - day_from_year (year_of_day n)"
  "day_of_year n < 365 + of_bool (leap_year (year_of_day n))"
  using year_of_day_bounds [of n] year_length [of "year_of_day n"]
  by (auto simp: day_of_year_def)

text \<open>Every day number has its date, and every date its day number.\<close>

lemma civil_of_day:
  "1 \<le> month_of_day n \<and> month_of_day n \<le> 12 \<and> 1 \<le> date_of_day n \<and>
   date_of_day n \<le> days_in_month (year_of_day n) (month_of_day n) \<and>
   n = make_day (year_of_day n) (month_of_day n) (int (date_of_day n))"
proof -
  let ?l = "leap_year (year_of_day n)"
  obtain m where m: "1 \<le> m" "m \<le> 12" "month_offset ?l m \<le> day_of_year n"
    "day_of_year n < month_offset ?l (m + 1)"
    by (rule month_exists [OF day_of_year_bound(2)])
  have mm: "month_of_day n = m" unfolding month_of_day_def by (rule month_of_doy_unique [OF m])
  have d: "date_of_day n = day_of_year n - month_offset ?l m + 1" by (simp add: date_of_day_def mm)
  have "int (date_of_day n) = int (day_of_year n) - int (month_offset ?l m) + 1"
    using m(3) by (simp add: d of_nat_diff)
  then show ?thesis
    using m month_offset_Suc [OF m(2,1), of ?l] day_of_year_bound(1) [of n]
    by (simp add: mm make_day_def days_in_month_def d)
qed

lemma civil_unique:
  assumes m: "1 \<le> m" "m \<le> 12"
    and n: "make_day y m 1 \<le> n" "n < make_day y m 1 + int (days_in_month y m)"
  shows "year_of_day n = y \<and> month_of_day n = m \<and> int (date_of_day n) = n - make_day y m 1 + 1"
proof -
  let ?l = "leap_year y"
  have next_off: "month_offset ?l (m + 1) = month_offset ?l m + days_in_month y m"
    using month_offset_Suc [OF m(2,1)] by (simp add: days_in_month_def)
  have "month_offset ?l (m + 1) \<le> 365 + of_bool ?l"
    using month_offset_mono [of "m + 1" 13 ?l] m(2) by simp
  then have "int (month_offset ?l m) + int (days_in_month y m) \<le> 365 + of_bool ?l"
    unfolding next_off by (cases ?l) simp_all
  moreover have "day_from_year (y + 1) = day_from_year y + 365 + of_bool ?l"
    using year_length [of y] by simp
  ultimately have y: "year_of_day n = y"
    using n next_off by (intro year_of_day_unique) (simp_all add: make_day_def)
  have doy: "int (day_of_year n) = n - day_from_year y" using day_of_year_bound(1) [of n] y by simp
  have "month_of_day n = m"
    unfolding month_of_day_def y
    by (rule month_of_doy_unique [OF m]) (use n next_off doy in \<open>simp_all add: make_day_def\<close>)
  moreover from this have "int (date_of_day n) = n - make_day y m 1 + 1"
    using n doy y by (simp add: date_of_day_def make_day_def of_nat_diff)
  ultimately show ?thesis using y by simp
qed

lemma civil_roundtrip:
  assumes "valid_date y m d"
  shows "year_of_day (make_day y m (int d)) = y \<and> month_of_day (make_day y m (int d)) = m \<and>
    date_of_day (make_day y m (int d)) = d"
proof -
  have "make_day y m (int d) = make_day y m 1 + int d - 1" by (simp add: make_day_def)
  with assms civil_unique [of m y "make_day y m (int d)"] show ?thesis
    by (auto simp: valid_date_def)
qed

lemma next_month:
  assumes "1 \<le> m" "m \<le> 12"
  shows "make_day y (m + 1) 1 = make_day y m 1 + int (days_in_month y m)"
  using month_offset_Suc [OF assms(2,1)] by (simp add: make_day_def days_in_month_def)

lemma next_year: "make_day y 13 d = make_day (y + 1) 1 d"
  using year_length [of y] by (simp add: make_day_def)

section \<open>Instants\<close>

text \<open>An instant is a count of milliseconds; these are the UTC accessors of \<open>Date\<close> and \<open>Date.UTC\<close>.\<close>

abbreviation MS_PER_DAY :: int where "MS_PER_DAY \<equiv> 86400000"

definition day_of :: "int \<Rightarrow> int" where "day_of t = t div MS_PER_DAY"
definition getUTCFullYear :: "int \<Rightarrow> int" where "getUTCFullYear t = year_of_day (day_of t)"
definition getUTCMonth :: "int \<Rightarrow> nat" where "getUTCMonth t = month_of_day (day_of t) - 1"
definition getUTCDate :: "int \<Rightarrow> nat" where "getUTCDate t = date_of_day (day_of t)"
definition getUTCDay :: "int \<Rightarrow> nat" where "getUTCDay t = week_day (day_of t)"
definition getUTCHours :: "int \<Rightarrow> nat" where "getUTCHours t = nat (t mod MS_PER_DAY div 3600000)"
definition getUTCMinutes :: "int \<Rightarrow> nat" where "getUTCMinutes t = nat (t mod 3600000 div 60000)"
definition getUTCSeconds :: "int \<Rightarrow> nat" where "getUTCSeconds t = nat (t mod 60000 div 1000)"
definition getUTCMilliseconds :: "int \<Rightarrow> nat" where "getUTCMilliseconds t = nat (t mod 1000)"

text \<open>Months count from 0 here and may run over; so may every later argument.\<close>

definition date_utc :: "int \<Rightarrow> nat \<Rightarrow> nat \<Rightarrow> nat \<Rightarrow> nat \<Rightarrow> nat \<Rightarrow> nat \<Rightarrow> int" where
  "date_utc y m d h mi s ms =
     make_day (y + int (m div 12)) (m mod 12 + 1) (int d) * MS_PER_DAY
       + int h * 3600000 + int mi * 60000 + int s * 1000 + int ms"

lemma sum_chain:
  "t = q + a \<Longrightarrow> a = b' + b \<Longrightarrow> b = c' + c \<Longrightarrow> c = d' + d \<Longrightarrow> t = q + b' + c' + d' + (d::int)"
  by simp

lemma time_split:
  "t = day_of t * MS_PER_DAY + int (getUTCHours t) * 3600000 + int (getUTCMinutes t) * 60000
     + int (getUTCSeconds t) * 1000 + int (getUTCMilliseconds t)"
  "getUTCHours t < 24" "getUTCMinutes t < 60" "getUTCSeconds t < 60" "getUTCMilliseconds t < 1000"
proof -
  have h: "t mod MS_PER_DAY mod 3600000 = t mod 3600000" "t mod 3600000 mod 60000 = t mod 60000"
    "t mod 60000 mod 1000 = t mod 1000"
    by (simp_all add: mod_mod_cancel)
  have "t = t div MS_PER_DAY * MS_PER_DAY + t mod MS_PER_DAY" by simp
  moreover have "t mod MS_PER_DAY = t mod MS_PER_DAY div 3600000 * 3600000 + t mod 3600000"
    using div_mult_mod_eq [of "t mod MS_PER_DAY" 3600000] h(1) by simp
  moreover have "t mod 3600000 = t mod 3600000 div 60000 * 60000 + t mod 60000"
    using div_mult_mod_eq [of "t mod 3600000" 60000] h(2) by simp
  moreover have "t mod 60000 = t mod 60000 div 1000 * 1000 + t mod 1000"
    using div_mult_mod_eq [of "t mod 60000" 1000] h(3) by simp
  ultimately have sum: "t = t div MS_PER_DAY * MS_PER_DAY + t mod MS_PER_DAY div 3600000 * 3600000
      + t mod 3600000 div 60000 * 60000 + t mod 60000 div 1000 * 1000 + t mod 1000"
    by (rule sum_chain)
  have parts: "int (getUTCHours t) = t mod MS_PER_DAY div 3600000"
    "int (getUTCMinutes t) = t mod 3600000 div 60000"
    "int (getUTCSeconds t) = t mod 60000 div 1000" "int (getUTCMilliseconds t) = t mod 1000"
    unfolding getUTCHours_def getUTCMinutes_def getUTCSeconds_def getUTCMilliseconds_def
    by (simp_all only: int_nat_eq pos_imp_zdiv_nonneg_iff zero_less_numeral pos_mod_sign if_True)
  show "t = day_of t * MS_PER_DAY + int (getUTCHours t) * 3600000
      + int (getUTCMinutes t) * 60000 + int (getUTCSeconds t) * 1000 + int (getUTCMilliseconds t)"
    unfolding parts day_of_def by (rule sum)
  show "getUTCHours t < 24" by (simp add: getUTCHours_def nat_less_iff)
  show "getUTCMinutes t < 60" by (simp add: getUTCMinutes_def nat_less_iff)
  show "getUTCSeconds t < 60" by (simp add: getUTCSeconds_def nat_less_iff)
  show "getUTCMilliseconds t < 1000" by (simp add: getUTCMilliseconds_def nat_less_iff)
qed

lemma month_bounds: "1 \<le> month_of_day n" "month_of_day n \<le> 12"
  using civil_of_day [of n] by simp_all

lemma date_utc_same_day:
  "date_utc (getUTCFullYear t) (getUTCMonth t) (getUTCDate t) h mi s ms =
     day_of t * MS_PER_DAY + int h * 3600000 + int mi * 60000 + int s * 1000 + int ms"
proof -
  have "getUTCMonth t div 12 = 0" "getUTCMonth t mod 12 + 1 = month_of_day (day_of t)"
    using month_bounds [of "day_of t"] by (auto simp: getUTCMonth_def)
  then show ?thesis
    using civil_of_day [of "day_of t"]
    by (simp add: date_utc_def getUTCFullYear_def getUTCDate_def)
qed

lemma date_utc_next_day:
  "date_utc (getUTCFullYear t) (getUTCMonth t) (getUTCDate t + 1) 0 0 0 0 = (day_of t + 1) * MS_PER_DAY"
proof -
  have "date_utc (getUTCFullYear t) (getUTCMonth t) (getUTCDate t + 1) 0 0 0 0 =
      date_utc (getUTCFullYear t) (getUTCMonth t) (getUTCDate t) 0 0 0 0 + MS_PER_DAY"
    by (simp add: date_utc_def make_day_def algebra_simps)
  then show ?thesis by (simp add: date_utc_same_day algebra_simps)
qed

lemma day_bounds: "day_of t * MS_PER_DAY \<le> t" "t < (day_of t + 1) * MS_PER_DAY"
  using div_bounds [of MS_PER_DAY t] by (simp_all add: day_of_def algebra_simps)

lemma day_of_unique: "d * MS_PER_DAY \<le> u \<Longrightarrow> u < (d + 1) * MS_PER_DAY \<Longrightarrow> day_of u = d"
  unfolding day_of_def by (rule int_div_pos_eq [where r = "u - d * MS_PER_DAY"]) (simp_all add: algebra_simps)

section \<open>Date texts\<close>

definition parse_day :: "string \<Rightarrow> int option" where
  "parse_day s =
     (let y = take 4 s; m = take 2 (drop 5 s); d = take 2 (drop 8 s) in
      if length s = 10 \<and> s ! 4 = CHR ''-'' \<and> s ! 7 = CHR ''-'' \<and>
         list_all is_digit (y @ m @ d) \<and>
         1 \<le> parse_nat m \<and> parse_nat m \<le> 12 \<and> 1 \<le> parse_nat d \<and> parse_nat d \<le> 31
      then Some (make_day (int (parse_nat y)) (parse_nat m) (int (parse_nat d)))
      else None)"

text \<open>
  \<open>new Date(s).getTime()\<close> on the date-time format of ECMAScript: a date alone is midnight UTC, a
  date with a clock time carries \<open>Z\<close> or an offset.  \<open>None\<close> is \<open>NaN\<close>; texts outside the format,
  which engines may read in their own way, are \<open>None\<close>.
\<close>

definition two_digits :: "string \<Rightarrow> nat option" where
  "two_digits s = (if length s = 2 \<and> list_all is_digit s then Some (parse_nat s) else None)"

definition parse_hm :: "string \<Rightarrow> (nat \<times> nat) option" where
  "parse_hm s =
     (if length s = 5 \<and> s ! 2 = CHR '':'' then
        (case (two_digits (take 2 s), two_digits (drop 3 s)) of
           (Some h, Some m) \<Rightarrow> (if m \<le> 59 then Some (h, m) else None)
         | _ \<Rightarrow> None)
      else None)"

text \<open>Seconds with an optional fraction, in milliseconds; the rest of the text is returned.\<close>

definition parse_seconds :: "string \<Rightarrow> (nat \<times> string) option" where
  "parse_seconds s =
     (case s of
        [] \<Rightarrow> Some (0, [])
      | c # r \<Rightarrow>
          (if c \<noteq> CHR '':'' then Some (0, s)
           else case two_digits (take 2 r) of
             None \<Rightarrow> None
           | Some sec \<Rightarrow>
               (let r2 = drop 2 r in
                if sec > 59 then None
                else if r2 \<noteq> [] \<and> hd r2 = CHR ''.'' then
                  (let f = takeWhile is_digit (tl r2) in
                   if f = [] then None
                   else Some (sec * 1000 + parse_nat (take 3 (f @ ''00'')), dropWhile is_digit (tl r2)))
                else Some (sec * 1000, r2))))"

definition parse_offset :: "string \<Rightarrow> int option" where
  "parse_offset s =
     (case s of
        [] \<Rightarrow> None
      | c # r \<Rightarrow>
          (if s = ''Z'' then Some 0
           else case parse_hm r of
             None \<Rightarrow> None
           | Some (h, m) \<Rightarrow>
               (if h > 23 then None
                else if c = CHR ''+'' then Some (int (h * 60 + m) * 60000)
                else if c = CHR ''-'' then Some (- (int (h * 60 + m) * 60000))
                else None)))"

definition parse_instant :: "string \<Rightarrow> int option" where
  "parse_instant s =
     (case parse_day (take 10 s) of
        None \<Rightarrow> None
      | Some d \<Rightarrow>
          (case drop 10 s of
             [] \<Rightarrow> Some (d * MS_PER_DAY)
           | c # r \<Rightarrow>
               (if c \<noteq> CHR ''T'' then None
                else case parse_hm (take 5 r) of
                  None \<Rightarrow> None
                | Some (h, m) \<Rightarrow>
                    (case parse_seconds (drop 5 r) of
                       None \<Rightarrow> None
                     | Some (ms, rest) \<Rightarrow>
                         (case parse_offset rest of
                            None \<Rightarrow> None
                          | Some off \<Rightarrow>
                              (if h < 24 \<or> h = 24 \<and> m = 0 \<and> ms = 0
                               then Some (d * MS_PER_DAY + int (h * 60 + m) * 60000 + int ms - off)
                               else None))))))"

lemma parse_instant_examples:
  "parse_instant ''1970-01-02'' = Some 86400000"
  "parse_instant ''1970-01-01T02:00:00.250+02:00'' = Some 250"
  "parse_instant ''1970-01-01T00:00:01Z'' = Some 1000"
  "parse_instant ''1970-01-01 00:00'' = None"
  by code_simp+

end
