(* ===== verification/CreditLimit.thy ===== *)
theory CreditLimit
  imports DecimalMoney CivilDate "HOL-Library.Signed_Division"
begin

text \<open>
  The credit-limit engine (\<open>platform/risk/credit-limit-engine/\<close>): the projection of limit events
  into one row per counterparty, the exposure against a limit, the pre-deal headroom gate, the
  breach detector and the large-exposure check over connected groups.  An event carries the
  payload fields the engine reads, as their schemas type them; a log is the list of events in
  sequence order.  Integer amounts are exact (the source's \<open>Number\<close> conversions are exact below
  2^53); percentages with one decimal are rationals.  Warnings to the log are left out.
\<close>

section \<open>Money in minor units (core/money.ts)\<close>

record minor_money =
  mn_amount :: int
  mn_currency :: string

datatype limit_error = CurrencyMismatch string string | BadDecimal money_error

definition minor :: "int \<Rightarrow> string \<Rightarrow> minor_money" where
  "minor amount currency = \<lparr>mn_amount = amount, mn_currency = currency\<rparr>"

definition guardSameCurrency :: "minor_money \<Rightarrow> minor_money \<Rightarrow> limit_error + unit" where
  "guardSameCurrency a b =
     (if mn_currency a \<noteq> mn_currency b
      then Inl (CurrencyMismatch (mn_currency a) (mn_currency b)) else Inr ())"

definition money_add :: "minor_money \<Rightarrow> minor_money \<Rightarrow> limit_error + minor_money" where
  "money_add a b =
     res_bind (guardSameCurrency a b)
       (\<lambda>_. Inr \<lparr>mn_amount = mn_amount a + mn_amount b, mn_currency = mn_currency a\<rparr>)"

definition money_sub :: "minor_money \<Rightarrow> minor_money \<Rightarrow> limit_error + minor_money" where
  "money_sub a b =
     res_bind (guardSameCurrency a b)
       (\<lambda>_. Inr \<lparr>mn_amount = mn_amount a - mn_amount b, mn_currency = mn_currency a\<rparr>)"

text \<open>
  \<open>minorFromMoneyWire\<close> of \<open>money-codec.ts\<close>; \<open>dj_round_half_up\<close> is the package's
  \<open>toDecimalPlaces(0, ROUND_HALF_UP)\<close>.
\<close>

record 'd decimal_rounding = "'d decimal_js" +
  dj_round_half_up :: "'d \<Rightarrow> 'd"

definition minorFromMoneyWire :: "'d decimal_rounding \<Rightarrow> money_wire \<Rightarrow> limit_error + int" where
  "minorFromMoneyWire D w =
     (case w of MoneyV1 amount currency \<Rightarrow>
        map_sum BadDecimal id
          (res_bind (toDecimal (decimal_js.truncate D) amount) (\<lambda>dec.
             res_bind (toDecimal (decimal_js.truncate D) (nat_str (10 ^ scaleFor currency)))
               (\<lambda>factor. bigint_of (dj_toFixed D (dj_round_half_up D (dj_times D dec factor)))))))"

section \<open>Events\<close>

datatype approval_authority = CRO | CRC | BRC | CEO | Board
datatype breach_severity = Amber | Red | Critical
datatype breach_disposition = Unwound | Novated | Accepted | Remediated

datatype credit_payload =
    ApplicationSubmitted (p_tenor: string) (p_currency: string)
  | ExtensionRequested
  | AnalysisCompleted
  | ISDACSAAssessed
  | LimitProposed
  | LimitApproved (p_limit: int) (p_currency: string) (p_tenor: string) (p_approvedAt: string)
      (p_authority: approval_authority) (p_conditions: "string list") (p_expiryDate: "string option")
  | LimitLoaded (p_limit: int) (p_currency: string) (p_loadedAt: string)
  | AnnualReviewCompleted (p_reviewedAt: string) (p_revisedLimit: int) (p_currency: string)
  | LimitBreached (p_severity: breach_severity)
  | BreachDisposed (p_disposition: breach_disposition)
  | LimitWithdrawn
  | CcrEadComputed (p_nettingSetId: string) (p_computationDate: string) (p_currency: string)
      (p_ead: money_wire)
  | CcrReplacementCostComputed (p_nettingSetId: string) (p_computationDate: string)
      (p_currency: string) (p_rc: int)
  | LexUtilisationComputed (p_computedAt: string) (p_utilisationPct: rat)
  | PartyRelationshipAsserted (p_from: "string option") (p_to: "string option")
      (p_kind: "string option") (p_relationshipKind: "string option")

record credit_event =
  ce_id :: string
  ce_as_of :: string
  ce_counterpartyId :: "string option"
  ce_payload :: credit_payload

fun credit_type :: "credit_payload \<Rightarrow> string" where
  "credit_type (ApplicationSubmitted _ _) = ''CreditLimitApplicationSubmitted''"
| "credit_type ExtensionRequested = ''CreditLimitExtensionRequested''"
| "credit_type AnalysisCompleted = ''CreditAnalysisCompleted''"
| "credit_type ISDACSAAssessed = ''ISDACSAAssessmentCompleted''"
| "credit_type LimitProposed = ''CreditLimitProposed''"
| "credit_type (LimitApproved _ _ _ _ _ _ _) = ''CreditLimitApproved''"
| "credit_type (LimitLoaded _ _ _) = ''CreditLimitLoaded''"
| "credit_type (AnnualReviewCompleted _ _ _) = ''CreditLimitAnnualReviewCompleted''"
| "credit_type (LimitBreached _) = ''CreditLimitBreached''"
| "credit_type (BreachDisposed _) = ''CreditLimitBreachDisposed''"
| "credit_type LimitWithdrawn = ''CreditLimitWithdrawn''"
| "credit_type (CcrEadComputed _ _ _ _) = ''CcrEadComputed''"
| "credit_type (CcrReplacementCostComputed _ _ _ _) = ''CcrReplacementCostComputed''"
| "credit_type (LexUtilisationComputed _ _) = ''LexUtilisationComputed''"
| "credit_type (PartyRelationshipAsserted _ _ _ _) = ''PartyRelationshipAsserted''"

text \<open>\<open>replay({ type, asOf })\<close>: sequence order, business dates up to the bound.\<close>

definition replay_type :: "credit_event list \<Rightarrow> string \<Rightarrow> string option \<Rightarrow> credit_event list" where
  "replay_type es t asOf =
     filter (\<lambda>e. credit_type (ce_payload e) = t \<and>
       (case asOf of None \<Rightarrow> True | Some a \<Rightarrow> a = [] \<or> ce_as_of e \<le> a)) es"

section \<open>The projection\<close>

definition CREDIT_LIMIT_LIFECYCLE_TYPES :: "string list" where
  "CREDIT_LIMIT_LIFECYCLE_TYPES =
     [''CreditLimitApplicationSubmitted'', ''CreditLimitExtensionRequested'',
      ''CreditAnalysisCompleted'', ''ISDACSAAssessmentCompleted'', ''CreditLimitProposed'',
      ''CreditLimitApproved'', ''CreditLimitLoaded'', ''CreditLimitAnnualReviewCompleted'',
      ''CreditLimitBreached'', ''CreditLimitBreachDisposed'', ''CreditLimitWithdrawn'']"

datatype credit_status = Pending | Approved | Loaded | Breached | Expired | Withdrawn

record fold_acc =
  fa_counterpartyId :: string
  fa_status :: credit_status
  fa_limitMinor :: int
  fa_currency :: string
  fa_tenor :: string
  fa_approvedAt :: "string option"
  fa_loadedAt :: "string option"
  fa_expiryDate :: "string option"
  fa_lastReviewDate :: "string option"
  fa_conditions :: "string list"
  fa_approvalAuthority :: approval_authority
  fa_lastBreachSeverity :: "breach_severity option"

definition emptyAcc :: "string \<Rightarrow> fold_acc" where
  "emptyAcc cp =
     \<lparr>fa_counterpartyId = cp, fa_status = Pending, fa_limitMinor = 0, fa_currency = ''ZAR'',
      fa_tenor = [], fa_approvedAt = None, fa_loadedAt = None, fa_expiryDate = None,
      fa_lastReviewDate = None, fa_conditions = [], fa_approvalAuthority = CRO,
      fa_lastBreachSeverity = None\<rparr>"

record credit_limit =
  cl_counterpartyId :: string
  cl_limit :: minor_money
  cl_currency :: string
  cl_tenor :: string
  cl_status :: credit_status
  cl_approvedAt :: "string option"
  cl_loadedAt :: "string option"
  cl_expiryDate :: "string option"
  cl_lastReviewDate :: "string option"
  cl_conditions :: "string list"
  cl_approvalAuthority :: approval_authority

definition materialise :: "fold_acc \<Rightarrow> credit_limit" where
  "materialise acc =
     \<lparr>cl_counterpartyId = fa_counterpartyId acc,
      cl_limit = minor (fa_limitMinor acc) (fa_currency acc),
      cl_currency = fa_currency acc, cl_tenor = fa_tenor acc, cl_status = fa_status acc,
      cl_approvedAt = fa_approvedAt acc, cl_loadedAt = fa_loadedAt acc,
      cl_expiryDate = fa_expiryDate acc, cl_lastReviewDate = fa_lastReviewDate acc,
      cl_conditions = fa_conditions acc, cl_approvalAuthority = fa_approvalAuthority acc\<rparr>"

definition applyEvent :: "fold_acc \<Rightarrow> credit_event \<Rightarrow> fold_acc" where
  "applyEvent acc event =
     (case ce_payload event of
        ApplicationSubmitted tenor currency \<Rightarrow>
          (if fa_status acc = Pending then acc\<lparr>fa_tenor := tenor, fa_currency := currency\<rparr> else acc)
      | LimitApproved limit currency tenor approvedAt authority conditions expiryDate \<Rightarrow>
          (let acc1 = acc\<lparr>fa_status := Approved, fa_limitMinor := limit, fa_currency := currency,
                         fa_tenor := tenor, fa_approvedAt := Some approvedAt,
                         fa_approvalAuthority := authority, fa_conditions := conditions\<rparr>
           in if expiryDate \<noteq> None then acc1\<lparr>fa_expiryDate := expiryDate\<rparr> else acc1)
      | LimitLoaded limit currency loadedAt \<Rightarrow>
          acc\<lparr>fa_status := Loaded, fa_limitMinor := limit, fa_currency := currency,
              fa_loadedAt := Some loadedAt\<rparr>
      | AnnualReviewCompleted reviewedAt revisedLimit currency \<Rightarrow>
          (let acc1 = acc\<lparr>fa_lastReviewDate := Some reviewedAt\<rparr>
           in if revisedLimit > 0
              then acc1\<lparr>fa_limitMinor := revisedLimit, fa_currency := currency\<rparr> else acc1)
      | LimitBreached severity \<Rightarrow>
          acc\<lparr>fa_status := Breached, fa_lastBreachSeverity := Some severity\<rparr>
      | BreachDisposed disposition \<Rightarrow>
          (let sticky = fa_lastBreachSeverity acc = Some Critical \<and> disposition = Accepted;
               acc1 = (if \<not> sticky then acc\<lparr>fa_status := Loaded\<rparr> else acc)
           in acc1\<lparr>fa_lastBreachSeverity := None\<rparr>)
      | LimitWithdrawn \<Rightarrow> acc\<lparr>fa_status := Withdrawn\<rparr>
      | _ \<Rightarrow> acc)"

definition fold_event ::
  "credit_event \<Rightarrow> (string, fold_acc) jsmap \<Rightarrow> (string, fold_acc) jsmap" where
  "fold_event event byCounterparty =
     (case ce_counterpartyId event of
        None \<Rightarrow> byCounterparty
      | Some cp \<Rightarrow>
          (if cp = [] then byCounterparty
           else jm_set cp
             (applyEvent (case jm_get byCounterparty cp of None \<Rightarrow> emptyAcc cp | Some acc \<Rightarrow> acc)
                event)
             byCounterparty))"

definition foldAll :: "credit_event list \<Rightarrow> string option \<Rightarrow> (string, fold_acc) jsmap" where
  "foldAll es asOf =
     fold (\<lambda>t m. fold fold_event (replay_type es t asOf) m) CREDIT_LIMIT_LIFECYCLE_TYPES []"

definition decorateExpiry :: "string \<Rightarrow> credit_limit \<Rightarrow> string option \<Rightarrow> credit_limit" where
  "decorateExpiry utcNow limit asOf =
     (case cl_expiryDate limit of
        None \<Rightarrow> limit
      | Some d \<Rightarrow>
          (if d = [] then limit
           else let now = take 10 (case asOf of None \<Rightarrow> utcNow | Some a \<Rightarrow> a) in
             if d < now \<and> cl_status limit \<noteq> Withdrawn then limit\<lparr>cl_status := Expired\<rparr>
             else limit))"

definition getCreditLimit ::
  "string \<Rightarrow> credit_event list \<Rightarrow> string \<Rightarrow> string option \<Rightarrow> credit_limit option" where
  "getCreditLimit utcNow es cp asOf =
     map_option (\<lambda>acc. decorateExpiry utcNow (materialise acc) asOf) (jm_get (foldAll es asOf) cp)"

definition listActiveLimits ::
  "string \<Rightarrow> credit_event list \<Rightarrow> string option \<Rightarrow> credit_limit list" where
  "listActiveLimits utcNow es asOf =
     sort_key cl_counterpartyId
       (map (\<lambda>(_, acc). decorateExpiry utcNow (materialise acc) asOf)
          (filter (\<lambda>(_, acc). fa_status acc \<noteq> Withdrawn) (foldAll es asOf)))"

definition getLimitHistory ::
  "credit_event list \<Rightarrow> string \<Rightarrow> string option \<Rightarrow> credit_event list" where
  "getLimitHistory es cp asOf =
     sort_key ce_as_of
       (concat (map (\<lambda>t. filter (\<lambda>e. ce_counterpartyId e = Some cp) (replay_type es t asOf))
          CREDIT_LIMIT_LIFECYCLE_TYPES))"

section \<open>Exposure and the pre-deal gate\<close>

definition STALE_REVIEW_DAYS :: int where
  "STALE_REVIEW_DAYS = 395"

text \<open>A JavaScript \<open>Set\<close> is the list of its elements in insertion order.\<close>

definition set_add :: "'a \<Rightarrow> 'a list \<Rightarrow> 'a list" where
  "set_add x xs = (if x \<in> set xs then xs else xs @ [x])"

definition new_set :: "'a list \<Rightarrow> 'a list" where
  "new_set xs = fold set_add xs []"

text \<open>
  The latest payload per netting set: a later event of the log replaces the held one unless its
  computation date is older.
\<close>

definition keep_latest ::
  "string \<Rightarrow> credit_event \<Rightarrow> (string, credit_payload) jsmap \<Rightarrow> (string, credit_payload) jsmap" where
  "keep_latest cp event m =
     (let p = ce_payload event in
      if ce_counterpartyId event \<noteq> Some cp then m
      else case jm_get m (p_nettingSetId p) of
        None \<Rightarrow> jm_set (p_nettingSetId p) p m
      | Some prev \<Rightarrow> if p_computationDate prev \<le> p_computationDate p then jm_set (p_nettingSetId p) p m else m)"

definition latest_per_netting_set ::
  "credit_event list \<Rightarrow> string \<Rightarrow> string \<Rightarrow> string option \<Rightarrow> (string, credit_payload) jsmap" where
  "latest_per_netting_set es t cp asOf =
     fold (keep_latest cp) (replay_type es t asOf) []"

definition add_netting_set ::
  "'d decimal_rounding \<Rightarrow> string \<Rightarrow> (string, credit_payload) jsmap
     \<Rightarrow> (string, credit_payload) jsmap \<Rightarrow> string \<Rightarrow> minor_money \<Rightarrow> limit_error + minor_money" where
  "add_netting_set D currency eads rcs nsId tot =
     (case jm_get eads nsId of
        Some ead \<Rightarrow>
          (if p_currency ead \<noteq> currency then Inr tot
           else res_bind (minorFromMoneyWire D (p_ead ead))
                  (\<lambda>m. money_add tot (minor m currency)))
      | None \<Rightarrow>
          (case jm_get rcs nsId of
             Some rc \<Rightarrow>
               (if p_currency rc \<noteq> currency then Inr tot
                else money_add tot (minor (p_rc rc) currency))
           | None \<Rightarrow> Inr tot))"

definition getCurrentExposure ::
  "'d decimal_rounding \<Rightarrow> credit_event list \<Rightarrow> string \<Rightarrow> string \<Rightarrow> string option
     \<Rightarrow> limit_error + minor_money" where
  "getCurrentExposure D es cp currency asOf =
     (let eads = latest_per_netting_set es ''CcrEadComputed'' cp asOf;
          rcs = latest_per_netting_set es ''CcrReplacementCostComputed'' cp asOf;
          nettingSetIds = new_set (map fst eads @ map fst rcs)
      in fold (\<lambda>nsId acc. res_bind acc (add_netting_set D currency eads rcs nsId))
           nettingSetIds (Inr (minor 0 currency)))"

datatype traffic_light = TGreen | TAmber | TRed | TCritical

definition trafficForUtilisation :: "rat \<Rightarrow> traffic_light" where
  "trafficForUtilisation pct = (if pct \<ge> 100 then TRed else if pct \<ge> 80 then TAmber else TGreen)"

text \<open>Integer division truncates; the scaled quotient is a count of tenths of a percent.\<close>

definition utilisationPercent :: "int \<Rightarrow> int \<Rightarrow> rat" where
  "utilisationPercent exposureMinor limitMinor =
     (if limitMinor \<le> 0 then (if exposureMinor > 0 then 1000 else 0)
      else of_int ((exposureMinor * 1000) sdiv limitMinor) / 10)"

text \<open>An unreadable date makes the difference \<open>NaN\<close>, which no comparison satisfies.\<close>

definition daysBetween :: "string \<Rightarrow> string \<Rightarrow> int option" where
  "daysBetween later earlier =
     (case (parse_day (take 10 later), parse_day (take 10 earlier)) of
        (Some a, Some b) \<Rightarrow> Some (a - b)
      | _ \<Rightarrow> None)"

definition isReviewStale :: "credit_limit \<Rightarrow> string \<Rightarrow> bool" where
  "isReviewStale limit asOf =
     (case (case cl_lastReviewDate limit of Some d \<Rightarrow> Some d | None \<Rightarrow> cl_approvedAt limit) of
        None \<Rightarrow> False
      | Some anchor \<Rightarrow>
          (if anchor = [] then False
           else case daysBetween asOf anchor of None \<Rightarrow> False | Some n \<Rightarrow> n > STALE_REVIEW_DAYS))"

datatype block_reason = CounterpartyNotApproved | CreditLimitExhausted | LimitExpired | AnnualReviewStale

record headroom_result =
  hr_counterpartyId :: string
  hr_limit :: minor_money
  hr_currentExposure :: minor_money
  hr_headroom :: minor_money
  hr_utilisationPct :: rat
  hr_traffic :: traffic_light
  hr_ok :: bool
  hr_blockReason :: "block_reason option"

definition blockedResult ::
  "string \<Rightarrow> minor_money \<Rightarrow> minor_money \<Rightarrow> block_reason \<Rightarrow> limit_error + headroom_result" where
  "blockedResult cp limit currentExposure reason =
     res_bind (money_sub limit currentExposure) (\<lambda>headroom.
       Inr \<lparr>hr_counterpartyId = cp, hr_limit = limit, hr_currentExposure = currentExposure,
            hr_headroom = headroom,
            hr_utilisationPct = utilisationPercent (mn_amount currentExposure) (mn_amount limit),
            hr_traffic = TRed, hr_ok = False, hr_blockReason = Some reason\<rparr>)"

definition headroom_of ::
  "string \<Rightarrow> minor_money \<Rightarrow> minor_money \<Rightarrow> minor_money \<Rightarrow> limit_error + headroom_result" where
  "headroom_of cp limit currentExposure proposedExposure =
     (let proposedForLimit =
            (if mn_currency proposedExposure = mn_currency limit then proposedExposure
             else minor 0 (mn_currency limit))
      in res_bind (money_add currentExposure proposedForLimit) (\<lambda>tot.
           res_bind (money_sub limit tot) (\<lambda>headroom.
             let pct = utilisationPercent (mn_amount tot) (mn_amount limit);
                 ok = mn_amount headroom > 0
             in Inr \<lparr>hr_counterpartyId = cp, hr_limit = limit,
                     hr_currentExposure = currentExposure, hr_headroom = headroom,
                     hr_utilisationPct = pct, hr_traffic = trafficForUtilisation pct, hr_ok = ok,
                     hr_blockReason = (if ok then None else Some CreditLimitExhausted)\<rparr>)))"

definition checkHeadroom ::
  "'d decimal_rounding \<Rightarrow> string \<Rightarrow> credit_event list \<Rightarrow> string \<Rightarrow> minor_money \<Rightarrow> string option
     \<Rightarrow> limit_error + headroom_result" where
  "checkHeadroom D utcNow es cp proposedExposure asOf =
     (let nowIso = (case asOf of None \<Rightarrow> utcNow | Some a \<Rightarrow> a) in
      case getCreditLimit utcNow es cp (Some nowIso) of
        None \<Rightarrow>
          (let zero = minor 0 (mn_currency proposedExposure) in
           Inr \<lparr>hr_counterpartyId = cp, hr_limit = zero, hr_currentExposure = zero,
                hr_headroom = zero, hr_utilisationPct = 0, hr_traffic = TRed, hr_ok = False,
                hr_blockReason = Some CounterpartyNotApproved\<rparr>)
      | Some limit \<Rightarrow>
          (let none = minor 0 (mn_currency (cl_limit limit)) in
           if cl_status limit = Expired then blockedResult cp (cl_limit limit) none LimitExpired
           else if cl_status limit \<noteq> Loaded
           then blockedResult cp (cl_limit limit) none CounterpartyNotApproved
           else if isReviewStale limit nowIso
           then blockedResult cp (cl_limit limit) none AnnualReviewStale
           else res_bind (getCurrentExposure D es cp (cl_currency limit) (Some nowIso))
                  (\<lambda>exposure. headroom_of cp (cl_limit limit) exposure proposedExposure)))"

section \<open>Breach detection\<close>

definition lexCapBreached :: "credit_event list \<Rightarrow> string \<Rightarrow> string option \<Rightarrow> bool" where
  "lexCapBreached es cp asOf =
     (case fold (\<lambda>event latest.
             if ce_counterpartyId event \<noteq> Some cp then latest
             else case latest of
               None \<Rightarrow> Some (ce_payload event)
             | Some l \<Rightarrow>
                 if p_computedAt l \<le> p_computedAt (ce_payload event)
                 then Some (ce_payload event) else latest)
           (replay_type es ''LexUtilisationComputed'' asOf) None of
        None \<Rightarrow> False
      | Some l \<Rightarrow> p_utilisationPct l > 25)"

record breach_payload =
  bp_counterpartyId :: string
  bp_breachId :: string
  bp_exposure :: int
  bp_limit :: int
  bp_currency :: string
  bp_severity :: breach_severity
  bp_detectedAt :: string

text \<open>The counter of the module is passed along; the result carries its new value.\<close>

definition nextBreachId :: "nat \<Rightarrow> string \<Rightarrow> string \<times> nat" where
  "nextBreachId counter asOf =
     (''CL-BREACH-'' @ take 4 asOf @ ''-'' @ padStart 3 CHR ''0'' (nat_str (counter + 1)),
      counter + 1)"

definition computeSeverity :: "credit_event list \<Rightarrow> rat \<Rightarrow> string \<Rightarrow> string \<Rightarrow> breach_severity" where
  "computeSeverity es pct cp asOf =
     (if pct \<ge> 100 \<and> lexCapBreached es cp (Some asOf) then Critical
      else if pct \<ge> 100 then Red else Amber)"

definition detect_limit ::
  "'d decimal_rounding \<Rightarrow> credit_event list \<Rightarrow> string \<Rightarrow> credit_limit \<Rightarrow> breach_payload list \<times> nat
     \<Rightarrow> limit_error + breach_payload list \<times> nat" where
  "detect_limit D es nowIso limit acc =
     (if cl_status limit \<noteq> Loaded then Inr acc
      else res_bind (getCurrentExposure D es (cl_counterpartyId limit) (cl_currency limit) (Some nowIso))
        (\<lambda>exposure.
           if mn_amount exposure = 0 then Inr acc
           else if mn_amount (cl_limit limit) \<le> 0 then Inr acc
           else
             let pct = of_int ((mn_amount exposure * 1000) sdiv mn_amount (cl_limit limit)) / 10 in
             if pct < 80 then Inr acc
             else
               let (bid, counter) = nextBreachId (snd acc) nowIso in
               Inr (fst acc @
                 [\<lparr>bp_counterpartyId = cl_counterpartyId limit, bp_breachId = bid,
                   bp_exposure = mn_amount exposure, bp_limit = mn_amount (cl_limit limit),
                   bp_currency = cl_currency limit,
                   bp_severity = computeSeverity es pct (cl_counterpartyId limit) nowIso,
                   bp_detectedAt = nowIso\<rparr>], counter)))"

definition detectBreaches ::
  "'d decimal_rounding \<Rightarrow> string \<Rightarrow> credit_event list \<Rightarrow> string option \<Rightarrow> nat
     \<Rightarrow> limit_error + breach_payload list \<times> nat" where
  "detectBreaches D utcNow es asOf counter =
     (let nowIso = (case asOf of None \<Rightarrow> utcNow | Some a \<Rightarrow> a) in
      fold (\<lambda>limit acc. res_bind acc (detect_limit D es nowIso limit))
        (listActiveLimits utcNow es (Some nowIso)) (Inr ([], counter)))"

section \<open>Large exposures\<close>

definition LEX_CAP_PCT :: rat where "LEX_CAP_PCT = 25"
definition LEX_AMBER_PCT :: rat where "LEX_AMBER_PCT = 20"

datatype lex_status = Within | AmberZone | LexBreach

definition statusFor :: "rat \<Rightarrow> lex_status" where
  "statusFor pct =
     (if pct > LEX_CAP_PCT then LexBreach else if pct > LEX_AMBER_PCT then AmberZone else Within)"

definition GROUP_KINDS :: "string set" where
  "GROUP_KINDS = {''parent-of'', ''intra-group-counterparty-of''}"

definition addEdge ::
  "(string, string list) jsmap \<Rightarrow> string \<Rightarrow> string \<Rightarrow> (string, string list) jsmap" where
  "addEdge adj a b = jm_set a (set_add b (case jm_get adj a of None \<Rightarrow> [] | Some s \<Rightarrow> s)) adj"

definition truthy_str :: "string option \<Rightarrow> bool" where
  "truthy_str s \<longleftrightarrow> s \<noteq> None \<and> s \<noteq> Some []"

definition add_relationship ::
  "credit_event \<Rightarrow> (string, string list) jsmap \<Rightarrow> (string, string list) jsmap" where
  "add_relationship event adj =
     (let p = ce_payload event in
      if \<not> truthy_str (p_from p) \<or> \<not> truthy_str (p_to p) then adj
      else let kind = (case p_kind p of Some k \<Rightarrow> Some k | None \<Rightarrow> p_relationshipKind p) in
        if \<not> truthy_str kind \<or> the kind \<notin> GROUP_KINDS then adj
        else addEdge (addEdge adj (the (p_from p)) (the (p_to p))) (the (p_to p)) (the (p_from p)))"

definition visit :: "string \<Rightarrow> string list \<times> string list \<Rightarrow> string list \<times> string list" where
  "visit n gq = (case gq of (g, q) \<Rightarrow> if n \<in> set g then (g, q) else (g @ [n], q @ [n]))"

lemma visit_fold:
  "fold visit ns (g, q) = (g', q') \<Longrightarrow>
     set g' = set g \<union> set ns \<and> (set g' = set g \<longrightarrow> q' = q)"
proof (induction ns arbitrary: g q)
  case Nil
  then show ?case by simp
next
  case (Cons n ns)
  show ?case
  proof (cases "n \<in> set g")
    case True
    then have "visit n (g, q) = (g, q)" by (simp add: visit_def)
    with Cons.prems have "fold visit ns (g, q) = (g', q')" by simp
    from Cons.IH [OF this] True show ?thesis by auto
  next
    case False
    then have "visit n (g, q) = (g @ [n], q @ [n])" by (simp add: visit_def)
    with Cons.prems have "fold visit ns (g @ [n], q @ [n]) = (g', q')" by simp
    from Cons.IH [OF this] False show ?thesis by auto
  qed
qed

definition graph_nodes :: "(string, string list) jsmap \<Rightarrow> string set" where
  "graph_nodes adj = (\<Union>(k, ns) \<in> set adj. set ns)"

lemma graph_nodes_finite [simp]: "finite (graph_nodes adj)"
  by (auto simp: graph_nodes_def)

text \<open>The breadth-first search: the queue and the group grow together until the queue is empty.\<close>

function group_search ::
  "(string, string list) jsmap \<Rightarrow> string list \<Rightarrow> string list \<Rightarrow> string list" where
  "group_search adj [] grp = grp"
| "group_search adj (node # queue) grp =
     (if node = [] then grp
      else case jm_get adj node of
        None \<Rightarrow> group_search adj queue grp
      | Some neighbours \<Rightarrow>
          (case fold visit neighbours (grp, queue) of
             (grp', queue') \<Rightarrow> group_search adj queue' grp'))"
  by pat_completeness auto
termination
proof (relation "measures [\<lambda>(adj, q, g). card (graph_nodes adj - set g), \<lambda>(adj, q, g). length q]")
  show "wf (measures [\<lambda>(adj, q, g). card (graph_nodes adj - set g), \<lambda>(adj, q, g). length q])"
    by simp
next
  fix adj :: "(string, string list) jsmap" and node :: string and queue grp :: "string list"
  show "((adj, queue, grp), adj, node # queue, grp)
      \<in> measures [\<lambda>(adj, q, g). card (graph_nodes adj - set g), \<lambda>(adj, q, g). length q]"
    by simp
next
  fix adj :: "(string, string list) jsmap" and node :: string
    and queue grp neighbours grp' queue' :: "string list"
  assume get: "jm_get adj node = Some neighbours"
    and x: "(grp', queue') = fold visit neighbours (grp, queue)"
  then have f: "set grp' = set grp \<union> set neighbours" "set grp' = set grp \<longrightarrow> queue' = queue"
    using visit_fold [OF x [symmetric]] by simp_all
  have sub: "set neighbours \<subseteq> graph_nodes adj"
    using map_of_SomeD [OF get] by (force simp: graph_nodes_def)
  show "((adj, queue', grp'), adj, node # queue, grp)
      \<in> measures [\<lambda>(adj, q, g). card (graph_nodes adj - set g), \<lambda>(adj, q, g). length q]"
  proof (cases "set grp' = set grp")
    case True
    with f show ?thesis by simp
  next
    case False
    with f sub have "graph_nodes adj - set grp' \<subset> graph_nodes adj - set grp" by blast
    then have "card (graph_nodes adj - set grp') < card (graph_nodes adj - set grp)"
      by (intro psubset_card_mono) simp_all
    then show ?thesis by simp
  qed
qed

definition resolveConnectedGroup ::
  "credit_event list \<Rightarrow> string \<Rightarrow> string option \<Rightarrow> string list" where
  "resolveConnectedGroup es cp asOf =
     (let adj = fold add_relationship (replay_type es ''PartyRelationshipAsserted'' asOf) []
      in group_search adj [cp] [cp])"

record large_exposure =
  le_counterpartyId :: string
  le_exposure :: minor_money
  le_eligibleCapital :: minor_money
  le_utilisationPct :: rat
  le_capPct :: rat
  le_status :: lex_status

definition checkLargeExposure ::
  "'d decimal_rounding \<Rightarrow> credit_event list \<Rightarrow> string \<Rightarrow> minor_money \<Rightarrow> string option
     \<Rightarrow> limit_error + large_exposure" where
  "checkLargeExposure D es cp eligibleCapital asOf =
     (let grp = resolveConnectedGroup es cp asOf;
          currency = mn_currency eligibleCapital
      in res_bind
           (fold (\<lambda>member acc. res_bind acc (\<lambda>tot.
                    res_bind (getCurrentExposure D es member currency asOf)
                      (\<lambda>e. Inr (tot + mn_amount e)))) grp (Inr 0))
           (\<lambda>totalMinor.
              let pct = utilisationPercent totalMinor (mn_amount eligibleCapital) in
              Inr \<lparr>le_counterpartyId = cp, le_exposure = minor totalMinor currency,
                   le_eligibleCapital = eligibleCapital, le_utilisationPct = pct,
                   le_capPct = LEX_CAP_PCT, le_status = statusFor pct\<rparr>))"

definition checkLargeExposureAcrossPortfolio ::
  "'d decimal_rounding \<Rightarrow> string \<Rightarrow> credit_event list \<Rightarrow> minor_money \<Rightarrow> string option
     \<Rightarrow> limit_error + large_exposure list" where
  "checkLargeExposureAcrossPortfolio D utcNow es eligibleCapital asOf =
     res_map (\<lambda>limit. checkLargeExposure D es (cl_counterpartyId limit) eligibleCapital asOf)
       (filter (\<lambda>limit. cl_status limit \<noteq> Pending) (listActiveLimits utcNow es asOf))"

end
