(* ===== verification/CreditLimitProps.thy ===== *)
theory CreditLimitProps
  imports CreditLimit
begin

text \<open>
  What the credit-limit engine guarantees: the pre-deal gate admits exactly when a loaded, fresh
  limit covers the exposure; the connected group is the reachable set of the relationship graph;
  the status a limit gets is a function of which kinds of event exist, not of their order in time,
  and the large-exposure test is one tenth of a percent coarse.
\<close>

section \<open>Rows of the projection\<close>

definition credit_key :: "credit_event \<Rightarrow> string option" where
  "credit_key e = (if ce_counterpartyId e = Some [] then None else ce_counterpartyId e)"

interpretation credit: keyed_projection credit_key fold_event
  by unfold_locales (auto simp: credit_key_def fold_event_def split: option.splits if_splits)

definition own_events ::
  "credit_event list \<Rightarrow> string option \<Rightarrow> string \<Rightarrow> string \<Rightarrow> credit_event list" where
  "own_events es asOf cp t = filter (\<lambda>e. ce_counterpartyId e = Some cp) (replay_type es t asOf)"

definition own_in_type_order ::
  "credit_event list \<Rightarrow> string option \<Rightarrow> string \<Rightarrow> credit_event list" where
  "own_in_type_order es asOf cp = concat (map (own_events es asOf cp) CREDIT_LIMIT_LIFECYCLE_TYPES)"

definition run_acc :: "fold_acc \<Rightarrow> credit_event list \<Rightarrow> fold_acc" where
  "run_acc acc xs = foldl applyEvent acc xs"

lemma run_acc_append [simp]: "run_acc acc (xs @ ys) = run_acc (run_acc acc xs) ys"
  by (simp add: run_acc_def)

lemma run_acc_Nil [simp]: "run_acc acc [] = acc"
  by (simp add: run_acc_def)

lemma run_acc_one [simp]: "run_acc acc [x] = applyEvent acc x"
  by (simp add: run_acc_def)

lemma fold_own_row:
  assumes "cp \<noteq> []" "\<forall>e \<in> set xs. credit_key e = Some cp"
  shows "jm_get (fold fold_event xs []) cp =
    (if xs = [] then None else Some (run_acc (emptyAcc cp) xs))"
  using assms(2)
proof (induction xs rule: rev_induct)
  case Nil
  then show ?case by simp
next
  case (snoc x xs)
  then have "ce_counterpartyId x = Some cp" by (auto simp: credit_key_def split: if_splits)
  with snoc assms(1) show ?case by (simp add: fold_event_def run_acc_def)
qed

lemma foldAll_row:
  assumes "cp \<noteq> []"
  shows "jm_get (foldAll es asOf) cp =
    (let own = own_in_type_order es asOf cp in
     if own = [] then None else Some (run_acc (emptyAcc cp) own))"
proof -
  have "fold (\<lambda>t m. fold fold_event (replay_type es t asOf) m) ts m =
      fold fold_event (concat (map (\<lambda>t. replay_type es t asOf) ts)) m" for ts m
    by (induction ts arbitrary: m) simp_all
  then have all: "foldAll es asOf =
      fold fold_event (concat (map (\<lambda>t. replay_type es t asOf) CREDIT_LIMIT_LIFECYCLE_TYPES)) []"
    by (simp add: foldAll_def)
  have key: "credit_key e = Some cp \<longleftrightarrow> ce_counterpartyId e = Some cp" for e
    using assms by (auto simp: credit_key_def)
  have own: "filter (\<lambda>e. credit_key e = Some cp)
      (concat (map (\<lambda>t. replay_type es t asOf) ts)) = concat (map (own_events es asOf cp) ts)" for ts
    by (induction ts) (simp_all add: own_events_def key)
  have "jm_get (foldAll es asOf) cp = jm_get (fold fold_event (own_in_type_order es asOf cp) []) cp"
    unfolding all own_in_type_order_def own [symmetric] by (rule credit.fold_own_events)
  moreover have "\<forall>e \<in> set (own_in_type_order es asOf cp). credit_key e = Some cp"
    by (auto simp: own_in_type_order_def own_events_def key)
  ultimately show ?thesis using fold_own_row [OF assms] by (simp add: Let_def)
qed

section \<open>The status is a function of the kinds of event\<close>

definition settled_status :: "string \<Rightarrow> credit_status option" where
  "settled_status t = map_of [(''CreditLimitApproved'', Approved), (''CreditLimitLoaded'', Loaded),
     (''CreditLimitBreached'', Breached), (''CreditLimitWithdrawn'', Withdrawn)] t"

lemma own_events_type: "e \<in> set (own_events es asOf cp t) \<Longrightarrow> credit_type (ce_payload e) = t"
  by (simp add: own_events_def replay_type_def)

lemma applyEvent_status:
  assumes "credit_type (ce_payload e) \<noteq> ''CreditLimitBreachDisposed''"
  shows "fa_status (applyEvent acc e) =
    (case settled_status (credit_type (ce_payload e)) of None \<Rightarrow> fa_status acc | Some s \<Rightarrow> s)"
  using assms
  by (cases "ce_payload e") (auto simp: applyEvent_def settled_status_def Let_def)

lemma run_status:
  assumes "t \<noteq> ''CreditLimitBreachDisposed''" "\<forall>e \<in> set xs. credit_type (ce_payload e) = t"
  shows "fa_status (run_acc acc xs) =
    (if xs = [] then fa_status acc
     else case settled_status t of None \<Rightarrow> fa_status acc | Some s \<Rightarrow> s)"
  using assms(2)
proof (induction xs rule: rev_induct)
  case (snoc x xs)
  with assms(1) applyEvent_status [of x "run_acc acc xs"] show ?case
    by (auto simp: split: option.splits)
qed simp

lemma applyEvent_severity:
  "credit_type (ce_payload e) \<noteq> ''CreditLimitBreachDisposed'' \<Longrightarrow>
   credit_type (ce_payload e) \<noteq> ''CreditLimitBreached'' \<Longrightarrow>
   fa_lastBreachSeverity (applyEvent acc e) = fa_lastBreachSeverity acc"
  by (cases "ce_payload e") (auto simp: applyEvent_def Let_def)

lemma run_severity:
  assumes "t \<noteq> ''CreditLimitBreachDisposed''" "t \<noteq> ''CreditLimitBreached''"
    "\<forall>e \<in> set xs. credit_type (ce_payload e) = t"
  shows "fa_lastBreachSeverity (run_acc acc xs) = fa_lastBreachSeverity acc"
  using assms(3)
  by (induction xs rule: rev_induct)
    (use assms(1,2) in \<open>auto simp: applyEvent_severity\<close>)

lemma run_breached_severity:
  assumes "\<forall>e \<in> set xs. credit_type (ce_payload e) = ''CreditLimitBreached''"
  shows "fa_lastBreachSeverity (run_acc acc xs) =
    (if xs = [] then fa_lastBreachSeverity acc else Some (p_severity (ce_payload (last xs))))"
  using assms
proof (induction xs rule: rev_induct)
  case (snoc x xs)
  then show ?case
    by (cases "ce_payload x") (simp_all add: applyEvent_def)
qed simp

definition sticky :: "breach_severity option \<Rightarrow> credit_event \<Rightarrow> bool" where
  "sticky s d \<longleftrightarrow> s = Some Critical \<and> p_disposition (ce_payload d) = Accepted"

lemma run_disposed:
  assumes "\<forall>e \<in> set xs. credit_type (ce_payload e) = ''CreditLimitBreachDisposed''" "xs \<noteq> []"
  shows "fa_lastBreachSeverity (run_acc acc xs) = None \<and>
    fa_status (run_acc acc xs) =
      (if length xs = 1 \<and> sticky (fa_lastBreachSeverity acc) (hd xs) then fa_status acc else Loaded)"
  using assms
proof (induction xs rule: rev_induct)
  case Nil
  then show ?case by simp
next
  case (snoc x xs)
  obtain d where d: "ce_payload x = BreachDisposed d"
    using snoc.prems(1) by (cases "ce_payload x") simp_all
  show ?case
  proof (cases "xs = []")
    case True
    with d show ?thesis by (simp add: run_acc_def applyEvent_def sticky_def Let_def)
  next
    case False
    with snoc have "fa_lastBreachSeverity (run_acc acc xs) = None" by simp
    with d False show ?thesis by (simp add: applyEvent_def Let_def)
  qed
qed

text \<open>
  The status as a function of the counterparty's events of each type, the events of one type in
  log order.
\<close>

definition status_by_type :: "(string \<Rightarrow> credit_event list) \<Rightarrow> credit_status" where
  "status_by_type own =
     (let breaches = own ''CreditLimitBreached''; disposals = own ''CreditLimitBreachDisposed'';
          severity = (if breaches = [] then None else Some (p_severity (ce_payload (last breaches))))
      in if own ''CreditLimitWithdrawn'' \<noteq> [] then Withdrawn
         else if disposals \<noteq> [] \<and> \<not> (length disposals = 1 \<and> sticky severity (hd disposals))
         then Loaded
         else if breaches \<noteq> [] then Breached
         else if own ''CreditLimitLoaded'' \<noteq> [] then Loaded
         else if own ''CreditLimitApproved'' \<noteq> [] then Approved
         else Pending)"

lemma own_in_type_order_split:
  "own_in_type_order es asOf cp =
     (let own = own_events es asOf cp in
      own ''CreditLimitApplicationSubmitted'' @ own ''CreditLimitExtensionRequested'' @
      own ''CreditAnalysisCompleted'' @ own ''ISDACSAAssessmentCompleted'' @
      own ''CreditLimitProposed'' @ own ''CreditLimitApproved'' @ own ''CreditLimitLoaded'' @
      own ''CreditLimitAnnualReviewCompleted'' @ own ''CreditLimitBreached'' @
      own ''CreditLimitBreachDisposed'' @ own ''CreditLimitWithdrawn'')"
  by (simp add: own_in_type_order_def CREDIT_LIMIT_LIFECYCLE_TYPES_def Let_def)

lemma run_own_status:
  "fa_status (run_acc (emptyAcc cp) (own_in_type_order es asOf cp)) =
     status_by_type (own_events es asOf cp)"
proof -
  let ?own = "own_events es asOf cp"
  define a where "a = run_acc (emptyAcc cp)
    (?own ''CreditLimitApplicationSubmitted'' @ ?own ''CreditLimitExtensionRequested'' @
     ?own ''CreditAnalysisCompleted'' @ ?own ''ISDACSAAssessmentCompleted'' @
     ?own ''CreditLimitProposed'' @ ?own ''CreditLimitApproved'' @ ?own ''CreditLimitLoaded'' @
     ?own ''CreditLimitAnnualReviewCompleted'')"
  have type: "\<forall>e \<in> set (?own t). credit_type (ce_payload e) = t" for t
    using own_events_type by blast
  have a_status: "fa_status a =
      (if ?own ''CreditLimitLoaded'' \<noteq> [] then Loaded
       else if ?own ''CreditLimitApproved'' \<noteq> [] then Approved else Pending)"
    unfolding a_def run_acc_append
    by (simp add: run_status [OF _ type] settled_status_def emptyAcc_def)
  have a_sev: "fa_lastBreachSeverity a = None"
    unfolding a_def run_acc_append by (simp add: run_severity [OF _ _ type] emptyAcc_def)
  define b where "b = run_acc a (?own ''CreditLimitBreached'')"
  have b_status: "fa_status b =
      (if ?own ''CreditLimitBreached'' \<noteq> [] then Breached else fa_status a)"
    unfolding b_def by (simp add: run_status [OF _ type] settled_status_def)
  have b_sev: "fa_lastBreachSeverity b = (if ?own ''CreditLimitBreached'' = [] then None
      else Some (p_severity (ce_payload (last (?own ''CreditLimitBreached'')))))"
    unfolding b_def by (simp add: run_breached_severity [OF type] a_sev)
  define c where "c = run_acc b (?own ''CreditLimitBreachDisposed'')"
  have c_status: "fa_status c =
      (if ?own ''CreditLimitBreachDisposed'' = [] then fa_status b
       else if length (?own ''CreditLimitBreachDisposed'') = 1 \<and>
         sticky (fa_lastBreachSeverity b) (hd (?own ''CreditLimitBreachDisposed''))
       then fa_status b else Loaded)"
    using run_disposed [of "?own ''CreditLimitBreachDisposed''" b] type by (auto simp: c_def)
  have "run_acc (emptyAcc cp) (own_in_type_order es asOf cp) =
      run_acc c (?own ''CreditLimitWithdrawn'')"
    by (simp add: own_in_type_order_split c_def b_def a_def Let_def)
  then have "fa_status (run_acc (emptyAcc cp) (own_in_type_order es asOf cp)) =
      (if ?own ''CreditLimitWithdrawn'' \<noteq> [] then Withdrawn else fa_status c)"
    by (simp add: run_status [OF _ type] settled_status_def)
  then show ?thesis
    by (auto simp: status_by_type_def Let_def c_status b_status b_sev a_status sticky_def)
qed

lemma decorateExpiry_fields [simp]:
  "cl_limit (decorateExpiry u l a) = cl_limit l"
  "cl_currency (decorateExpiry u l a) = cl_currency l"
  by (simp_all add: decorateExpiry_def Let_def split: option.split)

lemma getCreditLimit_currency:
  "getCreditLimit u es cp asOf = Some limit \<Longrightarrow> cl_currency limit = mn_currency (cl_limit limit)"
  by (auto simp: getCreditLimit_def materialise_def minor_def)

lemma own_in_type_order_empty:
  "own_in_type_order es asOf cp = [] \<longleftrightarrow>
     list_all (\<lambda>t. own_events es asOf cp t = []) CREDIT_LIMIT_LIFECYCLE_TYPES"
  by (simp add: own_in_type_order_def list_all_iff)

text \<open>
  The status of every counterparty's row is determined by its own events, taken type by type:
  which types occur, whether there is more than one disposition, the severity of the last breach
  and the kind of a single disposition.  The order of events of different types has no influence.
\<close>

theorem status_ignores_chronology:
  assumes "cp \<noteq> []"
  shows "map_option fa_status (jm_get (foldAll es asOf) cp) =
    (if list_all (\<lambda>t. own_events es asOf cp t = []) CREDIT_LIMIT_LIFECYCLE_TYPES then None
     else Some (status_by_type (own_events es asOf cp)))"
  using foldAll_row [OF assms, of es asOf] run_own_status [of cp es asOf]
  by (simp add: own_in_type_order_empty Let_def)

section \<open>The pre-deal gate\<close>

lemma guard_ok [simp]: "mn_currency a = mn_currency b \<Longrightarrow> guardSameCurrency a b = Inr ()"
  by (simp add: guardSameCurrency_def)

lemma money_add_Inr: "money_add a b = Inr c \<Longrightarrow> mn_currency c = mn_currency a"
  by (auto simp: money_add_def guardSameCurrency_def split: if_splits)

lemma minor_fields [simp]: "mn_amount (minor a c) = a" "mn_currency (minor a c) = c"
  by (simp_all add: minor_def)

lemma add_netting_set_currency:
  assumes "add_netting_set D currency eads rcs ns tot = Inr r"
  shows "mn_currency r = mn_currency tot"
  using assms
  by (auto simp: add_netting_set_def res_bind_Inr_iff dest: money_add_Inr
      split: option.splits if_splits)

lemma getCurrentExposure_currency:
  assumes "getCurrentExposure D es cp currency asOf = Inr e"
  shows "mn_currency e = currency"
proof -
  have "fold (\<lambda>ns acc. res_bind acc (add_netting_set D currency eads rcs ns)) nss acc = Inr e \<Longrightarrow>
      (\<And>a. acc = Inr a \<Longrightarrow> mn_currency a = currency) \<Longrightarrow> mn_currency e = currency"
    for nss acc eads rcs
  proof (induction nss arbitrary: acc)
    case Nil
    then show ?case by simp
  next
    case (Cons ns nss)
    from Cons.prems(1) show ?case
      by (rule Cons.IH [OF trans [OF fold_simps(2) [symmetric]]])
        (use Cons.prems(2) add_netting_set_currency in \<open>auto simp: res_bind_Inr_iff\<close>)
  qed
  from this [of _ _ "new_set _" "Inr (minor 0 currency)"] assms show ?thesis
    by (simp add: getCurrentExposure_def Let_def)
qed

definition counted_amount :: "minor_money \<Rightarrow> string \<Rightarrow> int" where
  "counted_amount m currency = (if mn_currency m = currency then mn_amount m else 0)"

lemma headroom_of_result:
  assumes "mn_currency exposure = mn_currency limit"
  shows "\<exists>r. headroom_of cp limit exposure proposed = Inr r \<and>
    mn_amount (hr_headroom r) =
      mn_amount limit - mn_amount exposure - counted_amount proposed (mn_currency limit) \<and>
    (hr_ok r \<longleftrightarrow> mn_amount (hr_headroom r) > 0) \<and> (hr_ok r \<longleftrightarrow> hr_blockReason r = None)"
  using assms
  by (auto simp: headroom_of_def money_add_def money_sub_def counted_amount_def Let_def)

lemma blockedResult_not_ok:
  "blockedResult cp limit e reason = Inr r \<Longrightarrow> \<not> hr_ok r \<and> hr_blockReason r = Some reason"
  by (auto simp: blockedResult_def res_bind_Inr_iff)

lemma blockedResult_Inr: "\<exists>r. blockedResult cp limit (minor 0 (mn_currency limit)) reason = Inr r"
  by (simp add: blockedResult_def money_sub_def)

definition now_iso :: "string \<Rightarrow> string option \<Rightarrow> string" where
  "now_iso utcNow asOf = (case asOf of None \<Rightarrow> utcNow | Some a \<Rightarrow> a)"

text \<open>
  C11. The pre-deal gate admits an exposure exactly when the counterparty has a limit whose status
  is loaded (so neither expired, breached nor withdrawn), whose last review is fresh, and whose
  amount strictly exceeds the current exposure plus the proposed exposure as far as it is in the
  limit's currency.
\<close>

theorem headroom_admits_iff:
  "(\<exists>r. checkHeadroom D utcNow es cp proposed asOf = Inr r \<and> hr_ok r) \<longleftrightarrow>
   (\<exists>limit e. getCreditLimit utcNow es cp (Some (now_iso utcNow asOf)) = Some limit \<and>
      cl_status limit = Loaded \<and> \<not> isReviewStale limit (now_iso utcNow asOf) \<and>
      getCurrentExposure D es cp (mn_currency (cl_limit limit)) (Some (now_iso utcNow asOf)) = Inr e \<and>
      mn_amount e + counted_amount proposed (mn_currency (cl_limit limit))
        < mn_amount (cl_limit limit))"
proof (cases "getCreditLimit utcNow es cp (Some (now_iso utcNow asOf))")
  case None
  then show ?thesis by (simp add: checkHeadroom_def now_iso_def Let_def)
next
  case (Some limit)
  note cur = getCreditLimit_currency [OF Some]
  show ?thesis
  proof (cases "cl_status limit = Loaded \<and> \<not> isReviewStale limit (now_iso utcNow asOf)")
    case False
    with Some show ?thesis
      by (auto simp: checkHeadroom_def now_iso_def Let_def dest: blockedResult_not_ok
          split: if_splits)
  next
    case True
    with Some have eq: "checkHeadroom D utcNow es cp proposed asOf =
        res_bind (getCurrentExposure D es cp (mn_currency (cl_limit limit))
          (Some (now_iso utcNow asOf))) (\<lambda>e. headroom_of cp (cl_limit limit) e proposed)"
      by (simp add: checkHeadroom_def now_iso_def Let_def cur)
    show ?thesis
    proof (cases "getCurrentExposure D es cp (mn_currency (cl_limit limit)) (Some (now_iso utcNow asOf))")
      case (Inl err)
      with eq Some show ?thesis by simp
    next
      case (Inr e)
      from headroom_of_result [OF getCurrentExposure_currency [OF Inr], of cp proposed]
      obtain r where "headroom_of cp (cl_limit limit) e proposed = Inr r"
        "hr_ok r \<longleftrightarrow> mn_amount (cl_limit limit) - mn_amount e
           - counted_amount proposed (mn_currency (cl_limit limit)) > 0"
        by auto
      with eq Inr Some True show ?thesis by auto
    qed
  qed
qed

text \<open>
  A proposed exposure in another currency than the limit's is counted as zero: the whole
  answer of the gate is the same for every amount.
\<close>

theorem cross_currency_proposal_ignored:
  assumes "getCreditLimit utcNow es cp (Some (now_iso utcNow asOf)) = Some limit"
    "currency \<noteq> mn_currency (cl_limit limit)"
  shows "checkHeadroom D utcNow es cp (minor a currency) asOf =
         checkHeadroom D utcNow es cp (minor b currency) asOf"
  using assms by (simp add: checkHeadroom_def now_iso_def headroom_of_def Let_def)

section \<open>The large-exposure threshold\<close>

lemma sdiv_pos: "0 < (b::int) \<Longrightarrow> 0 \<le> a \<Longrightarrow> a sdiv b = a div b"
  by (simp add: signed_divide_int_def sgn_if)

lemma div_ge_iff:
  assumes "0 < (b::int)"
  shows "k \<le> a div b \<longleftrightarrow> k * b \<le> a"
proof
  assume "k \<le> a div b"
  then have "k * b \<le> a div b * b" using assms by simp
  also have "\<dots> \<le> a" using assms by (simp add: div_times_less_eq_dividend minus_mod_eq_div_mult [symmetric])
  finally show "k * b \<le> a" .
next
  assume "k * b \<le> a"
  then have "k * b div b \<le> a div b" using assms by (rule zdiv_mono1)
  with assms show "k \<le> a div b" by simp
qed

text \<open>
  With positive capital the large-exposure status is a breach exactly from 25.1 percent of
  capital on and amber exactly from 20.1 percent to below 25.1 percent: the quotient is cut to a
  tenth of a percent before it is compared with the caps of 25 and 20 percent.
\<close>

theorem large_exposure_boundary:
  assumes "0 < capital" "0 \<le> exposure"
  shows "(statusFor (utilisationPercent exposure capital) = LexBreach \<longleftrightarrow>
            251 * capital \<le> 1000 * exposure)
    \<and> (statusFor (utilisationPercent exposure capital) = AmberZone \<longleftrightarrow>
            201 * capital \<le> 1000 * exposure \<and> 1000 * exposure < 251 * capital)"
proof -
  define k where "k = (1000 * exposure) div capital"
  have pct: "utilisationPercent exposure capital = of_int k / 10"
    using assms by (simp add: utilisationPercent_def sdiv_pos k_def mult.commute)
  have "statusFor (of_int k / 10) = LexBreach \<longleftrightarrow> 251 \<le> k"
    "statusFor (of_int k / 10) = AmberZone \<longleftrightarrow> 201 \<le> k \<and> \<not> 251 \<le> k"
    by (auto simp: statusFor_def LEX_CAP_PCT_def LEX_AMBER_PCT_def)
  moreover have "251 \<le> k \<longleftrightarrow> 251 * capital \<le> 1000 * exposure"
    "201 \<le> k \<longleftrightarrow> 201 * capital \<le> 1000 * exposure"
    using assms(1) by (simp_all add: k_def div_ge_iff)
  ultimately show ?thesis unfolding pct by (simp add: not_le)
qed

section \<open>The connected group\<close>

definition edges :: "(string, string list) jsmap \<Rightarrow> (string \<times> string) set" where
  "edges adj = {(a, b). \<exists>ns. jm_get adj a = Some ns \<and> b \<in> set ns}"

lemma visit_fold_queue:
  "fold visit ns (g, q) = (g', q') \<Longrightarrow> set q' = set q \<union> (set ns - set g) \<and> (distinct g \<longrightarrow> distinct g')"
proof (induction ns arbitrary: g q)
  case (Cons n ns)
  show ?case
  proof (cases "n \<in> set g")
    case True
    then have "visit n (g, q) = (g, q)" by (simp add: visit_def)
    with Cons.prems have "fold visit ns (g, q) = (g', q')" by simp
    from Cons.IH [OF this] True show ?thesis by auto
  next
    case False
    then have "visit n (g, q) = (g @ [n], q @ [n])" by (simp add: visit_def)
    with Cons.prems have "fold visit ns (g @ [n], q @ [n]) = (g', q')" by simp
    from Cons.IH [OF this] False show ?thesis by auto
  qed
qed simp

text \<open>The invariant of the search from the node \<open>s\<close>.\<close>

definition search_inv ::
  "(string, string list) jsmap \<Rightarrow> string \<Rightarrow> string list \<Rightarrow> string list \<Rightarrow> bool" where
  "search_inv adj s q g \<longleftrightarrow>
     s \<in> set g \<and> distinct g \<and> set q \<subseteq> set g \<and> [] \<notin> set q \<and> set g \<subseteq> (edges adj)\<^sup>* `` {s} \<and>
     (\<forall>a b. a \<in> set g \<longrightarrow> a \<notin> set q \<longrightarrow> (a, b) \<in> edges adj \<longrightarrow> b \<in> set g)"

lemma search_inv_step:
  assumes inv: "search_inv adj s (node # queue) g" and ne: "[] \<notin> graph_nodes adj"
    and get: "jm_get adj node = Some ns" and f: "fold visit ns (g, queue) = (g', q')"
  shows "search_inv adj s q' g'"
proof -
  note v = visit_fold [OF f] visit_fold_queue [OF f]
  have 1: "[] \<notin> set ns" using ne map_of_SomeD [OF get] by (force simp: graph_nodes_def)
  have 2: "set ns \<subseteq> (edges adj)\<^sup>* `` {s}"
  proof
    fix b
    assume "b \<in> set ns"
    then have "(node, b) \<in> edges adj" using get by (simp add: edges_def)
    moreover have "(s, node) \<in> (edges adj)\<^sup>*" using inv by (auto simp: search_inv_def)
    ultimately show "b \<in> (edges adj)\<^sup>* `` {s}" by (simp add: rtrancl.rtrancl_into_rtrancl)
  qed
  have 3: "\<forall>a b. a \<in> set g' \<longrightarrow> a \<notin> set q' \<longrightarrow> (a, b) \<in> edges adj \<longrightarrow> b \<in> set g'"
  proof (intro allI impI)
    fix a b
    assume a: "a \<in> set g'" "a \<notin> set q'" "(a, b) \<in> edges adj"
    show "b \<in> set g'"
    proof (cases "a = node")
      case True
      with a(3) get v(1) show ?thesis by (auto simp: edges_def)
    next
      case False
      with a(1,2) v have "a \<in> set g" "a \<notin> set (node # queue)" by auto
      with inv a(3) have "b \<in> set g" unfolding search_inv_def by blast
      with v(1) show ?thesis by blast
    qed
  qed
  have 4: "s \<in> set g" "distinct g" "set queue \<subseteq> set g" "[] \<notin> set queue"
    "set g \<subseteq> (edges adj)\<^sup>* `` {s}"
    using inv by (auto simp: search_inv_def)
  have "s \<in> set g'" "distinct g'" using 4 v by auto
  moreover have "set q' \<subseteq> set g'" "[] \<notin> set q'" using 1 4(3,4) v by auto
  moreover have "set g' \<subseteq> (edges adj)\<^sup>* `` {s}" using 2 4(5) v(1) by simp
  ultimately show ?thesis using 3 by (simp add: search_inv_def)
qed

lemma search_inv_skip:
  assumes "search_inv adj s (node # queue) g" "jm_get adj node = None"
  shows "search_inv adj s queue g"
  using assms by (auto simp: search_inv_def edges_def)

lemma group_search_closed:
  "search_inv adj s q g \<Longrightarrow> [] \<notin> graph_nodes adj \<Longrightarrow>
   set (group_search adj q g) = (edges adj)\<^sup>* `` {s} \<and> distinct (group_search adj q g)"
proof (induction adj q g rule: group_search.induct)
  case (1 adj g)
  have "b \<in> set g" if "(s, b) \<in> (edges adj)\<^sup>*" for b
    using that by (induction rule: rtrancl_induct) (use 1 in \<open>auto simp: search_inv_def\<close>)
  with 1 show ?case by (auto simp: search_inv_def)
next
  case (2 adj node queue g)
  have node: "node \<noteq> []" using "2.prems"(1) by (auto simp: search_inv_def)
  show ?case
  proof (cases "jm_get adj node")
    case None
    with 2 node search_inv_skip show ?thesis by simp
  next
    case (Some ns)
    obtain g' q' where f: "fold visit ns (g, queue) = (g', q')" by fastforce
    from "2.IH"(2) [OF node Some f [symmetric]] search_inv_step [OF "2.prems" Some f] "2.prems"(2)
      node Some f
    show ?thesis by simp
  qed
qed

text \<open>The relation the relationship events assert, in both directions.\<close>

definition asserts_link :: "credit_event \<Rightarrow> string \<Rightarrow> string \<Rightarrow> bool" where
  "asserts_link e a b \<longleftrightarrow>
     (\<exists>k. p_from (ce_payload e) = Some a \<and> p_to (ce_payload e) = Some b \<and> a \<noteq> [] \<and> b \<noteq> [] \<and>
        (case p_kind (ce_payload e) of Some l \<Rightarrow> Some l | None \<Rightarrow> p_relationshipKind (ce_payload e))
          = Some k \<and> k \<in> GROUP_KINDS)"

definition connected :: "credit_event list \<Rightarrow> string option \<Rightarrow> (string \<times> string) set" where
  "connected es asOf =
     {(a, b). \<exists>e \<in> set (replay_type es ''PartyRelationshipAsserted'' asOf).
        asserts_link e a b \<or> asserts_link e b a}"

lemma edges_addEdge: "edges (addEdge adj a b) = insert (a, b) (edges adj)"
  by (auto simp: edges_def addEdge_def set_add_def split: if_splits option.splits)

lemma group_kinds_nonempty: "[] \<notin> GROUP_KINDS"
  by (auto simp: GROUP_KINDS_def)

lemma edges_add_relationship:
  "edges (add_relationship e adj) =
     edges adj \<union> {(a, b). asserts_link e a b \<or> asserts_link e b a}"
proof (cases "\<exists>a b. asserts_link e a b")
  case True
  then obtain a b where l: "asserts_link e a b" by blast
  then have "add_relationship e adj = addEdge (addEdge adj a b) b a"
    using group_kinds_nonempty
    by (auto simp: asserts_link_def add_relationship_def truthy_str_def Let_def)
  moreover have "asserts_link e c d \<longleftrightarrow> c = a \<and> d = b" for c d
    using l by (auto simp: asserts_link_def)
  ultimately show ?thesis by (auto simp: edges_addEdge)
next
  case False
  then have "add_relationship e adj = adj"
    by (auto simp: asserts_link_def add_relationship_def truthy_str_def Let_def split: option.splits)
  with False show ?thesis by auto
qed

lemma edges_fold:
  "edges (fold add_relationship xs adj) =
     edges adj \<union> {(a, b). \<exists>e \<in> set xs. asserts_link e a b \<or> asserts_link e b a}"
  by (induction xs arbitrary: adj) (auto simp: edges_add_relationship)

lemma graph_nodes_edges:
  "jm_keys_distinct adj \<Longrightarrow> graph_nodes adj = {b. \<exists>a. (a, b) \<in> edges adj}"
  by (force simp: graph_nodes_def edges_def jm_keys_distinct_def)

lemma add_relationship_distinct:
  "jm_keys_distinct adj \<Longrightarrow> jm_keys_distinct (add_relationship e adj)"
  by (auto simp: add_relationship_def addEdge_def Let_def)

text \<open>
  C13. The connected group of a counterparty is the set of parties reachable from it over the
  group relationships asserted up to the date, in either direction and through any number of
  steps, each party once; the search ends for every log.
\<close>

theorem connected_group_is_reachable:
  "set (resolveConnectedGroup es cp asOf) = (connected es asOf)\<^sup>* `` {cp}
     \<and> distinct (resolveConnectedGroup es cp asOf)"
proof -
  let ?adj = "fold add_relationship (replay_type es ''PartyRelationshipAsserted'' asOf) []"
  have edges: "edges ?adj = connected es asOf"
    unfolding edges_fold by (simp add: connected_def edges_def)
  have "jm_keys_distinct (fold add_relationship xs adj)" if "jm_keys_distinct adj" for xs adj
    using that by (induction xs arbitrary: adj) (simp_all add: add_relationship_distinct)
  then have "graph_nodes ?adj = {b. \<exists>a. (a, b) \<in> edges ?adj}" by (intro graph_nodes_edges) simp
  then have ne: "[] \<notin> graph_nodes ?adj"
    by (auto simp: edges connected_def asserts_link_def)
  show ?thesis
  proof (cases "cp = []")
    case True
    have "b = []" if "([], b) \<in> (connected es asOf)\<^sup>*" for b
      using that by (induction rule: rtrancl_induct) (auto simp: connected_def asserts_link_def)
    with True show ?thesis by (auto simp: resolveConnectedGroup_def Let_def)
  next
    case False
    then have "search_inv ?adj cp [cp] [cp]" by (simp add: search_inv_def)
    from group_search_closed [OF this ne] show ?thesis
      by (simp add: resolveConnectedGroup_def edges Let_def)
  qed
qed

section \<open>Breach detection\<close>

text \<open>A loaded limit whose exposure reaches 80 percent of its amount.\<close>

definition over_threshold ::
  "'d decimal_rounding \<Rightarrow> credit_event list \<Rightarrow> string \<Rightarrow> credit_limit \<Rightarrow> bool" where
  "over_threshold D es nowIso limit \<longleftrightarrow>
     cl_status limit = Loaded \<and> 0 < mn_amount (cl_limit limit) \<and>
     (\<exists>e. getCurrentExposure D es (cl_counterpartyId limit) (cl_currency limit) (Some nowIso) = Inr e \<and>
        800 * mn_amount (cl_limit limit) \<le> 1000 * mn_amount e)"

lemma over_threshold_alt:
  "over_threshold D es nowIso limit \<longleftrightarrow>
     cl_status limit = Loaded \<and> 0 < mn_amount (cl_limit limit) \<and>
     (case getCurrentExposure D es (cl_counterpartyId limit) (cl_currency limit) (Some nowIso) of
        Inl x \<Rightarrow> False | Inr e \<Rightarrow> 800 * mn_amount (cl_limit limit) \<le> 1000 * mn_amount e)"
  by (auto simp: over_threshold_def split: sum.splits)

lemma sdiv_ge_iff:
  assumes "0 < (b::int)" "0 < k"
  shows "k \<le> a sdiv b \<longleftrightarrow> k * b \<le> a"
proof (cases "0 \<le> a")
  case True
  with assms show ?thesis by (simp add: sdiv_pos div_ge_iff)
next
  case False
  then have "a sdiv b \<le> 0" using assms
    by (simp add: signed_divide_int_def sgn_if pos_imp_zdiv_nonneg_iff)
  moreover have "0 < k * b" using assms by simp
  ultimately show ?thesis using False assms by linarith
qed

lemma detect_limit_result:
  assumes "detect_limit D es nowIso limit (bs, n) = Inr (bs', n')"
  shows "if over_threshold D es nowIso limit
    then n' = n + 1 \<and> (\<exists>b. bs' = bs @ [b] \<and> bp_counterpartyId b = cl_counterpartyId limit \<and>
      (bp_severity b = Amber \<longleftrightarrow> bp_exposure b < bp_limit b))
    else bs' = bs \<and> n' = n"
proof (cases "cl_status limit = Loaded")
  case False
  with assms show ?thesis by (simp add: detect_limit_def over_threshold_def)
next
  case True
  with assms obtain e where e:
    "getCurrentExposure D es (cl_counterpartyId limit) (cl_currency limit) (Some nowIso) = Inr e"
    by (auto simp: detect_limit_def res_bind_Inr_iff)
  let ?l = "mn_amount (cl_limit limit)" and ?x = "mn_amount e"
  show ?thesis
  proof (cases "?x = 0 \<or> ?l \<le> 0")
    case zero: True
    with assms True e have "bs' = bs \<and> n' = n"
      by (auto simp: detect_limit_def Let_def split: if_splits)
    moreover have "\<not> over_threshold D es nowIso limit"
      using zero e by (auto simp: over_threshold_def)
    ultimately show ?thesis by simp
  next
    case False
    define k where "k = (?x * 1000) sdiv ?l"
    have k: "800 \<le> k \<longleftrightarrow> 800 * ?l \<le> 1000 * ?x" "1000 \<le> k \<longleftrightarrow> ?l \<le> ?x"
      using False by (auto simp: k_def sdiv_ge_iff mult.commute)
    have pct: "(of_int k / 10 < (80::rat)) \<longleftrightarrow> \<not> 800 \<le> k" "(of_int k / 10 \<ge> (100::rat)) \<longleftrightarrow> 1000 \<le> k"
      by auto
    have over: "over_threshold D es nowIso limit \<longleftrightarrow> 800 \<le> k"
      using True False e k by (auto simp: over_threshold_def)
    show ?thesis
      using assms True False e over k(2) pct
      by (auto simp: detect_limit_def k_def [symmetric] Let_def computeSeverity_def nextBreachId_def
          split: if_splits)
  qed
qed

lemma detect_fold:
  assumes "fold (\<lambda>limit acc. res_bind acc (detect_limit D es nowIso limit)) limits (Inr (bs, n)) =
      Inr (bs', n')"
  shows "\<exists>new. bs' = bs @ new \<and> n' = n + length new \<and>
    map bp_counterpartyId new =
      map cl_counterpartyId (filter (over_threshold D es nowIso) limits) \<and>
    (\<forall>b \<in> set new. bp_severity b = Amber \<longleftrightarrow> bp_exposure b < bp_limit b)"
  using assms
proof (induction limits arbitrary: bs n)
  case Nil
  then show ?case by simp
next
  case (Cons limit limits)
  have stuck: "fold (\<lambda>limit acc. res_bind acc (detect_limit D es nowIso limit)) ls (Inl x) = Inl x"
    for ls x by (induction ls) simp_all
  from Cons.prems obtain bs1 n1 where one: "detect_limit D es nowIso limit (bs, n) = Inr (bs1, n1)"
    and rest: "fold (\<lambda>limit acc. res_bind acc (detect_limit D es nowIso limit)) limits
      (Inr (bs1, n1)) = Inr (bs', n')"
    by (cases "detect_limit D es nowIso limit (bs, n)") (auto simp: stuck)
  from Cons.IH [OF rest] obtain new where new: "bs' = bs1 @ new" "n' = n1 + length new"
    "map bp_counterpartyId new =
      map cl_counterpartyId (filter (over_threshold D es nowIso) limits)"
    "\<forall>b \<in> set new. bp_severity b = Amber \<longleftrightarrow> bp_exposure b < bp_limit b"
    by blast
  show ?case
  proof (cases "over_threshold D es nowIso limit")
    case True
    with detect_limit_result [OF one] obtain b where "bs1 = bs @ [b]" "n1 = n + 1"
      "bp_counterpartyId b = cl_counterpartyId limit"
      "bp_severity b = Amber \<longleftrightarrow> bp_exposure b < bp_limit b"
      by auto
    with new True show ?thesis by (intro exI [of _ "b # new"]) simp
  next
    case False
    with detect_limit_result [OF one] new show ?thesis by (intro exI [of _ new]) simp
  qed
qed

text \<open>
  C30. When breach detection returns, it reports exactly the active loaded limits whose exposure
  has reached 80 percent of the limit, in counterparty order, one report and one identifier
  each; a report is amber exactly while the exposure is below the limit.
\<close>

theorem detection_exact:
  assumes "detectBreaches D utcNow es asOf n = Inr (bs, n')"
  shows "map bp_counterpartyId bs =
      map cl_counterpartyId (filter (over_threshold D es (now_iso utcNow asOf))
        (listActiveLimits utcNow es (Some (now_iso utcNow asOf))))
    \<and> n' = n + length bs
    \<and> (\<forall>b \<in> set bs. bp_severity b = Amber \<longleftrightarrow> bp_exposure b < bp_limit b)"
proof -
  have "fold (\<lambda>limit acc. res_bind acc (detect_limit D es (now_iso utcNow asOf) limit))
      (listActiveLimits utcNow es (Some (now_iso utcNow asOf))) (Inr ([], n)) = Inr (bs, n')"
    using assms by (simp add: detectBreaches_def now_iso_def Let_def)
  from detect_fold [OF this] show ?thesis by auto
qed

section \<open>A breach after a disposition\<close>


section \<open>A worked log\<close>

definition credit_ev :: "string \<Rightarrow> credit_payload \<Rightarrow> credit_event" where
  "credit_ev d p = \<lparr>ce_id = d, ce_as_of = d, ce_counterpartyId = Some ''CP'', ce_payload = p\<rparr>"

definition credit_log :: "credit_event list" where
  "credit_log =
     [credit_ev ''2026-01-05'' (LimitApproved 1000 ''ZAR'' ''364D'' ''2026-01-05'' CRC [] None),
      credit_ev ''2026-01-06'' (LimitLoaded 1000 ''ZAR'' ''2026-01-06''),
      credit_ev ''2026-02-01'' (CcrReplacementCostComputed ''NS'' ''2026-02-01'' ''ZAR'' 900),
      credit_ev ''2026-02-01'' (LimitBreached Amber),
      credit_ev ''2026-02-03'' (BreachDisposed Remediated)]"

lemma status_ignores_chronology_witness:
  "map_option fa_status (jm_get (foldAll credit_log None) ''CP'') = Some Loaded"
proof -
  have "\<not> list_all (\<lambda>t. own_events credit_log None ''CP'' t = []) CREDIT_LIMIT_LIFECYCLE_TYPES"
    "status_by_type (own_events credit_log None ''CP'') = Loaded"
    by code_simp+
  then show ?thesis using status_ignores_chronology [of "''CP''" credit_log None] by simp
qed


definition pair_rounding :: "(int \<times> nat) decimal_rounding" where
  "pair_rounding = decimal_js.extend pair_decimal
     (decimal_rounding.fields (\<lambda>(m, k). ((2 * m + 10 ^ k) div (2 * 10 ^ k), 0)))"

lemma cross_currency_proposal_ignored_witness:
  "checkHeadroom pair_rounding ''2026-03-01'' credit_log ''CP'' (minor 1 ''USD'') None =
   checkHeadroom pair_rounding ''2026-03-01'' credit_log ''CP'' (minor 1000000 ''USD'') None"
proof -
  obtain limit where l: "getCreditLimit ''2026-03-01'' credit_log ''CP''
      (Some (now_iso ''2026-03-01'' None)) = Some limit"
    and c: "mn_currency (cl_limit limit) = ''ZAR''"
  proof -
    have "map_option (mn_currency \<circ> cl_limit) (getCreditLimit ''2026-03-01'' credit_log ''CP''
      (Some (now_iso ''2026-03-01'' None))) = Some ''ZAR''"
      by code_simp
    with that show thesis by auto
  qed
  show ?thesis by (rule cross_currency_proposal_ignored [OF l]) (simp add: c)
qed

lemma large_exposure_boundary_witness:
  "statusFor (utilisationPercent 2509 10000) = AmberZone \<and>
   statusFor (utilisationPercent 2510 10000) = LexBreach"
  using large_exposure_boundary [of 10000 2509] large_exposure_boundary [of 10000 2510] by simp

definition credit_log_limit :: credit_limit where
  "credit_log_limit =
     \<lparr>cl_counterpartyId = ''CP'', cl_limit = minor 1000 ''ZAR'', cl_currency = ''ZAR'',
      cl_tenor = ''364D'', cl_status = Loaded, cl_approvedAt = Some ''2026-01-05'',
      cl_loadedAt = Some ''2026-01-06'', cl_expiryDate = None, cl_lastReviewDate = None,
      cl_conditions = [], cl_approvalAuthority = CRC\<rparr>"

lemma credit_log_active:
  "listActiveLimits ''2026-03-01'' credit_log (Some ''2026-03-01'') = [credit_log_limit]"
  by code_simp

lemma credit_log_exposure:
  "getCurrentExposure D credit_log ''CP'' ''ZAR'' (Some ''2026-03-01'') = Inr (minor 900 ''ZAR'')"
proof -
  have "latest_per_netting_set credit_log ''CcrEadComputed'' ''CP'' (Some ''2026-03-01'') = []"
    "latest_per_netting_set credit_log ''CcrReplacementCostComputed'' ''CP'' (Some ''2026-03-01'') =
       [(''NS'', CcrReplacementCostComputed ''NS'' ''2026-02-01'' ''ZAR'' 900)]"
    by code_simp+
  then show ?thesis
    by (simp add: getCurrentExposure_def new_set_def set_add_def add_netting_set_def
        money_add_def minor_def)
qed

lemma detection_exact_witness:
  "\<exists>bs n'. detectBreaches pair_rounding ''2026-03-01'' credit_log None 0 = Inr (bs, n') \<and>
     map bp_counterpartyId bs = [''CP''] \<and> n' = 1"
proof -
  note limit = credit_log_limit_def
  have "\<exists>bs n'. detectBreaches pair_rounding ''2026-03-01'' credit_log None 0 = Inr (bs, n')"
    by (simp add: detectBreaches_def credit_log_active detect_limit_def credit_log_exposure
        nextBreachId_def Let_def limit)
  then obtain bs n' where d:
    "detectBreaches pair_rounding ''2026-03-01'' credit_log None 0 = Inr (bs, n')"
    by auto
  have "over_threshold pair_rounding credit_log ''2026-03-01'' credit_log_limit"
    by (simp add: over_threshold_alt credit_log_exposure limit)
  then have "map cl_counterpartyId (filter (over_threshold pair_rounding credit_log ''2026-03-01'')
      (listActiveLimits ''2026-03-01'' credit_log (Some ''2026-03-01''))) = [''CP'']"
    by (simp add: credit_log_active limit)
  with detection_exact [OF d] d show ?thesis by (auto simp: now_iso_def)
qed
end
