(* ===== verification/CronSchedule.thy ===== *)
theory CronSchedule
  imports CivilDate
begin

text \<open>
  Cron expressions (\<open>platform/scheduler/cron-parse.ts\<close>): the parser of the five fields and the
  scan for the next firing minute.  A parsed field is the list of its values.  An alias lookup
  reads own keys only; the inherited names \<open>constructor\<close> and \<open>__proto__\<close>, which the source's
  lookup would find on the alias tables, are left out.
\<close>

section \<open>Parsing\<close>

datatype cron_error =
    EmptyField
  | InvalidStep string
  | StepNotPositive string
  | UnrecognisedToken string
  | RangeReversed string
  | OutOfRange string
  | NoValues string
  | WrongFieldCount nat
  | NoFireTime string

record field_bounds =
  fb_min :: nat
  fb_max :: nat
  fb_aliases :: "(string \<times> nat) list"

definition DOW_ALIASES :: "(string \<times> nat) list" where
  "DOW_ALIASES = [(''sun'', 0), (''mon'', 1), (''tue'', 2), (''wed'', 3), (''thu'', 4),
     (''fri'', 5), (''sat'', 6)]"

definition MONTH_ALIASES :: "(string \<times> nat) list" where
  "MONTH_ALIASES = [(''jan'', 1), (''feb'', 2), (''mar'', 3), (''apr'', 4), (''may'', 5),
     (''jun'', 6), (''jul'', 7), (''aug'', 8), (''sep'', 9), (''oct'', 10), (''nov'', 11),
     (''dec'', 12)]"

definition FIELD_BOUNDS :: "field_bounds list" where
  "FIELD_BOUNDS =
     [\<lparr>fb_min = 0, fb_max = 59, fb_aliases = []\<rparr>,
      \<lparr>fb_min = 0, fb_max = 23, fb_aliases = []\<rparr>,
      \<lparr>fb_min = 1, fb_max = 31, fb_aliases = []\<rparr>,
      \<lparr>fb_min = 1, fb_max = 12, fb_aliases = MONTH_ALIASES\<rparr>,
      \<lparr>fb_min = 0, fb_max = 6, fb_aliases = DOW_ALIASES\<rparr>]"

record parsed_cron =
  pc_raw :: string
  pc_minute :: "nat list"
  pc_hour :: "nat list"
  pc_dayOfMonth :: "nat list"
  pc_month :: "nat list"
  pc_dayOfWeek :: "nat list"
  pc_dayOfMonthIsWildcard :: bool
  pc_dayOfWeekIsWildcard :: bool

definition resolveToken :: "string \<Rightarrow> field_bounds \<Rightarrow> cron_error + nat" where
  "resolveToken token bounds =
     (if all_digits token then Inr (parse_nat token)
      else case map_of (fb_aliases bounds) (map to_lower token) of
        Some n \<Rightarrow> Inr n
      | None \<Rightarrow> Inl (UnrecognisedToken token))"

text \<open>The loop \<open>for (let v = from; v <= to; v += step)\<close>; the step is positive where it is called.\<close>

function cron_range :: "nat \<Rightarrow> nat \<Rightarrow> nat \<Rightarrow> nat list" where
  "cron_range v hi st = (if v \<le> hi \<and> 0 < st then v # cron_range (v + st) hi st else [])"
  by auto
termination by (relation "measure (\<lambda>(v, hi, st). hi + 1 - v)") auto

declare cron_range.simps [simp del]

definition piece_step :: "string \<Rightarrow> cron_error + string \<times> nat \<times> bool" where
  "piece_step piece =
     (case split_first CHR ''/'' piece of
        None \<Rightarrow> Inr (piece, 1, False)
      | Some (body, stepStr) \<Rightarrow>
          (if \<not> all_digits stepStr then Inl (InvalidStep piece)
           else if parse_nat stepStr \<le> 0 then Inl (StepNotPositive piece)
           else Inr (body, parse_nat stepStr, True)))"

definition set_insert :: "'a list \<Rightarrow> 'a \<Rightarrow> 'a list" where
  "set_insert xs x = (if x \<in> set xs then xs else xs @ [x])"

definition add_range ::
  "string \<Rightarrow> field_bounds \<Rightarrow> nat \<Rightarrow> nat list \<Rightarrow> nat \<Rightarrow> nat \<Rightarrow> cron_error + nat list" where
  "add_range piece bounds st acc lo hi =
     (if lo < fb_min bounds \<or> lo > fb_max bounds \<or> hi < fb_min bounds \<or> hi > fb_max bounds
      then Inl (OutOfRange piece)
      else Inr (foldl set_insert acc (cron_range lo hi st)))"

definition parsePiece :: "string \<Rightarrow> field_bounds \<Rightarrow> nat list \<Rightarrow> cron_error + nat list" where
  "parsePiece piece bounds acc =
     res_bind (piece_step piece) (\<lambda>(body, st, slashed).
       if body = ''*'' then add_range piece bounds st acc (fb_min bounds) (fb_max bounds)
       else case split_first CHR ''-'' body of
         Some (a, b) \<Rightarrow>
           res_bind (resolveToken a bounds) (\<lambda>lo.
             res_bind (resolveToken b bounds) (\<lambda>hi.
               if lo > hi then Inl (RangeReversed piece)
               else add_range piece bounds st acc lo hi))
       | None \<Rightarrow>
           res_bind (resolveToken body bounds) (\<lambda>single.
             if \<not> slashed
             then (if single < fb_min bounds \<or> single > fb_max bounds then Inl (OutOfRange piece)
                   else Inr (set_insert acc single))
             else add_range piece bounds st acc single (fb_max bounds)))"

definition parseField :: "string \<Rightarrow> field_bounds \<Rightarrow> cron_error + nat list \<times> bool" where
  "parseField spec bounds =
     (let trimmed = trim spec in
      if trimmed = [] then Inl EmptyField
      else
        res_bind
          (foldl (\<lambda>acc piece. res_bind acc (parsePiece piece bounds)) (Inr [])
             (map trim (split_on CHR '','' trimmed)))
          (\<lambda>vals. if vals = [] then Inl (NoValues spec) else Inr (sort vals, trimmed = ''*'')))"

text \<open>\<open>split(/\s+/)\<close>.\<close>

function split_ws :: "string \<Rightarrow> string list" where
  "split_ws s =
     (case dropWhile (\<lambda>c. \<not> is_js_space c) s of
        [] \<Rightarrow> [s]
      | c # r \<Rightarrow> takeWhile (\<lambda>c. \<not> is_js_space c) s # split_ws (dropWhile is_js_space r))"
  by auto
termination
proof (relation "measure length")
  fix s r :: string and c
  assume d: "dropWhile (\<lambda>c. \<not> is_js_space c) s = c # r"
  have "length (dropWhile is_js_space r) \<le> length r" by (rule length_dropWhile_le)
  also have "\<dots> < length (c # r)" by simp
  also have "\<dots> \<le> length s" using length_dropWhile_le [of "\<lambda>c. \<not> is_js_space c" s] d by simp
  finally show "(dropWhile is_js_space r, s) \<in> measure length" by simp
qed simp

declare split_ws.simps [simp del]

definition parseCron :: "string \<Rightarrow> cron_error + parsed_cron" where
  "parseCron expression =
     (case split_ws (trim expression) of
        [minStr, hourStr, domStr, monthStr, dowStr] \<Rightarrow>
          res_bind (parseField minStr (FIELD_BOUNDS ! 0)) (\<lambda>minute.
          res_bind (parseField hourStr (FIELD_BOUNDS ! 1)) (\<lambda>hour.
          res_bind (parseField domStr (FIELD_BOUNDS ! 2)) (\<lambda>dayOfMonth.
          res_bind (parseField monthStr (FIELD_BOUNDS ! 3)) (\<lambda>month.
          res_bind (parseField dowStr (FIELD_BOUNDS ! 4)) (\<lambda>dayOfWeek.
            Inr \<lparr>pc_raw = expression, pc_minute = fst minute, pc_hour = fst hour,
                 pc_dayOfMonth = fst dayOfMonth, pc_month = fst month,
                 pc_dayOfWeek = fst dayOfWeek, pc_dayOfMonthIsWildcard = snd dayOfMonth,
                 pc_dayOfWeekIsWildcard = snd dayOfWeek\<rparr>)))))
      | other \<Rightarrow> Inl (WrongFieldCount (length other)))"

section \<open>The next firing minute\<close>

definition dateMatchesDayRules :: "parsed_cron \<Rightarrow> nat \<Rightarrow> nat \<Rightarrow> bool" where
  "dateMatchesDayRules parsed day dow =
     (let domMatch = day \<in> set (pc_dayOfMonth parsed);
          dowMatch = dow \<in> set (pc_dayOfWeek parsed)
      in if pc_dayOfMonthIsWildcard parsed \<and> pc_dayOfWeekIsWildcard parsed then True
         else if pc_dayOfMonthIsWildcard parsed then dowMatch
         else if pc_dayOfWeekIsWildcard parsed then domMatch
         else domMatch \<or> dowMatch)"

text \<open>One iteration of the scan: \<open>None\<close> where the candidate is returned, else the next one.\<close>

definition cron_advance :: "parsed_cron \<Rightarrow> int \<Rightarrow> int option" where
  "cron_advance parsed t =
     (let month = getUTCMonth t + 1; day = getUTCDate t; dow = getUTCDay t;
          hour = getUTCHours t; minute = getUTCMinutes t; y = getUTCFullYear t; m0 = getUTCMonth t
      in if month \<notin> set (pc_month parsed) then Some (date_utc y (m0 + 1) 1 0 0 0 0)
         else if \<not> dateMatchesDayRules parsed day dow then Some (date_utc y m0 (day + 1) 0 0 0 0)
         else if hour \<notin> set (pc_hour parsed) then
           (case find (\<lambda>h. h > hour) (pc_hour parsed) of
              Some nextHour \<Rightarrow> Some (date_utc y m0 day nextHour 0 0 0)
            | None \<Rightarrow> Some (date_utc y m0 (day + 1) 0 0 0 0))
         else if minute \<notin> set (pc_minute parsed) then
           (case find (\<lambda>m. m > minute) (pc_minute parsed) of
              Some nextMin \<Rightarrow> Some (date_utc y m0 day hour nextMin 0 0)
            | None \<Rightarrow> Some (date_utc y m0 day (hour + 1) 0 0 0))
         else None)"

section \<open>The scan moves forward\<close>

lemma date_utc_next_month:
  "date_utc (getUTCFullYear t) (getUTCMonth t + 1) 1 0 0 0 0 =
     (make_day (year_of_day (day_of t)) (month_of_day (day_of t)) 1
        + int (days_in_month (year_of_day (day_of t)) (month_of_day (day_of t)))) * MS_PER_DAY"
proof -
  let ?y = "year_of_day (day_of t)" and ?m = "month_of_day (day_of t)"
  note m = month_bounds [of "day_of t"]
  have "make_day (?y + int (?m div 12)) (?m mod 12 + 1) 1 = make_day ?y (?m + 1) 1"
  proof (cases "?m = 12")
    case True
    then show ?thesis using next_year [of ?y 1] by simp
  next
    case False
    with m have "?m div 12 = 0" "?m mod 12 = ?m" by auto
    then show ?thesis by simp
  qed
  with m next_month [OF m, of ?y] show ?thesis
    by (simp add: date_utc_def getUTCFullYear_def getUTCMonth_def)
qed

lemma month_ahead:
  "day_of t + 1 \<le> make_day (year_of_day (day_of t)) (month_of_day (day_of t)) 1
     + int (days_in_month (year_of_day (day_of t)) (month_of_day (day_of t)))"
  using civil_of_day [of "day_of t"] by (simp add: make_day_def)

lemma find_gt: "find (\<lambda>h. h > k) xs = Some (n::nat) \<Longrightarrow> k < n"
  using find_mem by force

lemma cron_advance_forward:
  assumes "cron_advance parsed t = Some t'"
  shows "t < t'"
proof -
  note t = time_split [of t] day_bounds [of t]
  have month: "t < date_utc (getUTCFullYear t) (getUTCMonth t + 1) 1 0 0 0 0"
    unfolding date_utc_next_month
    by (rule less_le_trans [OF day_bounds(2)]) (rule mult_right_mono [OF month_ahead], simp)
  have day: "t < date_utc (getUTCFullYear t) (getUTCMonth t) (getUTCDate t + 1) 0 0 0 0"
    unfolding date_utc_next_day by (rule day_bounds(2))
  have hour: "t < date_utc (getUTCFullYear t) (getUTCMonth t) (getUTCDate t) h 0 0 0"
    if "getUTCHours t < h" for h
    using t that by (simp add: date_utc_same_day)
  have minute: "t < date_utc (getUTCFullYear t) (getUTCMonth t) (getUTCDate t) (getUTCHours t) m 0 0"
    if "getUTCMinutes t < m" for m
    using t that by (simp add: date_utc_same_day)
  from assms month day hour minute show ?thesis
    by (auto simp: cron_advance_def Let_def dest: find_gt split: if_splits option.splits)
qed

function cron_scan :: "parsed_cron \<Rightarrow> int \<Rightarrow> int \<Rightarrow> int option" where
  "cron_scan parsed end_time t =
     (if t \<le> end_time then
        (case cron_advance parsed t of
           None \<Rightarrow> Some t
         | Some t' \<Rightarrow> cron_scan parsed end_time t')
      else None)"
  by auto
termination
  by (relation "measure (\<lambda>(parsed, end_time, t). nat (end_time + 1 - t))")
    (auto dest: cron_advance_forward)

declare cron_scan.simps [simp del]

definition nextFireAfter :: "parsed_cron \<Rightarrow> int \<Rightarrow> nat \<Rightarrow> cron_error + int" where
  "nextFireAfter parsed start lookAhead =
     (let t0 = start - start mod 60000 + 60 * 1000;
          end_time = start + int lookAhead * MS_PER_DAY
      in case cron_scan parsed end_time t0 of
           Some t \<Rightarrow> Inr t
         | None \<Rightarrow> Inl (NoFireTime (pc_raw parsed)))"

definition DEFAULT_LOOK_AHEAD :: nat where
  "DEFAULT_LOOK_AHEAD = 366 * 4"


section \<open>Parsed fields are well formed\<close>

definition field_ok :: "field_bounds \<Rightarrow> nat list \<Rightarrow> bool" where
  "field_ok b vals \<longleftrightarrow>
     vals \<noteq> [] \<and> sorted vals \<and> distinct vals \<and> (\<forall>v \<in> set vals. fb_min b \<le> v \<and> v \<le> fb_max b)"

definition collected_ok :: "field_bounds \<Rightarrow> nat list \<Rightarrow> bool" where
  "collected_ok b vals \<longleftrightarrow> distinct vals \<and> (\<forall>v \<in> set vals. fb_min b \<le> v \<and> v \<le> fb_max b)"

lemma cron_range_set:
  "0 < st \<Longrightarrow> set (cron_range lo hi st) = {lo + k * st | k. lo + k * st \<le> hi}"
proof (induction lo hi st rule: cron_range.induct)
  case (1 v hi st)
  show ?case
  proof (cases "v \<le> hi")
    case True
    with 1 have IH: "set (cron_range (v + st) hi st) = {v + st + k * st | k. v + st + k * st \<le> hi}"
      by simp
    have "{v + k * st | k. v + k * st \<le> hi} =
        insert v {v + st + k * st | k. v + st + k * st \<le> hi}" (is "?A = ?B")
    proof
      show "?A \<subseteq> ?B"
      proof
        fix x
        assume "x \<in> ?A"
        then obtain k where k: "x = v + k * st" "x \<le> hi" by auto
        then show "x \<in> ?B" by (cases k) (auto simp: algebra_simps)
      qed
      show "?B \<subseteq> ?A"
      proof
        fix x
        assume "x \<in> ?B"
        then consider "x = v" | k where "x = v + Suc k * st" "x \<le> hi" by (auto simp: algebra_simps)
        then show "x \<in> ?A"
        proof cases
          case 1
          with True show ?thesis by (auto intro: exI [of _ 0])
        next
          case 2
          then show ?thesis by blast
        qed
      qed
    qed
    with IH True 1 show ?thesis by (subst cron_range.simps) simp
  next
    case False
    then show ?thesis by (subst cron_range.simps) auto
  qed
qed

lemma set_insert_fold:
  "set (foldl set_insert acc xs) = set acc \<union> set xs \<and>
   (distinct acc \<longrightarrow> distinct (foldl set_insert acc xs))"
  by (induction xs arbitrary: acc) (auto simp: set_insert_def)

lemma add_range_ok:
  assumes "add_range piece b st acc lo hi = Inr vals" "collected_ok b acc" "0 < st"
  shows "collected_ok b vals"
  using assms set_insert_fold [of acc "cron_range lo hi st"]
  by (auto simp: add_range_def collected_ok_def cron_range_set split: if_splits)

lemma parsePiece_ok:
  assumes "parsePiece piece b acc = Inr vals" "collected_ok b acc"
  shows "collected_ok b vals"
proof -
  from assms(1) obtain body st slashed where p: "piece_step piece = Inr (body, st, slashed)"
    by (auto simp: parsePiece_def res_bind_Inr_iff)
  then have st: "0 < st"
    by (auto simp: piece_step_def split: option.splits if_splits)
  from assms(1) p have "(\<exists>lo hi. add_range piece b st acc lo hi = Inr vals) \<or>
      (\<exists>x. vals = set_insert acc x \<and> fb_min b \<le> x \<and> x \<le> fb_max b)"
    by (auto simp: parsePiece_def res_bind_Inr_iff split: if_splits option.splits)
  then show ?thesis
    using add_range_ok [OF _ assms(2) st] assms(2)
    by (auto simp: set_insert_def collected_ok_def split: if_splits)
qed

lemma parseField_ok:
  assumes "parseField spec b = Inr (vals, w)"
  shows "field_ok b vals"
proof -
  have run: "foldl (\<lambda>acc piece. res_bind acc (parsePiece piece b)) acc ps = Inr vs \<Longrightarrow>
      (\<And>a. acc = Inr a \<Longrightarrow> collected_ok b a) \<Longrightarrow> collected_ok b vs" for acc ps vs
  proof (induction ps arbitrary: acc)
    case (Cons piece ps)
    from Cons.prems(1) have "foldl (\<lambda>acc piece. res_bind acc (parsePiece piece b))
        (res_bind acc (parsePiece piece b)) ps = Inr vs"
      by simp
    then show ?case
      by (rule Cons.IH) (use Cons.prems(2) parsePiece_ok in \<open>auto simp: res_bind_Inr_iff\<close>)
  qed simp
  from assms obtain vs where
    "foldl (\<lambda>acc piece. res_bind acc (parsePiece piece b)) (Inr [])
       (map trim (split_on CHR '','' (trim spec))) = Inr vs" "vs \<noteq> []" "vals = sort vs"
    by (auto simp: parseField_def Let_def res_bind_Inr_iff split: if_splits)
  moreover from \<open>vs \<noteq> []\<close> have "sort vs \<noteq> []" by (metis length_0_conv length_sort)
  ultimately show ?thesis
    using run [of "Inr []" _ vs] by (auto simp: field_ok_def collected_ok_def)
qed

text \<open>Every field of a parsed expression, with its bounds.\<close>

definition cron_ok :: "parsed_cron \<Rightarrow> bool" where
  "cron_ok p \<longleftrightarrow>
     list_all (\<lambda>(b, vals). field_ok b vals)
       (zip FIELD_BOUNDS [pc_minute p, pc_hour p, pc_dayOfMonth p, pc_month p, pc_dayOfWeek p])"

lemma parseCron_fields: "parseCron s = Inr p \<Longrightarrow> cron_ok p"
  by (auto simp: parseCron_def res_bind_Inr_iff cron_ok_def FIELD_BOUNDS_def dest!: parseField_ok
      split: list.splits)

text \<open>
  Every field of an expression the parser accepts is a non-empty, strictly increasing list
  of values within the bounds of the field.
\<close>

theorem parsed_cron_fields_ok: "parseCron s = Inr p \<Longrightarrow> cron_ok p"
  by (rule parseCron_fields)

section \<open>The scan finds the least firing minute\<close>

text \<open>The instants an expression fires at, read off the calendar directly.\<close>

definition fires :: "parsed_cron \<Rightarrow> int \<Rightarrow> bool" where
  "fires p t \<longleftrightarrow>
     t mod 60000 = 0 \<and> getUTCMonth t + 1 \<in> set (pc_month p) \<and>
     dateMatchesDayRules p (getUTCDate t) (getUTCDay t) \<and>
     getUTCHours t \<in> set (pc_hour p) \<and> getUTCMinutes t \<in> set (pc_minute p)"

lemma same_day_until_midnight:
  "t \<le> u \<Longrightarrow> u < (day_of t + 1) * MS_PER_DAY \<Longrightarrow> day_of u = day_of t"
  by (rule day_of_unique [OF order_trans [OF day_bounds(1)]])

lemma same_month_until_first:
  assumes "t \<le> u" "u < date_utc (getUTCFullYear t) (getUTCMonth t + 1) 1 0 0 0 0"
  shows "getUTCMonth u = getUTCMonth t"
proof -
  let ?y = "year_of_day (day_of t)" and ?m = "month_of_day (day_of t)"
  have "day_of t \<le> day_of u" unfolding day_of_def using assms(1) by (rule zdiv_mono1) simp
  moreover have "make_day ?y ?m 1 \<le> day_of t"
    using civil_of_day [of "day_of t"] by (simp add: make_day_def)
  moreover have "day_of u < make_day ?y ?m 1 + int (days_in_month ?y ?m)"
  proof -
    have "day_of u * MS_PER_DAY < (make_day ?y ?m 1 + int (days_in_month ?y ?m)) * MS_PER_DAY"
      using order_le_less_trans [OF day_bounds(1) assms(2)] unfolding date_utc_next_month .
    then show ?thesis by simp
  qed
  ultimately have "month_of_day (day_of u) = ?m"
    using civil_unique [OF month_bounds, of ?y "day_of t" "day_of u"] by simp
  then show ?thesis by (simp add: getUTCMonth_def)
qed

lemma first_greater:
  assumes "sorted xs" "find (\<lambda>h. h > k) xs = Some (n::nat)" "x \<in> set xs" "k < x"
  shows "n \<le> x"
  using assms by (induction xs) (auto split: if_splits)

lemma no_greater: "find (\<lambda>h. h > k) xs = None \<Longrightarrow> x \<in> set xs \<Longrightarrow> x \<le> (k::nat)"
  by (auto simp: find_None_iff not_less)

lemma skip_to_next:
  assumes "sorted xs" "find (\<lambda>h. h > k) xs = Some (n::nat)" "k \<notin> set xs" "x \<in> set xs" "k \<le> x"
  shows "n \<le> x"
proof -
  from assms(3-5) have "k < x" by (cases "k = x") auto
  with assms(1,2,4) first_greater show ?thesis by blast
qed

lemma skip_past_last:
  assumes "find (\<lambda>h. h > k) xs = None" "k \<notin> set xs" "x \<in> set xs"
  shows "x < (k::nat)"
proof -
  from assms(2,3) have "x \<noteq> k" by auto
  with no_greater [OF assms(1,3)] show ?thesis by simp
qed

lemma hours_between:
  assumes "day_of u = day_of t" "t \<le> u" "u < day_of t * MS_PER_DAY + int n * 3600000"
  shows "getUTCHours t \<le> getUTCHours u \<and> getUTCHours u < n"
  using assms time_split [of t] time_split [of u] by linarith

lemma minutes_between:
  assumes "day_of u = day_of t" "t \<le> u"
    "u < day_of t * MS_PER_DAY + int (getUTCHours t) * 3600000 + int n * 60000" "n \<le> 60"
  shows "getUTCHours u = getUTCHours t \<and> getUTCMinutes t \<le> getUTCMinutes u \<and> getUTCMinutes u < n"
proof -
  have "getUTCHours u \<le> getUTCHours t" "getUTCHours t \<le> getUTCHours u"
    using assms time_split [of t] time_split [of u] by linarith+
  then have h: "getUTCHours u = getUTCHours t" by simp
  then show ?thesis using assms time_split [of t] time_split [of u] by linarith
qed

text \<open>An iteration skips no firing minute and keeps whole minutes.\<close>

lemma cron_advance_skips:
  assumes ok: "cron_ok p" and adv: "cron_advance p t = Some t'"
    and u: "t \<le> u" "u < t'"
  shows "\<not> fires p u"
proof
  assume f: "fires p u"
  have sorted: "sorted (pc_hour p)" "sorted (pc_minute p)"
    and bound: "\<forall>h \<in> set (pc_hour p). h \<le> 23" "\<forall>m \<in> set (pc_minute p). m \<le> 59"
    using ok by (simp_all add: cron_ok_def FIELD_BOUNDS_def field_ok_def)
  let ?y = "getUTCFullYear t" and ?m = "getUTCMonth t" and ?d = "getUTCDate t"
  show False
  proof (cases "?m + 1 \<in> set (pc_month p)")
    case False
    then have "t' = date_utc ?y (?m + 1) 1 0 0 0 0"
      using adv by (simp add: cron_advance_def Let_def)
    then have "getUTCMonth u = ?m" using same_month_until_first [OF u(1)] u(2) by simp
    with f False show False by (simp add: fires_def)
  next
    case month: True
    have day_case: False if "day_of u = day_of t" "\<not> dateMatchesDayRules p ?d (getUTCDay t)"
      using f that by (simp add: fires_def getUTCDate_def getUTCDay_def)
    show False
    proof (cases "dateMatchesDayRules p ?d (getUTCDay t)")
      case False
      then have "t' = date_utc ?y ?m (?d + 1) 0 0 0 0"
        using adv month by (simp add: cron_advance_def Let_def)
      then have "t' = (day_of t + 1) * MS_PER_DAY" by (simp only: date_utc_next_day)
      with u same_day_until_midnight have "day_of u = day_of t" by blast
      with day_case False show False by blast
    next
      case day: True
      show False
      proof (cases "getUTCHours t \<in> set (pc_hour p)")
        case False
        show False
        proof (cases "find (\<lambda>h. h > getUTCHours t) (pc_hour p)")
          case (Some n)
          then have "t' = date_utc ?y ?m ?d n 0 0 0"
            using adv month day False by (simp add: cron_advance_def Let_def)
          then have t': "t' = day_of t * MS_PER_DAY + int n * 3600000"
            by (simp add: date_utc_same_day)
          have "n \<le> 23" using find_mem [OF Some] bound(1) by simp
          then have same: "day_of u = day_of t"
            using u t' by (intro same_day_until_midnight) (simp_all add: algebra_simps)
          from hours_between [OF same u(1)] u(2) t'
          have "getUTCHours t \<le> getUTCHours u" "getUTCHours u < n" by simp_all
          moreover have "getUTCHours u \<in> set (pc_hour p)" using f by (simp add: fires_def)
          ultimately show False using skip_to_next [OF sorted(1) Some False] by fastforce
        next
          case None
          then have "t' = date_utc ?y ?m (?d + 1) 0 0 0 0"
            using adv month day False by (simp add: cron_advance_def Let_def)
          then have "t' = (day_of t + 1) * MS_PER_DAY" by (simp only: date_utc_next_day)
          with u same_day_until_midnight have same: "day_of u = day_of t" by blast
          from hours_between [OF same u(1), of 24] time_split(2) [of u] day_bounds [of u] same
          have "getUTCHours t \<le> getUTCHours u" by (simp add: algebra_simps)
          moreover have "getUTCHours u \<in> set (pc_hour p)" using f by (simp add: fires_def)
          ultimately show False using skip_past_last [OF None False] by fastforce
        qed
      next
        case hour: True
        have minute: "getUTCMinutes t \<notin> set (pc_minute p)"
          using adv month day hour by (auto simp: cron_advance_def Let_def split: if_splits)
        show False
        proof (cases "find (\<lambda>m. m > getUTCMinutes t) (pc_minute p)")
          case (Some n)
          then have "t' = date_utc ?y ?m ?d (getUTCHours t) n 0 0"
            using adv month day hour minute by (simp add: cron_advance_def Let_def)
          then have t': "t' = day_of t * MS_PER_DAY + int (getUTCHours t) * 3600000 + int n * 60000"
            by (simp add: date_utc_same_day)
          have n: "n \<le> 59" using find_mem [OF Some] bound(2) by simp
          then have same: "day_of u = day_of t"
            using u t' time_split(2) [of t]
            by (intro same_day_until_midnight) (simp_all add: algebra_simps)
          from minutes_between [OF same u(1), of n] u(2) t' n
          have "getUTCMinutes t \<le> getUTCMinutes u" "getUTCMinutes u < n" by simp_all
          moreover have "getUTCMinutes u \<in> set (pc_minute p)" using f by (simp add: fires_def)
          ultimately show False using skip_to_next [OF sorted(2) Some minute] by fastforce
        next
          case None
          then have "t' = date_utc ?y ?m ?d (getUTCHours t + 1) 0 0 0"
            using adv month day hour minute by (simp add: cron_advance_def Let_def)
          then have t': "t' = day_of t * MS_PER_DAY + int (getUTCHours t) * 3600000 + 60 * 60000"
            by (simp add: date_utc_same_day)
          then have same: "day_of u = day_of t"
            using u time_split(2) [of t]
            by (intro same_day_until_midnight) (simp_all add: algebra_simps)
          from minutes_between [OF same u(1), of 60] u(2) t'
          have "getUTCMinutes t \<le> getUTCMinutes u" by simp
          moreover have "getUTCMinutes u \<in> set (pc_minute p)" using f by (simp add: fires_def)
          ultimately show False using skip_past_last [OF None minute] by fastforce
        qed
      qed
    qed
  qed
qed

lemma cron_advance_None:
  "cron_advance p t = None \<Longrightarrow> t mod 60000 = 0 \<Longrightarrow> fires p t"
  by (auto simp: cron_advance_def fires_def Let_def split: if_splits option.splits)

lemma date_utc_minute: "date_utc y m d h mi 0 0 mod 60000 = 0"
proof -
  have "date_utc y m d h mi 0 0 =
      60000 * (make_day (y + int (m div 12)) (m mod 12 + 1) (int d) * 1440 + int h * 60 + int mi)"
    by (simp add: date_utc_def algebra_simps)
  then show ?thesis by simp
qed

lemma cron_advance_minute: "cron_advance p t = Some t' \<Longrightarrow> t' mod 60000 = 0"
  using date_utc_minute by (auto simp: cron_advance_def Let_def split: if_splits option.splits)

lemma cron_scan_least:
  "cron_ok p \<Longrightarrow> t mod 60000 = 0 \<Longrightarrow>
   (case cron_scan p e t of
      Some r \<Rightarrow> t \<le> r \<and> r \<le> e \<and> fires p r \<and> (\<forall>u. t \<le> u \<longrightarrow> u < r \<longrightarrow> \<not> fires p u)
    | None \<Rightarrow> \<forall>u. t \<le> u \<longrightarrow> u \<le> e \<longrightarrow> \<not> fires p u)"
proof (induction p e t rule: cron_scan.induct)
  case (1 p e t)
  show ?case
  proof (cases "t \<le> e")
    case False
    then show ?thesis by (subst cron_scan.simps) simp
  next
    case le: True
    show ?thesis
    proof (cases "cron_advance p t")
      case None
      with le cron_advance_None [OF None "1.prems"(2)] show ?thesis
        by (subst cron_scan.simps) simp
    next
      case (Some t')
      note skip = cron_advance_skips [OF "1.prems"(1) Some]
      from "1.IH" [OF le Some "1.prems"(1) cron_advance_minute [OF Some]]
      show ?thesis
        using cron_advance_forward [OF Some] skip le Some
        by (subst (asm) cron_scan.simps [of p e t] | subst cron_scan.simps [of p e t])
          (auto split: option.splits, (metis linorder_not_less order_trans less_imp_le)+)
    qed
  qed
qed

text \<open>
  C12. For every expression the parser accepts, the scan ends, and what it returns is the least
  instant after the given one, and within the look-ahead, at which the expression fires; it
  fails exactly when there is no such instant.
\<close>

theorem next_fire_is_least:
  assumes "parseCron s = Inr p"
  shows "case nextFireAfter p start lookAhead of
      Inr t \<Rightarrow> fires p t \<and> start < t \<and> t \<le> start + int lookAhead * MS_PER_DAY \<and>
        (\<forall>u. start < u \<longrightarrow> u < t \<longrightarrow> \<not> fires p u)
    | Inl e \<Rightarrow> e = NoFireTime s \<and>
        (\<forall>u. start < u \<longrightarrow> u \<le> start + int lookAhead * MS_PER_DAY \<longrightarrow> \<not> fires p u)"
proof -
  let ?t0 = "start - start mod 60000 + 60 * 1000"
  have raw: "pc_raw p = s"
    using assms by (auto simp: parseCron_def res_bind_Inr_iff split: list.splits)
  have t0: "?t0 = 60000 * (start div 60000 + 1)"
    by (simp add: minus_mod_eq_mult_div algebra_simps)
  have min: "?t0 mod 60000 = 0" unfolding t0 by simp
  have gt: "start < ?t0" by (simp add: algebra_simps pos_mod_bound)
  have first: "?t0 \<le> u" if "fires p u" "start < u" for u
  proof -
    have "u = 60000 * (u div 60000)" using that(1) div_mult_mod_eq [of u 60000] by (simp add: fires_def)
    moreover have "start div 60000 < u div 60000"
    proof -
      have "60000 * (start div 60000) \<le> start" using div_mult_mod_eq [of start 60000] pos_mod_sign [of 60000 start] by linarith
      then show ?thesis using calculation that(2) by linarith
    qed
    ultimately show ?thesis unfolding t0 by (metis mult_left_mono zless_imp_add1_zle zero_le_numeral)
  qed
  from cron_scan_least [OF parseCron_fields [OF assms] min, of "start + int lookAhead * MS_PER_DAY"]
  show ?thesis
    using gt first raw
    by (fastforce simp: nextFireAfter_def Let_def split: option.splits)
qed

lemma parsed_cron_fields_ok_witness:
  "\<exists>p. parseCron ''*/20 5-7 1,15 * mon'' = Inr p \<and> cron_ok p"
proof -
  have "\<not> isl (parseCron ''*/20 5-7 1,15 * mon'')" by code_simp
  then obtain p where "parseCron ''*/20 5-7 1,15 * mon'' = Inr p" by (auto simp: isl_def) (metis sumE)
  with parsed_cron_fields_ok show ?thesis by blast
qed

text \<open>Half past five on Mondays, from the start of 1970: the first Monday was the fifth of January.\<close>

lemma next_fire_is_least_witness:
  "\<exists>p. parseCron ''30 5 * * mon'' = Inr p \<and> nextFireAfter p 0 10 = Inr 365400000 \<and>
     fires p 365400000 \<and> (\<forall>u. 0 < u \<longrightarrow> u < 365400000 \<longrightarrow> \<not> fires p u)"
proof -
  have "\<not> isl (parseCron ''30 5 * * mon'')" by code_simp
  then obtain p where p: "parseCron ''30 5 * * mon'' = Inr p" by (auto simp: isl_def) (metis sumE)
  have "(case parseCron ''30 5 * * mon'' of Inr p \<Rightarrow> nextFireAfter p 0 10 | Inl e \<Rightarrow> Inl e) =
      Inr 365400000"
    by code_simp
  with p have n: "nextFireAfter p 0 10 = Inr 365400000" by simp
  from next_fire_is_least [OF p, of 0 10] p n show ?thesis by simp
qed

end
