(* ===== verification/BusinessCalendar.thy ===== *)
theory BusinessCalendar
  imports CivilDate
begin

text \<open>
  The business calendar (\<open>platform/scheduler/calendar.ts\<close>): the fixed public holidays with the
  rule that a holiday on a Sunday is observed on the Monday after it, the two holidays computed
  from Easter, and the shift of an instant past holidays and week-ends.  Instants are counts of
  milliseconds; the table of jurisdictions is read by its own keys.
\<close>

section \<open>Holidays\<close>

record public_holiday =
  ph_month :: nat
  ph_day :: nat
  ph_name :: string

definition SA_FIXED_HOLIDAYS :: "public_holiday list" where
  "SA_FIXED_HOLIDAYS =
     [\<lparr>ph_month = 1, ph_day = 1, ph_name = ''New Year's Day''\<rparr>,
      \<lparr>ph_month = 3, ph_day = 21, ph_name = ''Human Rights Day''\<rparr>,
      \<lparr>ph_month = 4, ph_day = 27, ph_name = ''Freedom Day''\<rparr>,
      \<lparr>ph_month = 5, ph_day = 1, ph_name = ''Workers' Day''\<rparr>,
      \<lparr>ph_month = 6, ph_day = 16, ph_name = ''Youth Day''\<rparr>,
      \<lparr>ph_month = 8, ph_day = 9, ph_name = ''National Women's Day''\<rparr>,
      \<lparr>ph_month = 9, ph_day = 24, ph_name = ''Heritage Day''\<rparr>,
      \<lparr>ph_month = 12, ph_day = 16, ph_name = ''Day of Reconciliation''\<rparr>,
      \<lparr>ph_month = 12, ph_day = 25, ph_name = ''Christmas Day''\<rparr>,
      \<lparr>ph_month = 12, ph_day = 26, ph_name = ''Day of Goodwill''\<rparr>]"

definition HOLIDAYS_BY_JURISDICTION :: "string \<Rightarrow> public_holiday list option" where
  "HOLIDAYS_BY_JURISDICTION j = map_of [(''ZA'', SA_FIXED_HOLIDAYS)] j"

text \<open>
  The anonymous Gregorian computus, in the source's letters, for years from 100 on: there the
  remainders and floors of the source are \<open>mod\<close> and \<open>div\<close>, and \<open>Date.UTC\<close> takes the year as it is.
\<close>

definition computus_h :: "int \<Rightarrow> int" where
  "computus_h year =
     (let a = year mod 19;
          b = year div 100;
          d = b div 4;
          f = (b + 8) div 25;
          g = (b - f + 1) div 3
      in (19 * a + b - d - g + 15) mod 30)"

definition computus_l :: "int \<Rightarrow> int" where
  "computus_l year =
     (let b = year div 100;
          c = year mod 100;
          e = b mod 4;
          i = c div 4;
          k = c mod 4
      in (32 + 2 * e + 2 * i - computus_h year - k) mod 7)"

definition computus_m :: "int \<Rightarrow> int" where
  "computus_m year = (year mod 19 + 11 * computus_h year + 22 * computus_l year) div 451"

definition easterSunday :: "int \<Rightarrow> int" where
  "easterSunday year =
     (let h = computus_h year; l = computus_l year; m = computus_m year;
          month = (h + l - 7 * m + 114) div 31;
          day = (h + l - 7 * m + 114) mod 31 + 1
      in date_utc year (nat month - 1) (nat day) 0 0 0 0)"

definition goodFriday :: "int \<Rightarrow> int" where
  "goodFriday year = easterSunday year - 2 * MS_PER_DAY"

definition familyDay :: "int \<Rightarrow> int" where
  "familyDay year = easterSunday year + 1 * MS_PER_DAY"

definition sameUtcDay :: "int \<Rightarrow> int \<Rightarrow> bool" where
  "sameUtcDay a b \<longleftrightarrow>
     getUTCFullYear a = getUTCFullYear b \<and> getUTCMonth a = getUTCMonth b \<and>
     getUTCDate a = getUTCDate b"

definition fixed_on :: "public_holiday list \<Rightarrow> int \<Rightarrow> bool" where
  "fixed_on hs t \<longleftrightarrow>
     list_ex (\<lambda>h. ph_month h = getUTCMonth t + 1 \<and> ph_day h = getUTCDate t) hs"

definition isPublicHoliday :: "int \<Rightarrow> string \<Rightarrow> bool" where
  "isPublicHoliday date jurisdiction =
     (case HOLIDAYS_BY_JURISDICTION jurisdiction of
        None \<Rightarrow> False
      | Some hs \<Rightarrow>
          (let dow = getUTCDay date in
           if dow \<noteq> 0 \<and> fixed_on hs date then True
           else if dow = 1 \<and> fixed_on hs (date - MS_PER_DAY) then True
           else if jurisdiction = ''ZA'' then
             sameUtcDay date (goodFriday (getUTCFullYear date)) \<or>
             sameUtcDay date (familyDay (getUTCFullYear date))
           else False))"

text \<open>The loop of \<open>shiftPastHolidays\<close>, with the iterations left of its thirty.\<close>

definition non_business :: "string \<Rightarrow> bool \<Rightarrow> int \<Rightarrow> bool" where
  "non_business jurisdiction skipWeekends t \<longleftrightarrow>
     isPublicHoliday t jurisdiction \<or> skipWeekends \<and> (getUTCDay t = 0 \<or> getUTCDay t = 6)"

fun shift_loop :: "string \<Rightarrow> bool \<Rightarrow> nat \<Rightarrow> int \<Rightarrow> int" where
  "shift_loop jurisdiction skipWeekends 0 t = t"
| "shift_loop jurisdiction skipWeekends (Suc guard) t =
     (if non_business jurisdiction skipWeekends t
      then shift_loop jurisdiction skipWeekends guard
        (date_utc (getUTCFullYear t) (getUTCMonth t) (getUTCDate t + 1) (getUTCHours t)
           (getUTCMinutes t) (getUTCSeconds t) (getUTCMilliseconds t))
      else t)"

definition shiftPastHolidays :: "int \<Rightarrow> string \<Rightarrow> bool \<Rightarrow> int" where
  "shiftPastHolidays candidate jurisdiction skipWeekends =
     shift_loop jurisdiction skipWeekends 30 candidate"

definition listHolidays :: "string \<Rightarrow> public_holiday list" where
  "listHolidays jurisdiction =
     (case HOLIDAYS_BY_JURISDICTION jurisdiction of None \<Rightarrow> [] | Some hs \<Rightarrow> hs)"

definition observed_holiday :: "int \<Rightarrow> public_holiday \<Rightarrow> int \<times> string" where
  "observed_holiday year h =
     (let candidate = date_utc year (ph_month h - 1) (ph_day h) 0 0 0 0 in
      if getUTCDay candidate = 0 then (candidate + MS_PER_DAY, ph_name h @ '' (observed)'')
      else (candidate, ph_name h))"

definition resolveHolidaysForYear :: "int \<Rightarrow> string \<Rightarrow> (int \<times> string) list" where
  "resolveHolidaysForYear year jurisdiction =
     (case HOLIDAYS_BY_JURISDICTION jurisdiction of
        None \<Rightarrow> []
      | Some hs \<Rightarrow>
          sort_key fst (map (observed_holiday year) hs @
            (if jurisdiction = ''ZA''
             then [(goodFriday year, ''Good Friday''), (familyDay year, ''Family Day'')] else [])))"

section \<open>Easter\<close>

lemma computus_ranges:
  "0 \<le> year mod 19" "year mod 19 \<le> 18" "0 \<le> computus_h year" "computus_h year \<le> 29"
  "0 \<le> computus_l year" "computus_l year \<le> 6" for year :: int
proof -
  have up: "x mod b \<le> b - 1" "0 \<le> x mod b" if "0 < b" for x b :: int
    using pos_mod_bound [OF that, of x] pos_mod_sign [OF that, of x] by linarith+
  show "0 \<le> year mod 19" "year mod 19 \<le> 18" using up [of 19 year] by simp_all
  show "0 \<le> computus_h year" "computus_h year \<le> 29"
    unfolding computus_h_def Let_def using up [of 30] by simp_all
  show "0 \<le> computus_l year" "computus_l year \<le> 6"
    unfolding computus_l_def Let_def using up [of 7] by simp_all
qed

lemma computus_offset:
  fixes a h l m :: int
  assumes "0 \<le> a" "a \<le> 18" "0 \<le> h" "h \<le> 29" "0 \<le> l" "l \<le> 6"
    and "451 * m \<le> a + 11 * h + 22 * l" "a + 11 * h + 22 * l < 451 * m + 451"
  shows "0 \<le> h + l - 7 * m \<and> h + l - 7 * m \<le> 34"
proof -
  have "m = 0 \<or> m = 1" using assms by linarith
  then show ?thesis
  proof
    assume m: "m = 0"
    have "l = 6 \<or> l \<le> 5" using assms by linarith
    with m assms show ?thesis by linarith
  next
    assume m: "m = 1"
    with assms show ?thesis by linarith
  qed
qed

text \<open>Days from the first of March to the day before Easter's twenty-second of March offset.\<close>

definition computus_n :: "int \<Rightarrow> int" where
  "computus_n year = computus_h year + computus_l year - 7 * computus_m year"

lemma computus_n_range: "0 \<le> computus_n year" "computus_n year \<le> 34"
  using computus_offset [OF computus_ranges [of year], of "computus_m year"]
    div_bounds [of 451 "year mod 19 + 11 * computus_h year + 22 * computus_l year"]
  by (simp_all add: computus_n_def computus_m_def)

lemma easter_day:
  "easterSunday year = (make_day year 3 1 + 21 + computus_n year) * MS_PER_DAY"
proof -
  have n: "computus_h year + computus_l year - 7 * computus_m year = computus_n year"
    by (simp add: computus_n_def)
  note r = computus_n_range [of year]
  show ?thesis
  proof (cases "computus_n year \<le> 9")
    case True
    have "(computus_n year + 114) div 31 = 3"
      by (rule int_div_pos_eq [where r = "computus_n year + 21"]) (use True r in simp_all)
    moreover have "(computus_n year + 114) mod 31 = computus_n year + 21"
      by (rule int_mod_pos_eq [where q = 3]) (use True r in simp_all)
    ultimately have "easterSunday year = date_utc year 2 (nat (computus_n year + 22)) 0 0 0 0"
      by (simp add: easterSunday_def Let_def n add.commute)
    then show ?thesis using r by (simp add: date_utc_def make_day_def)
  next
    case False
    have "(computus_n year + 114) div 31 = 4"
      by (rule int_div_pos_eq [where r = "computus_n year - 10"]) (use False r in simp_all)
    moreover have "(computus_n year + 114) mod 31 = computus_n year - 10"
      by (rule int_mod_pos_eq [where q = 4]) (use False r in simp_all)
    ultimately have "easterSunday year = date_utc year 3 (nat (computus_n year - 9)) 0 0 0 0"
      by (simp add: easterSunday_def Let_def n)
    then show ?thesis
      using False by (simp add: date_utc_def make_day_def month_offset_def month_lengths_def)
  qed
qed


lemma march_first: "make_day y 3 1 = day_from_year (y + 1) - 306"
  using year_length [of y] by (simp add: make_day_def month_offset_def month_lengths_def)

text \<open>The day number of the end of a year by its centuries, leap cycles and rest.\<close>

lemma day_from_year_parts:
  fixes d e i k :: int
  assumes "0 \<le> k" "k \<le> 3" "0 \<le> 4 * i + k" "4 * i + k \<le> 99" "0 \<le> e" "e \<le> 3"
    and "y = 400 * d + 100 * e + (4 * i + k)"
  shows "day_from_year (y + 1) = 146097 * d + 36524 * e + 1461 * i + 365 * k - 719162"
proof -
  have 1: "(y + 1 - 1969) div 4 = 100 * d + 25 * e + i - 492"
    by (rule int_div_pos_eq [where r = k]) (use assms in auto)
  have 2: "(y + 1 - 1901) div 100 = 4 * d + e - 19"
    by (rule int_div_pos_eq [where r = "4 * i + k"]) (use assms in auto)
  have 3: "(y + 1 - 1601) div 400 = d - 4"
    by (rule int_div_pos_eq [where r = "100 * e + (4 * i + k)"]) (use assms in auto)
  show ?thesis unfolding day_from_year_def 1 2 3 by (simp add: assms(7))
qed

lemma week_day_eq: "n + 4 = 7 * q + int r \<Longrightarrow> r < 7 \<Longrightarrow> week_day n = r"
  by (simp add: week_day_def)

lemma easter_weekday: "\<exists>q. make_day year 3 1 + 21 + computus_n year + 4 = 7 * q"
proof -
  define b c where "b = year div 100" and "c = year mod 100"
  define d e i k where "d = b div 4" and "e = b mod 4" and "i = c div 4" and "k = c mod 4"
  define X where "X = 32 + 2 * e + 2 * i - computus_h year - k"
  have y: "year = 100 * b + c" "b = 4 * d + e" "c = 4 * i + k"
    by (simp_all add: b_def c_def d_def e_def i_def k_def)
  have "0 \<le> c" "c < 100" "0 \<le> e" "e < 4" "0 \<le> k" "k < 4"
    by (simp_all add: c_def e_def k_def)
  then have r: "0 \<le> k" "k \<le> 3" "0 \<le> 4 * i + k" "4 * i + k \<le> 99" "0 \<le> e" "e \<le> 3"
    using y(3) by linarith+
  define q where "q = X div 7"
  have l: "computus_l year = X - 7 * q"
    by (simp add: q_def computus_l_def Let_def X_def minus_mult_div_eq_mod b_def [symmetric]
        c_def [symmetric] e_def [symmetric] i_def [symmetric] k_def [symmetric])
  have yy: "year = 400 * d + 100 * e + (4 * i + k)" using y by linarith
  have "make_day year 3 1 = 146097 * d + 36524 * e + 1461 * i + 365 * k - 719468"
    unfolding march_first day_from_year_parts [OF r yy] by simp
  then have "make_day year 3 1 + 21 + computus_n year + 4 =
      7 * (20871 * d + 5218 * e + 209 * i + 52 * k - 102773 - q - computus_m year)"
    using l unfolding computus_n_def X_def by (simp add: algebra_simps)
  then show ?thesis by blast
qed

lemma easter_facts:
  "getUTCDay (easterSunday year) = 0 \<and> getUTCFullYear (easterSunday year) = year \<and>
   getUTCDay (goodFriday year) = 5 \<and> getUTCDay (familyDay year) = 1 \<and>
   date_utc year 2 22 0 0 0 0 \<le> easterSunday year \<and> easterSunday year \<le> date_utc year 3 25 0 0 0 0"
proof -
  let ?n = "make_day year 3 1 + 21 + computus_n year"
  note r = computus_n_range [of year]
  have day: "day_of (easterSunday year) = ?n" "day_of (goodFriday year) = ?n - 2"
    "day_of (familyDay year) = ?n + 1"
    by (auto simp: easter_day goodFriday_def familyDay_def intro!: day_of_unique)
  obtain q where q: "?n + 4 = 7 * q" using easter_weekday by blast
  have "week_day ?n = 0" "week_day (?n - 2) = 5" "week_day (?n + 1) = 1"
    using q by (auto intro: week_day_eq [of _ q] week_day_eq [of _ "q - 1"])
  moreover have "year_of_day ?n = year"
  proof -
    have "make_day year 3 1 = day_from_year year + 59 + of_bool (leap_year year)"
      by (simp add: make_day_def month_offset_def month_lengths_def)
    then show ?thesis
      using r year_length [of year] by (intro year_of_day_unique) auto
  qed
  moreover have "date_utc year 2 22 0 0 0 0 = (make_day year 3 1 + 21) * MS_PER_DAY"
    "date_utc year 3 25 0 0 0 0 = (make_day year 3 1 + 21 + 34) * MS_PER_DAY"
    by (simp_all add: date_utc_def make_day_def month_offset_def month_lengths_def)
  ultimately show ?thesis
    using r day by (simp add: getUTCDay_def getUTCFullYear_def easter_day)
qed

text \<open>
  For every year, the computed Easter falls on a Sunday between the 22nd of March and the
  25th of April, so Good Friday is a Friday and Family Day a Monday.
\<close>

theorem easter_is_sunday_in_range:
  "getUTCDay (easterSunday year) = 0 \<and> getUTCFullYear (easterSunday year) = year \<and>
   getUTCDay (goodFriday year) = 5 \<and> getUTCDay (familyDay year) = 1 \<and>
   date_utc year 2 22 0 0 0 0 \<le> easterSunday year \<and> easterSunday year \<le> date_utc year 3 25 0 0 0 0"
  by (rule easter_facts)

section \<open>The list of a year and the test of a day agree\<close>

lemma fixed_valid:
  "h \<in> set SA_FIXED_HOLIDAYS \<Longrightarrow>
   valid_date y (ph_month h) (ph_day h) \<and> valid_date y (ph_month h) (ph_day h + 1)"
  by (auto simp: SA_FIXED_HOLIDAYS_def valid_date_def days_in_month_def month_lengths_def)

lemma month_Suc: "getUTCMonth t + 1 = month_of_day (day_of t)"
  using month_bounds [of "day_of t"] by (simp add: getUTCMonth_def)

definition fixed_day :: "int \<Rightarrow> public_holiday \<Rightarrow> int" where
  "fixed_day y h = make_day y (ph_month h) (int (ph_day h))"

lemma fixed_day_parts:
  assumes "h \<in> set SA_FIXED_HOLIDAYS"
  shows "year_of_day (fixed_day y h) = y \<and> year_of_day (fixed_day y h + 1) = y \<and>
    month_of_day (fixed_day y h) = ph_month h \<and> date_of_day (fixed_day y h) = ph_day h"
proof -
  have "fixed_day y h + 1 = make_day y (ph_month h) (int (ph_day h + 1))"
    by (simp add: fixed_day_def make_day_def)
  then show ?thesis
    using civil_roundtrip fixed_valid [OF assms, of y] unfolding fixed_day_def by metis
qed

lemma fixed_on_iff:
  "fixed_on SA_FIXED_HOLIDAYS t \<longleftrightarrow>
     (\<exists>h \<in> set SA_FIXED_HOLIDAYS. day_of t = fixed_day (getUTCFullYear t) h)"
proof
  assume "fixed_on SA_FIXED_HOLIDAYS t"
  then obtain h where "h \<in> set SA_FIXED_HOLIDAYS" "ph_month h = month_of_day (day_of t)"
    "ph_day h = date_of_day (day_of t)"
    unfolding fixed_on_def list_ex_iff month_Suc getUTCDate_def by blast
  then have "day_of t = fixed_day (getUTCFullYear t) h"
    unfolding fixed_day_def getUTCFullYear_def using civil_of_day [of "day_of t"] by simp
  with \<open>h \<in> set SA_FIXED_HOLIDAYS\<close>
  show "\<exists>h \<in> set SA_FIXED_HOLIDAYS. day_of t = fixed_day (getUTCFullYear t) h" by blast
next
  assume "\<exists>h \<in> set SA_FIXED_HOLIDAYS. day_of t = fixed_day (getUTCFullYear t) h"
  then obtain h where h: "h \<in> set SA_FIXED_HOLIDAYS" "day_of t = fixed_day (getUTCFullYear t) h"
    by blast
  with fixed_day_parts [OF h(1), of "getUTCFullYear t"]
  show "fixed_on SA_FIXED_HOLIDAYS t"
    unfolding fixed_on_def list_ex_iff month_Suc getUTCDate_def by metis
qed

lemma sameUtcDay_iff: "sameUtcDay a b \<longleftrightarrow> day_of a = day_of b"
proof
  assume "sameUtcDay a b"
  then have "getUTCFullYear a = getUTCFullYear b" "getUTCMonth a + 1 = getUTCMonth b + 1"
    "getUTCDate a = getUTCDate b"
    by (simp_all add: sameUtcDay_def)
  then show "day_of a = day_of b"
    using civil_of_day [of "day_of a"] civil_of_day [of "day_of b"]
    unfolding month_Suc getUTCFullYear_def getUTCDate_def by metis
qed (simp add: sameUtcDay_def getUTCFullYear_def getUTCMonth_def getUTCDate_def)

lemma day_before: "day_of (t - MS_PER_DAY) = day_of t - 1"
  using day_bounds [of t] by (intro day_of_unique) (simp_all add: algebra_simps)

lemma week_day_before: "week_day n = 1 \<longleftrightarrow> week_day (n - 1) = 0"
proof -
  have "(n + 4) mod 7 = 1 \<longleftrightarrow> (n - 1 + 4) mod 7 = 0" by presburger
  moreover have "0 \<le> (n + 4) mod 7" "0 \<le> (n - 1 + 4) mod 7" by simp_all
  ultimately show ?thesis unfolding week_day_def by (metis nat_0_iff nat_eq_iff2 nat_one_as_int of_nat_1 order_antisym)
qed

text \<open>The days of the list of a year.\<close>

lemma observed_day:
  assumes "h \<in> set SA_FIXED_HOLIDAYS"
  shows "day_of (fst (observed_holiday y h)) =
    (if week_day (fixed_day y h) = 0 then fixed_day y h + 1 else fixed_day y h)"
proof -
  have v: "1 \<le> ph_month h" "ph_month h \<le> 12" using fixed_valid [OF assms, of y] by (simp_all add: valid_date_def)
  then have "(ph_month h - 1) div 12 = 0" "(ph_month h - 1) mod 12 + 1 = ph_month h" by auto
  then have c: "date_utc y (ph_month h - 1) (ph_day h) 0 0 0 0 = fixed_day y h * MS_PER_DAY"
    unfolding date_utc_def fixed_day_def by simp
  have d: "day_of (n * MS_PER_DAY) = n" "day_of (n * MS_PER_DAY + MS_PER_DAY) = n + 1" for n
    by (auto intro: day_of_unique)
  show ?thesis
    unfolding observed_holiday_def Let_def c getUTCDay_def by (simp add: d)
qed

definition holiday_days :: "int \<Rightarrow> int set" where
  "holiday_days y = (\<lambda>x. day_of (fst x)) ` set (resolveHolidaysForYear y ''ZA'')"

lemma holiday_days_iff:
  "n \<in> holiday_days y \<longleftrightarrow>
     (\<exists>h \<in> set SA_FIXED_HOLIDAYS.
        n = (if week_day (fixed_day y h) = 0 then fixed_day y h + 1 else fixed_day y h)) \<or>
     n = day_of (goodFriday y) \<or> n = day_of (familyDay y)"
  by (auto simp: holiday_days_def resolveHolidaysForYear_def HOLIDAYS_BY_JURISDICTION_def
      observed_day image_iff)

text \<open>
  C27. An instant is a public holiday exactly when its day is one of the days listed for its
  year: the Sunday rule of the test and the shift of the list name the same days.
\<close>

theorem holiday_list_agrees_with_test:
  "isPublicHoliday t ''ZA'' \<longleftrightarrow>
     day_of t \<in> (\<lambda>x. day_of (fst x)) ` set (resolveHolidaysForYear (getUTCFullYear t) ''ZA'')"
proof -
  let ?y = "getUTCFullYear t" and ?n = "day_of t"
  have before: "fixed_on SA_FIXED_HOLIDAYS (t - MS_PER_DAY) \<longleftrightarrow>
      (\<exists>h \<in> set SA_FIXED_HOLIDAYS. ?n = fixed_day ?y h + 1)"
  proof
    assume "fixed_on SA_FIXED_HOLIDAYS (t - MS_PER_DAY)"
    then obtain h where h: "h \<in> set SA_FIXED_HOLIDAYS"
      "?n - 1 = fixed_day (getUTCFullYear (t - MS_PER_DAY)) h"
      by (auto simp: fixed_on_iff day_before)
    with fixed_day_parts [OF h(1)] have "?y = getUTCFullYear (t - MS_PER_DAY)"
      unfolding getUTCFullYear_def [of t] by (metis diff_add_cancel)
    with h(2) have "?n = fixed_day ?y h + 1" by simp
    with h(1) show "\<exists>h \<in> set SA_FIXED_HOLIDAYS. ?n = fixed_day ?y h + 1" by blast
  next
    assume "\<exists>h \<in> set SA_FIXED_HOLIDAYS. ?n = fixed_day ?y h + 1"
    then obtain h where h: "h \<in> set SA_FIXED_HOLIDAYS" "?n - 1 = fixed_day ?y h" by auto
    with fixed_day_parts [OF h(1), of ?y] have "getUTCFullYear (t - MS_PER_DAY) = ?y"
      by (simp add: getUTCFullYear_def [of "t - MS_PER_DAY"] day_before)
    with h show "fixed_on SA_FIXED_HOLIDAYS (t - MS_PER_DAY)" by (auto simp: fixed_on_iff day_before)
  qed
  have "isPublicHoliday t ''ZA'' \<longleftrightarrow>
      week_day ?n \<noteq> 0 \<and> (\<exists>h \<in> set SA_FIXED_HOLIDAYS. ?n = fixed_day ?y h) \<or>
      week_day ?n = 1 \<and> (\<exists>h \<in> set SA_FIXED_HOLIDAYS. ?n = fixed_day ?y h + 1) \<or>
      ?n = day_of (goodFriday ?y) \<or> ?n = day_of (familyDay ?y)"
    using fixed_on_iff [of t]
    by (auto simp: isPublicHoliday_def HOLIDAYS_BY_JURISDICTION_def Let_def getUTCDay_def before
        sameUtcDay_iff)
  also have "\<dots> \<longleftrightarrow> ?n \<in> holiday_days ?y"
  proof -
    have "?n = (if week_day (fixed_day ?y h) = 0 then fixed_day ?y h + 1 else fixed_day ?y h) \<longleftrightarrow>
        week_day ?n \<noteq> 0 \<and> ?n = fixed_day ?y h \<or> week_day ?n = 1 \<and> ?n = fixed_day ?y h + 1" for h
      using week_day_before [of ?n] by auto
    then show ?thesis unfolding holiday_days_iff by blast
  qed
  finally show ?thesis by (simp add: holiday_days_def)
qed


section \<open>The shift finds the next business day\<close>

lemma next_day_instant:
  "date_utc (getUTCFullYear t) (getUTCMonth t) (getUTCDate t + 1) (getUTCHours t)
     (getUTCMinutes t) (getUTCSeconds t) (getUTCMilliseconds t) = t + MS_PER_DAY"
proof -
  have "date_utc (getUTCFullYear t) (getUTCMonth t) (getUTCDate t + 1) (getUTCHours t)
      (getUTCMinutes t) (getUTCSeconds t) (getUTCMilliseconds t) =
    date_utc (getUTCFullYear t) (getUTCMonth t) (getUTCDate t) (getUTCHours t)
      (getUTCMinutes t) (getUTCSeconds t) (getUTCMilliseconds t) + MS_PER_DAY"
    by (simp add: date_utc_def make_day_def algebra_simps)
  also have "\<dots> = t + MS_PER_DAY" unfolding date_utc_same_day using time_split(1) [of t] by simp
  finally show ?thesis .
qed

lemma shift_loop_finds:
  assumes "\<exists>k < guard. \<not> non_business j w (t + int k * MS_PER_DAY)"
  shows "\<exists>k < guard. shift_loop j w guard t = t + int k * MS_PER_DAY \<and>
    \<not> non_business j w (t + int k * MS_PER_DAY) \<and>
    (\<forall>i < k. non_business j w (t + int i * MS_PER_DAY))"
  using assms
proof (induction guard arbitrary: t)
  case 0
  then show ?case by simp
next
  case (Suc guard)
  show ?case
  proof (cases "non_business j w t")
    case False
    then show ?thesis by (intro exI [of _ 0]) simp
  next
    case True
    have step: "t + MS_PER_DAY + int k * MS_PER_DAY = t + int (Suc k) * MS_PER_DAY" for k
      by (simp add: algebra_simps)
    from Suc.prems obtain k where k: "k < Suc guard" "\<not> non_business j w (t + int k * MS_PER_DAY)"
      by blast
    with True obtain k' where k': "k = Suc k'" by (cases k) auto
    have "\<not> non_business j w (t + MS_PER_DAY + int k' * MS_PER_DAY)"
      unfolding step using k(2) k' by (simp only: not_False_eq_True)
    with k(1) k' have "\<exists>k < guard. \<not> non_business j w (t + MS_PER_DAY + int k * MS_PER_DAY)" by blast
    from Suc.IH [OF this] obtain m where m: "m < guard"
      "shift_loop j w guard (t + MS_PER_DAY) = t + int (Suc m) * MS_PER_DAY"
      "\<not> non_business j w (t + int (Suc m) * MS_PER_DAY)"
      "\<forall>i < m. non_business j w (t + int (Suc i) * MS_PER_DAY)"
      unfolding step by blast
    have "shift_loop j w (Suc guard) t = shift_loop j w guard (t + MS_PER_DAY)"
      unfolding shift_loop.simps next_day_instant using True by simp
    moreover have "\<forall>i < Suc m. non_business j w (t + int i * MS_PER_DAY)"
    proof (intro allI impI)
      fix i
      assume "i < Suc m"
      then show "non_business j w (t + int i * MS_PER_DAY)"
        using m(4) True by (cases i) auto
    qed
    ultimately show ?thesis using m(1-3) by (intro exI [of _ "Suc m"]) simp
  qed
qed

definition fixed_doy :: "bool \<Rightarrow> public_holiday \<Rightarrow> int" where
  "fixed_doy leap h = int (month_offset leap (ph_month h)) + int (ph_day h) - 1"

lemma fixed_fortnight:
  assumes "h \<in> set SA_FIXED_HOLIDAYS" "h' \<in> set SA_FIXED_HOLIDAYS"
  shows "fixed_day y' h' \<noteq> fixed_day y h + 14"
proof
  assume eq: "fixed_day y' h' = fixed_day y h + 14"
  have y: "y' = y \<or> y' = y + 1"
  proof -
    have "day_from_year y \<le> fixed_day y h" "fixed_day y h < day_from_year (y + 1)"
      using year_of_day_bounds [of "fixed_day y h"] fixed_day_parts [OF assms(1), of y] by simp_all
    moreover have "day_from_year (y + 1) + 14 < day_from_year (y + 1 + 1)"
      using year_length [of "y + 1"] by (simp split: if_splits)
    ultimately have "day_from_year y \<le> fixed_day y' h'" "fixed_day y' h' < day_from_year (y + 1 + 1)"
      using eq by simp_all
    then show ?thesis
      using year_of_day_unique [of y "fixed_day y' h'"] year_of_day_unique [of "y + 1" "fixed_day y' h'"]
        fixed_day_parts [OF assms(2), of y']
      by (cases "fixed_day y' h' < day_from_year (y + 1)") auto
  qed
  have off: "fixed_day y h = day_from_year y + fixed_doy (leap_year y) h" for y h
    by (simp add: fixed_day_def fixed_doy_def make_day_def)
  have next': "day_from_year (y + 1) = day_from_year y + 365 + of_bool (leap_year y)"
    using year_length [of y] by simp
  have same: "list_all (\<lambda>l. list_all (\<lambda>h. list_all (\<lambda>h'. fixed_doy l h' \<noteq> fixed_doy l h + 14)
      SA_FIXED_HOLIDAYS) SA_FIXED_HOLIDAYS) [True, False]"
    by code_simp
  have across: "list_all (\<lambda>l. list_all (\<lambda>l'. list_all (\<lambda>h. list_all (\<lambda>h'.
      365 + of_bool l + fixed_doy l' h' \<noteq> fixed_doy l h + 14)
      SA_FIXED_HOLIDAYS) SA_FIXED_HOLIDAYS) [True, False]) [True, False]"
    by code_simp
  from y show False
  proof
    assume "y' = y"
    with eq same assms show False by (cases "leap_year y") (auto simp: off list_all_iff)
  next
    assume "y' = y + 1"
    with eq across assms show False
      by (cases "leap_year y"; cases "leap_year (y + 1)") (auto simp: off next' list_all_iff)
  qed
qed

lemma ex_weekday:
  assumes "r < 7"
  shows "\<exists>k < 7. week_day (n + int k) = r"
proof -
  define k where "k = nat ((int r - 4 - n) mod 7)"
  have k: "int k = (int r - 4 - n) mod 7" by (simp add: k_def)
  have "(n + int k + 4) mod 7 = int r"
  proof -
    have "(n + int k + 4) mod 7 = (n + 4 + (int r - 4 - n) mod 7) mod 7" by (simp add: k algebra_simps)
    also have "\<dots> = (n + 4 + (int r - 4 - n)) mod 7" by (rule mod_add_right_eq)
    finally show ?thesis using assms by simp
  qed
  moreover have "k < 7" by (simp add: k_def nat_less_iff)
  ultimately show ?thesis by (auto simp: week_day_def)
qed

lemma wednesday_non_business:
  assumes "getUTCDay t = 3" "non_business j w t"
  shows "j = ''ZA'' \<and> fixed_on SA_FIXED_HOLIDAYS t"
proof -
  have "getUTCDay t \<noteq> 5" "getUTCDay t \<noteq> 1" using assms(1) by simp_all
  then have "\<not> sameUtcDay t (goodFriday y)" "\<not> sameUtcDay t (familyDay y)" for y
    using easter_facts [of y] by (auto simp: sameUtcDay_iff getUTCDay_def)
  with assms show ?thesis
    by (auto simp: non_business_def isPublicHoliday_def HOLIDAYS_BY_JURISDICTION_def Let_def
        split: option.splits if_splits)
qed

lemma business_day_within_thirty:
  "\<exists>k < 30. \<not> non_business j w (t + int k * MS_PER_DAY)"
proof (rule ccontr)
  assume none: "\<not> ?thesis"
  obtain k where k: "k < 7" "week_day (day_of t + int k) = 3" using ex_weekday [of 3] by auto
  have day: "day_of (t + int m * MS_PER_DAY) = day_of t + int m" for m
    using day_bounds [of t] by (intro day_of_unique) (simp_all add: algebra_simps)
  have fortnight: "week_day (n + 14) = week_day n" for n
  proof -
    have "(n + 14 + 4) mod 7 = (n + 4) mod 7" by presburger
    then show ?thesis by (simp only: week_day_def)
  qed
  have wed: "getUTCDay (t + int k * MS_PER_DAY) = 3"
    "getUTCDay (t + int (k + 14) * MS_PER_DAY) = 3"
    unfolding getUTCDay_def day using k(2) fortnight [of "day_of t + int k"]
    by (simp_all add: add.assoc)
  have nb: "non_business j w (t + int k * MS_PER_DAY)"
    "non_business j w (t + int (k + 14) * MS_PER_DAY)"
  proof -
    have "k < 30" "k + 14 < 30" using k(1) by simp_all
    with none show "non_business j w (t + int k * MS_PER_DAY)"
      "non_business j w (t + int (k + 14) * MS_PER_DAY)"
      by blast+
  qed
  from wednesday_non_business [OF wed(1) nb(1)] wednesday_non_business [OF wed(2) nb(2)]
  obtain h h' where "h \<in> set SA_FIXED_HOLIDAYS" "h' \<in> set SA_FIXED_HOLIDAYS"
    "day_of t + int k = fixed_day (getUTCFullYear (t + int k * MS_PER_DAY)) h"
    "day_of t + int (k + 14) = fixed_day (getUTCFullYear (t + int (k + 14) * MS_PER_DAY)) h'"
    unfolding fixed_on_iff day by blast
  with fixed_fortnight show False
    by (metis add.assoc of_nat_add of_nat_numeral)
qed

text \<open>
  For every instant and jurisdiction, the shift returns the first of the instant and its
  following days, at the same time of day, that is neither a public holiday nor, where week-ends
  are skipped, on a week-end: the bound of thirty iterations is never exhausted.
\<close>

theorem shift_finds_first_business_day:
  "\<exists>k < 30. shiftPastHolidays t j w = t + int k * MS_PER_DAY \<and>
     \<not> isPublicHoliday (t + int k * MS_PER_DAY) j \<and>
     (w \<longrightarrow> getUTCDay (t + int k * MS_PER_DAY) \<notin> {0, 6}) \<and>
     (\<forall>i < k. isPublicHoliday (t + int i * MS_PER_DAY) j \<or>
        w \<and> getUTCDay (t + int i * MS_PER_DAY) \<in> {0, 6})"
proof -
  from shift_loop_finds [OF business_day_within_thirty, of j w t] obtain k where
    "k < 30" "shift_loop j w 30 t = t + int k * MS_PER_DAY"
    "\<not> non_business j w (t + int k * MS_PER_DAY)"
    "\<forall>i < k. non_business j w (t + int i * MS_PER_DAY)"
    by blast
  then show ?thesis
    by (intro exI [of _ k]) (auto simp: shiftPastHolidays_def non_business_def)
qed


text \<open>The first of January 1970, a Thursday and a holiday, moves to the Friday.\<close>

lemma shift_finds_first_business_day_witness:
  "shiftPastHolidays 0 ''ZA'' True = MS_PER_DAY \<and> \<not> isPublicHoliday MS_PER_DAY ''ZA'' \<and>
   getUTCDay MS_PER_DAY \<notin> {0, 6}"
proof -
  have s: "shiftPastHolidays 0 ''ZA'' True = MS_PER_DAY" by code_simp
  from shift_finds_first_business_day [of 0 "''ZA''" True] s show ?thesis by auto
qed

text \<open>The dates the source's documentation quotes.\<close>

lemma easter_spot_checks:
  "list_all (\<lambda>(y, m, d). easterSunday y = date_utc y (m - 1) d 0 0 0 0)
     [(2024, 3, 31), (2025, 4, 20), (2026, 4, 5), (2027, 3, 28)]"
  by code_simp

end
