(* ===== verification/FilUrn.thy ===== *)
theory FilUrn
  imports Prelude "HOL-Library.Sublist"
begin

text \<open>
  Identifiers of the financial-instrument layer (\<open>v2-core/fil-core/urn.ts\<close>, \<open>taxonomy.ts\<close>):
  type and instance URNs with their regular expressions, scope patterns and the taxonomy order.
  The patterns have no overlapping separators, so the captures of a match are the pieces between
  the first separators.  Version numbers are naturals: the source reads them with \<open>Number\<close>, which
  is exact below \<open>2 ^ 53\<close>.
\<close>

section \<open>Taxonomy\<close>

definition FIL_ASSET_CLASSES :: "string list" where
  "FIL_ASSET_CLASSES =
     [''ir'', ''fx'', ''equity'', ''credit'', ''commodity'', ''funding'', ''cash'', ''capital'',
      ''hybrid'']"

definition lower_alnum :: "char \<Rightarrow> bool" where
  "lower_alnum c \<longleftrightarrow> is_lower c \<or> is_digit c"

definition alnum :: "char \<Rightarrow> bool" where
  "alnum c \<longleftrightarrow> is_lower c \<or> is_upper c \<or> is_digit c"

text \<open>\<open>/^[a-z0-9]+(?:-[a-z0-9]+)*$/\<close>.\<close>

definition FAMILY_PATH_SEGMENT :: "string \<Rightarrow> bool" where
  "FAMILY_PATH_SEGMENT s \<longleftrightarrow>
     list_all (\<lambda>p. p \<noteq> [] \<and> list_all lower_alnum p) (split_on CHR ''-'' s)"

definition familyPathSchema :: "string \<Rightarrow> bool" where
  "familyPathSchema p \<longleftrightarrow> p \<noteq> [] \<and> list_all FAMILY_PATH_SEGMENT (split_on CHR ''.'' p)"

record fil_taxonomy_node =
  tn_assetClass :: string
  tn_familyPath :: "string option"

definition isAtOrBelow :: "fil_taxonomy_node \<Rightarrow> fil_taxonomy_node \<Rightarrow> bool" where
  "isAtOrBelow node ancestor =
     (if tn_assetClass node \<noteq> tn_assetClass ancestor then False
      else case tn_familyPath ancestor of
        None \<Rightarrow> True
      | Some a \<Rightarrow>
          (case tn_familyPath node of
             None \<Rightarrow> False
           | Some n \<Rightarrow> n = a \<or> starts_with (a @ ''.'') n))"

section \<open>Type URNs\<close>

record fil_version =
  fv_major :: nat
  fv_minor :: nat

definition formatVersion :: "fil_version \<Rightarrow> string" where
  "formatVersion v = nat_str (fv_major v) @ ''.'' @ nat_str (fv_minor v)"

record fil_type_parts =
  ft_assetClass :: string
  ft_familyPath :: string
  ft_typeSlug :: string
  ft_version :: fil_version

definition formatTypeUrn :: "fil_type_parts \<Rightarrow> string" where
  "formatTypeUrn p =
     ''fil:type:'' @ ft_assetClass p @ '':'' @ ft_familyPath p @ '':'' @ ft_typeSlug p @ ''@''
       @ formatVersion (ft_version p)"

text \<open>\<open>[a-z0-9][a-z0-9.-]*\<close>, the family group of the pattern.\<close>

definition family_group :: "string \<Rightarrow> bool" where
  "family_group s \<longleftrightarrow>
     s \<noteq> [] \<and> lower_alnum (hd s) \<and> list_all (\<lambda>c. lower_alnum c \<or> c = CHR ''.'' \<or> c = CHR ''-'') s"

definition strip_prefix :: "string \<Rightarrow> string \<Rightarrow> string option" where
  "strip_prefix p s = (if starts_with p s then Some (drop (length p) s) else None)"

text \<open>The five captures of \<open>TYPE_URN_RE.exec\<close>.\<close>

definition TYPE_URN_RE :: "string \<Rightarrow> (string \<times> string \<times> string \<times> string \<times> string) option" where
  "TYPE_URN_RE urn =
     (case strip_prefix ''fil:type:'' urn of None \<Rightarrow> None | Some r0 \<Rightarrow>
      case split_first CHR '':'' r0 of None \<Rightarrow> None | Some (cls, r1) \<Rightarrow>
      case split_first CHR '':'' r1 of None \<Rightarrow> None | Some (fam, r2) \<Rightarrow>
      case split_first CHR ''@'' r2 of None \<Rightarrow> None | Some (slug, ver) \<Rightarrow>
      case split_first CHR ''.'' ver of None \<Rightarrow> None | Some (maj, mnr) \<Rightarrow>
        if cls \<in> set FIL_ASSET_CLASSES \<and> family_group fam \<and> FAMILY_PATH_SEGMENT slug \<and>
           all_digits maj \<and> all_digits mnr
        then Some (cls, fam, slug, maj, mnr) else None)"

datatype urn_error = InvalidTypeUrn string | InvalidFamilyPath string | InvalidInstanceUrn string

definition parseTypeUrn :: "string \<Rightarrow> urn_error + fil_type_parts" where
  "parseTypeUrn urn =
     (case TYPE_URN_RE urn of
        None \<Rightarrow> Inl (InvalidTypeUrn urn)
      | Some (cls, fam, slug, maj, mnr) \<Rightarrow>
          (if familyPathSchema fam
           then Inr \<lparr>ft_assetClass = cls, ft_familyPath = fam, ft_typeSlug = slug,
                     ft_version = \<lparr>fv_major = parse_nat maj, fv_minor = parse_nat mnr\<rparr>\<rparr>
           else Inl (InvalidFamilyPath fam)))"

definition isFilTypeUrn :: "string \<Rightarrow> bool" where
  "isFilTypeUrn urn \<longleftrightarrow> TYPE_URN_RE urn \<noteq> None"

section \<open>Instance URNs\<close>

record fil_instance_parts =
  fi_tenant :: string
  fi_instanceId :: string

definition formatInstanceUrn :: "fil_instance_parts \<Rightarrow> string" where
  "formatInstanceUrn p = ''fil:inst:'' @ fi_tenant p @ '':'' @ fi_instanceId p"

definition tenant_group :: "string \<Rightarrow> bool" where
  "tenant_group s \<longleftrightarrow> s \<noteq> [] \<and> alnum (hd s) \<and> list_all (\<lambda>c. alnum c \<or> c = CHR ''-'') s"

definition instance_group :: "string \<Rightarrow> bool" where
  "instance_group s \<longleftrightarrow>
     s \<noteq> [] \<and> alnum (hd s) \<and>
     list_all (\<lambda>c. alnum c \<or> c = CHR ''.'' \<or> c = CHR ''_'' \<or> c = CHR ''-'') s"

definition INSTANCE_URN_RE :: "string \<Rightarrow> (string \<times> string) option" where
  "INSTANCE_URN_RE urn =
     (case strip_prefix ''fil:inst:'' urn of None \<Rightarrow> None | Some r0 \<Rightarrow>
      case split_first CHR '':'' r0 of None \<Rightarrow> None | Some (tenant, inst) \<Rightarrow>
        if tenant_group tenant \<and> instance_group inst then Some (tenant, inst) else None)"

definition parseInstanceUrn :: "string \<Rightarrow> urn_error + fil_instance_parts" where
  "parseInstanceUrn urn =
     (case INSTANCE_URN_RE urn of
        None \<Rightarrow> Inl (InvalidInstanceUrn urn)
      | Some (tenant, inst) \<Rightarrow> Inr \<lparr>fi_tenant = tenant, fi_instanceId = inst\<rparr>)"

definition isFilInstanceUrn :: "string \<Rightarrow> bool" where
  "isFilInstanceUrn urn \<longleftrightarrow> INSTANCE_URN_RE urn \<noteq> None"

section \<open>Scope patterns\<close>

text \<open>
  \<open>^fil:type:(class|\*)(?::([a-z0-9.*-]+))?(?::([a-z0-9*-]+))?$\<close>: after the prefix one, two or
  three pieces.  With two pieces the second matches one of the optional groups; the first of them
  is the larger class.
\<close>

definition scope_char :: "char \<Rightarrow> bool" where
  "scope_char c \<longleftrightarrow> lower_alnum c \<or> c = CHR ''*'' \<or> c = CHR ''-''"

definition isFilScopePattern :: "string \<Rightarrow> bool" where
  "isFilScopePattern pattern =
     (case strip_prefix ''fil:type:'' pattern of None \<Rightarrow> False | Some r \<Rightarrow>
        (case split_on CHR '':'' r of
           [] \<Rightarrow> False
         | cls # gs \<Rightarrow>
             (cls \<in> set FIL_ASSET_CLASSES \<or> cls = ''*'') \<and>
             (case gs of
                [] \<Rightarrow> True
              | [g] \<Rightarrow> g \<noteq> [] \<and> list_all (\<lambda>c. scope_char c \<or> c = CHR ''.'') g
              | [g, h] \<Rightarrow> g \<noteq> [] \<and> list_all (\<lambda>c. scope_char c \<or> c = CHR ''.'') g \<and>
                           h \<noteq> [] \<and> list_all scope_char h
              | _ \<Rightarrow> False)))"

definition matchesFilScope :: "string \<Rightarrow> string \<Rightarrow> bool" where
  "matchesFilScope pattern typeUrn =
     (if pattern \<noteq> [] \<and> last pattern = CHR ''*'' then starts_with (butlast pattern) typeUrn
      else pattern = typeUrn)"

section \<open>Characters of the pieces\<close>

lemma lower_alnum_not [simp]:
  "\<not> lower_alnum CHR '':''" "\<not> lower_alnum CHR ''@''" "\<not> lower_alnum CHR ''.''"
  "\<not> lower_alnum CHR ''-''" "\<not> lower_alnum CHR ''*''"
  by (simp_all add: lower_alnum_def is_lower_def is_digit_def less_eq_char_def)

lemma alnum_not [simp]: "\<not> alnum CHR '':''" "\<not> alnum CHR ''*''"
  by (simp_all add: alnum_def is_lower_def is_upper_def is_digit_def less_eq_char_def)

lemma not_digit [simp]: "\<not> is_digit CHR ''.''" "\<not> is_digit CHR ''*''"
  by (simp_all add: is_digit_def less_eq_char_def)

lemma asset_class_no_colon: "cls \<in> set FIL_ASSET_CLASSES \<Longrightarrow> CHR '':'' \<notin> set cls"
  by (auto simp: FIL_ASSET_CLASSES_def)

lemma split_on_chars: "p \<in> set (split_on c s) \<Longrightarrow> set p \<subseteq> set s"
proof (induction s arbitrary: p)
  case Nil
  then show ?case by simp
next
  case (Cons x s)
  from Cons.prems consider "p = []" | "p \<in> set (split_on c s)"
    | q qs where "split_on c s = q # qs" "p = x # q"
    by (cases "split_on c s") (auto split: if_splits)
  then show ?case using Cons.IH by cases fastforce+
qed

lemma split_on_covers: "x \<in> set s \<Longrightarrow> x = c \<or> (\<exists>p \<in> set (split_on c s). x \<in> set p)"
proof (induction s)
  case Nil
  then show ?case by simp
next
  case (Cons y s)
  then show ?case by (cases "split_on c s") auto
qed

lemma segment_chars:
  assumes "FAMILY_PATH_SEGMENT s"
  shows "list_all (\<lambda>c. lower_alnum c \<or> c = CHR ''-'') s"
  using assms split_on_covers [of _ s "CHR ''-''"]
  by (fastforce simp: FAMILY_PATH_SEGMENT_def list_all_iff)

lemma family_chars:
  assumes "familyPathSchema s"
  shows "list_all (\<lambda>c. lower_alnum c \<or> c = CHR ''.'' \<or> c = CHR ''-'') s"
proof -
  have "lower_alnum c \<or> c = CHR ''.'' \<or> c = CHR ''-''" if c: "c \<in> set s" for c
  proof -
    from split_on_covers [OF c, of "CHR ''.''"]
    consider "c = CHR ''.''" | p where "p \<in> set (split_on CHR ''.'' s)" "c \<in> set p" by blast
    then show ?thesis
    proof cases
      case (2 p)
      with assms segment_chars [of p] show ?thesis
        by (auto simp: familyPathSchema_def list_all_iff)
    qed simp
  qed
  then show ?thesis by (simp add: list_all_iff)
qed

lemma segment_hd: "FAMILY_PATH_SEGMENT s \<Longrightarrow> s \<noteq> [] \<and> lower_alnum (hd s)"
  by (cases s) (auto simp: FAMILY_PATH_SEGMENT_def split: if_splits list.splits)

lemma hd_split_on: "s \<noteq> [] \<Longrightarrow> hd s \<noteq> c \<Longrightarrow> hd s = hd (hd (split_on c s)) \<and> hd (split_on c s) \<noteq> []"
  by (cases s) (auto split: list.splits)

lemma family_group_schema:
  assumes "familyPathSchema s"
  shows "family_group s"
proof -
  have ne: "s \<noteq> []" using assms by (simp add: familyPathSchema_def)
  have seg: "FAMILY_PATH_SEGMENT (hd (split_on CHR ''.'' s))"
    using assms by (simp add: familyPathSchema_def list_all_iff)
  have "hd s \<noteq> CHR ''.''"
  proof
    assume "hd s = CHR ''.''"
    then have "hd (split_on CHR ''.'' s) = []" using ne by (cases s) auto
    with segment_hd [OF seg] show False by simp
  qed
  with ne have "hd s = hd (hd (split_on CHR ''.'' s))" using hd_split_on by blast
  with segment_hd [OF seg] family_chars [OF assms] ne show ?thesis by (simp add: family_group_def)
qed

lemma family_group_no_colon: "family_group s \<Longrightarrow> CHR '':'' \<notin> set s"
  by (auto simp: family_group_def list_all_iff)

lemma segment_no_at: "FAMILY_PATH_SEGMENT s \<Longrightarrow> CHR ''@'' \<notin> set s"
  by (drule segment_chars) (auto simp: list_all_iff)

lemma digits_no_dot: "all_digits s \<Longrightarrow> CHR ''.'' \<notin> set s"
  by (auto simp: all_digits_def list_all_iff)

lemma nat_str_all_digits [simp]: "all_digits (nat_str n)"
  using nat_str_digits by (simp add: all_digits_def)

lemma strip_prefix_Some_iff: "strip_prefix p s = Some r \<longleftrightarrow> s = p @ r"
  by (auto simp: strip_prefix_def starts_with_iff)

section \<open>Parsing is the inverse of formatting\<close>

lemma TYPE_URN_RE_iff:
  "TYPE_URN_RE s = Some (cls, fam, slug, maj, mnr) \<longleftrightarrow>
     s = ''fil:type:'' @ cls @ '':'' @ fam @ '':'' @ slug @ ''@'' @ maj @ ''.'' @ mnr \<and>
     cls \<in> set FIL_ASSET_CLASSES \<and> family_group fam \<and> FAMILY_PATH_SEGMENT slug \<and>
     all_digits maj \<and> all_digits mnr"
  (is "?l \<longleftrightarrow> ?r")
proof
  assume ?l
  then show ?r
    unfolding TYPE_URN_RE_def
    by (auto simp: strip_prefix_Some_iff split_first_Some_iff split: option.splits if_splits)
next
  assume r: ?r
  have "strip_prefix ''fil:type:'' s =
      Some (cls @ CHR '':'' # fam @ CHR '':'' # slug @ CHR ''@'' # maj @ CHR ''.'' # mnr)"
    unfolding strip_prefix_Some_iff using r by simp
  moreover have "split_first CHR '':'' (cls @ CHR '':'' # t) = Some (cls, t)" for t
    using r asset_class_no_colon by (simp add: split_first_Some_iff)
  moreover have "split_first CHR '':'' (fam @ CHR '':'' # t) = Some (fam, t)" for t
    using r family_group_no_colon by (simp add: split_first_Some_iff)
  moreover have "split_first CHR ''@'' (slug @ CHR ''@'' # t) = Some (slug, t)" for t
    using r segment_no_at by (simp add: split_first_Some_iff)
  moreover have "split_first CHR ''.'' (maj @ CHR ''.'' # t) = Some (maj, t)" for t
    using r digits_no_dot by (simp add: split_first_Some_iff)
  ultimately show ?l using r by (simp add: TYPE_URN_RE_def)
qed

text \<open>The well-formed parts of a type URN, and the numerals of a version.\<close>

definition type_parts_ok :: "fil_type_parts \<Rightarrow> bool" where
  "type_parts_ok p \<longleftrightarrow>
     ft_assetClass p \<in> set FIL_ASSET_CLASSES \<and> familyPathSchema (ft_familyPath p) \<and>
     FAMILY_PATH_SEGMENT (ft_typeSlug p)"

definition numeral_of :: "nat \<Rightarrow> string \<Rightarrow> bool" where
  "numeral_of n s \<longleftrightarrow> all_digits s \<and> parse_nat s = n"

lemma numeral_of_nat_str [simp]: "numeral_of n (nat_str n)"
  by (simp add: numeral_of_def)

text \<open>
  C32. The parser of type URNs accepts exactly the texts made of well-formed parts and a version
  in decimal numerals, and returns these parts; formatting well-formed parts gives such a text,
  so that parsing returns them.
\<close>

theorem type_urn_parse_exact:
  "(parseTypeUrn s = Inr p \<longleftrightarrow>
     type_parts_ok p \<and>
     (\<exists>maj mnr. numeral_of (fv_major (ft_version p)) maj \<and>
        numeral_of (fv_minor (ft_version p)) mnr \<and>
        s = ''fil:type:'' @ ft_assetClass p @ '':'' @ ft_familyPath p @ '':'' @ ft_typeSlug p
              @ ''@'' @ maj @ ''.'' @ mnr))
   \<and> (parseTypeUrn (formatTypeUrn p) = Inr p \<longleftrightarrow> type_parts_ok p)"
proof -
  have main: "parseTypeUrn s = Inr p \<longleftrightarrow>
     type_parts_ok p \<and>
     (\<exists>maj mnr. numeral_of (fv_major (ft_version p)) maj \<and>
        numeral_of (fv_minor (ft_version p)) mnr \<and>
        s = ''fil:type:'' @ ft_assetClass p @ '':'' @ ft_familyPath p @ '':'' @ ft_typeSlug p
              @ ''@'' @ maj @ ''.'' @ mnr)" (is "_ \<longleftrightarrow> ?r s") for s
  proof
    assume "parseTypeUrn s = Inr p"
    then show "?r s"
      by (fastforce simp: parseTypeUrn_def TYPE_URN_RE_iff type_parts_ok_def numeral_of_def
          split: option.splits if_splits)
  next
    assume "?r s"
    then obtain maj mnr where "TYPE_URN_RE s =
        Some (ft_assetClass p, ft_familyPath p, ft_typeSlug p, maj, mnr)"
      "parse_nat maj = fv_major (ft_version p)" "parse_nat mnr = fv_minor (ft_version p)"
      "type_parts_ok p"
      by (auto simp: TYPE_URN_RE_iff type_parts_ok_def numeral_of_def family_group_schema)
    then show "parseTypeUrn s = Inr p" by (simp add: parseTypeUrn_def type_parts_ok_def)
  qed
  have "parseTypeUrn (formatTypeUrn p) = Inr p \<longleftrightarrow> type_parts_ok p"
    unfolding main formatTypeUrn_def formatVersion_def
    by (rule iffI, simp) (use numeral_of_nat_str in blast)
  with main show ?thesis by blast
qed

text \<open>
  The predicate the kernel uses to admit a type URN is the pattern alone: it admits texts that
  the parser rejects.
\<close>

lemma predicate_wider_than_parser:
  "isFilTypeUrn ''fil:type:fx:spot.:vanilla@1.0''
     \<and> parseTypeUrn ''fil:type:fx:spot.:vanilla@1.0'' = Inl (InvalidFamilyPath ''spot.'')"
  by code_simp

lemma parser_within_predicate: "parseTypeUrn s = Inr p \<Longrightarrow> isFilTypeUrn s"
  by (auto simp: parseTypeUrn_def isFilTypeUrn_def split: option.splits)

lemma INSTANCE_URN_RE_iff:
  "INSTANCE_URN_RE s = Some (t, i) \<longleftrightarrow>
     s = ''fil:inst:'' @ t @ '':'' @ i \<and> tenant_group t \<and> instance_group i"
  (is "?l \<longleftrightarrow> ?r")
proof
  assume ?l
  then show ?r
    unfolding INSTANCE_URN_RE_def
    by (auto simp: strip_prefix_Some_iff split_first_Some_iff split: option.splits if_splits)
next
  assume r: ?r
  then have "CHR '':'' \<notin> set t" by (auto simp: tenant_group_def list_all_iff)
  with r have "strip_prefix ''fil:inst:'' s = Some (t @ CHR '':'' # i)"
    "split_first CHR '':'' (t @ CHR '':'' # i) = Some (t, i)"
    by (simp_all add: strip_prefix_Some_iff split_first_Some_iff)
  with r show ?l by (simp add: INSTANCE_URN_RE_def)
qed

text \<open>
  A text parses as an instance URN with given parts exactly when it is the formatted URN of
  these parts and the parts match their patterns, so formatting and parsing are inverse.
\<close>

theorem instance_urn_roundtrip:
  "parseInstanceUrn s = Inr p \<longleftrightarrow>
     s = formatInstanceUrn p \<and> tenant_group (fi_tenant p) \<and> instance_group (fi_instanceId p)"
proof -
  have "parseInstanceUrn s = Inr p \<longleftrightarrow> INSTANCE_URN_RE s = Some (fi_tenant p, fi_instanceId p)"
    by (cases p) (auto simp: parseInstanceUrn_def split: option.splits)
  then show ?thesis by (simp add: INSTANCE_URN_RE_iff formatInstanceUrn_def)
qed

section \<open>The taxonomy order\<close>

lemma split_on_splits:
  "split_on c n = ps @ qs \<Longrightarrow> ps \<noteq> [] \<Longrightarrow> qs \<noteq> [] \<Longrightarrow>
   \<exists>x y. n = x @ c # y \<and> split_on c x = ps \<and> split_on c y = qs"
proof (induction n arbitrary: ps)
  case Nil
  then show ?case by (cases ps) auto
next
  case (Cons z n)
  obtain p ps' where ps: "ps = p # ps'" using Cons.prems(2) by (cases ps) auto
  show ?case
  proof (cases "z = c")
    case True
    with Cons.prems(1) ps have p: "p = []" "split_on c n = ps' @ qs" by simp_all
    show ?thesis
    proof (cases "ps' = []")
      case True
      with p ps \<open>z = c\<close> have "z # n = [] @ c # n \<and> split_on c [] = ps \<and> split_on c n = qs" by simp
      then show ?thesis by blast
    next
      case False
      from Cons.IH [OF p(2) this Cons.prems(3)] obtain x y
        where "n = x @ c # y" "split_on c x = ps'" "split_on c y = qs" by blast
      with p ps \<open>z = c\<close> have "z # n = (z # x) @ c # y \<and> split_on c (z # x) = ps \<and> split_on c y = qs"
        by simp
      then show ?thesis by blast
    qed
  next
    case False
    then obtain q rest where q: "split_on c n = q # rest" by (cases "split_on c n") auto
    with False Cons.prems(1) ps have "p = z # q" "split_on c n = (q # ps') @ qs" by simp_all
    with Cons.IH [of "q # ps'"] Cons.prems(3) obtain x y
      where "n = x @ c # y" "split_on c x = q # ps'" "split_on c y = qs" by blast
    with False ps \<open>p = z # q\<close>
    have "z # n = (z # x) @ c # y \<and> split_on c (z # x) = ps \<and> split_on c y = qs" by simp
    then show ?thesis by blast
  qed
qed

lemma split_on_prefix:
  "prefix (split_on c a) (split_on c n) \<longleftrightarrow> n = a \<or> starts_with (a @ [c]) n"
proof
  assume "prefix (split_on c a) (split_on c n)"
  then obtain qs where qs: "split_on c n = split_on c a @ qs" by (auto simp: prefix_def)
  show "n = a \<or> starts_with (a @ [c]) n"
  proof (cases "qs = []")
    case True
    with qs split_on_inj [of c n a] show ?thesis by simp
  next
    case False
    with split_on_splits [OF qs] split_on_inj show ?thesis by (fastforce simp: starts_with_iff)
  qed
next
  assume "n = a \<or> starts_with (a @ [c]) n"
  then show "prefix (split_on c a) (split_on c n)"
    by (auto simp: starts_with_iff split_on_append)
qed

text \<open>A node of the taxonomy as a path: the class and the segments of the family, if any.\<close>

definition node_path :: "fil_taxonomy_node \<Rightarrow> string list" where
  "node_path n = tn_assetClass n #
     (case tn_familyPath n of None \<Rightarrow> [] | Some f \<Rightarrow> split_on CHR ''.'' f)"

text \<open>
  A node is at or below another exactly when the other's path of segments is a prefix of its
  own; so the relation is a partial order on the nodes, and no family is taken for the ancestor
  of another whose name merely continues its text.
\<close>

theorem at_or_below_is_path_prefix:
  "(isAtOrBelow n a \<longleftrightarrow> prefix (node_path a) (node_path n))
   \<and> isAtOrBelow n n
   \<and> (isAtOrBelow n a \<and> isAtOrBelow a b \<longrightarrow> isAtOrBelow n b)
   \<and> (isAtOrBelow n a \<and> isAtOrBelow a n \<longrightarrow> n = a)"
proof -
  have main: "isAtOrBelow n a \<longleftrightarrow> prefix (node_path a) (node_path n)" for n a
    using split_on_prefix [of "CHR ''.''"]
    by (auto simp: isAtOrBelow_def node_path_def split: option.splits)
  have "n = a" if "node_path n = node_path a"
    using that split_on_inj [of "CHR ''.''"]
    by (auto simp: node_path_def split_on_nonempty [symmetric] intro!: fil_taxonomy_node.equality
        split: option.splits)
  then show ?thesis unfolding main using prefix_order.order_trans prefix_order.antisym by blast
qed

lemma at_or_below_is_path_prefix_witness:
  "isAtOrBelow \<lparr>tn_assetClass = ''fx'', tn_familyPath = Some ''spot.otc''\<rparr>
     \<lparr>tn_assetClass = ''fx'', tn_familyPath = None\<rparr>
   \<and> \<not> isAtOrBelow \<lparr>tn_assetClass = ''fx'', tn_familyPath = Some ''spotted''\<rparr>
     \<lparr>tn_assetClass = ''fx'', tn_familyPath = Some ''spot''\<rparr>"
proof -
  have "isAtOrBelow \<lparr>tn_assetClass = ''fx'', tn_familyPath = Some ''spot.otc''\<rparr>
     \<lparr>tn_assetClass = ''fx'', tn_familyPath = Some ''spot''\<rparr>
   \<and> isAtOrBelow \<lparr>tn_assetClass = ''fx'', tn_familyPath = Some ''spot''\<rparr>
     \<lparr>tn_assetClass = ''fx'', tn_familyPath = None\<rparr>"
    by code_simp
  with at_or_below_is_path_prefix
    [of "\<lparr>tn_assetClass = ''fx'', tn_familyPath = Some ''spot.otc''\<rparr>"
        "\<lparr>tn_assetClass = ''fx'', tn_familyPath = Some ''spot''\<rparr>"
        "\<lparr>tn_assetClass = ''fx'', tn_familyPath = None\<rparr>"]
  have "isAtOrBelow \<lparr>tn_assetClass = ''fx'', tn_familyPath = Some ''spot.otc''\<rparr>
     \<lparr>tn_assetClass = ''fx'', tn_familyPath = None\<rparr>" by blast
  moreover have "\<not> isAtOrBelow \<lparr>tn_assetClass = ''fx'', tn_familyPath = Some ''spotted''\<rparr>
     \<lparr>tn_assetClass = ''fx'', tn_familyPath = Some ''spot''\<rparr>"
    by code_simp
  ultimately show ?thesis by blast
qed

section \<open>Scope patterns that match\<close>

lemma pattern_no_at:
  assumes "isFilScopePattern p"
  shows "CHR ''@'' \<notin> set p"
proof -
  obtain r where p: "p = ''fil:type:'' @ r" and r: "strip_prefix ''fil:type:'' p = Some r"
    using assms by (auto simp: isFilScopePattern_def strip_prefix_Some_iff split: option.splits)
  have no: "\<not> scope_char CHR ''@''" by (simp add: scope_char_def)
  have cls: "CHR ''@'' \<notin> set cls" if "cls \<in> set FIL_ASSET_CLASSES \<or> cls = ''*''" for cls
    using that by (auto simp: FIL_ASSET_CLASSES_def)
  have "CHR ''@'' \<notin> set q" if "q \<in> set (split_on CHR '':'' r)" for q
    using assms that r no cls
    by (auto simp: isFilScopePattern_def list_all_iff split: list.splits)
  then have "CHR ''@'' \<notin> set r" using split_on_covers [of "CHR ''@''" r "CHR '':''"] by auto
  with p show ?thesis by simp
qed

lemma type_urn_no_star:
  assumes "isFilTypeUrn u"
  shows "CHR ''*'' \<notin> set u \<and> CHR ''@'' \<in> set u"
proof -
  from assms obtain cls fam slug maj mnr where "TYPE_URN_RE u = Some (cls, fam, slug, maj, mnr)"
    unfolding isFilTypeUrn_def by (metis option.exhaust surj_pair)
  then have u: "u = ''fil:type:'' @ cls @ '':'' @ fam @ '':'' @ slug @ ''@'' @ maj @ ''.'' @ mnr"
    and ok: "cls \<in> set FIL_ASSET_CLASSES" "family_group fam" "FAMILY_PATH_SEGMENT slug"
      "all_digits maj" "all_digits mnr"
    by (simp_all add: TYPE_URN_RE_iff)
  have "CHR ''*'' \<notin> set cls" using ok(1) by (auto simp: FIL_ASSET_CLASSES_def)
  moreover have "CHR ''*'' \<notin> set fam"
    using ok(2) by (auto simp: family_group_def list_all_iff)
  moreover have "CHR ''*'' \<notin> set slug"
    using segment_chars [OF ok(3)] by (auto simp: list_all_iff)
  moreover have "CHR ''*'' \<notin> set maj" "CHR ''*'' \<notin> set mnr"
    using ok(4,5) by (auto simp: all_digits_def list_all_iff)
  ultimately show ?thesis unfolding u by simp
qed

text \<open>
  C33. A valid scope pattern covers a valid type URN exactly when it is a star-free prefix of the
  URN followed by one star.  So a pattern without a final star, or with a star before the end,
  passes validation and covers no type at all: the exact-match case is never met.
\<close>

theorem scope_pattern_covers:
  assumes "isFilScopePattern p" "isFilTypeUrn u"
  shows "matchesFilScope p u \<longleftrightarrow>
     (\<exists>q. p = q @ ''*'' \<and> CHR ''*'' \<notin> set q \<and> starts_with q u)"
proof
  assume m: "matchesFilScope p u"
  have "p \<noteq> u" using pattern_no_at [OF assms(1)] type_urn_no_star [OF assms(2)] by auto
  with m have last: "p \<noteq> []" "last p = CHR ''*''" "starts_with (butlast p) u"
    by (auto simp: matchesFilScope_def split: if_splits)
  then have "p = butlast p @ ''*''" by (metis append_butlast_last_id)
  moreover have "CHR ''*'' \<notin> set (butlast p)"
    using last(3) type_urn_no_star [OF assms(2)] by (auto simp: starts_with_iff)
  ultimately show "\<exists>q. p = q @ ''*'' \<and> CHR ''*'' \<notin> set q \<and> starts_with q u"
    using last(3) by blast
next
  assume "\<exists>q. p = q @ ''*'' \<and> CHR ''*'' \<notin> set q \<and> starts_with q u"
  then show "matchesFilScope p u" by (auto simp: matchesFilScope_def)
qed

lemma scope_pattern_covers_witness:
  "matchesFilScope ''fil:type:fx:*'' ''fil:type:fx:spot:vanilla@1.0''
   \<and> isFilScopePattern ''fil:type:fx:*''"
proof -
  have p: "isFilScopePattern ''fil:type:fx:*''" by code_simp
  have u: "isFilTypeUrn ''fil:type:fx:spot:vanilla@1.0''" by code_simp
  have "''fil:type:fx:*'' = ''fil:type:fx:'' @ ''*'' \<and> CHR ''*'' \<notin> set ''fil:type:fx:'' \<and>
      starts_with ''fil:type:fx:'' ''fil:type:fx:spot:vanilla@1.0''"
    by (simp add: starts_with_def)
  with scope_pattern_covers [OF p u] p show ?thesis by blast
qed

end
