(* ===== verification/FilInstances.thy ===== *)
theory FilInstances
  imports FilUrn CivilDate
begin

text \<open>
  The register of financial instruments (\<open>v2-core/fil-instances\<close>): the payloads of the lifecycle
  events (\<open>events.ts\<close>), the fold into the register and the live set (\<open>projection.ts\<close>), the
  derived liveness of cash (\<open>cash-cascade.ts\<close>) and the grouping by trade (\<open>trade-family.ts\<close>).
  Enumerations other than the lifecycle stage are strings, as the schemas store them.
\<close>

section \<open>Payloads\<close>

datatype fil_stage = SProposed | SActive | SSettled | SMatured | SCancelled | STerminated

datatype fil_terminal_stage = TSettled | TMatured | TCancelled | TTerminated

fun stage_of :: "fil_terminal_stage \<Rightarrow> fil_stage" where
  "stage_of TSettled = SSettled"
| "stage_of TMatured = SMatured"
| "stage_of TCancelled = SCancelled"
| "stage_of TTerminated = STerminated"

record fil_money =
  fm_currency :: string
  fm_amount :: string

record fil_event_ref =
  er_eventType :: string
  er_eventId :: string

record fx_agreement =
  fxa_buy :: fil_money
  fxa_sell :: fil_money

record fil_qualifying_capital =
  qc_tier :: string
  qc_subCategory :: string

record fil_deposit_terms =
  dt_depositCategory :: string
  dt_counterpartySector :: string

record fil_loan_terms =
  lt_loanProductSubType :: string
  lt_ifrs9Stage :: nat
  lt_exposureClass :: string
  lt_ltvBucket :: "string option"

record fil_cash_terms =
  ct_counterpartyClass :: string
  ct_bookType :: "string option"

datatype fil_direction = Long | Short

record fil_economic_terms =
  et_assetClass :: string
  et_notional :: fil_money
  et_direction :: fil_direction
  et_counterpartyId :: string
  et_nettingSetId :: string
  et_currency :: string
  et_settlementDate :: string
  et_tradeDate :: "string option"
  et_hedgingSetTag :: "string option"
  et_originatingInstrument :: "string option"
  et_productId :: "string option"
  et_qualifyingCapital :: "fil_qualifying_capital option"
  et_depositTerms :: "fil_deposit_terms option"
  et_loanTerms :: "fil_loan_terms option"
  et_cashTerms :: "fil_cash_terms option"
  et_fxAgreement :: "fx_agreement option"
  et_fairValueDelta :: "fil_money option"
  et_dayOneFairValue :: "fil_money option"
  et_zarCostBasis :: "fil_money option"

record fil_base =
  ib_instance :: string
  ib_type :: string
  ib_tenant :: string
  ib_asOf :: string
  ib_originatingEvent :: fil_event_ref

record fil_created = fil_base +
  cr_initialStage :: fil_stage
  cr_economicTerms :: fil_economic_terms

record fil_amended = fil_base +
  am_amendmentVia :: string
  am_economicTerms :: fil_economic_terms

record fil_terminated = fil_base +
  te_terminalStage :: fil_terminal_stage
  te_derecognitionTerms :: "fil_money option"
  te_fvociReclassTerms :: "fil_money option"

datatype fx_leg_role = LegSpot | LegSwapNear | LegSwapFar

record fil_fx_settlement = fil_base +
  fs_legRole :: fx_leg_role
  fs_boughtBooked :: fil_money
  fs_boughtSettled :: fil_money
  fs_soldBooked :: fil_money
  fs_soldSettled :: fil_money
  fs_bopCategory :: "string option"

record fil_ndf_fixing = fil_base +
  nf_settlementCurrency :: string
  nf_contractedRate :: string
  nf_fixingRate :: string
  nf_notional :: fil_money
  nf_netCashDifference :: fil_money
  nf_bopCategory :: "string option"

datatype fil_event =
    FilInstrumentCreated fil_created
  | FilInstrumentAmended fil_amended
  | FilInstrumentTerminated fil_terminated
  | FilFxSettlementConfirmed fil_fx_settlement
  | FilNdfFixingObserved fil_ndf_fixing

section \<open>The register\<close>

record fil_row =
  rw_instance :: string
  rw_type :: string
  rw_tenant :: string
  rw_stage :: fil_stage
  rw_economicTerms :: fil_economic_terms
  rw_originatingEvent :: fil_event_ref
  rw_createdAsOf :: string
  rw_lastAsOf :: string

type_synonym fil_register = "(string, fil_row) jsmap"

text \<open>One iteration of the loop, after the bound has admitted the event.\<close>

fun register_step :: "fil_event \<Rightarrow> fil_register \<Rightarrow> fil_register" where
  "register_step (FilInstrumentCreated c) byUrn =
     jm_set (ib_instance c)
       \<lparr>rw_instance = ib_instance c, rw_type = ib_type c, rw_tenant = ib_tenant c,
        rw_stage = cr_initialStage c, rw_economicTerms = cr_economicTerms c,
        rw_originatingEvent = ib_originatingEvent c, rw_createdAsOf = ib_asOf c,
        rw_lastAsOf = ib_asOf c\<rparr> byUrn"
| "register_step (FilInstrumentAmended a) byUrn =
     (case jm_get byUrn (ib_instance a) of
        None \<Rightarrow> byUrn
      | Some prev \<Rightarrow>
          jm_set (ib_instance a)
            (prev\<lparr>rw_economicTerms := am_economicTerms a, rw_lastAsOf := ib_asOf a\<rparr>) byUrn)"
| "register_step (FilInstrumentTerminated t) byUrn =
     (case jm_get byUrn (ib_instance t) of
        None \<Rightarrow> byUrn
      | Some prev \<Rightarrow>
          jm_set (ib_instance t)
            (prev\<lparr>rw_stage := stage_of (te_terminalStage t), rw_lastAsOf := ib_asOf t\<rparr>) byUrn)"
| "register_step (FilFxSettlementConfirmed s) byUrn = byUrn"
| "register_step (FilNdfFixingObserved n) byUrn = byUrn"

fun event_asOf :: "fil_event \<Rightarrow> string" where
  "event_asOf (FilInstrumentCreated c) = ib_asOf c"
| "event_asOf (FilInstrumentAmended a) = ib_asOf a"
| "event_asOf (FilInstrumentTerminated t) = ib_asOf t"
| "event_asOf (FilFxSettlementConfirmed s) = ib_asOf s"
| "event_asOf (FilNdfFixingObserved n) = ib_asOf n"

text \<open>The bound: a comparison with \<open>NaN\<close> is false, so it skips nothing.\<close>

definition admitted :: "string option \<Rightarrow> fil_event \<Rightarrow> bool" where
  "admitted asOf ev =
     (case asOf of
        None \<Rightarrow> True
      | Some a \<Rightarrow>
          (case (parse_instant (event_asOf ev), parse_instant a) of
             (Some t, Some bound) \<Rightarrow> \<not> t > bound
           | _ \<Rightarrow> True))"

definition foldFilInstances :: "fil_event list \<Rightarrow> string option \<Rightarrow> fil_register" where
  "foldFilInstances evs asOf =
     fold (\<lambda>ev byUrn. if admitted asOf ev then register_step ev byUrn else byUrn) evs []"

definition isLiveStage :: "fil_stage \<Rightarrow> bool" where
  "isLiveStage s \<longleftrightarrow> s = SActive \<or> s = SProposed"

definition liveInstances :: "fil_register \<Rightarrow> fil_row list" where
  "liveInstances reg = filter (\<lambda>r. isLiveStage (rw_stage r)) (map snd reg)"

section \<open>Derived liveness of cash\<close>

definition isParentTerminalStage :: "fil_stage \<Rightarrow> bool" where
  "isParentTerminalStage s \<longleftrightarrow> s \<in> {SCancelled, STerminated}"

definition isCashParentTerminal :: "fil_row \<Rightarrow> fil_register \<Rightarrow> bool" where
  "isCashParentTerminal row reg =
     (case et_originatingInstrument (rw_economicTerms row) of
        None \<Rightarrow> False
      | Some origin \<Rightarrow>
          (if origin = [] then False
           else case jm_get reg origin of
             None \<Rightarrow> False
           | Some parent \<Rightarrow> isParentTerminalStage (rw_stage parent)))"

definition isEffectivelyLiveCash :: "fil_row \<Rightarrow> fil_register \<Rightarrow> bool" where
  "isEffectivelyLiveCash row reg =
     (if et_assetClass (rw_economicTerms row) \<noteq> ''cash'' then False
      else if \<not> isLiveStage (rw_stage row) then False
      else \<not> isCashParentTerminal row reg)"

definition effectiveLiveCashInstances :: "fil_register \<Rightarrow> fil_row list" where
  "effectiveLiveCashInstances reg = filter (\<lambda>r. isEffectivelyLiveCash r reg) (map snd reg)"

section \<open>Trade families\<close>

datatype family_payload =
    CreatedForFamily string "string option"
  | SettlementForFamily string string

text \<open>
  The keys the grouping reads: the instance and its originating instrument, or the trade and the
  holding of a settlement.
\<close>

record trade_family =
  tf_trade :: string
  tf_created :: "string option"
  tf_holdings :: "string list"
  tf_settlements :: "string list"

definition emptyFamily :: "string \<Rightarrow> trade_family" where
  "emptyFamily trade = \<lparr>tf_trade = trade, tf_created = None, tf_holdings = [], tf_settlements = []\<rparr>"

definition pushUnique :: "string \<Rightarrow> string list \<Rightarrow> string list" where
  "pushUnique v arr = (if v \<in> set arr then arr else arr @ [v])"

definition get_family :: "(string, trade_family) jsmap \<Rightarrow> string \<Rightarrow> trade_family" where
  "get_family families trade =
     (case jm_get families trade of Some f \<Rightarrow> f | None \<Rightarrow> emptyFamily trade)"

fun family_step :: "family_payload \<Rightarrow> (string, trade_family) jsmap \<Rightarrow> (string, trade_family) jsmap"
where
  "family_step (CreatedForFamily inst parent) families =
     (case parent of
        Some p \<Rightarrow>
          (if p \<noteq> [] then
             jm_set p (get_family families p\<lparr>tf_holdings :=
               pushUnique inst (tf_holdings (get_family families p))\<rparr>) families
           else jm_set inst (get_family families inst\<lparr>tf_created := Some inst\<rparr>) families)
      | None \<Rightarrow> jm_set inst (get_family families inst\<lparr>tf_created := Some inst\<rparr>) families)"
| "family_step (SettlementForFamily trade holding) families =
     jm_set trade (get_family families trade\<lparr>tf_settlements :=
       pushUnique holding (tf_settlements (get_family families trade))\<rparr>) families"

definition foldTradeFamilies :: "family_payload list \<Rightarrow> (string, trade_family) jsmap" where
  "foldTradeFamilies payloads = fold family_step payloads []"

definition tradeFamily :: "(string, trade_family) jsmap \<Rightarrow> string \<Rightarrow> trade_family option" where
  "tradeFamily reg trade = jm_get reg trade"

section \<open>The register is a keyed projection\<close>

fun event_instrument :: "fil_event \<Rightarrow> string option" where
  "event_instrument (FilInstrumentCreated c) = Some (ib_instance c)"
| "event_instrument (FilInstrumentAmended a) = Some (ib_instance a)"
| "event_instrument (FilInstrumentTerminated t) = Some (ib_instance t)"
| "event_instrument _ = None"

interpretation fil: keyed_projection event_instrument register_step
proof
  fix e k and m m' :: fil_register
  show "event_instrument e \<noteq> Some k \<Longrightarrow> jm_get (register_step e m) k = jm_get m k"
    by (cases e) (auto split: option.splits)
  show "jm_get m k = jm_get m' k \<Longrightarrow>
      jm_get (register_step e m) k = jm_get (register_step e m') k"
    by (cases e; cases "jm_get m k"; cases "event_instrument e = Some k")
      (auto split: option.splits)
  show "jm_keys_distinct m \<Longrightarrow> jm_keys_distinct (register_step e m)"
    by (cases e) (auto split: option.splits)
qed

lemma fold_admitted:
  "foldFilInstances evs asOf = fold register_step (filter (admitted asOf) evs) []"
proof -
  have "fold (\<lambda>ev m. if admitted asOf ev then register_step ev m else m) evs m =
      fold register_step (filter (admitted asOf) evs) m" for m
    by (induction evs arbitrary: m) simp_all
  then show ?thesis by (simp add: foldFilInstances_def)
qed

lemma register_distinct: "jm_keys_distinct (foldFilInstances evs asOf)"
  unfolding fold_admitted by (rule fil.fold_distinct) simp

definition creates :: "string \<Rightarrow> fil_event \<Rightarrow> bool" where
  "creates u e \<longleftrightarrow> (\<exists>c. e = FilInstrumentCreated c \<and> ib_instance c = u)"

text \<open>The terminal stages, the amended terms and the dates recorded for an instrument.\<close>

fun terminal_stages :: "string \<Rightarrow> fil_event list \<Rightarrow> fil_stage list" where
  "terminal_stages u [] = []"
| "terminal_stages u (FilInstrumentTerminated t # es) =
     (if ib_instance t = u then [stage_of (te_terminalStage t)] else []) @ terminal_stages u es"
| "terminal_stages u (_ # es) = terminal_stages u es"

fun amended_terms :: "string \<Rightarrow> fil_event list \<Rightarrow> fil_economic_terms list" where
  "amended_terms u [] = []"
| "amended_terms u (FilInstrumentAmended a # es) =
     (if ib_instance a = u then [am_economicTerms a] else []) @ amended_terms u es"
| "amended_terms u (_ # es) = amended_terms u es"

definition own_dates :: "string \<Rightarrow> fil_event list \<Rightarrow> string list" where
  "own_dates u es = map event_asOf (filter (\<lambda>e. event_instrument e = Some u) es)"

definition created_row :: "fil_created \<Rightarrow> fil_event list \<Rightarrow> fil_row" where
  "created_row c later =
     (let u = ib_instance c in
      \<lparr>rw_instance = u, rw_type = ib_type c, rw_tenant = ib_tenant c,
       rw_stage = last (cr_initialStage c # terminal_stages u later),
       rw_economicTerms = last (cr_economicTerms c # amended_terms u later),
       rw_originatingEvent = ib_originatingEvent c, rw_createdAsOf = ib_asOf c,
       rw_lastAsOf = last (ib_asOf c # own_dates u later)\<rparr>)"

lemma terminal_stages_append [simp]:
  "terminal_stages u (xs @ ys) = terminal_stages u xs @ terminal_stages u ys"
  by (induction u xs rule: terminal_stages.induct) simp_all

lemma amended_terms_append [simp]:
  "amended_terms u (xs @ ys) = amended_terms u xs @ amended_terms u ys"
  by (induction u xs rule: amended_terms.induct) simp_all

lemma own_dates_simps [simp]:
  "own_dates u [] = []" "own_dates u (xs @ ys) = own_dates u xs @ own_dates u ys"
  "own_dates u (e # es) =
     (if event_instrument e = Some u then event_asOf e # own_dates u es else own_dates u es)"
  by (simp_all add: own_dates_def)

lemma fold_created_row:
  assumes "jm_get m (ib_instance c) = Some (created_row c zs)"
    "\<forall>e \<in> set ys. \<not> creates (ib_instance c) e"
  shows "jm_get (fold register_step ys m) (ib_instance c) = Some (created_row c (zs @ ys))"
  using assms
proof (induction ys arbitrary: m zs)
  case Nil
  then show ?case by simp
next
  case (Cons y ys)
  have "jm_get (register_step y m) (ib_instance c) = Some (created_row c (zs @ [y]))"
  proof (cases "event_instrument y = Some (ib_instance c)")
    case True
    with Cons.prems show ?thesis by (cases y) (auto simp: created_row_def Let_def creates_def)
  next
    case False
    then have "terminal_stages (ib_instance c) [y] = []" "amended_terms (ib_instance c) [y] = []"
      by (cases y; simp)+
    with False Cons.prems(1) fil.app_frame [OF False, of m] show ?thesis
      by (simp add: created_row_def Let_def)
  qed
  from Cons.IH [OF this] Cons.prems(2) show ?case by simp
qed

lemma register_row_after:
  assumes "\<forall>e \<in> set ys. \<not> creates (ib_instance c) e"
  shows "jm_get (fold register_step (xs @ FilInstrumentCreated c # ys) m) (ib_instance c) =
    Some (created_row c ys)"
proof -
  have "jm_get (register_step (FilInstrumentCreated c) (fold register_step xs m)) (ib_instance c) =
      Some (created_row c [])"
    by (simp add: created_row_def Let_def)
  from fold_created_row [OF this assms] show ?thesis by simp
qed

lemma register_none:
  assumes "\<forall>e \<in> set es. \<not> creates u e"
  shows "jm_get (fold register_step es []) u = None"
proof -
  have "jm_get m u = None \<Longrightarrow> jm_get (fold register_step es m) u = None" for m
    using assms
  proof (induction es arbitrary: m)
    case Nil
    then show ?case by simp
  next
    case (Cons e es)
    then have "jm_get (register_step e m) u = None"
      by (cases e) (auto simp: creates_def split: option.splits)
    with Cons show ?case by simp
  qed
  then show ?thesis by simp
qed

lemma last_creation:
  assumes "\<exists>e \<in> set es. creates u e"
  obtains xs c ys where "es = xs @ FilInstrumentCreated c # ys" "ib_instance c = u"
    "\<forall>e \<in> set ys. \<not> creates u e"
proof -
  obtain xs e ys where "es = xs @ e # ys" "creates u e" "\<forall>e \<in> set ys. \<not> creates u e"
    using split_list_last_prop [OF assms] by blast
  with that show ?thesis by (auto simp: creates_def)
qed

lemma register_row_facts:
  "jm_get (foldFilInstances evs asOf) u = None \<longleftrightarrow>
      (\<forall>e \<in> set evs. admitted asOf e \<longrightarrow> \<not> creates u e)"
  "jm_get (foldFilInstances evs asOf) u = Some r \<longleftrightarrow>
      (\<exists>xs c ys. filter (admitted asOf) evs = xs @ FilInstrumentCreated c # ys \<and> ib_instance c = u \<and>
         (\<forall>e \<in> set ys. \<not> creates u e) \<and> r = created_row c ys)"
proof -
  let ?es = "filter (admitted asOf) evs"
  have det: "jm_get (foldFilInstances evs asOf) u = Some (created_row c ys)"
    if "?es = xs @ FilInstrumentCreated c # ys" "ib_instance c = u" "\<forall>e \<in> set ys. \<not> creates u e"
    for xs c ys
    using register_row_after [of ys c xs "[]"] that unfolding fold_admitted that(1) by blast
  have none: "jm_get (foldFilInstances evs asOf) u = None" if "\<forall>e \<in> set ?es. \<not> creates u e"
    using register_none [OF that] by (simp add: fold_admitted)
  have some: "\<exists>xs c ys. ?es = xs @ FilInstrumentCreated c # ys \<and> ib_instance c = u \<and>
      (\<forall>e \<in> set ys. \<not> creates u e)" if "\<exists>e \<in> set ?es. creates u e"
    by (rule last_creation [OF that]) blast
  show "jm_get (foldFilInstances evs asOf) u = None \<longleftrightarrow>
      (\<forall>e \<in> set evs. admitted asOf e \<longrightarrow> \<not> creates u e)"
  proof (cases "\<exists>e \<in> set ?es. creates u e")
    case True
    then have "jm_get (foldFilInstances evs asOf) u \<noteq> None" using some [OF True] det by force
    with True show ?thesis by auto
  next
    case False
    with none show ?thesis by auto
  qed
  show "jm_get (foldFilInstances evs asOf) u = Some r \<longleftrightarrow>
      (\<exists>xs c ys. ?es = xs @ FilInstrumentCreated c # ys \<and> ib_instance c = u \<and>
         (\<forall>e \<in> set ys. \<not> creates u e) \<and> r = created_row c ys)" (is "?l \<longleftrightarrow> ?r")
  proof
    assume l: ?l
    with none have "\<exists>e \<in> set ?es. creates u e" by force
    from some [OF this] obtain xs c ys where
      s: "?es = xs @ FilInstrumentCreated c # ys" "ib_instance c = u" "\<forall>e \<in> set ys. \<not> creates u e"
      by blast
    from det [OF s] l have "r = created_row c ys" by simp
    with s show ?r by blast
  next
    assume ?r
    with det show ?l by blast
  qed
qed

lemma register_keys:
  assumes "(k, r) \<in> set (foldFilInstances evs asOf)"
  shows "rw_instance r = k"
proof -
  have "jm_get (foldFilInstances evs asOf) k = Some r"
    using register_distinct [of evs asOf] assms by (simp add: jm_keys_distinct_def)
  then show ?thesis unfolding register_row_facts(2) by (auto simp: created_row_def Let_def)
qed

lemma live_member:
  "(\<exists>r \<in> set (liveInstances (foldFilInstances evs asOf)). rw_instance r = u) \<longleftrightarrow>
   (\<exists>r. jm_get (foldFilInstances evs asOf) u = Some r \<and> isLiveStage (rw_stage r))"
proof -
  have "jm_get (foldFilInstances evs asOf) u = Some r \<longleftrightarrow> (u, r) \<in> set (foldFilInstances evs asOf)"
    for r
    using register_distinct [of evs asOf] by (simp add: jm_keys_distinct_def)
  moreover have "r \<in> set (liveInstances (foldFilInstances evs asOf)) \<and> rw_instance r = u \<longleftrightarrow>
      (u, r) \<in> set (foldFilInstances evs asOf) \<and> isLiveStage (rw_stage r)" for r
    using register_keys [of _ r evs asOf] by (force simp: liveInstances_def image_iff)
  ultimately show ?thesis by blast
qed

lemma terminal_never_live: "s \<in> set (terminal_stages u es) \<Longrightarrow> \<not> isLiveStage s"
proof (induction u es rule: terminal_stages.induct)
  case (2 u t es)
  then show ?case by (cases "te_terminalStage t") (auto simp: isLiveStage_def split: if_splits)
qed simp_all

lemma created_row_live:
  "isLiveStage (rw_stage (created_row c ys)) \<longleftrightarrow>
     isLiveStage (cr_initialStage c) \<and> terminal_stages (ib_instance c) ys = []"
  using terminal_never_live [OF last_in_set, of "ib_instance c" ys]
  by (auto simp: created_row_def Let_def)

lemma terminal_stages_Nil_iff:
  "terminal_stages u es = [] \<longleftrightarrow>
     (\<forall>e \<in> set es. \<forall>t. e = FilInstrumentTerminated t \<longrightarrow> ib_instance t \<noteq> u)"
  by (induction u es rule: terminal_stages.induct) auto

lemma jm_set_present:
  "jm_get m k = Some w \<Longrightarrow> jm_keys_distinct m \<Longrightarrow>
   jm_set k v m = map (\<lambda>(k', v'). (k', if k' = k then v else v')) m"
proof (induction m)
  case Nil
  then show ?case by simp
next
  case (Cons x m)
  obtain a b where x: "x = (a, b)" by fastforce
  show ?case
  proof (cases "a = k")
    case True
    with Cons.prems(2) x have "\<forall>y \<in> set m. fst y \<noteq> k" by (force simp: jm_keys_distinct_def)
    then have "map (\<lambda>(k', v'). (k', if k' = k then v else v')) m = m"
      by (induction m) auto
    with True x show ?thesis by simp
  next
    case False
    with Cons x show ?thesis by (simp add: jm_keys_distinct_def)
  qed
qed

lemma filter_map_agree:
  assumes "\<forall>x \<in> set xs. P (f x) \<longleftrightarrow> R (g x) \<and> Q (g x)" "\<forall>x \<in> set xs. Q (g x) \<longrightarrow> f x = g x"
  shows "filter P (map f xs) = filter Q (filter R (map g xs))"
  using assms by (induction xs) auto

text \<open>
  An instrument has a row exactly when an admitted event creates it.  The row is that of its
  last creation, with the terms of the last amendment, the stage of the last termination and the
  date of the last event recorded for it since; events of other instruments have no influence.
\<close>

theorem register_row:
  "(jm_get (foldFilInstances evs asOf) u = None \<longleftrightarrow>
      (\<forall>e \<in> set evs. admitted asOf e \<longrightarrow> \<not> creates u e))
   \<and> (jm_get (foldFilInstances evs asOf) u = Some r \<longleftrightarrow>
      (\<exists>xs c ys. filter (admitted asOf) evs = xs @ FilInstrumentCreated c # ys \<and> ib_instance c = u \<and>
         (\<forall>e \<in> set ys. \<not> creates u e) \<and> r = created_row c ys))"
  by (rule conjI [OF register_row_facts])

text \<open>A trade and the cash its settlement produced, created and then cancelled.\<close>

definition sample_terms :: "string \<Rightarrow> string option \<Rightarrow> fil_economic_terms" where
  "sample_terms cls origin =
     \<lparr>et_assetClass = cls, et_notional = \<lparr>fm_currency = ''ZAR'', fm_amount = ''10''\<rparr>,
      et_direction = Long, et_counterpartyId = ''cp'', et_nettingSetId = ''ns'',
      et_currency = ''ZAR'', et_settlementDate = ''2026-01-05'', et_tradeDate = None,
      et_hedgingSetTag = None, et_originatingInstrument = origin, et_productId = None,
      et_qualifyingCapital = None, et_depositTerms = None, et_loanTerms = None, et_cashTerms = None,
      et_fxAgreement = None, et_fairValueDelta = None, et_dayOneFairValue = None,
      et_zarCostBasis = None\<rparr>"

definition sample_created :: "string \<Rightarrow> string \<Rightarrow> string option \<Rightarrow> fil_created" where
  "sample_created u cls origin =
     \<lparr>ib_instance = u, ib_type = ''fil:type:fx:spot:vanilla@1.0'', ib_tenant = ''t'',
      ib_asOf = ''2026-01-05'', ib_originatingEvent = \<lparr>er_eventType = ''E'', er_eventId = ''1''\<rparr>,
      cr_initialStage = SActive, cr_economicTerms = sample_terms cls origin\<rparr>"

definition sample_terminated :: "string \<Rightarrow> fil_terminal_stage \<Rightarrow> fil_terminated" where
  "sample_terminated u st =
     \<lparr>ib_instance = u, ib_type = ''fil:type:fx:spot:vanilla@1.0'', ib_tenant = ''t'',
      ib_asOf = ''2026-01-06'', ib_originatingEvent = \<lparr>er_eventType = ''E'', er_eventId = ''1''\<rparr>,
      te_terminalStage = st, te_derecognitionTerms = None, te_fvociReclassTerms = None\<rparr>"

lemma register_row_witness:
  "jm_get (foldFilInstances
      [FilInstrumentCreated (sample_created ''a'' ''fx'' None),
       FilInstrumentTerminated (sample_terminated ''a'' TSettled)] None) ''a'' =
     Some (created_row (sample_created ''a'' ''fx'' None)
       [FilInstrumentTerminated (sample_terminated ''a'' TSettled)])"
proof -
  let ?c = "sample_created ''a'' ''fx'' None"
  let ?ys = "[FilInstrumentTerminated (sample_terminated ''a'' TSettled)]"
  have "filter (admitted None) (FilInstrumentCreated ?c # ?ys) = [] @ FilInstrumentCreated ?c # ?ys"
    "ib_instance ?c = ''a''" "\<forall>e \<in> set ?ys. \<not> creates ''a'' e"
    by (simp_all add: admitted_def sample_created_def creates_def)
  then show ?thesis
    using register_row [of "FilInstrumentCreated ?c # ?ys" None "''a''" "created_row ?c ?ys"] by blast
qed

text \<open>
  C24. An instrument is in the live set exactly when its last admitted creation starts it live and
  no termination of it follows: amendments have no influence, and a termination is final until a
  new creation.
\<close>

theorem live_iff_not_terminated_since_creation:
  "(\<exists>r \<in> set (liveInstances (foldFilInstances evs asOf)). rw_instance r = u) \<longleftrightarrow>
   (\<exists>xs c ys. filter (admitted asOf) evs = xs @ FilInstrumentCreated c # ys \<and> ib_instance c = u \<and>
      isLiveStage (cr_initialStage c) \<and>
      (\<forall>e \<in> set ys. \<not> creates u e \<and>
         (\<forall>t. e = FilInstrumentTerminated t \<longrightarrow> ib_instance t \<noteq> u)))"
  (is "?live \<longleftrightarrow> ?decl")
proof -
  have "?live \<longleftrightarrow> (\<exists>r. jm_get (foldFilInstances evs asOf) u = Some r \<and> isLiveStage (rw_stage r))"
    by (rule live_member)
  also have "\<dots> \<longleftrightarrow> (\<exists>xs c ys. filter (admitted asOf) evs = xs @ FilInstrumentCreated c # ys \<and>
      ib_instance c = u \<and> (\<forall>e \<in> set ys. \<not> creates u e) \<and> isLiveStage (rw_stage (created_row c ys)))"
    unfolding register_row_facts(2) by blast
  also have "\<dots> \<longleftrightarrow> ?decl"
    unfolding created_row_live terminal_stages_Nil_iff
    by (rule ex_cong1, rule ex_cong1, rule ex_cong1)
      (simp add: ball_conj_distrib conj_ac cong: conj_cong)
  finally show ?thesis .
qed

lemma live_iff_not_terminated_since_creation_witness:
  "\<exists>r \<in> set (liveInstances (foldFilInstances
      [FilInstrumentTerminated (sample_terminated ''a'' TSettled),
       FilInstrumentCreated (sample_created ''a'' ''fx'' None)] None)). rw_instance r = ''a''"
proof -
  let ?c = "sample_created ''a'' ''fx'' None"
  let ?t = "FilInstrumentTerminated (sample_terminated ''a'' TSettled)"
  have "filter (admitted None) [?t, FilInstrumentCreated ?c] = [?t] @ FilInstrumentCreated ?c # []"
    "ib_instance ?c = ''a''" "isLiveStage (cr_initialStage ?c)"
    by (simp_all add: admitted_def sample_created_def isLiveStage_def)
  then show ?thesis
    using live_iff_not_terminated_since_creation [of "[?t, FilInstrumentCreated ?c]" None "''a''"]
    by fastforce
qed

section \<open>The cancellation cascade\<close>

lemma register_step_terminated:
  assumes "jm_get m u = Some prev" "ib_instance t = u" "jm_keys_distinct m"
  shows "register_step (FilInstrumentTerminated t) m =
    map (\<lambda>(k, r). (k, if k = u then prev\<lparr>rw_stage := stage_of (te_terminalStage t),
                                   rw_lastAsOf := ib_asOf t\<rparr> else r)) m"
  using assms by (simp add: jm_set_present)

text \<open>
  C23. Cancelling or terminating a registered instrument removes from the effectively live cash
  exactly the instrument itself and the cash that names it as its origin, whatever the stages of
  that cash; every other row keeps its place.
\<close>

theorem cancellation_cascades:
  assumes "jm_get (foldFilInstances evs None) u \<noteq> None" "u \<noteq> []" "ib_instance t = u"
    "te_terminalStage t \<in> {TCancelled, TTerminated}"
  shows "effectiveLiveCashInstances (foldFilInstances (evs @ [FilInstrumentTerminated t]) None) =
    filter (\<lambda>r. rw_instance r \<noteq> u \<and> et_originatingInstrument (rw_economicTerms r) \<noteq> Some u)
      (effectiveLiveCashInstances (foldFilInstances evs None))"
proof -
  let ?m = "foldFilInstances evs None"
  obtain prev where prev: "jm_get ?m u = Some prev" using assms(1) by auto
  let ?new = "prev\<lparr>rw_stage := stage_of (te_terminalStage t), rw_lastAsOf := ib_asOf t\<rparr>"
  let ?f = "\<lambda>(k, r). (k, if k = u then ?new else r)"
  have m': "foldFilInstances (evs @ [FilInstrumentTerminated t]) None = map ?f ?m"
    using register_step_terminated [OF prev assms(3) register_distinct] by (simp add: fold_admitted admitted_def)
  have get: "jm_get (map ?f ?m) k = (if k = u then Some ?new else jm_get ?m k)" for k
  proof -
    have "jm_get (map ?f ?m) k = jm_get (register_step (FilInstrumentTerminated t) ?m) k"
      using m' by (simp add: fold_admitted admitted_def)
    also have "\<dots> = (if k = u then Some ?new else jm_get ?m k)"
      using prev assms(3) by simp
    finally show ?thesis .
  qed
  have dead: "\<not> isLiveStage (rw_stage ?new)" "isParentTerminalStage (rw_stage ?new)"
    using assms(4) by (auto simp: isLiveStage_def isParentTerminalStage_def)
  have eff: "isEffectivelyLiveCash (snd (?f x)) (map ?f ?m) \<longleftrightarrow>
      isEffectivelyLiveCash (snd x) ?m \<and> rw_instance (snd x) \<noteq> u \<and>
      et_originatingInstrument (rw_economicTerms (snd x)) \<noteq> Some u"
    if x: "x \<in> set ?m" for x
  proof -
    have key: "rw_instance (snd x) = fst x" using register_keys x by (cases x) auto
    show ?thesis
    proof (cases "fst x = u")
      case True
      with key dead show ?thesis by (cases x) (simp add: isEffectivelyLiveCash_def)
    next
      case False
      with key dead assms(2) show ?thesis
        by (cases x) (auto simp: isEffectivelyLiveCash_def isCashParentTerminal_def get
            split: option.splits)
    qed
  qed
  have same: "snd (?f x) = snd x" if "x \<in> set ?m" "rw_instance (snd x) \<noteq> u" for x
  proof -
    have "fst x \<noteq> u" using register_keys [of "fst x" "snd x" evs None] that by auto
    then show ?thesis by (cases x) simp
  qed
  show ?thesis
    unfolding m' effectiveLiveCashInstances_def map_map
    by (rule filter_map_agree) (use eff same in \<open>simp_all add: comp_def\<close>)
qed

definition sample_book :: "fil_event list" where
  "sample_book =
     [FilInstrumentCreated (sample_created ''a'' ''fx'' None),
      FilInstrumentCreated (sample_created ''c'' ''cash'' (Some ''a''))]"

lemma sample_cash:
  "map rw_instance (effectiveLiveCashInstances (foldFilInstances sample_book None)) = [''c'']"
  "list_all (\<lambda>r. et_originatingInstrument (rw_economicTerms r) = Some ''a'')
     (effectiveLiveCashInstances (foldFilInstances sample_book None))"
  "jm_has (foldFilInstances sample_book None) ''a''"
  by code_simp+

lemma cancellation_cascades_witness:
  "map rw_instance (effectiveLiveCashInstances (foldFilInstances sample_book None)) = [''c'']
   \<and> effectiveLiveCashInstances (foldFilInstances
       (sample_book @ [FilInstrumentTerminated (sample_terminated ''a'' TCancelled)]) None) = []"
proof -
  have "ib_instance (sample_terminated ''a'' TCancelled) = ''a''"
    "te_terminalStage (sample_terminated ''a'' TCancelled) \<in> {TCancelled, TTerminated}"
    by (simp_all add: sample_terminated_def)
  moreover have "jm_get (foldFilInstances sample_book None) ''a'' \<noteq> None"
    by (rule iffD1 [OF jm_has_iff sample_cash(3)])
  ultimately have "effectiveLiveCashInstances
      (foldFilInstances (sample_book @ [FilInstrumentTerminated (sample_terminated ''a'' TCancelled)]) None) =
    filter (\<lambda>r. rw_instance r \<noteq> ''a'' \<and> et_originatingInstrument (rw_economicTerms r) \<noteq> Some ''a'')
      (effectiveLiveCashInstances (foldFilInstances sample_book None))"
    by (intro cancellation_cascades) simp_all
  also have "\<dots> = []"
    using sample_cash(2) by (simp add: filter_empty_conv list_all_iff)
  finally show ?thesis using sample_cash(1) by blast
qed

section \<open>Trade families\<close>

fun holdings_of :: "string \<Rightarrow> family_payload list \<Rightarrow> string list" where
  "holdings_of t [] = []"
| "holdings_of t (CreatedForFamily i p # ps) =
     (if p = Some t \<and> t \<noteq> [] then [i] else []) @ holdings_of t ps"
| "holdings_of t (SettlementForFamily tr h # ps) = holdings_of t ps"

fun settlements_of :: "string \<Rightarrow> family_payload list \<Rightarrow> string list" where
  "settlements_of t [] = []"
| "settlements_of t (CreatedForFamily i p # ps) = settlements_of t ps"
| "settlements_of t (SettlementForFamily tr h # ps) =
     (if tr = t then [h] else []) @ settlements_of t ps"

definition booked :: "string \<Rightarrow> family_payload list \<Rightarrow> bool" where
  "booked t ps \<longleftrightarrow> (\<exists>p \<in> {None, Some []}. CreatedForFamily t p \<in> set ps)"

definition firsts :: "'a list \<Rightarrow> 'a list" where
  "firsts xs = rev (remdups (rev xs))"

lemma firsts_snoc: "firsts (xs @ [x]) = (if x \<in> set xs then firsts xs else firsts xs @ [x])"
  by (simp add: firsts_def)

lemma set_firsts [simp]: "set (firsts xs) = set xs"
  by (simp add: firsts_def)

lemma holdings_of_append [simp]: "holdings_of t (ps @ qs) = holdings_of t ps @ holdings_of t qs"
  by (induction t ps rule: holdings_of.induct) simp_all

lemma settlements_of_append [simp]:
  "settlements_of t (ps @ qs) = settlements_of t ps @ settlements_of t qs"
  by (induction t ps rule: settlements_of.induct) simp_all

definition family_of :: "string \<Rightarrow> family_payload list \<Rightarrow> trade_family" where
  "family_of t ps =
     \<lparr>tf_trade = t, tf_created = (if booked t ps then Some t else None),
      tf_holdings = firsts (holdings_of t ps), tf_settlements = firsts (settlements_of t ps)\<rparr>"

definition mentioned :: "string \<Rightarrow> family_payload list \<Rightarrow> bool" where
  "mentioned t ps \<longleftrightarrow> booked t ps \<or> holdings_of t ps \<noteq> [] \<or> settlements_of t ps \<noteq> []"

lemma booked_snoc:
  "booked t (ps @ [q]) \<longleftrightarrow> booked t ps \<or> q = CreatedForFamily t None \<or> q = CreatedForFamily t (Some [])"
  by (auto simp: booked_def)

lemma families_fold:
  "tradeFamily (foldTradeFamilies ps) t = (if mentioned t ps then Some (family_of t ps) else None)"
proof (induction ps rule: rev_induct)
  case Nil
  then show ?case
    by (simp add: tradeFamily_def foldTradeFamilies_def mentioned_def booked_def)
next
  case (snoc q ps)
  define m where "m = foldTradeFamilies ps"
  have step: "foldTradeFamilies (ps @ [q]) = family_step q m"
    by (simp add: foldTradeFamilies_def m_def)
  have get: "jm_get m t = (if mentioned t ps then Some (family_of t ps) else None)"
    using snoc.IH by (simp add: tradeFamily_def m_def)
  then have fam: "get_family m t = family_of t ps"
    by (auto simp: get_family_def family_of_def emptyFamily_def mentioned_def firsts_def)
  show ?case
    unfolding step tradeFamily_def
    using get fam
    by (cases q)
      (auto simp: family_of_def mentioned_def booked_snoc pushUnique_def firsts_snoc
        split: option.splits)
qed

text \<open>
  C26. The forward index has a family for a trade exactly when some payload books it, names it as
  the origin of a holding or settles it; the family then lists every such holding and settlement
  once, in the order of their first occurrence.
\<close>

theorem families_are_groups:
  "tradeFamily (foldTradeFamilies ps) t = (if mentioned t ps then Some (family_of t ps) else None)"
  by (rule families_fold)

end
