(* ===== verification/FilComposition.thy ===== *)
theory FilComposition
  imports FilUrn
begin

text \<open>
  Composition of financial instruments (\<open>v2-core/fil-core/composition.ts\<close>), the factory that
  builds composites from specifications (\<open>composition-factory.ts\<close>) and the registry through which
  the factory is looked up and swapped (\<open>alias-registry.ts\<close>, \<open>composition-factory-alias.ts\<close>).
\<close>

section \<open>Compositions\<close>

datatype leg_direction = Pay | Receive

record fil_leg =
  fl_legId :: string
  fl_legType :: string
  fl_direction :: leg_direction

record fil_component =
  fco_componentId :: string
  fco_componentType :: string
  fco_weightBasisPoints :: int

datatype wrap_semantics = TitleTransfer | Pledge | DeltaReference

record fil_wrapper =
  fw_wrapperId :: string
  fw_wrappedType :: string
  fw_semantics :: wrap_semantics

record fil_composition =
  fc_legs :: "fil_leg list"
  fc_components :: "fil_component list"
  fc_wrappers :: "fil_wrapper list"

definition ATOMIC_COMPOSITION :: fil_composition where
  "ATOMIC_COMPOSITION = \<lparr>fc_legs = [], fc_components = [], fc_wrappers = []\<rparr>"

definition isAtomic :: "fil_composition \<Rightarrow> bool" where
  "isAtomic c \<longleftrightarrow>
     length (fc_legs c) = 0 \<and> length (fc_components c) = 0 \<and> length (fc_wrappers c) = 0"

definition legsOf :: "fil_leg list \<Rightarrow> fil_composition" where
  "legsOf ls = \<lparr>fc_legs = ls, fc_components = [], fc_wrappers = []\<rparr>"

definition componentsOf :: "fil_component list \<Rightarrow> fil_composition" where
  "componentsOf cs = \<lparr>fc_legs = [], fc_components = cs, fc_wrappers = []\<rparr>"

definition wrapping :: "fil_wrapper list \<Rightarrow> fil_composition" where
  "wrapping ws = \<lparr>fc_legs = [], fc_components = [], fc_wrappers = ws\<rparr>"

section \<open>The factory\<close>

record leg_spec =
  ls_legId :: string
  ls_legType :: string
  ls_direction :: leg_direction

record component_spec =
  cs_componentId :: string
  cs_componentType :: string
  cs_weightBasisPoints :: int

datatype composite_spec =
    IrsSpec string leg_spec leg_spec
  | FxSwapSpec string leg_spec leg_spec
  | StructuredSpec string "component_spec list"

datatype composite_kind = KindIrs | KindFxSwap | KindStructured

record built_composite =
  bc_compositeType :: string
  bc_kind :: composite_kind
  bc_composition :: fil_composition

datatype composition_error =
    CompositeTypeNotUrn string
  | LegTypeNotUrn string
  | ComponentTypeNotUrn string
  | EmptyComponents
  | DuplicateLegId string
  | DuplicateComponentId string

definition requireFilTypeUrn :: "string \<Rightarrow> composition_error \<Rightarrow> composition_error + string" where
  "requireFilTypeUrn candidate err = (if \<not> isFilTypeUrn candidate then Inl err else Inr candidate)"

definition buildLeg :: "leg_spec \<Rightarrow> composition_error + fil_leg" where
  "buildLeg spec =
     res_bind (requireFilTypeUrn (ls_legType spec) (LegTypeNotUrn (ls_legId spec))) (\<lambda>legType.
       Inr \<lparr>fl_legId = ls_legId spec, fl_legType = legType, fl_direction = ls_direction spec\<rparr>)"

definition buildComponent :: "component_spec \<Rightarrow> composition_error + fil_component" where
  "buildComponent spec =
     res_bind (requireFilTypeUrn (cs_componentType spec) (ComponentTypeNotUrn (cs_componentId spec)))
       (\<lambda>t. Inr \<lparr>fco_componentId = cs_componentId spec, fco_componentType = t,
                 fco_weightBasisPoints = cs_weightBasisPoints spec\<rparr>)"

text \<open>The loop of both uniqueness checks, with the set of identifiers seen so far.\<close>

fun assert_unique :: "('a \<Rightarrow> string) \<Rightarrow> (string \<Rightarrow> 'e) \<Rightarrow> string set \<Rightarrow> 'a list \<Rightarrow> 'e + unit" where
  "assert_unique f err seen [] = Inr ()"
| "assert_unique f err seen (x # xs) =
     (if f x \<in> seen then Inl (err (f x)) else assert_unique f err (insert (f x) seen) xs)"

definition assertUniqueLegIds :: "fil_leg list \<Rightarrow> composition_error + unit" where
  "assertUniqueLegIds ls = assert_unique fl_legId DuplicateLegId {} ls"

definition assertUniqueComponentIds :: "fil_component list \<Rightarrow> composition_error + unit" where
  "assertUniqueComponentIds cs = assert_unique fco_componentId DuplicateComponentId {} cs"

definition build_legs ::
  "string \<Rightarrow> composite_kind \<Rightarrow> leg_spec list \<Rightarrow> composition_error + built_composite" where
  "build_legs compositeType kind specs =
     res_bind (res_map buildLeg specs) (\<lambda>ls.
       res_bind (assertUniqueLegIds ls) (\<lambda>_.
         Inr \<lparr>bc_compositeType = compositeType, bc_kind = kind, bc_composition = legsOf ls\<rparr>))"

fun composite_type_of :: "composite_spec \<Rightarrow> string" where
  "composite_type_of (IrsSpec t a b) = t"
| "composite_type_of (FxSwapSpec t a b) = t"
| "composite_type_of (StructuredSpec t cs) = t"

definition buildComposite :: "composite_spec \<Rightarrow> composition_error + built_composite" where
  "buildComposite spec =
     res_bind (requireFilTypeUrn (composite_type_of spec) (CompositeTypeNotUrn (composite_type_of spec)))
       (\<lambda>compositeType.
         case spec of
           IrsSpec _ fixedLeg floatLeg \<Rightarrow> build_legs compositeType KindIrs [fixedLeg, floatLeg]
         | FxSwapSpec _ nearLeg farLeg \<Rightarrow> build_legs compositeType KindFxSwap [nearLeg, farLeg]
         | StructuredSpec _ comps \<Rightarrow>
             (if length comps = 0 then Inl EmptyComponents
              else res_bind (res_map buildComponent comps) (\<lambda>cs.
                res_bind (assertUniqueComponentIds cs) (\<lambda>_.
                  Inr \<lparr>bc_compositeType = compositeType, bc_kind = KindStructured,
                       bc_composition = componentsOf cs\<rparr>))))"

record composition_factory =
  cf_implId :: string
  cf_build :: "composite_spec \<Rightarrow> composition_error + built_composite"

definition defaultCompositionFactory :: composition_factory where
  "defaultCompositionFactory = \<lparr>cf_implId = ''fil-core/default'', cf_build = buildComposite\<rparr>"

section \<open>The alias registry\<close>

datatype alias_error = AlreadyRegistered string | NotRegistered string

record 'a alias_restore =
  ar_key :: string
  ar_previous :: 'a

definition registerAlias ::
  "string \<Rightarrow> 'a \<Rightarrow> (string, 'a) jsmap \<Rightarrow> alias_error + (string, 'a) jsmap" where
  "registerAlias key impl reg =
     (if jm_has reg key then Inl (AlreadyRegistered key) else Inr (jm_set key impl reg))"

definition resolveAlias :: "string \<Rightarrow> (string, 'a) jsmap \<Rightarrow> alias_error + 'a" where
  "resolveAlias key reg =
     (case jm_get reg key of None \<Rightarrow> Inl (NotRegistered key) | Some impl \<Rightarrow> Inr impl)"

definition swapAlias ::
  "string \<Rightarrow> 'a \<Rightarrow> (string, 'a) jsmap \<Rightarrow> alias_error + 'a alias_restore \<times> (string, 'a) jsmap" where
  "swapAlias key impl reg =
     (case jm_get reg key of
        None \<Rightarrow> Inl (NotRegistered key)
      | Some previous \<Rightarrow>
          Inr (\<lparr>ar_key = key, ar_previous = previous\<rparr>, jm_set key impl reg))"

definition alias_restore_run :: "'a alias_restore \<Rightarrow> (string, 'a) jsmap \<Rightarrow> (string, 'a) jsmap" where
  "alias_restore_run h reg = jm_set (ar_key h) (ar_previous h) reg"

definition isAliasRegistered :: "string \<Rightarrow> (string, 'a) jsmap \<Rightarrow> bool" where
  "isAliasRegistered key reg = jm_has reg key"

definition COMPOSITION_FACTORY_ALIAS :: string where
  "COMPOSITION_FACTORY_ALIAS = ''fil-core:composition-factory''"

text \<open>What loading the module of the factory seam does to the registry.\<close>

definition load_factory_alias ::
  "(string, composition_factory) jsmap \<Rightarrow> alias_error + (string, composition_factory) jsmap" where
  "load_factory_alias reg =
     (if \<not> isAliasRegistered COMPOSITION_FACTORY_ALIAS reg
      then registerAlias COMPOSITION_FACTORY_ALIAS defaultCompositionFactory reg else Inr reg)"

definition registerCompositionFactory ::
  "composition_factory \<Rightarrow> (string, composition_factory) jsmap
     \<Rightarrow> alias_error + composition_factory alias_restore \<times> (string, composition_factory) jsmap" where
  "registerCompositionFactory impl reg = swapAlias COMPOSITION_FACTORY_ALIAS impl reg"

definition resolveCompositionFactory ::
  "(string, composition_factory) jsmap \<Rightarrow> alias_error + composition_factory" where
  "resolveCompositionFactory reg = resolveAlias COMPOSITION_FACTORY_ALIAS reg"

definition resetCompositionFactory ::
  "(string, composition_factory) jsmap \<Rightarrow> alias_error + (string, composition_factory) jsmap" where
  "resetCompositionFactory reg =
     res_bind (swapAlias COMPOSITION_FACTORY_ALIAS defaultCompositionFactory reg) (\<lambda>(h, reg'). Inr reg')"

text \<open>The seam's \<open>buildComposite\<close>: an error of the registry is told from one of the factory.\<close>

definition build_through_alias ::
  "composite_spec \<Rightarrow> (string, composition_factory) jsmap
     \<Rightarrow> (alias_error + composition_error) + built_composite" where
  "build_through_alias spec reg =
     (case resolveCompositionFactory reg of
        Inl e \<Rightarrow> Inl (Inl e)
      | Inr f \<Rightarrow> (case cf_build f spec of Inl e \<Rightarrow> Inl (Inr e) | Inr b \<Rightarrow> Inr b))"

section \<open>What the factory builds\<close>

lemma assert_unique_iff:
  "assert_unique f err seen xs = Inr u \<longleftrightarrow> distinct (map f xs) \<and> f ` set xs \<inter> seen = {}"
  by (induction xs arbitrary: seen) auto

lemma requireFilTypeUrn_iff [simp]:
  "requireFilTypeUrn c e = Inr t \<longleftrightarrow> isFilTypeUrn c \<and> t = c"
  by (auto simp: requireFilTypeUrn_def)

definition leg_of :: "leg_spec \<Rightarrow> fil_leg" where
  "leg_of s = \<lparr>fl_legId = ls_legId s, fl_legType = ls_legType s, fl_direction = ls_direction s\<rparr>"

definition component_of :: "component_spec \<Rightarrow> fil_component" where
  "component_of s = \<lparr>fco_componentId = cs_componentId s, fco_componentType = cs_componentType s,
     fco_weightBasisPoints = cs_weightBasisPoints s\<rparr>"

lemma part_ids [simp]:
  "fl_legId \<circ> leg_of = ls_legId" "fco_componentId \<circ> component_of = cs_componentId"
  by (auto simp: leg_of_def component_of_def)

lemma buildLeg_iff: "buildLeg s = Inr l \<longleftrightarrow> isFilTypeUrn (ls_legType s) \<and> l = leg_of s"
  by (auto simp: buildLeg_def leg_of_def res_bind_Inr_iff)

lemma buildComponent_iff:
  "buildComponent s = Inr c \<longleftrightarrow> isFilTypeUrn (cs_componentType s) \<and> c = component_of s"
  by (auto simp: buildComponent_def component_of_def res_bind_Inr_iff)

lemma res_map_exact:
  assumes "\<And>x y. f x = Inr y \<longleftrightarrow> P x \<and> y = g x"
  shows "res_map f xs = Inr ys \<longleftrightarrow> list_all P xs \<and> ys = map g xs"
  by (induction xs arbitrary: ys) (auto simp: res_bind_Inr_iff assms)

lemma build_legs_iff:
  "build_legs t k specs = Inr b \<longleftrightarrow>
     list_all (\<lambda>s. isFilTypeUrn (ls_legType s)) specs \<and> distinct (map ls_legId specs) \<and>
     b = \<lparr>bc_compositeType = t, bc_kind = k, bc_composition = legsOf (map leg_of specs)\<rparr>"
  by (auto simp: build_legs_def assertUniqueLegIds_def res_bind_Inr_iff assert_unique_iff
      res_map_exact [OF buildLeg_iff])

text \<open>The specifications the factory is meant to accept, and the composite each denotes.\<close>

fun spec_ok :: "composite_spec \<Rightarrow> bool" where
  "spec_ok (IrsSpec t a b) \<longleftrightarrow> isFilTypeUrn t \<and> isFilTypeUrn (ls_legType a) \<and>
     isFilTypeUrn (ls_legType b) \<and> ls_legId a \<noteq> ls_legId b"
| "spec_ok (FxSwapSpec t a b) \<longleftrightarrow> isFilTypeUrn t \<and> isFilTypeUrn (ls_legType a) \<and>
     isFilTypeUrn (ls_legType b) \<and> ls_legId a \<noteq> ls_legId b"
| "spec_ok (StructuredSpec t cs) \<longleftrightarrow> isFilTypeUrn t \<and> cs \<noteq> [] \<and>
     list_all (\<lambda>c. isFilTypeUrn (cs_componentType c)) cs \<and> distinct (map cs_componentId cs)"

fun denotes :: "composite_spec \<Rightarrow> built_composite" where
  "denotes (IrsSpec t a b) =
     \<lparr>bc_compositeType = t, bc_kind = KindIrs, bc_composition = legsOf [leg_of a, leg_of b]\<rparr>"
| "denotes (FxSwapSpec t a b) =
     \<lparr>bc_compositeType = t, bc_kind = KindFxSwap, bc_composition = legsOf [leg_of a, leg_of b]\<rparr>"
| "denotes (StructuredSpec t cs) =
     \<lparr>bc_compositeType = t, bc_kind = KindStructured,
      bc_composition = componentsOf (map component_of cs)\<rparr>"

text \<open>
  C25. The factory accepts a specification exactly when its composite type and all part types
  match the type pattern, the identifiers of its parts are distinct and a structured composite
  has a part; it then returns the composite the specification denotes.
\<close>

theorem factory_builds_exactly:
  "buildComposite spec = Inr b \<longleftrightarrow> spec_ok spec \<and> b = denotes spec"
proof (cases spec)
  case (StructuredSpec t cs)
  then show ?thesis
    by (auto simp: buildComposite_def assertUniqueComponentIds_def res_bind_Inr_iff
        assert_unique_iff res_map_exact [OF buildComponent_iff])
qed (auto simp: buildComposite_def res_bind_Inr_iff build_legs_iff)

section \<open>Swaps in brackets\<close>

text \<open>
  The uses of the registry in which every swap is restored after all swaps made under it: a
  relation between the registry before and after.
\<close>

inductive bracketed :: "(string, 'a) jsmap \<Rightarrow> (string, 'a) jsmap \<Rightarrow> bool" where
  bracketed_none: "bracketed reg reg"
| bracketed_swap: "swapAlias key impl reg = Inr (h, reg1) \<Longrightarrow> bracketed reg1 reg2 \<Longrightarrow>
    bracketed reg (alias_restore_run h reg2)"
| bracketed_seq: "bracketed reg1 reg2 \<Longrightarrow> bracketed reg2 reg3 \<Longrightarrow> bracketed reg1 reg3"

inductive_cases bracketedE: "bracketed reg reg'"

lemma update_same: "map_of m k = Some v \<Longrightarrow> AList.update k v m = m"
  by (induction m) (auto split: if_splits)

lemma swap_restore:
  "swapAlias key impl reg = Inr (h, reg1) \<Longrightarrow> alias_restore_run h reg1 = reg"
  by (auto simp: swapAlias_def alias_restore_run_def update_same split: option.splits)

text \<open>
  After any bracketed use of the registry it is unchanged, so every alias resolves as before.
\<close>

theorem bracketed_swaps_restore: "bracketed reg reg' \<Longrightarrow> reg' = reg"
proof (induction rule: bracketed.induct)
  case (bracketed_none reg)
  show ?case by (rule refl)
next
  case (bracketed_swap key impl reg h reg1 reg2)
  show ?case unfolding bracketed_swap.IH by (rule swap_restore [OF bracketed_swap.hyps(1)])
next
  case (bracketed_seq reg1 reg2 reg3)
  show ?case by (rule trans [OF bracketed_seq.IH(2) bracketed_seq.IH(1)])
qed

definition other_factory :: composition_factory where
  "other_factory = \<lparr>cf_implId = ''other'', cf_build = (\<lambda>s. Inl EmptyComponents)\<rparr>"

definition loaded_registry :: "(string, composition_factory) jsmap" where
  "loaded_registry = [(COMPOSITION_FACTORY_ALIAS, defaultCompositionFactory)]"

lemma bracketed_swaps_restore_witness:
  "alias_restore_run
     \<lparr>ar_key = COMPOSITION_FACTORY_ALIAS, ar_previous = defaultCompositionFactory\<rparr>
     [(COMPOSITION_FACTORY_ALIAS, other_factory)] = loaded_registry"
proof -
  have "swapAlias COMPOSITION_FACTORY_ALIAS other_factory loaded_registry =
      Inr (\<lparr>ar_key = COMPOSITION_FACTORY_ALIAS, ar_previous = defaultCompositionFactory\<rparr>,
           [(COMPOSITION_FACTORY_ALIAS, other_factory)])"
    by (simp add: swapAlias_def loaded_registry_def)
  from bracketed_swaps_restore [OF bracketed_swap [OF this bracketed_none]] show ?thesis .
qed

text \<open>Restoring in the order of the swaps, not in reverse, leaves the first swap in place.\<close>

lemma crossed_restores_leak:
  assumes "swapAlias k a [(k, d)] = Inr (h1, r1)" "swapAlias k b r1 = Inr (h2, r2)"
  shows "resolveAlias k (alias_restore_run h2 (alias_restore_run h1 r2)) = Inr a"
  using assms by (cases h2) (auto simp: swapAlias_def alias_restore_run_def resolveAlias_def)

lemma loading_registers_default:
  "load_factory_alias [] = Inr loaded_registry
   \<and> build_through_alias spec loaded_registry = Inr b \<longleftrightarrow> buildComposite spec = Inr b"
  by (auto simp: load_factory_alias_def isAliasRegistered_def registerAlias_def loaded_registry_def
      jm_has_def build_through_alias_def resolveCompositionFactory_def resolveAlias_def
      defaultCompositionFactory_def split: sum.splits)

lemma reset_resolves_default:
  "resetCompositionFactory reg = Inr reg' \<Longrightarrow>
   resolveCompositionFactory reg' = Inr defaultCompositionFactory"
  by (auto simp: resetCompositionFactory_def res_bind_Inr_iff swapAlias_def
      resolveCompositionFactory_def resolveAlias_def split: option.splits)

end
