(* ===== verification/FxPosting.thy ===== *)
theory FxPosting
  imports FilInstances DecimalMoney
begin

text \<open>
  The posting rules of foreign exchange (\<open>v2-core/posting-rules/fx.ts\<close>, \<open>fx-settlement.ts\<close>,
  \<open>trade-settlement.ts\<close>): which legs each lifecycle event of an instrument posts.  Amounts stay
  decimal texts, as in the code; their arithmetic is that of \<open>fx-settlement.ts\<close> over big integers.
  The texts of a leg's accounting rule and description are left out.  The text-to-\<open>BigInt\<close>
  conversion covers decimal literals; the money schema admits no other.  The parser of
  \<open>fil-core/decimal.ts\<close> is the one of \<open>platform/core/decimal-engine.ts\<close>, \<open>toDecimal\<close>.
\<close>

section \<open>Legs and accounts\<close>

datatype dc_side = Debit | Credit

datatype fx_pnl_kind = PnlRealised | PnlUnrealised

record fx_leg =
  lg_accountCode :: string
  lg_creditDebit :: dc_side
  lg_currency :: string
  lg_amount :: string
  lg_postingDate :: string
  lg_tenantId :: string
  lg_sourceEventId :: string
  lg_postingRuleId :: string
  lg_pnlKind :: "fx_pnl_kind option"

definition ANCHOR_TENANT_ID :: string where "ANCHOR_TENANT_ID = ''tenant:za-bank''"

definition FX_TYPE_PREFIX :: string where "FX_TYPE_PREFIX = ''fil:type:fx:''"

definition isFxInstance :: "string \<Rightarrow> bool" where
  "isFxInstance typeUrn \<longleftrightarrow> starts_with FX_TYPE_PREFIX typeUrn"

record fx_account_set =
  ac_receivable :: string
  ac_payable :: string
  ac_unrealisedPnl :: string
  ac_realisedPnl :: string

definition FX_ACCOUNT_SETS :: "(string \<times> fx_account_set) list" where
  "FX_ACCOUNT_SETS =
     [(''ZAR'', \<lparr>ac_receivable = ''ACC-2100-001'', ac_payable = ''ACC-2100-003'',
                 ac_unrealisedPnl = ''ACC-2100-005'', ac_realisedPnl = ''ACC-2100-006''\<rparr>),
      (''USD'', \<lparr>ac_receivable = ''ACC-2100-002'', ac_payable = ''ACC-2100-004'',
                 ac_unrealisedPnl = ''ACC-2100-005'', ac_realisedPnl = ''ACC-2100-006''\<rparr>),
      (''GBP'', \<lparr>ac_receivable = ''ACC-2100-010'', ac_payable = ''ACC-2100-011'',
                 ac_unrealisedPnl = ''ACC-2100-012'', ac_realisedPnl = ''ACC-2100-006''\<rparr>),
      (''EUR'', \<lparr>ac_receivable = ''ACC-2100-013'', ac_payable = ''ACC-2100-014'',
                 ac_unrealisedPnl = ''ACC-2100-015'', ac_realisedPnl = ''ACC-2100-006''\<rparr>),
      (''CHF'', \<lparr>ac_receivable = ''ACC-2100-016'', ac_payable = ''ACC-2100-017'',
                 ac_unrealisedPnl = ''ACC-2100-018'', ac_realisedPnl = ''ACC-2100-006''\<rparr>),
      (''AUD'', \<lparr>ac_receivable = ''ACC-2100-019'', ac_payable = ''ACC-2100-020'',
                 ac_unrealisedPnl = ''ACC-2100-021'', ac_realisedPnl = ''ACC-2100-006''\<rparr>),
      (''JPY'', \<lparr>ac_receivable = ''ACC-2100-022'', ac_payable = ''ACC-2100-023'',
                 ac_unrealisedPnl = ''ACC-2100-024'', ac_realisedPnl = ''ACC-2100-006''\<rparr>)]"

definition resolveFxAccountSet :: "string \<Rightarrow> fx_account_set" where
  "resolveFxAccountSet currency =
     (case map_of FX_ACCOUNT_SETS currency of
        Some s \<Rightarrow> s
      | None \<Rightarrow> \<lparr>ac_receivable = ''ACC-2100-007'', ac_payable = ''ACC-2100-007'',
                 ac_unrealisedPnl = ''ACC-2100-005'', ac_realisedPnl = ''ACC-2100-006''\<rparr>)"

definition FX_OBS_BOUGHT_COMMITMENT_ACCOUNT :: string where
  "FX_OBS_BOUGHT_COMMITMENT_ACCOUNT = ''ACC-9100-001''"

definition FX_OBS_SOLD_COMMITMENT_ACCOUNT :: string where
  "FX_OBS_SOLD_COMMITMENT_ACCOUNT = ''ACC-9100-002''"

definition FX_FVOCI_OCI_RESERVE_ACCOUNT :: string where
  "FX_FVOCI_OCI_RESERVE_ACCOUNT = ''ACC-2100-008''"

definition FX_REALISED_PNL_ACCOUNT :: string where "FX_REALISED_PNL_ACCOUNT = ''ACC-2100-006''"
definition FX_UNREALISED_PNL_ACCOUNT :: string where "FX_UNREALISED_PNL_ACCOUNT = ''ACC-2100-005''"
definition FX_SETTLEMENT_CLEARING_ACCOUNT :: string where
  "FX_SETTLEMENT_CLEARING_ACCOUNT = ''ACC-2100-027''"

definition nostroFor :: "string \<Rightarrow> string" where
  "nostroFor currency =
     (case map_of [(''ZAR'', ''ACC-1200-001''), (''USD'', ''ACC-1200-002''), (''EUR'', ''ACC-1200-003''),
                   (''GBP'', ''ACC-1200-004''), (''JPY'', ''ACC-1200-005''), (''CHF'', ''ACC-1200-006''),
                   (''AUD'', ''ACC-1200-007'')] currency of
        Some a \<Rightarrow> a | None \<Rightarrow> ''ACC-2100-007'')"

section \<open>Versions of the rules\<close>

datatype fx_trigger = TriggerCreated | TriggerAmended | TriggerTerminated

fun FX_RULE_VERSIONS :: "fx_trigger \<Rightarrow> (string \<times> string) list" where
  "FX_RULE_VERSIONS TriggerCreated = [(''PR-FX-001-V2'', ''0000-01-01'')]"
| "FX_RULE_VERSIONS TriggerAmended = [(''PR-FX-REVAL-V2'', ''0000-01-01'')]"
| "FX_RULE_VERSIONS TriggerTerminated = [(''PR-FX-CLOSE-V2'', ''0000-01-01'')]"

definition selectFxRule :: "fx_trigger \<Rightarrow> string \<Rightarrow> string option" where
  "selectFxRule trigger asOf =
     (let day = take 10 asOf in
      map_option fst (foldl (\<lambda>selected v.
        if ord_class.lexordp_eq (snd v) day then
          (case selected of
             None \<Rightarrow> Some v
           | Some s \<Rightarrow> if ord_class.lexordp (snd s) (snd v) then Some v else selected)
        else selected) None (FX_RULE_VERSIONS trigger)))"

section \<open>Recognition, revaluation, close\<close>

definition decimalMagnitude :: "string \<Rightarrow> string" where
  "decimalMagnitude amount =
     (let t = trim amount in if starts_with ''-'' t then drop 1 t else t)"

text \<open>\<open>/^-?0*(?:\.0+)?$/\<close>.\<close>

definition isZeroDecimal :: "string \<Rightarrow> bool" where
  "isZeroDecimal amount =
     (let t = trim amount; u = (if starts_with ''-'' t then drop 1 t else t);
          r = dropWhile (\<lambda>c. c = CHR ''0'') u
      in r = [] \<or> (hd r = CHR ''.'' \<and> tl r \<noteq> [] \<and> list_all (\<lambda>c. c = CHR ''0'') (tl r)))"

definition negative_text :: "string \<Rightarrow> bool" where
  "negative_text amount \<longleftrightarrow> starts_with ''-'' (trim amount)"

text \<open>A leg of an event: its source, date, tenant and rule.\<close>

definition leg_at ::
  "string \<times> string \<times> string \<times> string \<Rightarrow> string \<Rightarrow> dc_side \<Rightarrow> string \<Rightarrow> string
     \<Rightarrow> fx_pnl_kind option \<Rightarrow> fx_leg" where
  "leg_at b account side currency amount kind =
     (case b of (postingDate, tenantId, sourceEventId, ruleId) \<Rightarrow>
       \<lparr>lg_accountCode = account, lg_creditDebit = side, lg_currency = currency, lg_amount = amount,
        lg_postingDate = postingDate, lg_tenantId = tenantId, lg_sourceEventId = sourceEventId,
        lg_postingRuleId = ruleId, lg_pnlKind = kind\<rparr>)"

definition event_base :: "'a fil_base_scheme \<Rightarrow> string \<Rightarrow> string \<times> string \<times> string \<times> string" where
  "event_base p rule = (take 10 (ib_asOf p), ib_tenant p, ib_instance p, rule)"

definition postFxInitialRecognitionLegs :: "fil_created \<Rightarrow> fx_leg list" where
  "postFxInitialRecognitionLegs p =
     (let t = cr_economicTerms p; b = event_base p ''PR-FX-001-V2'' in
      case et_fxAgreement t of
        None \<Rightarrow> []
      | Some agreement \<Rightarrow>
          [leg_at b FX_OBS_BOUGHT_COMMITMENT_ACCOUNT Debit (fm_currency (fxa_buy agreement))
             (decimalMagnitude (fm_amount (fxa_buy agreement))) None,
           leg_at b FX_OBS_SOLD_COMMITMENT_ACCOUNT Credit (fm_currency (fxa_sell agreement))
             (decimalMagnitude (fm_amount (fxa_sell agreement))) None]
          @ (case et_dayOneFairValue t of
               None \<Rightarrow> []
             | Some d \<Rightarrow>
                 (if isZeroDecimal (fm_amount d) then []
                  else let accounts = resolveFxAccountSet (fm_currency d);
                           isAsset = (\<not> negative_text (fm_amount d));
                           magnitude = decimalMagnitude (fm_amount d)
                       in [leg_at b (ac_receivable accounts) (if isAsset then Debit else Credit)
                             (fm_currency d) magnitude None,
                           leg_at b (ac_unrealisedPnl accounts) (if isAsset then Credit else Debit)
                             (fm_currency d) magnitude (Some PnlUnrealised)])))"

definition postFxRevaluationLegs :: "fil_amended \<Rightarrow> fx_leg list" where
  "postFxRevaluationLegs p =
     (let t = am_economicTerms p; b = event_base p ''PR-FX-REVAL-V2'';
          accounts = resolveFxAccountSet (et_currency t);
          positionAccount = ac_receivable accounts; counterAccount = ac_unrealisedPnl accounts;
          memo = [leg_at b positionAccount Debit (et_currency t) ''0'' None,
                  leg_at b counterAccount Credit (et_currency t) ''0'' (Some PnlUnrealised)]
      in case et_fairValueDelta t of
           None \<Rightarrow> memo
         | Some delta \<Rightarrow>
             (if isZeroDecimal (fm_amount delta) then memo
              else let magnitude = decimalMagnitude (fm_amount delta);
                       isGain = (\<not> negative_text (fm_amount delta))
                   in [leg_at b positionAccount (if isGain then Debit else Credit)
                         (fm_currency delta) magnitude None,
                       leg_at b counterAccount (if isGain then Credit else Debit)
                         (fm_currency delta) magnitude (Some PnlUnrealised)]))"

definition postFxCloseLegs :: "fil_terminated \<Rightarrow> fx_leg list" where
  "postFxCloseLegs p =
     (let b = event_base p ''PR-FX-CLOSE-V2''
      in [leg_at b ''ACC-2100-005'' Debit ''ZAR'' ''0'' None,
          leg_at b ''ACC-2100-005'' Credit ''ZAR'' ''0'' None])"

text \<open>The instance, tenant and date a reversal is posted for.\<close>

record fx_reversal =
  rv_instance :: string
  rv_tenant :: "string option"
  rv_asOf :: string

definition reverse_leg :: "fx_reversal \<Rightarrow> string \<Rightarrow> fx_leg \<Rightarrow> fx_leg" where
  "reverse_leg c rule leg =
     \<lparr>lg_accountCode = lg_accountCode leg,
      lg_creditDebit = (if lg_creditDebit leg = Debit then Credit else Debit),
      lg_currency = lg_currency leg, lg_amount = lg_amount leg,
      lg_postingDate = take 10 (rv_asOf c),
      lg_tenantId = (case rv_tenant c of Some t \<Rightarrow> t | None \<Rightarrow> ANCHOR_TENANT_ID),
      lg_sourceEventId = rv_instance c, lg_postingRuleId = rule, lg_pnlKind = None\<rparr>"

definition postFxCancellationReversalLegs :: "fx_leg list \<Rightarrow> fx_reversal \<Rightarrow> fx_leg list" where
  "postFxCancellationReversalLegs openingLegs c =
     map (reverse_leg c ''PR-FX-CANCEL-REVERSAL-V2'') openingLegs"

definition isFxObsCommitmentLeg :: "fx_leg \<Rightarrow> bool" where
  "isFxObsCommitmentLeg leg \<longleftrightarrow>
     lg_accountCode leg \<in> {FX_OBS_BOUGHT_COMMITMENT_ACCOUNT, FX_OBS_SOLD_COMMITMENT_ACCOUNT}"

definition postFxObsCommitmentReleaseLegs :: "fx_leg list \<Rightarrow> fx_reversal \<Rightarrow> fx_leg list" where
  "postFxObsCommitmentReleaseLegs openingLegs c =
     map (reverse_leg c ''PR-FX-OBS-RELEASE-V2'') (filter isFxObsCommitmentLeg openingLegs)"

datatype fx_election = NoElection | ElectionAccepted | ElectionRejected string

definition resolveFxElectionOverride :: "string option \<Rightarrow> fx_election" where
  "resolveFxElectionOverride ifrsCategory =
     (case ifrsCategory of
        None \<Rightarrow> NoElection
      | Some c \<Rightarrow> (if c = ''fvtpl'' then ElectionAccepted else ElectionRejected c))"

section \<open>Decimal texts over big integers\<close>

datatype posting_error =
    BadDecimal string
  | SettledNotBooked string string string
  | BadUrn urn_error
  | BadMoney money_error

definition bigint_text :: "string \<Rightarrow> posting_error + int" where
  "bigint_text s =
     (let t = trim s in
      if t = [] then Inr 0
      else if all_digits t then Inr (int (parse_nat t))
      else if hd t = CHR ''-'' \<and> all_digits (tl t) then Inr (- int (parse_nat (tl t)))
      else if hd t = CHR ''+'' \<and> all_digits (tl t) then Inr (int (parse_nat (tl t)))
      else Inl (BadDecimal s))"

record parsed_decimal =
  pd_neg :: bool
  pd_digits :: int
  pd_scale :: nat

definition parseDecimal :: "string \<Rightarrow> posting_error + parsed_decimal" where
  "parseDecimal s =
     (let neg = starts_with ''-'' s; body = (if neg then drop 1 s else s) in
      case split_first CHR ''.'' body of
        None \<Rightarrow>
          res_bind (bigint_text (if body = [] then ''0'' else body)) (\<lambda>d.
            Inr \<lparr>pd_neg = neg, pd_digits = d, pd_scale = 0\<rparr>)
      | Some (intPart, fracPart) \<Rightarrow>
          res_bind (bigint_text (if intPart @ fracPart = [] then ''0'' else intPart @ fracPart)) (\<lambda>d.
            Inr \<lparr>pd_neg = neg, pd_digits = d, pd_scale = length fracPart\<rparr>))"

definition settle_isZeroDecimal :: "string \<Rightarrow> posting_error + bool" where
  "settle_isZeroDecimal s = res_bind (parseDecimal s) (\<lambda>p. Inr (pd_digits p = 0))"

definition pd_signed :: "parsed_decimal \<Rightarrow> int" where
  "pd_signed p = (if pd_neg p then - pd_digits p else pd_digits p)"

definition subtractDecimal :: "string \<Rightarrow> string \<Rightarrow> posting_error + string" where
  "subtractDecimal a b =
     res_bind (parseDecimal a) (\<lambda>pa. res_bind (parseDecimal b) (\<lambda>pb.
       let sc = max (pd_scale pa) (pd_scale pb);
           av = pd_signed pa * 10 ^ (sc - pd_scale pa);
           bv = pd_signed pb * 10 ^ (sc - pd_scale pb);
           diff = av - bv
       in Inr (if sc = 0 then int_str diff
               else let neg = diff < 0;
                        mag = padStart (sc + 1) CHR ''0'' (int_str (if neg then - diff else diff));
                        intPart = take (length mag - sc) mag;
                        fracPart = drop (length mag - sc) mag
                    in (if neg then ''-'' else []) @ intPart @ ''.'' @ fracPart)))"

definition decimalEquals :: "string \<Rightarrow> string \<Rightarrow> posting_error + bool" where
  "decimalEquals a b = res_bind (subtractDecimal a b) settle_isZeroDecimal"

section \<open>Settlement\<close>

datatype settlement_side = SideReceive | SidePay

datatype settlement_mode = ModePvp | ModeSequentialClearing

record settlement_movement =
  sm_currency :: string
  sm_settledAmount :: string
  sm_bookedAmount :: string
  sm_side :: settlement_side
  sm_mode :: settlement_mode

definition postSettlementMovementLegs ::
  "string \<times> string \<times> string \<times> string \<Rightarrow> settlement_movement \<Rightarrow> posting_error + fx_leg list" where
  "postSettlementMovementLegs b mv =
     res_bind (settle_isZeroDecimal (sm_settledAmount mv)) (\<lambda>zero.
       if zero then Inr []
       else res_bind (decimalEquals (sm_settledAmount mv) (sm_bookedAmount mv)) (\<lambda>eq.
         if \<not> eq
         then Inl (SettledNotBooked (sm_settledAmount mv) (sm_bookedAmount mv) (sm_currency mv))
         else let cashSide = (if sm_side mv = SideReceive then Debit else Credit);
                  cashLeg = leg_at b (nostroFor (sm_currency mv)) cashSide (sm_currency mv)
                    (sm_settledAmount mv) None
              in if sm_mode mv = ModePvp then Inr [cashLeg]
                 else Inr [cashLeg,
                   leg_at b FX_SETTLEMENT_CLEARING_ACCOUNT
                     (if cashSide = Debit then Credit else Debit) (sm_currency mv)
                     (sm_settledAmount mv) None]))"

record fx_settlement_input =
  si_instanceId :: string
  si_tenantId :: string
  si_postingDate :: string
  si_boughtCurrency :: string
  si_boughtBookedAmount :: string
  si_boughtSettledAmount :: string
  si_soldCurrency :: string
  si_soldBookedAmount :: string
  si_soldSettledAmount :: string

definition postFxSettlementLegs ::
  "fx_settlement_input \<Rightarrow> settlement_mode \<Rightarrow> posting_error + fx_leg list" where
  "postFxSettlementLegs i mode =
     (let b = (si_postingDate i, si_tenantId i, si_instanceId i, ''PR-FX-SETTLE-V2'') in
      res_bind (postSettlementMovementLegs b
        \<lparr>sm_currency = si_boughtCurrency i, sm_settledAmount = si_boughtSettledAmount i,
         sm_bookedAmount = si_boughtBookedAmount i, sm_side = SideReceive, sm_mode = mode\<rparr>) (\<lambda>bought.
      res_bind (postSettlementMovementLegs b
        \<lparr>sm_currency = si_soldCurrency i, sm_settledAmount = si_soldSettledAmount i,
         sm_bookedAmount = si_soldBookedAmount i, sm_side = SidePay, sm_mode = mode\<rparr>) (\<lambda>sold.
      Inr (bought @ sold))))"

definition settlement_input :: "fil_fx_settlement \<Rightarrow> fx_settlement_input" where
  "settlement_input s =
     \<lparr>si_instanceId = ib_instance s, si_tenantId = ib_tenant s, si_postingDate = take 10 (ib_asOf s),
      si_boughtCurrency = fm_currency (fs_boughtBooked s),
      si_boughtBookedAmount = fm_amount (fs_boughtBooked s),
      si_boughtSettledAmount = fm_amount (fs_boughtSettled s),
      si_soldCurrency = fm_currency (fs_soldBooked s),
      si_soldBookedAmount = fm_amount (fs_soldBooked s),
      si_soldSettledAmount = fm_amount (fs_soldSettled s)\<rparr>"

definition rebrand :: "string \<Rightarrow> fx_leg list \<Rightarrow> fx_leg list" where
  "rebrand ruleId ls = map (\<lambda>l. l\<lparr>lg_postingRuleId := ruleId\<rparr>) ls"

definition postFxSwapNearLegLegs :: "fx_settlement_input \<Rightarrow> posting_error + fx_leg list" where
  "postFxSwapNearLegLegs i =
     res_bind (postFxSettlementLegs i ModeSequentialClearing) (\<lambda>ls. Inr (rebrand ''PR-FX-SWAP-NEAR-V2'' ls))"

definition postFxSwapFarLegLegs :: "fx_settlement_input \<Rightarrow> posting_error + fx_leg list" where
  "postFxSwapFarLegLegs i =
     res_bind (postFxSettlementLegs i ModeSequentialClearing) (\<lambda>ls. Inr (rebrand ''PR-FX-SWAP-FAR-V2'' ls))"

section \<open>Conversion, derecognition, fixing\<close>

record fx_conversion_input =
  ci_instanceId :: string
  ci_tenantId :: string
  ci_postingDate :: string
  ci_fcyCurrency :: string
  ci_reportingCurrency :: string
  ci_fcyAmount :: string
  ci_zarProceeds :: string
  ci_zarCostBasis :: string
  ci_accumulatedUnrealised :: string

text \<open>A gain credits and a loss debits; the amount loses its sign.\<close>

definition postFxConversionLegs :: "fx_conversion_input \<Rightarrow> posting_error + fx_leg list" where
  "postFxConversionLegs i =
     res_bind (settle_isZeroDecimal (ci_fcyAmount i)) (\<lambda>zero.
       if zero then Inr [] else
       let b = (ci_postingDate i, ci_tenantId i, ci_instanceId i, ''PR-FX-CONVERT-V2'');
           reporting = ci_reportingCurrency i;
           cash = [leg_at b (nostroFor reporting) Debit reporting (ci_zarProceeds i) None,
                   leg_at b (nostroFor (ci_fcyCurrency i)) Credit (ci_fcyCurrency i)
                     (ci_fcyAmount i) None]
       in res_bind (subtractDecimal (ci_zarProceeds i) (ci_zarCostBasis i)) (\<lambda>realised.
          res_bind (settle_isZeroDecimal realised) (\<lambda>rz.
            let struck = (if rz then [] else
                  let isGain = (\<not> starts_with ''-'' realised) in
                  [leg_at b FX_REALISED_PNL_ACCOUNT (if isGain then Credit else Debit) reporting
                     (if isGain then realised else drop 1 realised) (Some PnlRealised)])
            in res_bind (settle_isZeroDecimal (ci_accumulatedUnrealised i)) (\<lambda>uz.
              let u = ci_accumulatedUnrealised i; isGain = (\<not> starts_with ''-'' (trim u));
                  magnitude = (if isGain then trim u else drop 1 (trim u));
                  reclass = (if uz then [] else
                    [leg_at b FX_UNREALISED_PNL_ACCOUNT (if isGain then Debit else Credit) reporting
                       magnitude (Some PnlUnrealised),
                     leg_at b FX_REALISED_PNL_ACCOUNT (if isGain then Credit else Debit) reporting
                       magnitude (Some PnlRealised)])
              in Inr (cash @ struck @ reclass)))))"

text \<open>The shape of the three rules that move a signed amount between two accounts.\<close>

definition transfer_legs ::
  "string \<times> string \<times> string \<times> string \<Rightarrow> string \<Rightarrow> string \<Rightarrow> fx_pnl_kind option \<Rightarrow> string
     \<Rightarrow> posting_error + fx_leg list" where
  "transfer_legs b currency account kind amt =
     res_bind (settle_isZeroDecimal amt) (\<lambda>zero.
       if zero then Inr [] else
       let isGain = (\<not> starts_with ''-'' amt); magnitude = (if isGain then amt else drop 1 amt)
       in Inr [leg_at b account (if isGain then Debit else Credit) currency magnitude kind,
               leg_at b FX_REALISED_PNL_ACCOUNT (if isGain then Credit else Debit) currency magnitude
                 (Some PnlRealised)])"

definition postFxDerecognitionLegs ::
  "string \<Rightarrow> string \<Rightarrow> string \<Rightarrow> string \<Rightarrow> string \<Rightarrow> posting_error + fx_leg list" where
  "postFxDerecognitionLegs inst tenant date currency accumulatedUnrealised =
     transfer_legs (date, tenant, inst, ''PR-FX-CLOSE-V2'') currency
       (ac_unrealisedPnl (resolveFxAccountSet currency)) (Some PnlUnrealised) accumulatedUnrealised"

definition postFxNdfFixingLegs ::
  "string \<Rightarrow> string \<Rightarrow> string \<Rightarrow> string \<Rightarrow> string \<Rightarrow> posting_error + fx_leg list" where
  "postFxNdfFixingLegs inst tenant date currency netCashDifference =
     transfer_legs (date, tenant, inst, ''PR-FX-NDF-FIX-V2'') currency (nostroFor currency) None
       netCashDifference"

definition postFxFvociReclassLegs ::
  "string \<Rightarrow> string \<Rightarrow> string \<Rightarrow> string \<Rightarrow> string \<Rightarrow> posting_error + fx_leg list" where
  "postFxFvociReclassLegs inst tenant date currency accumulatedOci =
     transfer_legs (date, tenant, inst, ''PR-FX-FVOCI-RECLASS-V2'') currency
       FX_FVOCI_OCI_RESERVE_ACCOUNT None accumulatedOci"

section \<open>Settlement movements of a trade\<close>

record trade_settlement =
  ts_tradeInstance :: string
  ts_holdingInstance :: string
  ts_holdingType :: string
  ts_holdingAssetClass :: string
  ts_movement :: fil_money
  ts_bookedCarrying :: fil_money
  ts_cost :: fil_money
  ts_tenant :: string
  ts_asOf :: string
  ts_originatingEvent :: fil_event_ref
  ts_bopCategory :: "string option"

text \<open>Two more operations of decimal.js.\<close>

record 'd decimal_signs =
  ds_isNegative :: "'d \<Rightarrow> bool"
  ds_negated :: "'d \<Rightarrow> 'd"

definition absDecimal ::
  "'d decimal_js \<Rightarrow> 'd decimal_signs \<Rightarrow> string \<Rightarrow> posting_error + string" where
  "absDecimal D G s =
     (case toDecimal D s of
        Inl e \<Rightarrow> Inl (BadMoney e)
      | Inr d \<Rightarrow> Inr (dj_toFixed D (if ds_isNegative G d then ds_negated G d else d)))"

definition movementIsReceive :: "string \<Rightarrow> bool" where
  "movementIsReceive signedAmount \<longleftrightarrow> \<not> starts_with ''-'' (trim signedAmount)"

definition postTradeSettlementLegs ::
  "'d decimal_js \<Rightarrow> 'd decimal_signs \<Rightarrow> trade_settlement \<Rightarrow> posting_error + fx_leg list" where
  "postTradeSettlementLegs D G p =
     res_bind (absDecimal D G (fm_amount (ts_movement p))) (\<lambda>settled.
     res_bind (absDecimal D G (fm_amount (ts_bookedCarrying p))) (\<lambda>bookedAmt.
       postSettlementMovementLegs
         (take 10 (ts_asOf p), ts_tenant p, ts_tradeInstance p, ''PR-FX-SETTLE-V2'')
         \<lparr>sm_currency = fm_currency (ts_movement p), sm_settledAmount = settled,
          sm_bookedAmount = bookedAmt,
          sm_side = (if movementIsReceive (fm_amount (ts_movement p)) then SideReceive else SidePay),
          sm_mode = ModePvp\<rparr>))"

definition postTradeSettlementListLegs ::
  "'d decimal_js \<Rightarrow> 'd decimal_signs \<Rightarrow> trade_settlement list \<Rightarrow> posting_error + fx_leg list" where
  "postTradeSettlementListLegs D G ps =
     res_bind (res_map (postTradeSettlementLegs D G) ps) (\<lambda>ls. Inr (concat ls))"

definition holdingUrnFor :: "string \<Rightarrow> string \<Rightarrow> posting_error + string" where
  "holdingUrnFor tradeInstanceUrn side =
     (case parseInstanceUrn tradeInstanceUrn of
        Inl e \<Rightarrow> Inl (BadUrn e)
      | Inr p \<Rightarrow> Inr (formatInstanceUrn
          (p\<lparr>fi_instanceId := fi_instanceId p @ ''-cash-'' @ side\<rparr>)))"

definition CASH_BALANCE_TYPE_URN :: string where
  "CASH_BALANCE_TYPE_URN = ''fil:type:cash:balance:vanilla@1.0''"

definition decimal_text ::
  "'d decimal_js \<Rightarrow> ('d \<Rightarrow> 'd) \<Rightarrow> string \<Rightarrow> posting_error + string" where
  "decimal_text D f s =
     (case toDecimal D s of Inl e \<Rightarrow> Inl (BadMoney e) | Inr d \<Rightarrow> Inr (dj_toFixed D (f d)))"

definition settlement_of ::
  "fil_fx_settlement \<Rightarrow> string \<Rightarrow> string \<Rightarrow> fil_money \<Rightarrow> fil_money \<Rightarrow> string \<Rightarrow> trade_settlement" where
  "settlement_of s trade holding settled bookedM movement =
     \<lparr>ts_tradeInstance = trade, ts_holdingInstance = holding,
      ts_holdingType = CASH_BALANCE_TYPE_URN, ts_holdingAssetClass = ''cash'',
      ts_movement = \<lparr>fm_currency = fm_currency settled, fm_amount = movement\<rparr>,
      ts_bookedCarrying = \<lparr>fm_currency = fm_currency bookedM, fm_amount = fm_amount bookedM\<rparr>,
      ts_cost = \<lparr>fm_currency = fm_currency settled, fm_amount = fm_amount settled\<rparr>,
      ts_tenant = ib_tenant s, ts_asOf = ib_asOf s, ts_originatingEvent = ib_originatingEvent s,
      ts_bopCategory = fs_bopCategory s\<rparr>"

definition decomposeFxSettlementToTradeSettlements ::
  "'d decimal_js \<Rightarrow> 'd decimal_signs \<Rightarrow> fil_fx_settlement \<Rightarrow> string option
     \<Rightarrow> posting_error + trade_settlement list" where
  "decomposeFxSettlementToTradeSettlements D G s tradeOpt =
     (let trade = (case tradeOpt of Some t \<Rightarrow> t | None \<Rightarrow> ib_instance s) in
      res_bind (decimal_text D id (fm_amount (fs_boughtSettled s))) (\<lambda>receivedMovement.
      res_bind (decimal_text D (ds_negated G) (fm_amount (fs_soldSettled s))) (\<lambda>paidMovement.
      res_bind (holdingUrnFor trade ''received'') (\<lambda>hr.
      res_bind (holdingUrnFor trade ''paid'') (\<lambda>hp.
        Inr [settlement_of s trade hr (fs_boughtSettled s) (fs_boughtBooked s) receivedMovement,
             settlement_of s trade hp (fs_soldSettled s) (fs_soldBooked s) paidMovement])))))"

end
