(* ===== verification/FxTreatment.thy ===== *)
theory FxTreatment
  imports Projections FxPosting "HOL-Library.Sorting_Algorithms"
begin

text \<open>
  Which posting rules apply to an instrument: the register of reporting treatments
  (\<open>v2-core/reporting-treatments/registry.ts\<close>), the elections per instrument
  (\<open>instance-election.ts\<close>), the resolution of a product's treatments
  (\<open>platform/accounting/reporting-treatment-dispatcher.ts\<close>) and the decision for foreign exchange
  (\<open>decideFxTreatment\<close> of \<open>posting-rules-v2/fx-fold.ts\<close>).  The \<open>zod\<close> parsers are the functions
  \<open>sc_declared\<close> and \<open>sc_elected\<close>, which fail where the library throws; \<open>localeCompare\<close>, plain and
  numeric, are the two comparators of \<open>collation\<close>.  Texts of messages are left out.
\<close>

section \<open>The register of treatments\<close>

record prudential_treatment =
  pr_bankingTradingBook :: string
  pr_regulatoryApproach :: string

record tax_treatment =
  tx_incomeTaxBasis :: string
  tx_vatSupply :: string

record treatment_declared =
  td_treatmentId :: string
  td_category :: string
  td_scope :: "string list"
  td_version :: fil_version
  td_ifrsCategory :: "string option"
  td_fairValueHierarchy :: "string option"
  td_businessModel :: "string option"
  td_prudential :: "prudential_treatment option"
  td_tax :: "tax_treatment option"
  td_applicablePostingRuleIds :: "string list"
  td_cites :: "string list"

record treatment_key =
  tk_category :: string
  tk_scope :: string
  tk_version :: string

record treatment_row =
  tr_key :: treatment_key
  tr_treatmentId :: string
  tr_category :: string
  tr_scope :: "string list"
  tr_version :: string
  tr_ifrsCategory :: "string option"
  tr_fairValueHierarchy :: "string option"
  tr_businessModel :: "string option"
  tr_prudential :: "prudential_treatment option"
  tr_tax :: "tax_treatment option"
  tr_applicablePostingRuleIds :: "string list"
  tr_cites :: "string list"

record treatment_conflict =
  tc_key :: string
  tc_treatmentIds :: "string list"

record treatment_register =
  rg_rows :: "treatment_row list"
  rg_conflicts :: "treatment_conflict list"

record collation =
  co_default :: "string comparator"
  co_numeric :: "string comparator"

definition treatmentRegistryKeyString :: "treatment_key \<Rightarrow> string" where
  "treatmentRegistryKeyString k = tk_category k @ ''::'' @ tk_scope k @ ''::'' @ tk_version k"

text \<open>\<open>join\<close> of an array of strings, and the default \<open>sort\<close> of one.\<close>

fun joined :: "string \<Rightarrow> string list \<Rightarrow> string" where
  "joined sep [] = []"
| "joined sep [x] = x"
| "joined sep (x # xs) = x @ sep @ joined sep xs"

definition text_sort :: "string list \<Rightarrow> string list" where
  "text_sort xs = sort_key (\<lambda>x. x) xs"

definition rowFrom :: "treatment_declared \<Rightarrow> treatment_row" where
  "rowFrom decl =
     (let version = formatVersion (td_version decl);
          scopeKey = joined '','' (text_sort (td_scope decl))
      in \<lparr>tr_key = \<lparr>tk_category = td_category decl, tk_scope = scopeKey, tk_version = version\<rparr>,
          tr_treatmentId = td_treatmentId decl, tr_category = td_category decl,
          tr_scope = td_scope decl, tr_version = version,
          tr_ifrsCategory = td_ifrsCategory decl,
          tr_fairValueHierarchy = td_fairValueHierarchy decl,
          tr_businessModel = td_businessModel decl, tr_prudential = td_prudential decl,
          tr_tax = td_tax decl,
          tr_applicablePostingRuleIds = td_applicablePostingRuleIds decl,
          tr_cites = td_cites decl\<rparr>)"

type_synonym scope_owners = "(string, (string, string list) jsmap) jsmap"

definition claim_scope :: "treatment_row \<Rightarrow> scope_owners \<Rightarrow> scope_owners" where
  "claim_scope row ownersByCv =
     (let cv = tk_category (tr_key row) @ ''::'' @ tk_version (tr_key row);
          scopeOwners = (case jm_get ownersByCv cv of Some m \<Rightarrow> m | None \<Rightarrow> []);
          owners = (case jm_get scopeOwners (tk_scope (tr_key row)) of Some s \<Rightarrow> s | None \<Rightarrow> [])
      in jm_set cv (jm_set (tk_scope (tr_key row)) (pushUnique (tr_treatmentId row) owners) scopeOwners)
           ownersByCv)"

definition register_declared ::
  "treatment_declared \<Rightarrow> (string, treatment_row) jsmap \<times> scope_owners
     \<Rightarrow> (string, treatment_row) jsmap \<times> scope_owners" where
  "register_declared decl st =
     (let row = rowFrom decl in
      (jm_set (treatmentRegistryKeyString (tr_key row)) row (fst st), claim_scope row (snd st)))"

definition foldReportingTreatmentRegister :: "collation \<Rightarrow> treatment_declared list \<Rightarrow> treatment_register" where
  "foldReportingTreatmentRegister co decls =
     (let (byKey, ownersByCv) = fold register_declared decls ([], []) in
      \<lparr>rg_rows = Sorting_Algorithms.sort
           (key (\<lambda>r. treatmentRegistryKeyString (tr_key r)) (co_default co)) (map snd byKey),
       rg_conflicts = concat (map (\<lambda>(cv, scopeOwners).
           map (\<lambda>(scope, owners). \<lparr>tc_key = cv @ ''::'' @ scope, tc_treatmentIds = text_sort owners\<rparr>)
             (filter (\<lambda>(scope, owners). 1 < length owners) scopeOwners)) ownersByCv)\<rparr>)"

definition findTreatmentById ::
  "collation \<Rightarrow> treatment_register \<Rightarrow> string \<Rightarrow> treatment_row option" where
  "findTreatmentById co register treatmentId =
     (let found = filter (\<lambda>r. tr_treatmentId r = treatmentId) (rg_rows register) in
      if found = [] then None
      else Some (hd (Sorting_Algorithms.sort (reversed (key tr_version (co_numeric co))) found)))"

section \<open>Elections per instrument\<close>

record treatment_election =
  el_instance :: string
  el_facet :: string
  el_ifrsCategory :: "string option"
  el_hedgeDesignation :: "string option"
  el_businessModel :: "string option"
  el_electedAt :: string
  el_cites :: "string list"

text \<open>The refinement of the schema: the elected value of the facet is present and no other.\<close>

definition election_refined :: "treatment_election \<Rightarrow> bool" where
  "election_refined v \<longleftrightarrow>
     (let present = [(''ifrs-classification'', el_ifrsCategory v \<noteq> None),
                     (''hedge-designation'', el_hedgeDesignation v \<noteq> None),
                     (''business-model-override'', el_businessModel v \<noteq> None)]
      in map_of present (el_facet v) = Some True \<and>
         list_all (\<lambda>(facet, isPresent). facet \<noteq> el_facet v \<longrightarrow> \<not> isPresent) present)"

definition electionKey :: "string \<Rightarrow> string \<Rightarrow> string" where
  "electionKey inst facet = inst @ ''::'' @ facet"

definition elect_step ::
  "treatment_election \<Rightarrow> (string, treatment_election) jsmap \<Rightarrow> (string, treatment_election) jsmap" where
  "elect_step row latest =
     (let k = electionKey (el_instance row) (el_facet row) in
      case jm_get latest k of
        None \<Rightarrow> jm_set k row latest
      | Some existing \<Rightarrow> if el_electedAt existing \<le> el_electedAt row then jm_set k row latest else latest)"

text \<open>The rows by instance, then facet: two stable sorts.\<close>

definition foldInstanceElectionRegister :: "treatment_election list \<Rightarrow> treatment_election list" where
  "foldInstanceElectionRegister ps =
     sort_key el_instance (sort_key el_facet (map snd (fold elect_step ps [])))"

definition findInstanceElection ::
  "treatment_election list \<Rightarrow> string \<Rightarrow> string \<Rightarrow> treatment_election option" where
  "findInstanceElection rows inst facet =
     find (\<lambda>r. el_instance r = inst \<and> el_facet r = facet) rows"

section \<open>Both registers from the store\<close>

record schemas =
  sc_declared :: "(string \<times> jsval) list \<Rightarrow> treatment_declared option"
  sc_elected :: "(string \<times> jsval) list \<Rightarrow> treatment_election option"

datatype fold_error = SchemaRejects string | PostingRefused posting_error

definition of_type :: "string \<Rightarrow> replay_opts" where
  "of_type t = no_opts\<lparr>opt_type := Some t\<rparr>"

definition admitted_of_type :: "bank_env \<Rightarrow> provenance_filter \<Rightarrow> event_store \<Rightarrow> string \<Rightarrow> event list" where
  "admitted_of_type env f s t =
     filter (\<lambda>e. eventMatchesProvenanceFilter env e f) (replay s (of_type t))"

definition foldTreatmentRegisterFromStore ::
  "bank_env \<Rightarrow> collation \<Rightarrow> schemas \<Rightarrow> event_store \<Rightarrow> fold_error + treatment_register" where
  "foldTreatmentRegisterFromStore env co sc s =
     res_bind (res_map (\<lambda>e. case sc_declared sc (payload e) of
         None \<Rightarrow> Inl (SchemaRejects (event_id e)) | Some d \<Rightarrow> Inr d)
       (admitted_of_type env (defaultProvenanceFilter env) s ''ReportingTreatmentDeclared''))
     (\<lambda>ds. Inr (foldReportingTreatmentRegister co ds))"

definition foldElectionRegisterFromStore ::
  "bank_env \<Rightarrow> schemas \<Rightarrow> event_store \<Rightarrow> fold_error + treatment_election list" where
  "foldElectionRegisterFromStore env sc s =
     res_bind (res_map (\<lambda>e. case sc_elected sc (payload e) of
         None \<Rightarrow> Inl (SchemaRejects (event_id e))
       | Some v \<Rightarrow> if election_refined v then Inr v else Inl (SchemaRejects (event_id e)))
       (admitted_of_type env (defaultProvenanceFilter env) s ''FilInstanceTreatmentElected''))
     (\<lambda>es. Inr (foldInstanceElectionRegister es))"

section \<open>The treatments of a product\<close>

record resolved_treatments =
  rs_ifrsCategory :: "string option"
  rs_fairValueHierarchy :: "string option"
  rs_businessModel :: "string option"
  rs_prudential :: "prudential_treatment option"
  rs_tax :: "tax_treatment option"
  rs_postingRuleIds :: "string list"
  rs_citations :: "string list"
  rs_unresolvedModuleIds :: "string list"

definition no_treatments :: resolved_treatments where
  "no_treatments =
     \<lparr>rs_ifrsCategory = None, rs_fairValueHierarchy = None, rs_businessModel = None,
      rs_prudential = None, rs_tax = None, rs_postingRuleIds = [], rs_citations = [],
      rs_unresolvedModuleIds = []\<rparr>"

text \<open>A field that the module leaves open keeps what an earlier module set.\<close>

definition overriding :: "'a option \<Rightarrow> 'a option \<Rightarrow> 'a option" where
  "overriding new old = (case new of None \<Rightarrow> old | Some _ \<Rightarrow> new)"

definition compose_module ::
  "collation \<Rightarrow> treatment_register \<Rightarrow> string \<Rightarrow> resolved_treatments \<Rightarrow> resolved_treatments" where
  "compose_module co registry treatmentId acc =
     (case findTreatmentById co registry treatmentId of
        None \<Rightarrow> acc\<lparr>rs_unresolvedModuleIds := rs_unresolvedModuleIds acc @ [treatmentId]\<rparr>
      | Some row \<Rightarrow>
          acc\<lparr>rs_ifrsCategory := overriding (tr_ifrsCategory row) (rs_ifrsCategory acc),
              rs_fairValueHierarchy := overriding (tr_fairValueHierarchy row) (rs_fairValueHierarchy acc),
              rs_businessModel := overriding (tr_businessModel row) (rs_businessModel acc),
              rs_prudential := overriding (tr_prudential row) (rs_prudential acc),
              rs_tax := overriding (tr_tax row) (rs_tax acc),
              rs_postingRuleIds := fold pushUnique (tr_applicablePostingRuleIds row) (rs_postingRuleIds acc),
              rs_citations := fold pushUnique (tr_cites row) (rs_citations acc)\<rparr>)"

definition resolveProductTreatments ::
  "collation \<Rightarrow> string list \<Rightarrow> treatment_register \<Rightarrow> resolved_treatments" where
  "resolveProductTreatments co picks registry =
     (let acc = fold (compose_module co registry) picks no_treatments in
      acc\<lparr>rs_postingRuleIds := text_sort (rs_postingRuleIds acc),
          rs_citations := text_sort (rs_citations acc)\<rparr>)"

text \<open>The modules a product names: an absent field is the empty list.\<close>

definition product_modules :: "(string \<times> jsval) list \<Rightarrow> string list" where
  "product_modules p =
     (case map_of p ''reportingTreatmentModuleIds'' of
        Some (JArr xs) \<Rightarrow> concat (map (\<lambda>x. case x of JStr s \<Rightarrow> [s] | _ \<Rightarrow> []) xs)
      | _ \<Rightarrow> [])"

definition findProductById :: "string \<Rightarrow> event_store \<Rightarrow> (string \<times> jsval) list option" where
  "findProductById productId s =
     fold (\<lambda>ev found. if map_of (payload ev) ''productId'' = Some (JStr productId)
                      then Some (payload ev) else found)
       (replay s (of_type ''V2ProductRegistered'')) None"

datatype unresolved_reason = NoProductBinding | OriginatingEventMissing | ProductNotRegistered

datatype treatment_resolution =
    Resolved string resolved_treatments
  | Unresolved unresolved_reason

definition resolveBoundProduct ::
  "collation \<Rightarrow> string \<Rightarrow> event_store \<Rightarrow> treatment_register \<Rightarrow> treatment_resolution" where
  "resolveBoundProduct co productId s registry =
     (case findProductById productId s of
        None \<Rightarrow> Unresolved ProductNotRegistered
      | Some p \<Rightarrow> Resolved productId (resolveProductTreatments co (product_modules p) registry))"

definition resolveInstanceTreatment ::
  "collation \<Rightarrow> string option \<Rightarrow> fil_event_ref \<Rightarrow> event_store \<Rightarrow> treatment_register
     \<Rightarrow> treatment_resolution" where
  "resolveInstanceTreatment co boundProduct ref s registry =
     (case truthy_opt boundProduct of
        Some productId \<Rightarrow> resolveBoundProduct co productId s registry
      | None \<Rightarrow>
          (case find (\<lambda>ev. event_id ev = er_eventId ref) (replay s (of_type (er_eventType ref))) of
             None \<Rightarrow> Unresolved OriginatingEventMissing
           | Some originating \<Rightarrow>
               (case map_of (payload originating) ''productId'' of
                  Some (JStr (c # cs)) \<Rightarrow> resolveBoundProduct co (c # cs) s registry
                | _ \<Rightarrow> Unresolved NoProductBinding)))"

section \<open>The decision for foreign exchange\<close>

datatype fx_skip_reason = TreatmentUnresolved | FxRulesNotApplicable | ElectionInvalid

datatype treatment_decision = FxApplies | FxSkipped fx_skip_reason

definition is_fx_rule :: "string \<Rightarrow> bool" where
  "is_fx_rule ruleId \<longleftrightarrow> starts_with ''PR-FX-'' ruleId"

definition applies_fx :: "string list \<Rightarrow> treatment_decision" where
  "applies_fx ruleIds =
     (if list_ex is_fx_rule ruleIds then FxApplies else FxSkipped FxRulesNotApplicable)"

definition decideFxTreatment ::
  "collation \<Rightarrow> string \<Rightarrow> string option \<Rightarrow> fil_event_ref \<Rightarrow> event_store \<Rightarrow> treatment_register
     \<Rightarrow> treatment_decision" where
  "decideFxTreatment co typeUrn boundProduct ref s register =
     (case resolveInstanceTreatment co boundProduct ref s register of
        Resolved productId r \<Rightarrow> applies_fx (rs_postingRuleIds r)
      | Unresolved reason \<Rightarrow>
          (if reason = ProductNotRegistered then FxSkipped TreatmentUnresolved
           else
             (let found = filter (\<lambda>r. tr_category r = ''posting-rules'' \<and>
                     list_ex (\<lambda>p. matchesFilScope p typeUrn) (tr_scope r)) (rg_rows register);
                  distinctModules = remdups (map tr_treatmentId found)
              in if length distinctModules = 1
                 then applies_fx (tr_applicablePostingRuleIds (hd found))
                 else FxSkipped TreatmentUnresolved)))"

end
