(* ===== verification/FxTreatmentProps.thy ===== *)
theory FxTreatmentProps
  imports FxTreatment
begin

text \<open>
  What the registers of treatments and elections promise: the election in force is the latest, the
  register is free of conflicts exactly when no two modules claim one place, and the fallback of
  the decision reads the first of the versions of a module.
\<close>

section \<open>Elections\<close>

definition FACETS :: "string list" where
  "FACETS = [''ifrs-classification'', ''hedge-designation'', ''business-model-override'']"

lemma refined_facet: "election_refined v \<Longrightarrow> el_facet v \<in> set FACETS"
  by (auto simp: election_refined_def FACETS_def Let_def split: if_splits)

lemma facet_ends: "f \<in> set FACETS \<Longrightarrow> g \<in> set FACETS \<Longrightarrow>
    take 19 (rev (''::'' @ f)) = take 19 (rev (''::'' @ g)) \<Longrightarrow> f = g"
  by (auto simp: FACETS_def)

lemma facet_length: "f \<in> set FACETS \<Longrightarrow> 19 \<le> length (''::'' @ f)"
  by (auto simp: FACETS_def)

lemma take_end: "n \<le> length x \<Longrightarrow> take n (rev (i @ x)) = take n (rev x)"
  by simp

lemma electionKey_inj:
  assumes "f \<in> set FACETS" "g \<in> set FACETS"
  shows "electionKey i f = electionKey j g \<longleftrightarrow> i = j \<and> f = g"
proof
  assume e: "electionKey i f = electionKey j g"
  have "take 19 (rev (i @ ''::'' @ f)) = take 19 (rev (''::'' @ f))"
    "take 19 (rev (j @ ''::'' @ g)) = take 19 (rev (''::'' @ g))"
    by (rule take_end [OF facet_length [OF assms(1)]], rule take_end [OF facet_length [OF assms(2)]])
  with e have "f = g"
    by (intro facet_ends [OF assms]) (simp only: electionKey_def)
  with e show "i = j \<and> f = g" by (simp add: electionKey_def)
qed simp

definition own_key :: "treatment_election \<Rightarrow> string option" where
  "own_key r = Some (electionKey (el_instance r) (el_facet r))"

interpretation elections: keyed_projection own_key elect_step
proof
  fix e k and m m' :: "(string, treatment_election) jsmap"
  show "own_key e \<noteq> Some k \<Longrightarrow> jm_get (elect_step e m) k = jm_get m k"
    by (auto simp: own_key_def elect_step_def Let_def split: option.splits)
  show "jm_get m k = jm_get m' k \<Longrightarrow> jm_get (elect_step e m) k = jm_get (elect_step e m') k"
    by (cases "own_key e = Some k")
      (auto simp: own_key_def elect_step_def Let_def split: option.splits)
  show "jm_keys_distinct m \<Longrightarrow> jm_keys_distinct (elect_step e m)"
    by (auto simp: elect_step_def Let_def split: option.splits)
qed

text \<open>The latest of the elections, and of those the one recorded last.\<close>

definition latest_election :: "treatment_election list \<Rightarrow> treatment_election option" where
  "latest_election es =
     (if es = [] then None
      else Some (last (filter (\<lambda>e. \<forall>x \<in> set es. el_electedAt x \<le> el_electedAt e) es)))"

lemma latest_snoc:
  "latest_election (es @ [r]) =
     (case latest_election es of
        None \<Rightarrow> Some r
      | Some x \<Rightarrow> if el_electedAt x \<le> el_electedAt r then Some r else Some x)"
proof (cases "es = []")
  case True
  then show ?thesis by (simp add: latest_election_def)
next
  case False
  let ?best = "filter (\<lambda>e. \<forall>x \<in> set es. el_electedAt x \<le> el_electedAt e) es"
  have ne: "?best \<noteq> []"
  proof -
    obtain e where "e \<in> set es" "el_electedAt e = Max (el_electedAt ` set es)"
      using False Max_in [of "el_electedAt ` set es"] by (metis List.finite_set finite_imageI image_iff image_is_empty set_empty)
    then have "e \<in> set ?best" by simp
    then show ?thesis unfolding filter_empty_conv by auto
  qed
  define b where "b = last ?best"
  have b: "b \<in> set es" "\<forall>x \<in> set es. el_electedAt x \<le> el_electedAt b"
    using last_in_set [OF ne] by (auto simp: b_def)
  have "filter (\<lambda>e. \<forall>x \<in> set (es @ [r]). el_electedAt x \<le> el_electedAt e) (es @ [r]) =
      (if el_electedAt b \<le> el_electedAt r then filter (\<lambda>e. el_electedAt r \<le> el_electedAt e) ?best @ [r]
       else ?best)"
  proof (cases "el_electedAt b \<le> el_electedAt r")
    case True
    then have "\<forall>x \<in> set es. el_electedAt x \<le> el_electedAt r" using b by (meson order_trans)
    with True show ?thesis by (auto intro: filter_cong)
  next
    case less: False
    then have "el_electedAt r \<le> el_electedAt e" if "\<forall>x \<in> set es. el_electedAt x \<le> el_electedAt e" for e
      using that b(1) by (metis linear order_trans)
    with less b(1) show ?thesis by (auto intro!: filter_cong)
  qed
  with False ne show ?thesis by (simp add: latest_election_def b_def)
qed

lemma elect_step_get:
  assumes "own_key r = Some k"
  shows "jm_get (elect_step r m) k =
     (case jm_get m k of
        None \<Rightarrow> Some r
      | Some x \<Rightarrow> if el_electedAt x \<le> el_electedAt r then Some r else Some x)"
  using assms by (auto simp: own_key_def elect_step_def split: option.splits)

lemma own_elections:
  assumes "\<forall>r \<in> set es. own_key r = Some k"
  shows "jm_get (fold elect_step es []) k = latest_election es"
  using assms
proof (induction es rule: rev_induct)
  case Nil
  then show ?case by (simp add: latest_election_def)
next
  case (snoc r es)
  then have "jm_get (fold elect_step es []) k = latest_election es" "own_key r = Some k" by auto
  then show ?case by (simp add: latest_snoc elect_step_get)
qed

lemma election_of_key:
  "jm_get (fold elect_step ps []) k = latest_election (filter (\<lambda>r. own_key r = Some k) ps)"
proof -
  have "jm_get (fold elect_step ps []) k =
      jm_get (fold elect_step (filter (\<lambda>r. own_key r = Some k) ps) []) k"
    by (rule elections.fold_own_events)
  also have "\<dots> = latest_election (filter (\<lambda>r. own_key r = Some k) ps)"
    by (rule own_elections) auto
  finally show ?thesis .
qed

lemma latest_mem: "latest_election es = Some r \<Longrightarrow> r \<in> set es"
proof (induction es arbitrary: r rule: rev_induct)
  case Nil
  then show ?case by (simp add: latest_election_def)
next
  case (snoc x es)
  show ?case
  proof (cases "latest_election es")
    case None
    with snoc.prems show ?thesis by (simp add: latest_snoc)
  next
    case (Some y)
    with snoc.prems snoc.IH [OF Some] show ?thesis by (simp add: latest_snoc split: if_splits)
  qed
qed

lemma find_unique:
  assumes "r \<in> set xs" "P r" "\<And>x. x \<in> set xs \<Longrightarrow> P x \<Longrightarrow> x = r"
  shows "find P xs = Some r"
proof (cases "find P xs")
  case None
  with assms(1,2) show ?thesis by (auto simp: find_None_iff)
next
  case (Some y)
  then have "y \<in> set xs" "P y" by (auto simp: find_Some_iff)
  then have "y = r" by (rule assms(3))
  with Some show ?thesis by simp
qed

lemma find_none: "(\<And>x. x \<in> set xs \<Longrightarrow> \<not> P x) \<Longrightarrow> find P xs = None"
  by (induction xs) auto

text \<open>
  C17. The election found for an instrument and a facet is the one with the latest date of election
  among those recorded for that instrument and facet, the last recorded of several with that date,
  whatever else is elected and in whatever order.
\<close>

theorem election_in_force:
  assumes "\<forall>p \<in> set ps. election_refined p" "facet \<in> set FACETS"
  shows "findInstanceElection (foldInstanceElectionRegister ps) inst facet =
     latest_election (filter (\<lambda>p. el_instance p = inst \<and> el_facet p = facet) ps)"
proof -
  let ?m = "fold elect_step ps []" and ?k = "electionKey inst facet"
  let ?P = "\<lambda>r. el_instance r = inst \<and> el_facet r = facet"
  have d: "jm_keys_distinct ?m" by (rule elections.fold_distinct) simp
  have own: "own_key p = Some ?k \<longleftrightarrow> ?P p" if "p \<in> set ps" for p
    using that assms refined_facet by (auto simp: own_key_def electionKey_inj)
  have "filter (\<lambda>r. own_key r = Some ?k) ps = filter ?P ps" by (rule filter_cong) (simp_all add: own)
  then have get: "jm_get ?m ?k = latest_election (filter ?P ps)" unfolding election_of_key by simp
  have entry: "(k, r) \<in> set ?m \<longleftrightarrow> jm_get ?m k = Some r" for k r
    using d by (simp add: jm_keys_distinct_def)
  have vals: "r \<in> set (map snd ?m) \<longleftrightarrow> (\<exists>k. jm_get ?m k = Some r)" for r
    unfolding entry [symmetric] by force
  have keyed: "r \<in> set ps \<and> own_key r = Some k" if "jm_get ?m k = Some r" for k r
    using latest_mem [OF that [unfolded election_of_key]] by simp
  have rows: "set (foldInstanceElectionRegister ps) = set (map snd ?m)"
    by (simp add: foldInstanceElectionRegister_def)
  show ?thesis
  proof (cases "latest_election (filter ?P ps)")
    case None
    have "\<not> ?P r" if "r \<in> set (map snd ?m)" for r
    proof
      assume P: "?P r"
      obtain k where k: "jm_get ?m k = Some r" using \<open>r \<in> set (map snd ?m)\<close> vals by blast
      then have "own_key r = Some k" "r \<in> set ps" using keyed by blast+
      with own [of r] P have "k = ?k" by simp
      with k get None show False by simp
    qed
    then have "find ?P (foldInstanceElectionRegister ps) = None"
      using rows by (intro find_none) blast
    with None show ?thesis by (simp add: findInstanceElection_def)
  next
    case (Some r)
    have r: "r \<in> set (map snd ?m)" unfolding vals using get Some by auto
    have P: "?P r" using latest_mem [OF Some] by simp
    have "x = r" if own_x: "x \<in> set (map snd ?m)" "?P x" for x
    proof -
      obtain k where k: "jm_get ?m k = Some x" using own_x(1) vals by blast
      have x: "own_key x = Some k" "x \<in> set ps" using keyed [OF k] by simp_all
      have "own_key x = Some ?k" using own [OF x(2)] own_x(2) by blast
      with x(1) have "k = ?k" by (metis option.inject)
      with k get Some show ?thesis by (metis option.inject)
    qed
    then have "find ?P (foldInstanceElectionRegister ps) = Some r"
      using r P rows by (intro find_unique) blast+
    then show ?thesis unfolding findInstanceElection_def Some .
  qed
qed

definition sample_election :: "string \<Rightarrow> string \<Rightarrow> treatment_election" where
  "sample_election category d =
     \<lparr>el_instance = ''u'', el_facet = ''ifrs-classification'', el_ifrsCategory = Some category,
      el_hedgeDesignation = None, el_businessModel = None, el_electedAt = d, el_cites = [''c'']\<rparr>"

lemma election_in_force_witness:
  "findInstanceElection (foldInstanceElectionRegister
      [sample_election ''fvoci'' ''2026-02-01'', sample_election ''fvtpl'' ''2026-01-01''])
      ''u'' ''ifrs-classification'' = Some (sample_election ''fvoci'' ''2026-02-01'')"
proof -
  let ?ps = "[sample_election ''fvoci'' ''2026-02-01'', sample_election ''fvtpl'' ''2026-01-01'']"
  have "\<forall>p \<in> set ?ps. election_refined p" by code_simp
  moreover have "''ifrs-classification'' \<in> set FACETS" by code_simp
  ultimately have "findInstanceElection (foldInstanceElectionRegister ?ps) ''u'' ''ifrs-classification'' =
      latest_election (filter (\<lambda>p. el_instance p = ''u'' \<and> el_facet p = ''ifrs-classification'') ?ps)"
    by (rule election_in_force)
  also have "\<dots> = Some (sample_election ''fvoci'' ''2026-02-01'')" by code_simp
  finally show ?thesis .
qed

section \<open>Conflicts of the register\<close>

definition place_cv :: "treatment_declared \<Rightarrow> string" where
  "place_cv d = tk_category (tr_key (rowFrom d)) @ ''::'' @ tk_version (tr_key (rowFrom d))"

definition place_scope :: "treatment_declared \<Rightarrow> string" where
  "place_scope d = tk_scope (tr_key (rowFrom d))"

definition owners_of :: "scope_owners \<Rightarrow> string \<Rightarrow> string \<Rightarrow> string list" where
  "owners_of m cv scope =
     (case jm_get m cv of None \<Rightarrow> []
      | Some owners \<Rightarrow> (case jm_get owners scope of None \<Rightarrow> [] | Some ids \<Rightarrow> ids))"

lemma owners_claim:
  "owners_of (claim_scope (rowFrom d) m) cv scope =
     (if place_cv d = cv \<and> place_scope d = scope then pushUnique (td_treatmentId d) (owners_of m cv scope)
      else owners_of m cv scope)"
  by (auto simp: claim_scope_def owners_of_def place_cv_def place_scope_def Let_def rowFrom_def
      split: option.splits)

definition owners_wf :: "scope_owners \<Rightarrow> bool" where
  "owners_wf m \<longleftrightarrow> jm_keys_distinct m \<and>
     (\<forall>(cv, owners) \<in> set m. jm_keys_distinct owners \<and> (\<forall>(scope, ids) \<in> set owners. distinct ids))"

lemma owners_wf_claim:
  assumes "owners_wf m"
  shows "owners_wf (claim_scope row m)"
proof -
  have keep: "\<forall>(k, v) \<in> set (jm_set k0 v0 xs). Q v" if "\<forall>(k, v) \<in> set xs. Q v" "Q v0"
    for k0 v0 xs and Q :: "'x \<Rightarrow> bool"
    using that by (induction xs) (auto split: if_splits)
  have uniq: "distinct (pushUnique x ids)" if "distinct ids" for x ids
    using that by (simp add: pushUnique_def)
  define cv where "cv = tk_category (tr_key row) @ ''::'' @ tk_version (tr_key row)"
  define owners where "owners = (case jm_get m cv of Some o' \<Rightarrow> o' | None \<Rightarrow> [])"
  have m: "jm_keys_distinct m" "\<forall>(cv, owners) \<in> set m. jm_keys_distinct owners \<and>
      (\<forall>(scope, ids) \<in> set owners. distinct ids)"
    using assms by (simp_all add: owners_wf_def)
  have o: "jm_keys_distinct owners \<and> (\<forall>(scope, ids) \<in> set owners. distinct ids)"
  proof (cases "jm_get m cv")
    case (Some os)
    then have "(cv, os) \<in> set m" by (rule map_of_SomeD)
    with m(2) Some show ?thesis by (auto simp: owners_def)
  qed (simp add: owners_def)
  define ids where "ids = (case jm_get owners (tk_scope (tr_key row)) of Some s \<Rightarrow> s | None \<Rightarrow> [])"
  have i: "distinct ids"
  proof (cases "jm_get owners (tk_scope (tr_key row))")
    case (Some s)
    then have "(tk_scope (tr_key row), s) \<in> set owners" by (rule map_of_SomeD)
    with o Some show ?thesis by (auto simp: ids_def)
  qed (simp add: ids_def)
  define new where "new = jm_set (tk_scope (tr_key row)) (pushUnique (tr_treatmentId row) ids) owners"
  have n: "jm_keys_distinct new" "\<forall>(scope, ids) \<in> set new. distinct ids"
    using o keep [of owners distinct "pushUnique (tr_treatmentId row) ids" "tk_scope (tr_key row)"] uniq [OF i]
    by (auto simp: new_def)
  have "claim_scope row m = jm_set cv new m"
    by (simp add: claim_scope_def Let_def cv_def new_def owners_def ids_def)
  moreover have "\<forall>(cv, owners) \<in> set (jm_set cv new m). jm_keys_distinct owners \<and>
      (\<forall>(scope, ids) \<in> set owners. distinct ids)"
    by (rule keep [OF m(2)]) (use n in simp)
  ultimately show ?thesis using m(1) by (auto simp: owners_wf_def)
qed

lemma owners_fold:
  assumes "owners_wf m"
  shows "owners_wf (snd (fold register_declared ds (rows, m))) \<and>
     set (owners_of (snd (fold register_declared ds (rows, m))) cv scope) =
       set (owners_of m cv scope)
       \<union> td_treatmentId ` {d \<in> set ds. place_cv d = cv \<and> place_scope d = scope}"
  using assms
proof (induction ds arbitrary: rows m)
  case (Cons d ds)
  let ?m = "claim_scope (rowFrom d) m"
  obtain rows' where step: "register_declared d (rows, m) = (rows', ?m)"
    by (simp add: register_declared_def Let_def)
  note IH = Cons.IH [where rows = rows' and m = ?m, OF owners_wf_claim [OF Cons.prems]]
  have "set (owners_of ?m cv scope) = set (owners_of m cv scope)
      \<union> (if place_cv d = cv \<and> place_scope d = scope then {td_treatmentId d} else {})"
    by (auto simp: owners_claim pushUnique_def)
  with IH step show ?case by auto
qed simp


section \<open>The fallback of the decision\<close>

text \<open>
  Two versions of one module over one scope, where only the later applies the rules of foreign
  exchange.  Looked up by its identifier the module is its later version; the fallback reads the
  first row of the register, which is the earlier one, and skips the instrument.
\<close>

definition sample_version :: "nat \<Rightarrow> string \<Rightarrow> treatment_declared" where
  "sample_version v rule =
     \<lparr>td_treatmentId = ''m'', td_category = ''posting-rules'', td_scope = [''fil:type:fx:*''],
      td_version = \<lparr>fv_major = v, fv_minor = 0\<rparr>, td_ifrsCategory = None, td_fairValueHierarchy = None,
      td_businessModel = None, td_prudential = None, td_tax = None,
      td_applicablePostingRuleIds = [rule], td_cites = [''c'']\<rparr>"

definition text_order :: collation where
  "text_order = \<lparr>co_default = default, co_numeric = default\<rparr>"

definition two_versions :: treatment_register where
  "two_versions = foldReportingTreatmentRegister text_order
     [sample_version 1 ''PR-OTHER'', sample_version 2 ''PR-FX-001-V2'']"

lemma fallback_reads_first_version:
  "map_option tr_version (findTreatmentById text_order two_versions ''m'') = Some ''2.0''"
  "decideFxTreatment text_order ''fil:type:fx:spot'' None \<lparr>er_eventType = ''E'', er_eventId = ''x''\<rparr>
     empty_store two_versions = FxSkipped FxRulesNotApplicable"
  by code_simp+


end
