(* ===== verification/FxFold.thy ===== *)
theory FxFold
  imports FxTreatment
begin

text \<open>
  The two derivations of the foreign-exchange postings from the event store: the fold over the
  lifecycle events (\<open>foldFxContributionLegs\<close>, \<open>posting-rules-v2/fx-fold.ts\<close>) and the derivation
  from the register of instruments (\<open>deriveFxInstanceLegs\<close>, \<open>fx-instance-fold.ts\<close>), and the fold
  of conversions (\<open>fx-conversion-fold.ts\<close>).  The casts of a payload to its type are the argument
  \<open>view\<close>.  An exception of a posting rule ends the fold: the result is a sum.
\<close>

section \<open>Events and results\<close>

datatype fx_payload = Lifecycle fil_event | TradeSettled trade_settlement

record fx_fold_leg =
  fl_leg :: fx_leg
  fl_filEventId :: string

record fx_fold_skip =
  sk_instance :: string
  sk_kind :: string
  sk_reason :: fx_skip_reason

record fx_fold_result =
  fr_legs :: "fx_fold_leg list"
  fr_skipped :: "fx_fold_skip list"

definition FX_FIL_EVENT_TYPES :: "string list" where
  "FX_FIL_EVENT_TYPES =
     [''FilInstrumentCreated'', ''FilInstrumentAmended'', ''FilInstrumentTerminated'',
      ''TradeSettlementExecuted'', ''FilFxSettlementConfirmed'', ''FilNdfFixingObserved'']"

fun payload_kind :: "fx_payload \<Rightarrow> string" where
  "payload_kind (Lifecycle (FilInstrumentCreated c)) = ''FilInstrumentCreated''"
| "payload_kind (Lifecycle (FilInstrumentAmended a)) = ''FilInstrumentAmended''"
| "payload_kind (Lifecycle (FilInstrumentTerminated t)) = ''FilInstrumentTerminated''"
| "payload_kind (Lifecycle (FilFxSettlementConfirmed s)) = ''FilFxSettlementConfirmed''"
| "payload_kind (Lifecycle (FilNdfFixingObserved n)) = ''FilNdfFixingObserved''"
| "payload_kind (TradeSettled p) = ''TradeSettlementExecuted''"

fun base_of :: "fil_event \<Rightarrow> fil_base" where
  "base_of (FilInstrumentCreated c) = fil_base.truncate c"
| "base_of (FilInstrumentAmended a) = fil_base.truncate a"
| "base_of (FilInstrumentTerminated t) = fil_base.truncate t"
| "base_of (FilFxSettlementConfirmed s) = fil_base.truncate s"
| "base_of (FilNdfFixingObserved n) = fil_base.truncate n"

fun groupingKeyOf :: "fx_payload \<Rightarrow> string" where
  "groupingKeyOf (Lifecycle ev) = ib_instance (base_of ev)"
| "groupingKeyOf (TradeSettled p) = ts_tradeInstance p"

fun originating_of :: "fx_payload \<Rightarrow> fil_event_ref" where
  "originating_of (Lifecycle ev) = ib_originatingEvent (base_of ev)"
| "originating_of (TradeSettled p) = ts_originatingEvent p"

fun product_of :: "fx_payload \<Rightarrow> string option" where
  "product_of (Lifecycle (FilInstrumentCreated c)) = truthy_opt (et_productId (cr_economicTerms c))"
| "product_of (Lifecycle (FilInstrumentAmended a)) = truthy_opt (et_productId (am_economicTerms a))"
| "product_of _ = None"

fun own_type :: "fx_payload \<Rightarrow> string option" where
  "own_type (Lifecycle ev) = Some (ib_type (base_of ev))"
| "own_type (TradeSettled p) = None"

fun is_opening :: "fx_payload \<Rightarrow> bool" where
  "is_opening (Lifecycle (FilInstrumentCreated c)) = True"
| "is_opening (Lifecycle (FilInstrumentAmended a)) = True"
| "is_opening _ = False"

fun is_termination :: "fx_payload \<Rightarrow> bool" where
  "is_termination (Lifecycle (FilInstrumentTerminated t)) = True"
| "is_termination _ = False"

section \<open>Terminations\<close>

text \<open>Every termination of the store, whatever its provenance, with its event.\<close>

definition all_terminations ::
  "(event \<Rightarrow> fx_payload) \<Rightarrow> event_store \<Rightarrow> (event \<times> fil_terminated) list" where
  "all_terminations view s =
     concat (map (\<lambda>e. case view e of Lifecycle (FilInstrumentTerminated t) \<Rightarrow> [(e, t)] | _ \<Rightarrow> [])
       (replay s (of_type ''FilInstrumentTerminated'')))"

text \<open>The earliest by date, then event identifier; an instrument keeps its first place in the map.\<close>

definition keep_earliest ::
  "event \<times> fil_terminated \<Rightarrow> (string, string \<times> fx_reversal) jsmap \<Rightarrow> (string, string \<times> fx_reversal) jsmap"
where
  "keep_earliest et byInstance =
     (case et of (e, p) \<Rightarrow>
       (let inst = ib_instance p;
            entry = (event_id e, \<lparr>rv_instance = inst, rv_tenant = Some (ib_tenant p), rv_asOf = ib_asOf p\<rparr>)
        in if inst = [] then byInstance
           else case jm_get byInstance inst of
             None \<Rightarrow> jm_set inst entry byInstance
           | Some (oldId, old) \<Rightarrow>
               (if ib_asOf p < rv_asOf old \<or> ib_asOf p = rv_asOf old \<and> event_id e < oldId
                then jm_set inst entry byInstance else byInstance)))"

definition earliest_terminations ::
  "(fil_terminated \<Rightarrow> bool) \<Rightarrow> (event \<times> fil_terminated) list \<Rightarrow> (string, fx_reversal) jsmap" where
  "earliest_terminations P ts =
     map (\<lambda>(k, v). (k, snd v)) (fold keep_earliest (filter (\<lambda>(e, t). P t) ts) [])"

definition bare_cancellation :: "fil_terminated \<Rightarrow> bool" where
  "bare_cancellation t \<longleftrightarrow>
     te_terminalStage t = TCancelled \<and> te_derecognitionTerms t = None \<and> te_fvociReclassTerms t = None"

definition settled_termination :: "fil_terminated \<Rightarrow> bool" where
  "settled_termination t \<longleftrightarrow> te_terminalStage t = TSettled \<or> te_terminalStage t = TMatured"

definition findBareCancellations ::
  "(event \<Rightarrow> fx_payload) \<Rightarrow> event_store \<Rightarrow> (string, fx_reversal) jsmap" where
  "findBareCancellations view s = earliest_terminations bare_cancellation (all_terminations view s)"

definition findSettledTerminations ::
  "(event \<Rightarrow> fx_payload) \<Rightarrow> event_store \<Rightarrow> (string, fx_reversal) jsmap" where
  "findSettledTerminations view s =
     earliest_terminations settled_termination (all_terminations view s)"

section \<open>The legs of one event\<close>

definition postFxTerminationLegs :: "fil_terminated \<Rightarrow> posting_error + fx_leg list" where
  "postFxTerminationLegs p =
     (if te_derecognitionTerms p = None \<and> te_fvociReclassTerms p = None then Inr (postFxCloseLegs p)
      else
        res_bind (case te_derecognitionTerms p of
            None \<Rightarrow> Inr []
          | Some d \<Rightarrow> postFxDerecognitionLegs (ib_instance p) (ib_tenant p) (take 10 (ib_asOf p))
              (fm_currency d) (fm_amount d)) (\<lambda>derecognised.
        res_bind (case te_fvociReclassTerms p of
            None \<Rightarrow> Inr []
          | Some f \<Rightarrow> postFxFvociReclassLegs (ib_instance p) (ib_tenant p) (take 10 (ib_asOf p))
              (fm_currency f) (fm_amount f)) (\<lambda>recycled.
        Inr (derecognised @ recycled))))"

definition postFxSettlementConfirmedLegs :: "fil_fx_settlement \<Rightarrow> posting_error + fx_leg list" where
  "postFxSettlementConfirmedLegs p =
     (case fs_legRole p of
        LegSpot \<Rightarrow> postFxSettlementLegs (settlement_input p) ModePvp
      | LegSwapNear \<Rightarrow> postFxSwapNearLegLegs (settlement_input p)
      | LegSwapFar \<Rightarrow> postFxSwapFarLegLegs (settlement_input p))"

definition postFxNdfFixingObservedLegs :: "fil_ndf_fixing \<Rightarrow> posting_error + fx_leg list" where
  "postFxNdfFixingObservedLegs p =
     postFxNdfFixingLegs (ib_instance p) (ib_tenant p) (take 10 (ib_asOf p))
       (nf_settlementCurrency p) (fm_amount (nf_netCashDifference p))"

fun rule_legs ::
  "'d decimal_js \<Rightarrow> 'd decimal_signs \<Rightarrow> fx_payload \<Rightarrow> posting_error + fx_leg list" where
  "rule_legs D G (Lifecycle (FilInstrumentCreated c)) = Inr (postFxInitialRecognitionLegs c)"
| "rule_legs D G (Lifecycle (FilInstrumentAmended a)) = Inr (postFxRevaluationLegs a)"
| "rule_legs D G (Lifecycle (FilInstrumentTerminated t)) = postFxTerminationLegs t"
| "rule_legs D G (TradeSettled p) = postTradeSettlementLegs D G p"
| "rule_legs D G (Lifecycle (FilFxSettlementConfirmed s)) = postFxSettlementConfirmedLegs s"
| "rule_legs D G (Lifecycle (FilNdfFixingObserved n)) = postFxNdfFixingObservedLegs n"

section \<open>What both derivations read\<close>

record fx_fold_args =
  fa_store :: event_store
  fa_treatmentStore :: "event_store option"
  fa_periodStart :: string
  fa_periodEnd :: string
  fa_filter :: "provenance_filter option"

record 'd fx_world =
  fw_env :: bank_env
  fw_collation :: collation
  fw_schemas :: schemas
  fw_decimal :: "'d decimal_js"
  fw_signs :: "'d decimal_signs"
  fw_view :: "event \<Rightarrow> fx_payload"

definition in_window :: "fx_fold_args \<Rightarrow> fx_leg \<Rightarrow> bool" where
  "in_window a leg \<longleftrightarrow>
     lg_postingDate leg \<noteq> [] \<and> \<not> lg_postingDate leg < fa_periodStart a \<and>
     \<not> fa_periodEnd a < lg_postingDate leg"

definition treatment_store :: "fx_fold_args \<Rightarrow> event_store" where
  "treatment_store a = (case fa_treatmentStore a of Some s \<Rightarrow> s | None \<Rightarrow> fa_store a)"

text \<open>The admitted events of the six types, sorted by date, then identifier.\<close>

definition fil_events :: "'d fx_world \<Rightarrow> fx_fold_args \<Rightarrow> event list" where
  "fil_events w a =
     sort_key as_of (sort_key event_id
       (concat (map (admitted_of_type (fw_env w) (given_filter (fw_env w) (fa_filter a)) (fa_store a))
         FX_FIL_EVENT_TYPES)))"

definition bind_product :: "fx_payload \<Rightarrow> (string, string) jsmap \<Rightarrow> (string, string) jsmap" where
  "bind_product p m =
     (case product_of p of Some pid \<Rightarrow> jm_set (groupingKeyOf p) pid m | None \<Rightarrow> m)"

definition note_type :: "fx_payload \<Rightarrow> (string, string) jsmap \<Rightarrow> (string, string) jsmap" where
  "note_type p m =
     (case truthy_opt (own_type p) of Some t \<Rightarrow> jm_set (groupingKeyOf p) t m | None \<Rightarrow> m)"

text \<open>What the treatment of an instrument is decided from, and the decision with its election.\<close>

record fx_basis =
  bs_treatmentStore :: event_store
  bs_register :: treatment_register
  bs_elections :: "treatment_election list"
  bs_products :: "(string, string) jsmap"

definition fx_verdict ::
  "'d fx_world \<Rightarrow> fx_basis \<Rightarrow> string \<Rightarrow> string \<Rightarrow> fil_event_ref \<Rightarrow> fx_skip_reason option" where
  "fx_verdict w b inst typeUrn ref =
     (case decideFxTreatment (fw_collation w) typeUrn (jm_get (bs_products b) inst) ref
             (bs_treatmentStore b) (bs_register b) of
        FxSkipped reason \<Rightarrow> Some reason
      | FxApplies \<Rightarrow>
          (case resolveFxElectionOverride
                  (Option.bind (findInstanceElection (bs_elections b) inst ''ifrs-classification'')
                     el_ifrsCategory) of
             ElectionRejected c \<Rightarrow> Some ElectionInvalid
           | _ \<Rightarrow> None))"

definition fx_basis_of :: "'d fx_world \<Rightarrow> fx_fold_args \<Rightarrow> fold_error + fx_basis" where
  "fx_basis_of w a =
     res_bind (foldTreatmentRegisterFromStore (fw_env w) (fw_collation w) (fw_schemas w)
       (treatment_store a)) (\<lambda>register.
     res_bind (foldElectionRegisterFromStore (fw_env w) (fw_schemas w) (treatment_store a)) (\<lambda>elections.
     Inr \<lparr>bs_treatmentStore = treatment_store a, bs_register = register, bs_elections = elections,
          bs_products = fold (bind_product \<circ> fw_view w) (fil_events w a) []\<rparr>))"

definition posted :: "posting_error + 'a \<Rightarrow> fold_error + 'a" where
  "posted r = (case r of Inl e \<Rightarrow> Inl (PostingRefused e) | Inr x \<Rightarrow> Inr x)"

definition tagged :: "string \<Rightarrow> fx_leg list \<Rightarrow> fx_fold_leg list" where
  "tagged eventId ls = map (\<lambda>l. \<lparr>fl_leg = l, fl_filEventId = eventId\<rparr>) ls"

section \<open>The fold over the events\<close>

type_synonym opening_legs = "(string, fx_leg list) jsmap"

record fx_fold_state =
  ef_legs :: "fx_fold_leg list"
  ef_skipped :: "fx_fold_skip list"
  ef_opening :: opening_legs
  ef_obsOpening :: opening_legs

definition collect :: "string \<Rightarrow> fx_leg list \<Rightarrow> opening_legs \<Rightarrow> opening_legs" where
  "collect inst ls m =
     fold (\<lambda>l m. jm_set inst ((case jm_get m inst of Some acc \<Rightarrow> acc | None \<Rightarrow> []) @ [l]) m) ls m"

definition event_fold_step ::
  "'d fx_world \<Rightarrow> fx_fold_args \<Rightarrow> fx_basis \<Rightarrow> (string, string) jsmap \<Rightarrow> (string, fx_reversal) jsmap
     \<Rightarrow> (string, fx_reversal) jsmap \<Rightarrow> event \<Rightarrow> fx_fold_state \<Rightarrow> fold_error + fx_fold_state" where
  "event_fold_step w a b types bare settled e st =
     (let p = fw_view w e; inst = groupingKeyOf p;
          typeUrn = (case p of TradeSettled _ \<Rightarrow> jm_get types inst | _ \<Rightarrow> own_type p)
      in if \<not> is_termination p \<and> (case typeUrn of None \<Rightarrow> True | Some t \<Rightarrow> \<not> isFxInstance t) then Inr st
         else case fx_verdict w b inst (case typeUrn of None \<Rightarrow> [] | Some t \<Rightarrow> t) (originating_of p) of
           Some reason \<Rightarrow>
             Inr (st\<lparr>ef_skipped := ef_skipped st
               @ [\<lparr>sk_instance = inst, sk_kind = payload_kind p, sk_reason = reason\<rparr>]\<rparr>)
         | None \<Rightarrow>
             res_bind (posted (rule_legs (fw_decimal w) (fw_signs w) p)) (\<lambda>ruleLegs.
               let ls = filter (in_window a) ruleLegs in
               Inr \<lparr>ef_legs = ef_legs st @ tagged (event_id e) ls, ef_skipped = ef_skipped st,
                    ef_opening = (if jm_has bare inst \<and> is_opening p
                      then collect inst ls (ef_opening st) else ef_opening st),
                    ef_obsOpening = (if jm_has settled inst \<and> is_opening p
                      then collect inst (filter isFxObsCommitmentLeg ls) (ef_obsOpening st)
                      else ef_obsOpening st)\<rparr>))"

text \<open>The reversal passes: the legs of each instrument of the map that has opening legs.\<close>

definition reversal_pass ::
  "fx_fold_args \<Rightarrow> (fx_leg list \<Rightarrow> fx_reversal \<Rightarrow> fx_leg list) \<Rightarrow> string \<Rightarrow> opening_legs
     \<Rightarrow> (string, fx_reversal) jsmap \<Rightarrow> fx_fold_leg list" where
  "reversal_pass a post sfx opening m =
     concat (map (\<lambda>(inst, c).
       case jm_get opening inst of
         None \<Rightarrow> []
       | Some ls \<Rightarrow> if ls = [] then [] else tagged (inst @ sfx) (filter (in_window a) (post ls c))) m)"

definition foldFxContributionLegs :: "'d fx_world \<Rightarrow> fx_fold_args \<Rightarrow> fold_error + fx_fold_result" where
  "foldFxContributionLegs w a =
     res_bind (fx_basis_of w a) (\<lambda>b.
       let evs = fil_events w a;
           types = fold (note_type \<circ> fw_view w) evs [];
           bare = findBareCancellations (fw_view w) (fa_store a);
           settled = findSettledTerminations (fw_view w) (fa_store a)
       in res_bind (res_fold (event_fold_step w a b types bare settled) evs
              \<lparr>ef_legs = [], ef_skipped = [], ef_opening = [], ef_obsOpening = []\<rparr>) (\<lambda>st.
            Inr \<lparr>fr_legs = ef_legs st
                   @ reversal_pass a postFxCancellationReversalLegs ''::cancellation-reversal''
                       (ef_opening st) bare
                   @ reversal_pass a postFxObsCommitmentReleaseLegs ''::obs-commitment-release''
                       (ef_obsOpening st) settled,
                 fr_skipped = ef_skipped st\<rparr>))"

section \<open>The derivation from the register\<close>

definition REGISTER_EVENT_KIND_LIST :: "string list" where
  "REGISTER_EVENT_KIND_LIST =
     [''FilInstrumentCreated'', ''FilInstrumentAmended'', ''FilInstrumentTerminated'']"

text \<open>The register over the whole stream, whatever the provenance, one type after the other.\<close>

definition state_register :: "'d fx_world \<Rightarrow> event_store \<Rightarrow> fil_register" where
  "state_register w s =
     foldFilInstances
       (concat (map (\<lambda>t. concat (map (\<lambda>e. case fw_view w e of Lifecycle ev \<Rightarrow> [ev] | _ \<Rightarrow> [])
          (replay s (of_type t)))) REGISTER_EVENT_KIND_LIST)) None"

record fx_instance_state =
  is_legs :: "fx_fold_leg list"
  is_opened :: "fx_leg list"

definition instance_event_step ::
  "'d fx_world \<Rightarrow> fx_fold_args \<Rightarrow> event \<Rightarrow> fx_instance_state \<Rightarrow> fold_error + fx_instance_state" where
  "instance_event_step w a e st =
     res_bind (posted (rule_legs (fw_decimal w) (fw_signs w) (fw_view w e))) (\<lambda>ruleLegs.
       let ls = filter (in_window a) ruleLegs in
       Inr \<lparr>is_legs = is_legs st @ tagged (event_id e) ls,
            is_opened = (if is_opening (fw_view w e) then is_opened st @ ls else is_opened st)\<rparr>)"

definition instance_legs ::
  "'d fx_world \<Rightarrow> fx_fold_args \<Rightarrow> (string, fx_reversal) jsmap \<Rightarrow> (string, fx_reversal) jsmap \<Rightarrow> string
     \<Rightarrow> fil_row \<Rightarrow> event list \<Rightarrow> fold_error + fx_fold_leg list" where
  "instance_legs w a bare settled inst row grouped =
     res_bind (res_fold (instance_event_step w a) grouped \<lparr>is_legs = [], is_opened = []\<rparr>) (\<lambda>st.
       Inr (is_legs st
         @ (case jm_get settled inst of
              None \<Rightarrow> []
            | Some c \<Rightarrow>
                (if rw_stage row \<in> {SSettled, SMatured} \<and> list_ex isFxObsCommitmentLeg (is_opened st)
                 then tagged (inst @ ''::obs-commitment-release'')
                   (filter (in_window a) (postFxObsCommitmentReleaseLegs (is_opened st)
                      \<lparr>rv_instance = inst, rv_tenant = rv_tenant c, rv_asOf = rv_asOf c\<rparr>))
                 else []))
         @ (case jm_get bare inst of
              None \<Rightarrow> []
            | Some c \<Rightarrow>
                (if rw_stage row = SCancelled \<and> is_opened st \<noteq> []
                 then tagged (inst @ ''::cancellation-reversal'')
                   (filter (in_window a) (postFxCancellationReversalLegs (is_opened st)
                      \<lparr>rv_instance = inst, rv_tenant = rv_tenant c, rv_asOf = rv_asOf c\<rparr>))
                 else []))))"

definition register_row_step ::
  "'d fx_world \<Rightarrow> fx_fold_args \<Rightarrow> fx_basis \<Rightarrow> (string, fx_reversal) jsmap \<Rightarrow> (string, fx_reversal) jsmap
     \<Rightarrow> (string, event list) jsmap \<Rightarrow> string \<times> fil_row \<Rightarrow> fx_fold_result \<Rightarrow> fold_error + fx_fold_result" where
  "register_row_step w a b bare settled groups x res =
     (case x of (inst, row) \<Rightarrow>
       (if \<not> isFxInstance (rw_type row) then Inr res
        else case jm_get groups inst of
          None \<Rightarrow> Inr res
        | Some [] \<Rightarrow> Inr res
        | Some (g # gs) \<Rightarrow>
            (case fx_verdict w b inst (rw_type row) (rw_originatingEvent row) of
               Some reason \<Rightarrow>
                 Inr (res\<lparr>fr_skipped := fr_skipped res @ [\<lparr>sk_instance = inst,
                   sk_kind = payload_kind (fw_view w g), sk_reason = reason\<rparr>]\<rparr>)
             | None \<Rightarrow>
                 res_bind (instance_legs w a bare settled inst row (g # gs)) (\<lambda>ls.
                   Inr (res\<lparr>fr_legs := fr_legs res @ ls\<rparr>)))))"

definition deriveFxInstanceLegs :: "'d fx_world \<Rightarrow> fx_fold_args \<Rightarrow> fold_error + fx_fold_result" where
  "deriveFxInstanceLegs w a =
     res_bind (fx_basis_of w a) (\<lambda>b.
       res_fold
         (register_row_step w a b (findBareCancellations (fw_view w) (fa_store a))
            (findSettledTerminations (fw_view w) (fa_store a))
            (group_by (groupingKeyOf \<circ> fw_view w) (fil_events w a)))
         (state_register w (fa_store a)) \<lparr>fr_legs = [], fr_skipped = []\<rparr>)"

section \<open>Conversions\<close>

record fx_conversion =
  cv_cashInstance :: string
  cv_fcyCurrency :: string
  cv_reportingCurrency :: string
  cv_fcyAmount :: fil_money
  cv_zarProceeds :: fil_money
  cv_zarCostBasis :: fil_money
  cv_accumulatedUnrealised :: fil_money
  cv_fullConversion :: bool
  cv_tenant :: string
  cv_asOf :: string
  cv_originatingEvent :: fil_event_ref

definition conversion_input :: "fx_conversion \<Rightarrow> fx_conversion_input" where
  "conversion_input p =
     \<lparr>ci_instanceId = cv_cashInstance p, ci_tenantId = cv_tenant p, ci_postingDate = take 10 (cv_asOf p),
      ci_fcyCurrency = cv_fcyCurrency p, ci_reportingCurrency = cv_reportingCurrency p,
      ci_fcyAmount = fm_amount (cv_fcyAmount p), ci_zarProceeds = fm_amount (cv_zarProceeds p),
      ci_zarCostBasis = fm_amount (cv_zarCostBasis p),
      ci_accumulatedUnrealised = fm_amount (cv_accumulatedUnrealised p)\<rparr>"

definition conversion_events ::
  "bank_env \<Rightarrow> (event \<Rightarrow> fx_conversion) \<Rightarrow> fx_fold_args \<Rightarrow> fx_conversion list" where
  "conversion_events env view a =
     filter (\<lambda>p. \<not> (take 10 (cv_asOf p) < fa_periodStart a \<or> fa_periodEnd a < take 10 (cv_asOf p)))
       (map view (admitted_of_type env (given_filter env (fa_filter a)) (fa_store a) ''FxConversionExecuted''))"

definition deriveFxConversionLegs ::
  "bank_env \<Rightarrow> (event \<Rightarrow> fx_conversion) \<Rightarrow> fx_fold_args \<Rightarrow> posting_error + fx_leg list" where
  "deriveFxConversionLegs env view a =
     res_bind (res_map (\<lambda>p. postFxConversionLegs (conversion_input p)) (conversion_events env view a))
       (\<lambda>ls. Inr (concat ls))"

definition isFxConversionSourcedGlPosting :: "string option \<Rightarrow> bool" where
  "isFxConversionSourcedGlPosting postingRuleId \<longleftrightarrow> postingRuleId = Some ''PR-FX-CONVERT-V2''"

end
