(* ===== verification/FxPostingProps.thy ===== *)
theory FxPostingProps
  imports FxPosting
begin

text \<open>
  What the posting rules of foreign exchange promise.  The value of a text is the rational it
  denotes (\<open>decimal_value\<close>); a debit counts positively and a credit negatively.
\<close>

section \<open>Decimal texts\<close>

text \<open>The texts the money schema admits, without surrounding spaces.\<close>

definition decimal_ok :: "string \<Rightarrow> bool" where
  "decimal_ok s \<longleftrightarrow>
     (case decimal_parts s of (neg, whole, fr) \<Rightarrow>
        list_all is_digit whole \<and> frac_ok fr \<and> (whole \<noteq> [] \<or> fr \<noteq> None))"

lemma schema_decimal_ok: "CANONICAL_DECIMAL s \<or> plain_decimal s \<Longrightarrow> decimal_ok s"
  by (auto simp: CANONICAL_DECIMAL_def plain_decimal_def decimal_ok_def all_digits_def
      is_digit_def less_eq_char_def split: prod.splits)

text \<open>An admitted text is an optional sign before a body of digits and at most one point.\<close>

definition body_ok :: "string \<Rightarrow> bool" where
  "body_ok u \<longleftrightarrow> decimal_ok u \<and> \<not> starts_with ''-'' u"

lemma starts_minus: "starts_with ''-'' s \<longleftrightarrow> s \<noteq> [] \<and> hd s = CHR ''-''"
  by (cases s) (auto simp: starts_with_def)

lemma starts_minus_Cons [simp]: "starts_with ''-'' (CHR ''-'' # u)"
  by (simp add: starts_with_def)

lemma decimal_parts_unsigned:
  "\<not> starts_with ''-'' u \<Longrightarrow> decimal_parts u =
     (False, takeWhile (\<lambda>c. c \<noteq> CHR ''.'') u,
      case dropWhile (\<lambda>c. c \<noteq> CHR ''.'') u of [] \<Rightarrow> None | _ # f \<Rightarrow> Some f)"
  by (cases u) (auto simp: decimal_parts_def starts_minus Let_def)

lemma body_digits:
  assumes "body_ok u"
  obtains whole where "u = whole" "list_all is_digit whole" "whole \<noteq> []"
    "decimal_parts u = (False, whole, None)"
  | whole f where "u = whole @ CHR ''.'' # f" "list_all is_digit whole" "all_digits f"
    "decimal_parts u = (False, whole, Some f)"
proof -
  let ?P = "\<lambda>c. c \<noteq> CHR ''.''"
  have p: "decimal_parts u = (False, takeWhile ?P u,
      case dropWhile ?P u of [] \<Rightarrow> None | _ # f \<Rightarrow> Some f)"
    using assms by (intro decimal_parts_unsigned) (simp add: body_ok_def)
  have ok: "list_all is_digit (takeWhile ?P u)" using assms p by (simp add: body_ok_def decimal_ok_def)
  show thesis
  proof (cases "dropWhile ?P u")
    case Nil
    have e: "takeWhile ?P u = u"
      using takeWhile_dropWhile_id [of ?P u] unfolding Nil by (simp only: append_Nil2)
    have q: "decimal_parts u = (False, u, None)" using p unfolding Nil e by simp
    moreover have "list_all is_digit u" using ok unfolding e .
    moreover have "u \<noteq> []" using assms q by (simp add: body_ok_def decimal_ok_def)
    ultimately show thesis using that(1) by blast
  next
    case (Cons c f)
    then have "c = CHR ''.''" using hd_dropWhile [of ?P u] by simp
    then have "u = takeWhile ?P u @ CHR ''.'' # f"
      using takeWhile_dropWhile_id [of ?P u] unfolding Cons by simp
    moreover have q: "decimal_parts u = (False, takeWhile ?P u, Some f)" using p unfolding Cons by simp
    moreover have "all_digits f" using assms q by (simp add: body_ok_def decimal_ok_def frac_ok_def)
    ultimately show thesis using that(2) ok by blast
  qed
qed

lemma body_no_minus:
  assumes "decimal_ok (CHR ''-'' # u)"
  shows "body_ok u"
proof -
  have p: "decimal_parts (CHR ''-'' # u) = (True, takeWhile (\<lambda>c. c \<noteq> CHR ''.'') u,
      case dropWhile (\<lambda>c. c \<noteq> CHR ''.'') u of [] \<Rightarrow> None | _ # f \<Rightarrow> Some f)"
    by (simp add: decimal_parts_def)
  have "\<not> starts_with ''-'' u"
  proof
    assume "starts_with ''-'' u"
    then obtain r where "u = CHR ''-'' # r" by (cases u) (auto simp: starts_minus)
    with assms p show False by (simp add: decimal_ok_def)
  qed
  with assms p show ?thesis by (simp add: body_ok_def decimal_ok_def decimal_parts_unsigned)
qed

lemma decimal_value_minus: "\<not> starts_with ''-'' u \<Longrightarrow> decimal_value (CHR ''-'' # u) = - decimal_value u"
  by (auto simp: decimal_value_def decimal_parts_unsigned Let_def) (simp add: decimal_parts_def Let_def)

lemma decimal_value_body_nonneg: "\<not> starts_with ''-'' u \<Longrightarrow> 0 \<le> decimal_value u"
  by (auto simp: decimal_value_def decimal_parts_unsigned Let_def)

lemma decimal_cases:
  assumes "decimal_ok s"
  obtains "body_ok s" "\<not> starts_with ''-'' s" "0 \<le> decimal_value s"
  | u where "s = CHR ''-'' # u" "starts_with ''-'' s" "body_ok u" "0 \<le> decimal_value u"
      "decimal_value s = - decimal_value u"
proof (cases "starts_with ''-'' s")
  case True
  then obtain u where u: "s = CHR ''-'' # u" by (cases s) (auto simp: starts_minus)
  with assms have b: "body_ok u" using body_no_minus by simp
  with True u that(2) [of u] show thesis
    by (simp add: body_ok_def decimal_value_minus decimal_value_body_nonneg)
next
  case False
  with assms that(1) show thesis by (simp add: body_ok_def decimal_value_body_nonneg)
qed

lemma digit_no_space: "is_digit c \<Longrightarrow> \<not> is_js_space c"
  by (auto simp: is_digit_def is_js_space_def less_eq_char_def)

lemma trim_no_space:
  assumes "\<forall>c \<in> set s. \<not> is_js_space c"
  shows "trim s = s"
proof -
  have "dropWhile is_js_space s = s" "dropWhile is_js_space (rev s) = rev s"
    using assms by (simp_all add: dropWhile_none)
  then show ?thesis by (simp add: trim_def)
qed

lemma minus_no_space [simp]: "\<not> is_js_space CHR ''-''" "\<not> is_js_space CHR ''.''"
  by (simp_all add: is_js_space_def)

lemma body_no_space:
  assumes "body_ok u"
  shows "\<forall>c \<in> set u. \<not> is_js_space c"
  using assms
proof (cases rule: body_digits)
  case (1 whole)
  then show ?thesis using digit_no_space by (auto simp: list_all_iff)
next
  case (2 whole f)
  then show ?thesis using digit_no_space by (auto simp: list_all_iff all_digits_def)
qed

lemma decimal_trim [simp]: "decimal_ok s \<Longrightarrow> trim s = s"
  by (erule decimal_cases) (simp_all add: trim_no_space body_no_space)

lemma bigint_text_digits: "all_digits s \<Longrightarrow> bigint_text s = Inr (int (parse_nat s))"
proof -
  assume d: "all_digits s"
  then have "trim s = s" using digit_no_space by (intro trim_no_space) (auto simp: all_digits_def list_all_iff)
  with d show ?thesis by (simp add: bigint_text_def all_digits_def)
qed

lemma digits_no_point: "list_all is_digit w \<Longrightarrow> CHR ''.'' \<notin> set w"
  by (auto simp: list_all_iff)

lemma parse_body:
  assumes "body_ok u"
  obtains p where "parseDecimal u = Inr p" "pd_neg p = False" "0 \<le> pd_digits p"
    "of_int (pd_digits p) / 10 ^ pd_scale p = decimal_value u"
    "parseDecimal (CHR ''-'' # u) = Inr (p\<lparr>pd_neg := True\<rparr>)"
proof -
  have nm: "\<not> starts_with ''-'' u" using assms by (simp add: body_ok_def)
  from assms show thesis
  proof (cases rule: body_digits)
    case (1 whole)
    then have "CHR ''.'' \<notin> set u" using digits_no_point by simp
    then have s: "split_first CHR ''.'' u = None" by (simp add: split_first_None_iff)
    have d: "all_digits u" using 1 by (simp add: all_digits_def)
    with s nm 1 that [of "\<lparr>pd_neg = False, pd_digits = int (parse_nat u), pd_scale = 0\<rparr>"]
    show thesis
      by (simp add: parseDecimal_def bigint_text_digits decimal_value_def Let_def)
  next
    case (2 whole f)
    then have s: "split_first CHR ''.'' u = Some (whole, f)"
      using digits_no_point by (simp add: split_first_Some_iff)
    have d: "all_digits (whole @ f)" using 2 by (auto simp: all_digits_def)
    then have ne: "(if whole = [] \<and> f = [] then ''0'' else whole @ f) = whole @ f"
      by (auto simp: all_digits_def)
    from d ne s nm 2(4)
      that [of "\<lparr>pd_neg = False, pd_digits = int (parse_nat (whole @ f)), pd_scale = length f\<rparr>"]
    show thesis
      by (simp add: parseDecimal_def bigint_text_digits decimal_value_def Let_def)
  qed
qed

lemma parse_decimal_ok:
  assumes "decimal_ok s"
  obtains p where "parseDecimal s = Inr p" "of_int (pd_signed p) / 10 ^ pd_scale p = decimal_value s"
    "pd_digits p = 0 \<longleftrightarrow> decimal_value s = 0"
  using assms
proof (cases rule: decimal_cases)
  case 1
  from 1(1) obtain p where p: "parseDecimal s = Inr p" "pd_neg p = False"
    "of_int (pd_digits p) / 10 ^ pd_scale p = decimal_value s" by (rule parse_body)
  from p(3) have "pd_digits p = 0 \<longleftrightarrow> decimal_value s = 0" by (auto simp flip: p(3))
  with p that show thesis by (simp add: pd_signed_def)
next
  case (2 u)
  from 2(3) obtain p where p: "parseDecimal (CHR ''-'' # u) = Inr (p\<lparr>pd_neg := True\<rparr>)"
    "of_int (pd_digits p) / 10 ^ pd_scale p = decimal_value u" by (rule parse_body)
  have "pd_digits p = 0 \<longleftrightarrow> decimal_value u = 0" by (auto simp flip: p(2))
  with p 2 that [of "p\<lparr>pd_neg := True\<rparr>"] show thesis by (simp add: pd_signed_def)
qed

lemma settle_zero_ok [simp]:
  "decimal_ok s \<Longrightarrow> settle_isZeroDecimal s = Inr (decimal_value s = 0)"
  by (erule parse_decimal_ok) (simp add: settle_isZeroDecimal_def)

lemma plain_decimal_ok: "plain_decimal s \<Longrightarrow> decimal_ok s"
  by (rule schema_decimal_ok) simp

lemma subtract_exact:
  assumes "decimal_ok a" "decimal_ok b"
  obtains r where "subtractDecimal a b = Inr r" "plain_decimal r" "decimal_ok r"
    "decimal_value r = decimal_value a - decimal_value b"
proof -
  obtain pa where pa: "parseDecimal a = Inr pa"
    "of_int (pd_signed pa) / 10 ^ pd_scale pa = decimal_value a"
    using assms(1) by (rule parse_decimal_ok)
  obtain pb where pb: "parseDecimal b = Inr pb"
    "of_int (pd_signed pb) / 10 ^ pd_scale pb = decimal_value b"
    using assms(2) by (rule parse_decimal_ok)
  define sc where "sc = max (pd_scale pa) (pd_scale pb)"
  define diff where "diff = pd_signed pa * 10 ^ (sc - pd_scale pa) - pd_signed pb * 10 ^ (sc - pd_scale pb)"
  have r: "subtractDecimal a b = Inr (minor_string diff sc)"
    unfolding subtractDecimal_def pa(1) pb(1) res_bind_simps Let_def
      sc_def [symmetric] diff_def [symmetric]
    by (simp add: minor_string_def int_str_def Let_def)
  have scale: "(of_int z :: rat) / 10 ^ k = of_int (z * 10 ^ (sc - k)) / 10 ^ sc" if "k \<le> sc" for z k
  proof -
    have "(10::rat) ^ sc = 10 ^ (sc - k) * 10 ^ k" using that by (simp flip: power_add)
    then show ?thesis by simp
  qed
  have "of_int diff / 10 ^ sc = decimal_value a - decimal_value b"
    unfolding pa(2) [symmetric] pb(2) [symmetric]
    using scale [of "pd_scale pa" "pd_signed pa"] scale [of "pd_scale pb" "pd_signed pb"]
    by (simp add: sc_def diff_def diff_divide_distrib)
  with minor_string_ok [of diff sc] r that plain_decimal_ok show thesis by metis
qed

text \<open>
  On admitted texts the subtraction of the settlement rules succeeds, and its result is an
  admitted text whose value is the exact difference, whatever the numbers of decimal places.
\<close>

theorem subtraction_is_exact:
  assumes "decimal_ok a" "decimal_ok b"
  shows "\<exists>r. subtractDecimal a b = Inr r \<and> decimal_ok r \<and>
     decimal_value r = decimal_value a - decimal_value b"
  using subtract_exact [OF assms] by metis

lemma subtraction_is_exact_witness:
  "\<exists>r. subtractDecimal ''-0.5'' ''.125'' = Inr r \<and> decimal_value r = - 5 / 8"
proof -
  have "decimal_ok ''-0.5''" "decimal_ok ''.125''" by code_simp+
  moreover have "decimal_value ''-0.5'' - decimal_value ''.125'' = - 5 / 8" by code_simp
  ultimately show ?thesis using subtraction_is_exact [of "''-0.5''" "''.125''"] by auto
qed

section \<open>The two tests for zero\<close>

lemma parse_nat_zero_iff: "list_all is_digit s \<Longrightarrow> parse_nat s = 0 \<longleftrightarrow> list_all (\<lambda>c. c = CHR ''0'') s"
proof (induction s rule: rev_induct)
  case (snoc c s)
  have "digit_val c = 0 \<longleftrightarrow> c = CHR ''0''" if "is_digit c"
  proof -
    from that have "48 \<le> (of_char c :: nat)" by (simp add: is_digit_def less_eq_char_def)
    moreover have "(of_char c :: nat) = 48 \<longleftrightarrow> c = CHR ''0''"
    proof -
      have "(of_char (CHR ''0'') :: nat) = 48" by simp
      then show ?thesis by (metis of_char_eq_iff)
    qed
    ultimately show ?thesis by (auto simp: digit_val_def)
  qed
  with snoc show ?case by auto
qed (simp add: parse_nat_def)

lemma dropWhile_zeros:
  "list_all (\<lambda>c. c = CHR ''0'') w \<Longrightarrow> dropWhile (\<lambda>c. c = CHR ''0'') (w @ r) = dropWhile (\<lambda>c. c = CHR ''0'') r"
  by (induction w) auto

lemma dropWhile_digit_left:
  "list_all is_digit w \<Longrightarrow> \<not> list_all (\<lambda>c. c = CHR ''0'') w \<Longrightarrow>
   \<exists>c r. dropWhile (\<lambda>c. c = CHR ''0'') (w @ r') = c # r \<and> is_digit c"
  by (induction w) auto

lemma zero_body:
  assumes "body_ok u"
  shows "(let r = dropWhile (\<lambda>c. c = CHR ''0'') u in
      r = [] \<or> (hd r = CHR ''.'' \<and> tl r \<noteq> [] \<and> list_all (\<lambda>c. c = CHR ''0'') (tl r)))
    \<longleftrightarrow> decimal_value u = 0" (is "?z u \<longleftrightarrow> _")
  using assms
proof (cases rule: body_digits)
  case (1 whole)
  then have v: "decimal_value u = 0 \<longleftrightarrow> list_all (\<lambda>c. c = CHR ''0'') u"
    by (simp add: decimal_value_def Let_def parse_nat_zero_iff)
  show ?thesis
  proof (cases "list_all (\<lambda>c. c = CHR ''0'') u")
    case True
    then have "dropWhile (\<lambda>c. c = CHR ''0'') u = []" using dropWhile_zeros [of u "[]"] by simp
    with True v show ?thesis by simp
  next
    case False
    obtain c r where "dropWhile (\<lambda>c. c = CHR ''0'') u = c # r" "is_digit c"
      using dropWhile_digit_left [of u "[]"] 1 False by auto
    with False v show ?thesis by auto
  qed
next
  case (2 whole f)
  then have d: "list_all is_digit (whole @ f)" by (simp add: all_digits_def)
  have v: "decimal_value u = 0 \<longleftrightarrow> list_all (\<lambda>c. c = CHR ''0'') (whole @ f)"
    using 2 by (simp add: decimal_value_def Let_def parse_nat_zero_iff [OF d])
  show ?thesis
  proof (cases "list_all (\<lambda>c. c = CHR ''0'') whole")
    case True
    then have "dropWhile (\<lambda>c. c = CHR ''0'') u = CHR ''.'' # f"
      using 2 dropWhile_zeros [of whole "CHR ''.'' # f"] by simp
    with True v 2 show ?thesis by (simp add: all_digits_def)
  next
    case False
    obtain c r where "dropWhile (\<lambda>c. c = CHR ''0'') u = c # r" "is_digit c"
      using dropWhile_digit_left [OF 2(2) False, of "CHR ''.'' # f"] 2 by auto
    with False v show ?thesis by auto
  qed
qed

lemma isZeroDecimal_ok [simp]:
  assumes "decimal_ok s"
  shows "isZeroDecimal s \<longleftrightarrow> decimal_value s = 0"
  using assms
proof (cases rule: decimal_cases)
  case 1
  with assms zero_body [of s] show ?thesis by (simp add: isZeroDecimal_def Let_def)
next
  case (2 u)
  with assms zero_body [of u] show ?thesis by (simp add: isZeroDecimal_def Let_def)
qed

section \<open>Values of legs\<close>

definition leg_value :: "fx_leg \<Rightarrow> rat" where
  "leg_value l = (if lg_creditDebit l = Debit then decimal_value (lg_amount l)
                  else - decimal_value (lg_amount l))"

definition net :: "(fx_leg \<Rightarrow> bool) \<Rightarrow> fx_leg list \<Rightarrow> rat" where
  "net P ls = (\<Sum>l\<leftarrow>filter P ls. leg_value l)"

lemma net_simps [simp]:
  "net P [] = 0"
  "net P (l # ls) = (if P l then leg_value l else 0) + net P ls"
  "net P (ls @ ms) = net P ls + net P ms"
  by (simp_all add: net_def)

lemma leg_at_fields [simp]:
  "lg_accountCode (leg_at b a s c m k) = a" "lg_creditDebit (leg_at b a s c m k) = s"
  "lg_currency (leg_at b a s c m k) = c" "lg_amount (leg_at b a s c m k) = m"
  "lg_pnlKind (leg_at b a s c m k) = k"
  by (simp_all add: leg_at_def split: prod.splits)

lemma leg_value_at:
  "leg_value (leg_at b a s c m k) = (if s = Debit then decimal_value m else - decimal_value m)"
  by (simp add: leg_value_def)

text \<open>
  The idiom of every rule: the side follows the sign of the text, the amount is the text without
  its sign.  The signed value of the leg is then that of the text.
\<close>

lemma signed_leg:
  assumes "decimal_ok s"
  shows
    "leg_value (leg_at b a (if starts_with ''-'' s then Credit else Debit) c
       (if starts_with ''-'' s then drop 1 s else s) k) = decimal_value s"
    "leg_value (leg_at b a (if starts_with ''-'' s then Debit else Credit) c
       (if starts_with ''-'' s then drop 1 s else s) k) = - decimal_value s"
    "0 \<le> decimal_value (if starts_with ''-'' s then drop 1 s else s)"
  using assms by (elim decimal_cases; simp add: leg_value_at)+

lemma zero_text [simp]: "decimal_value ''0'' = 0" by code_simp

section \<open>Revaluation\<close>

text \<open>The measured delta of an amendment, zero when the event carries none.\<close>

definition measured_delta :: "fil_amended \<Rightarrow> rat" where
  "measured_delta p =
     (case et_fairValueDelta (am_economicTerms p) of
        None \<Rightarrow> 0 | Some d \<Rightarrow> decimal_value (fm_amount d))"

text \<open>
  A revaluation posts exactly two legs, never of a negative amount: the position account of
  the instrument's currency moves by the measured delta and its unrealised-result account by the
  opposite, so the entry balances; without a measured delta both are zero.
\<close>

theorem revaluation_posts_delta:
  assumes "\<forall>d. et_fairValueDelta (am_economicTerms p) = Some d \<longrightarrow> decimal_ok (fm_amount d)"
  shows "\<exists>position counter. postFxRevaluationLegs p = [position, counter] \<and>
     lg_accountCode position = ac_receivable (resolveFxAccountSet (et_currency (am_economicTerms p))) \<and>
     lg_accountCode counter = ac_unrealisedPnl (resolveFxAccountSet (et_currency (am_economicTerms p))) \<and>
     leg_value position = measured_delta p \<and> leg_value counter = - measured_delta p \<and>
     0 \<le> decimal_value (lg_amount position) \<and> lg_amount counter = lg_amount position"
proof (cases "et_fairValueDelta (am_economicTerms p)")
  case None
  then show ?thesis
    by (simp add: postFxRevaluationLegs_def measured_delta_def Let_def leg_value_at)
next
  case (Some d)
  with assms have ok: "decimal_ok (fm_amount d)" by simp
  show ?thesis
  proof (cases "decimal_value (fm_amount d) = 0")
    case True
    with Some ok show ?thesis
      by (simp add: postFxRevaluationLegs_def measured_delta_def Let_def leg_value_at)
  next
    case False
    with Some ok signed_leg [OF ok] show ?thesis
      by (simp add: postFxRevaluationLegs_def measured_delta_def Let_def decimalMagnitude_def
          negative_text_def split: if_splits)
  qed
qed

definition sample_amended :: "string \<Rightarrow> string \<Rightarrow> fil_amended" where
  "sample_amended cur amt =
     \<lparr>ib_instance = ''fil:inst:t:a'', ib_type = ''fil:type:fx:spot:vanilla@1.0'', ib_tenant = ''t'',
      ib_asOf = ''2026-01-06'', ib_originatingEvent = \<lparr>er_eventType = ''E'', er_eventId = ''2''\<rparr>,
      am_amendmentVia = ''revaluation'',
      am_economicTerms = (sample_terms ''fx'' None)
        \<lparr>et_fairValueDelta := Some \<lparr>fm_currency = cur, fm_amount = amt\<rparr>\<rparr>\<rparr>"

lemma revaluation_posts_delta_witness:
  "map leg_value (postFxRevaluationLegs (sample_amended ''ZAR'' ''-12.50'')) = [- 25 / 2, 25 / 2]"
proof -
  let ?p = "sample_amended ''ZAR'' ''-12.50''"
  have "decimal_ok ''-12.50''" "decimal_value ''-12.50'' = - 25 / 2" by code_simp+
  then have "\<forall>d. et_fairValueDelta (am_economicTerms ?p) = Some d \<longrightarrow> decimal_ok (fm_amount d)"
    "measured_delta ?p = - 25 / 2"
    by (simp_all add: sample_amended_def measured_delta_def)
  then show ?thesis using revaluation_posts_delta [of ?p] by auto
qed

text \<open>
  The accounts follow the instrument's currency and the amounts that of the delta: a delta in
  another currency is posted into accounts designated in the instrument's.
\<close>

lemma revaluation_mixes_currencies:
  assumes "et_fairValueDelta (am_economicTerms p) = Some d" "\<not> isZeroDecimal (fm_amount d)"
    "et_currency (am_economicTerms p) = ''USD''" "fm_currency d = ''ZAR''"
  shows "\<exists>l \<in> set (postFxRevaluationLegs p).
     lg_accountCode l = ac_receivable (resolveFxAccountSet ''USD'') \<and> lg_currency l = ''ZAR''"
  using assms by (simp add: postFxRevaluationLegs_def Let_def)

section \<open>Reversal\<close>

lemma reverse_leg_value: "leg_value (reverse_leg c r l) = - leg_value l"
  by (cases "lg_creditDebit l") (simp_all add: leg_value_def reverse_leg_def)

lemma net_reverse:
  assumes "\<And>l. P (reverse_leg c r l) \<longleftrightarrow> P l"
  shows "net P (map (reverse_leg c r) ls) = - net P ls"
  by (induction ls) (simp_all add: assms reverse_leg_value)

definition on_account :: "string \<Rightarrow> string \<Rightarrow> fx_leg \<Rightarrow> bool" where
  "on_account a cur l \<longleftrightarrow> lg_accountCode l = a \<and> lg_currency l = cur"

lemma on_account_reverse [simp]: "on_account a cur (reverse_leg c r l) \<longleftrightarrow> on_account a cur l"
  by (simp add: on_account_def reverse_leg_def)

definition obs_account :: "string \<Rightarrow> bool" where
  "obs_account a \<longleftrightarrow> a \<in> {FX_OBS_BOUGHT_COMMITMENT_ACCOUNT, FX_OBS_SOLD_COMMITMENT_ACCOUNT}"

lemma obs_leg_account: "on_account a cur l \<Longrightarrow> isFxObsCommitmentLeg l \<longleftrightarrow> obs_account a"
  by (simp add: on_account_def isFxObsCommitmentLeg_def obs_account_def)

lemma net_obs_filter:
  "net (on_account a cur) (filter isFxObsCommitmentLeg ls) =
     (if obs_account a then net (on_account a cur) ls else 0)"
  by (induction ls) (auto dest: obs_leg_account)

text \<open>
  Whatever the opening legs, the cancellation reversal brings every account back to zero in
  every currency, and the release of the commitments does so for the two off-balance accounts and
  leaves every other account as it was.
\<close>

theorem reversal_clears:
  "net (on_account a cur) (opening @ postFxCancellationReversalLegs opening c) = 0
   \<and> net (on_account a cur) (opening @ postFxObsCommitmentReleaseLegs opening c) =
      (if obs_account a then 0 else net (on_account a cur) opening)"
  by (simp add: postFxCancellationReversalLegs_def postFxObsCommitmentReleaseLegs_def net_reverse
      net_obs_filter)

section \<open>Conversion\<close>

text \<open>
  A leg in the reporting currency counts at its value; the foreign-currency leg counts at the cost
  basis of what is sold.
\<close>

definition functional_value :: "fx_conversion_input \<Rightarrow> fx_leg \<Rightarrow> rat" where
  "functional_value i l =
     (if lg_currency l = ci_reportingCurrency i then leg_value l
      else if lg_creditDebit l = Debit then decimal_value (ci_zarCostBasis i)
      else - decimal_value (ci_zarCostBasis i))"

definition conversion_ok :: "fx_conversion_input \<Rightarrow> bool" where
  "conversion_ok i \<longleftrightarrow>
     decimal_ok (ci_fcyAmount i) \<and> decimal_ok (ci_zarProceeds i) \<and> decimal_ok (ci_zarCostBasis i) \<and>
     decimal_ok (ci_accumulatedUnrealised i) \<and> ci_fcyCurrency i \<noteq> ci_reportingCurrency i"

lemma nostro_not_pnl [simp]:
  "nostroFor c \<noteq> ''ACC-2100-006''" "nostroFor c \<noteq> ''ACC-2100-005''" "nostroFor c \<noteq> ''ACC-2100-027''"
  "nostroFor c \<noteq> ''ACC-9100-001''" "nostroFor c \<noteq> ''ACC-9100-002''"
  by (simp_all add: nostroFor_def)

text \<open>The legs of a conversion in three parts, \<open>r\<close> the proceeds less the cost basis.\<close>

definition convert_base :: "fx_conversion_input \<Rightarrow> string \<times> string \<times> string \<times> string" where
  "convert_base i = (ci_postingDate i, ci_tenantId i, ci_instanceId i, ''PR-FX-CONVERT-V2'')"

definition cash_part :: "fx_conversion_input \<Rightarrow> fx_leg list" where
  "cash_part i =
     [leg_at (convert_base i) (nostroFor (ci_reportingCurrency i)) Debit (ci_reportingCurrency i)
        (ci_zarProceeds i) None,
      leg_at (convert_base i) (nostroFor (ci_fcyCurrency i)) Credit (ci_fcyCurrency i)
        (ci_fcyAmount i) None]"

definition struck_part :: "fx_conversion_input \<Rightarrow> string \<Rightarrow> fx_leg list" where
  "struck_part i r =
     (if decimal_value r = 0 then [] else
      [leg_at (convert_base i) FX_REALISED_PNL_ACCOUNT (if starts_with ''-'' r then Debit else Credit)
         (ci_reportingCurrency i) (if starts_with ''-'' r then drop 1 r else r) (Some PnlRealised)])"

definition reclass_part :: "fx_conversion_input \<Rightarrow> fx_leg list" where
  "reclass_part i =
     (let u = ci_accumulatedUnrealised i; m = if starts_with ''-'' u then drop 1 u else u
      in if decimal_value u = 0 then [] else
      [leg_at (convert_base i) FX_UNREALISED_PNL_ACCOUNT
         (if starts_with ''-'' u then Credit else Debit) (ci_reportingCurrency i) m
         (Some PnlUnrealised),
       leg_at (convert_base i) FX_REALISED_PNL_ACCOUNT
         (if starts_with ''-'' u then Debit else Credit) (ci_reportingCurrency i) m
         (Some PnlRealised)])"

lemma conversion_parts:
  assumes "conversion_ok i" "decimal_value (ci_fcyAmount i) \<noteq> 0"
  obtains r where
    "postFxConversionLegs i = Inr (cash_part i @ struck_part i r @ reclass_part i)" "decimal_ok r"
    "decimal_value r = decimal_value (ci_zarProceeds i) - decimal_value (ci_zarCostBasis i)"
proof -
  note ok = assms(1) [unfolded conversion_ok_def]
  obtain r where r: "subtractDecimal (ci_zarProceeds i) (ci_zarCostBasis i) = Inr r" "decimal_ok r"
    "decimal_value r = decimal_value (ci_zarProceeds i) - decimal_value (ci_zarCostBasis i)"
    using ok by (meson subtract_exact)
  have "postFxConversionLegs i = Inr (cash_part i @ struck_part i r @ reclass_part i)"
    using assms(2) ok r
    by (simp add: postFxConversionLegs_def Let_def convert_base_def cash_part_def struck_part_def
        reclass_part_def)
  with r(2,3) show thesis by (rule that [rotated])
qed

lemma conversion_legs:
  assumes "conversion_ok i" "decimal_value (ci_fcyAmount i) \<noteq> 0"
  shows "\<exists>ls. postFxConversionLegs i = Inr ls \<and>
     (\<Sum>l\<leftarrow>ls. functional_value i l) = 0 \<and>
     net (\<lambda>l. lg_accountCode l = FX_REALISED_PNL_ACCOUNT) ls =
       - (decimal_value (ci_zarProceeds i) - decimal_value (ci_zarCostBasis i))
       - decimal_value (ci_accumulatedUnrealised i) \<and>
     net (\<lambda>l. lg_accountCode l = FX_UNREALISED_PNL_ACCOUNT) ls =
       decimal_value (ci_accumulatedUnrealised i)"
proof -
  obtain r where r: "postFxConversionLegs i = Inr (cash_part i @ struck_part i r @ reclass_part i)"
    "decimal_ok r"
    "decimal_value r = decimal_value (ci_zarProceeds i) - decimal_value (ci_zarCostBasis i)"
    by (rule conversion_parts [OF assms])
  let ?ls = "cash_part i @ struck_part i r @ reclass_part i" and ?u = "ci_accumulatedUnrealised i"
  note ok = assms(1) [unfolded conversion_ok_def]
  note s = signed_leg [OF r(2)] and u = signed_leg [of ?u]
  note parts = cash_part_def struck_part_def reclass_part_def Let_def
  have "(\<Sum>l\<leftarrow>cash_part i. functional_value i l) = decimal_value r"
    using ok r(3) by (simp add: parts functional_value_def leg_value_at)
  moreover have "(\<Sum>l\<leftarrow>struck_part i r. functional_value i l) = - decimal_value r"
    using s by (simp add: parts functional_value_def)
  moreover have "(\<Sum>l\<leftarrow>reclass_part i. functional_value i l) = 0"
    using u ok by (simp add: parts functional_value_def)
  ultimately have bal: "(\<Sum>l\<leftarrow>?ls. functional_value i l) = 0" by simp
  have "net (\<lambda>l. lg_accountCode l = FX_REALISED_PNL_ACCOUNT) ?ls =
      - decimal_value r - decimal_value ?u"
    using s u ok by (simp add: parts FX_REALISED_PNL_ACCOUNT_def FX_UNREALISED_PNL_ACCOUNT_def)
  moreover have "net (\<lambda>l. lg_accountCode l = FX_UNREALISED_PNL_ACCOUNT) ?ls = decimal_value ?u"
    using u ok by (simp add: parts FX_REALISED_PNL_ACCOUNT_def FX_UNREALISED_PNL_ACCOUNT_def)
  ultimately show ?thesis using r(1,3) bal by simp
qed

text \<open>
  C14. A conversion of a non-zero amount never fails and balances in the functional currency, with
  the foreign cash at its cost basis.  The realised result is credited with the proceeds less the
  cost basis plus the accumulated unrealised result, which is taken off the unrealised account, so
  that the total of both accounts moves by the proceeds less the cost basis.
\<close>

theorem conversion_balances:
  assumes "conversion_ok i" "decimal_value (ci_fcyAmount i) \<noteq> 0"
  shows "\<exists>ls. postFxConversionLegs i = Inr ls \<and>
     (\<Sum>l\<leftarrow>ls. functional_value i l) = 0 \<and>
     net (\<lambda>l. lg_accountCode l = FX_REALISED_PNL_ACCOUNT) ls =
       - (decimal_value (ci_zarProceeds i) - decimal_value (ci_zarCostBasis i))
       - decimal_value (ci_accumulatedUnrealised i) \<and>
     net (\<lambda>l. lg_accountCode l = FX_UNREALISED_PNL_ACCOUNT) ls =
       decimal_value (ci_accumulatedUnrealised i)"
  by (rule conversion_legs [OF assms])

lemma conversion_balances_witness:
  "\<exists>ls. postFxConversionLegs \<lparr>ci_instanceId = ''i'', ci_tenantId = ''t'', ci_postingDate = ''2026-01-06'',
      ci_fcyCurrency = ''USD'', ci_reportingCurrency = ''ZAR'', ci_fcyAmount = ''4'',
      ci_zarProceeds = ''2.25'', ci_zarCostBasis = ''2'',
      ci_accumulatedUnrealised = ''-2.5''\<rparr> = Inr ls \<and>
    net (\<lambda>l. lg_accountCode l = FX_REALISED_PNL_ACCOUNT) ls = 9 / 4"
proof -
  let ?i = "\<lparr>ci_instanceId = ''i'', ci_tenantId = ''t'', ci_postingDate = ''2026-01-06'',
      ci_fcyCurrency = ''USD'', ci_reportingCurrency = ''ZAR'', ci_fcyAmount = ''4'',
      ci_zarProceeds = ''2.25'', ci_zarCostBasis = ''2'', ci_accumulatedUnrealised = ''-2.5''\<rparr>"
  have ok: "decimal_ok ''4'' \<and> decimal_ok ''2.25'' \<and> decimal_ok ''2'' \<and> decimal_ok ''-2.5''"
    by code_simp
  have v: "decimal_value ''4'' = 4" "decimal_value ''2.25'' = 9 / 4"
    "decimal_value ''2'' = 2" "decimal_value ''-2.5'' = - 5 / 2" by code_simp+
  have "conversion_ok ?i" "decimal_value (ci_fcyAmount ?i) \<noteq> 0"
    using ok v by (simp_all add: conversion_ok_def)
  from conversion_balances [OF this] show ?thesis by (auto simp: v)
qed

text \<open>
  Currency by currency a conversion does not balance: the legs in the foreign currency take its
  amount away and those in the reporting currency leave the cost basis.
\<close>

lemma conversion_currencies_open:
  assumes "conversion_ok i" "decimal_value (ci_fcyAmount i) \<noteq> 0"
  shows "\<exists>ls. postFxConversionLegs i = Inr ls \<and>
     net (\<lambda>l. lg_currency l = ci_fcyCurrency i) ls = - decimal_value (ci_fcyAmount i) \<and>
     net (\<lambda>l. lg_currency l = ci_reportingCurrency i) ls = decimal_value (ci_zarCostBasis i)"
proof -
  obtain r where r: "postFxConversionLegs i = Inr (cash_part i @ struck_part i r @ reclass_part i)"
    "decimal_ok r"
    "decimal_value r = decimal_value (ci_zarProceeds i) - decimal_value (ci_zarCostBasis i)"
    by (rule conversion_parts [OF assms])
  let ?u = "ci_accumulatedUnrealised i"
  note s = signed_leg [OF r(2)] and u = signed_leg [of ?u]
  note parts = cash_part_def struck_part_def reclass_part_def Let_def
  have apart: "ci_reportingCurrency i \<noteq> ci_fcyCurrency i" and ok: "decimal_ok ?u"
    using assms(1) by (auto simp: conversion_ok_def)
  have fcy: "net (\<lambda>l. lg_currency l = ci_fcyCurrency i) (struck_part i r @ reclass_part i) = 0"
    using apart by (simp add: parts)
  have zar: "net (\<lambda>l. lg_currency l = ci_reportingCurrency i) (struck_part i r @ reclass_part i) =
      - decimal_value r"
    using s u [OF ok] by (simp add: parts)
  show ?thesis using r(1,3) fcy zar apart by (simp add: cash_part_def leg_value_at)
qed

section \<open>Settlement\<close>

lemma decimalEquals_ok [simp]:
  assumes "decimal_ok a" "decimal_ok b"
  shows "decimalEquals a b = Inr (decimal_value a = decimal_value b)"
proof -
  obtain r where "subtractDecimal a b = Inr r" "decimal_ok r"
    "decimal_value r = decimal_value a - decimal_value b"
    using subtract_exact [OF assms] by metis
  then show ?thesis by (simp add: decimalEquals_def)
qed

text \<open>The legs of one movement that settles at its booked amount.\<close>

definition movement_legs ::
  "string \<times> string \<times> string \<times> string \<Rightarrow> settlement_movement \<Rightarrow> fx_leg list" where
  "movement_legs b mv =
     (if decimal_value (sm_settledAmount mv) = 0 then []
      else leg_at b (nostroFor (sm_currency mv)) (if sm_side mv = SideReceive then Debit else Credit)
             (sm_currency mv) (sm_settledAmount mv) None #
           (if sm_mode mv = ModePvp then []
            else [leg_at b FX_SETTLEMENT_CLEARING_ACCOUNT
                    (if sm_side mv = SideReceive then Credit else Debit) (sm_currency mv)
                    (sm_settledAmount mv) None]))"

lemma movement_exact:
  assumes "decimal_ok (sm_settledAmount mv)" "decimal_ok (sm_bookedAmount mv)"
  shows "postSettlementMovementLegs b mv =
     (if decimal_value (sm_settledAmount mv) = 0 \<or>
         decimal_value (sm_settledAmount mv) = decimal_value (sm_bookedAmount mv)
      then Inr (movement_legs b mv)
      else Inl (SettledNotBooked (sm_settledAmount mv) (sm_bookedAmount mv) (sm_currency mv)))"
  using assms by (simp add: postSettlementMovementLegs_def movement_legs_def Let_def)

definition settlement_input_ok :: "fx_settlement_input \<Rightarrow> bool" where
  "settlement_input_ok i \<longleftrightarrow>
     decimal_ok (si_boughtSettledAmount i) \<and> decimal_ok (si_boughtBookedAmount i) \<and>
     decimal_ok (si_soldSettledAmount i) \<and> decimal_ok (si_soldBookedAmount i)"

definition settles_as_booked :: "string \<Rightarrow> string \<Rightarrow> bool" where
  "settles_as_booked settled bookedAmt \<longleftrightarrow>
     decimal_value settled = 0 \<or> decimal_value settled = decimal_value bookedAmt"

lemma settlement_cases:
  assumes "settlement_input_ok i"
  shows "postFxSettlementLegs i mode =
    (let b = (si_postingDate i, si_tenantId i, si_instanceId i, ''PR-FX-SETTLE-V2'');
         bought = \<lparr>sm_currency = si_boughtCurrency i, sm_settledAmount = si_boughtSettledAmount i,
           sm_bookedAmount = si_boughtBookedAmount i, sm_side = SideReceive, sm_mode = mode\<rparr>;
         sold = \<lparr>sm_currency = si_soldCurrency i, sm_settledAmount = si_soldSettledAmount i,
           sm_bookedAmount = si_soldBookedAmount i, sm_side = SidePay, sm_mode = mode\<rparr>
     in if \<not> settles_as_booked (si_boughtSettledAmount i) (si_boughtBookedAmount i)
        then Inl (SettledNotBooked (si_boughtSettledAmount i) (si_boughtBookedAmount i)
               (si_boughtCurrency i))
        else if \<not> settles_as_booked (si_soldSettledAmount i) (si_soldBookedAmount i)
        then Inl (SettledNotBooked (si_soldSettledAmount i) (si_soldBookedAmount i) (si_soldCurrency i))
        else Inr (movement_legs b bought @ movement_legs b sold))"
  using assms
  by (simp add: postFxSettlementLegs_def settlement_input_ok_def movement_exact Let_def
      settles_as_booked_def)

lemma movement_net:
  "net (on_account a cur) (movement_legs b mv) =
     (let v = (if sm_side mv = SideReceive then decimal_value (sm_settledAmount mv)
               else - decimal_value (sm_settledAmount mv)) in
      (if a = nostroFor (sm_currency mv) \<and> cur = sm_currency mv then v else 0)
      - (if sm_mode mv \<noteq> ModePvp \<and> a = FX_SETTLEMENT_CLEARING_ACCOUNT \<and> cur = sm_currency mv
         then v else 0))"
  by (auto simp: movement_legs_def on_account_def leg_value_at Let_def FX_SETTLEMENT_CLEARING_ACCOUNT_def)

text \<open>
  C21. With admitted amounts a settlement is refused exactly when a settled amount that is not zero
  differs from the booked one.  Otherwise the bought amount enters its currency's nostro, the sold
  amount leaves its own, and no other account moves but, for the legs of a swap, the clearing
  account by the opposite amounts; no leg is a result.
\<close>

theorem settlement_is_result_neutral:
  assumes "settlement_input_ok i"
  shows "(isl (postFxSettlementLegs i mode) \<longleftrightarrow>
      \<not> (settles_as_booked (si_boughtSettledAmount i) (si_boughtBookedAmount i) \<and>
         settles_as_booked (si_soldSettledAmount i) (si_soldBookedAmount i)))
    \<and> (\<forall>ls. postFxSettlementLegs i mode = Inr ls \<longrightarrow>
        (\<forall>l \<in> set ls. lg_pnlKind l = None) \<and>
        (\<forall>a cur. net (on_account a cur) ls =
          (let bought = (if cur = si_boughtCurrency i then decimal_value (si_boughtSettledAmount i) else 0);
               sold = (if cur = si_soldCurrency i then decimal_value (si_soldSettledAmount i) else 0)
           in (if a = nostroFor (si_boughtCurrency i) then bought else 0)
              - (if a = nostroFor (si_soldCurrency i) then sold else 0)
              - (if mode \<noteq> ModePvp \<and> a = FX_SETTLEMENT_CLEARING_ACCOUNT then bought - sold else 0))))"
proof -
  have kinds: "lg_pnlKind l = None" if "l \<in> set (movement_legs b mv)" for l b mv
    using that by (auto simp: movement_legs_def split: if_splits)
  show ?thesis
    unfolding settlement_cases [OF assms] Let_def
    by (auto simp: movement_net Let_def split: if_splits dest: kinds)
qed

lemma settlement_is_result_neutral_witness:
  "isl (postFxSettlementLegs \<lparr>si_instanceId = ''i'', si_tenantId = ''t'', si_postingDate = ''2026-01-06'',
      si_boughtCurrency = ''USD'', si_boughtBookedAmount = ''10'', si_boughtSettledAmount = ''10.0'',
      si_soldCurrency = ''ZAR'', si_soldBookedAmount = ''18'', si_soldSettledAmount = ''18.1''\<rparr>
      ModePvp)"
proof -
  let ?i = "\<lparr>si_instanceId = ''i'', si_tenantId = ''t'', si_postingDate = ''2026-01-06'',
      si_boughtCurrency = ''USD'', si_boughtBookedAmount = ''10'', si_boughtSettledAmount = ''10.0'',
      si_soldCurrency = ''ZAR'', si_soldBookedAmount = ''18'', si_soldSettledAmount = ''18.1''\<rparr>"
  have "decimal_ok ''10'' \<and> decimal_ok ''10.0'' \<and> decimal_ok ''18'' \<and> decimal_ok ''18.1''"
    by code_simp
  then have "settlement_input_ok ?i" by (simp add: settlement_input_ok_def)
  moreover have "\<not> settles_as_booked ''18.1'' ''18''" by code_simp
  ultimately show ?thesis using settlement_is_result_neutral [of ?i ModePvp] by simp
qed

section \<open>Derecognition, fixing, reclassification\<close>

lemma transfer_exact:
  assumes "decimal_ok amt"
  shows "\<exists>ls. transfer_legs b cur account kind amt = Inr ls \<and>
    ls = (if decimal_value amt = 0 then [] else
      [leg_at b account (if starts_with ''-'' amt then Credit else Debit) cur
         (if starts_with ''-'' amt then drop 1 amt else amt) kind,
       leg_at b FX_REALISED_PNL_ACCOUNT (if starts_with ''-'' amt then Debit else Credit) cur
         (if starts_with ''-'' amt then drop 1 amt else amt) (Some PnlRealised)])"
  using assms by (simp add: transfer_legs_def Let_def)

text \<open>Legs that move an amount to an account from the realised result, and nothing else.\<close>

definition from_result :: "string \<Rightarrow> string \<Rightarrow> string \<Rightarrow> fx_leg list \<Rightarrow> bool" where
  "from_result account cur amt ls \<longleftrightarrow>
     (\<forall>a c. net (on_account a c) ls =
        (if c = cur \<and> a = account then decimal_value amt
         else if c = cur \<and> a = FX_REALISED_PNL_ACCOUNT then - decimal_value amt else 0))"

lemma transfer_net:
  assumes "decimal_ok amt" "account \<noteq> FX_REALISED_PNL_ACCOUNT"
  shows "\<exists>ls. transfer_legs b cur account kind amt = Inr ls \<and> from_result account cur amt ls"
proof -
  obtain ls where ls: "transfer_legs b cur account kind amt = Inr ls"
    "ls = (if decimal_value amt = 0 then [] else
      [leg_at b account (if starts_with ''-'' amt then Credit else Debit) cur
         (if starts_with ''-'' amt then drop 1 amt else amt) kind,
       leg_at b FX_REALISED_PNL_ACCOUNT (if starts_with ''-'' amt then Debit else Credit) cur
         (if starts_with ''-'' amt then drop 1 amt else amt) (Some PnlRealised)])"
    using transfer_exact [OF assms(1)] by blast
  have "net (on_account a c) ls =
      (if c = cur \<and> a = account then decimal_value amt
       else if c = cur \<and> a = FX_REALISED_PNL_ACCOUNT then - decimal_value amt else 0)" for a c
    unfolding ls(2) using assms(2) signed_leg(1,2) [OF assms(1)] by (simp add: on_account_def)
  with ls(1) show ?thesis by (simp add: from_result_def)
qed

lemma unrealised_not_realised: "ac_unrealisedPnl (resolveFxAccountSet c) \<noteq> FX_REALISED_PNL_ACCOUNT"
  by (auto simp: resolveFxAccountSet_def FX_ACCOUNT_SETS_def FX_REALISED_PNL_ACCOUNT_def)

text \<open>
  Derecognition, fixing and reclassification never fail on an admitted amount: they move it
  from the realised result to the unrealised account, the nostro and the reserve respectively,
  and leave every other account and currency as it was.
\<close>

theorem result_transfers_balance:
  assumes "decimal_ok amt"
  shows "\<exists>d n f. postFxDerecognitionLegs inst tenant date cur amt = Inr d \<and>
    postFxNdfFixingLegs inst tenant date cur amt = Inr n \<and>
    postFxFvociReclassLegs inst tenant date cur amt = Inr f \<and>
    from_result (ac_unrealisedPnl (resolveFxAccountSet cur)) cur amt d \<and>
    from_result (nostroFor cur) cur amt n \<and>
    from_result FX_FVOCI_OCI_RESERVE_ACCOUNT cur amt f"
proof -
  note net = transfer_net [OF assms, of _ _ cur]
  have acc: "nostroFor cur \<noteq> FX_REALISED_PNL_ACCOUNT"
    "FX_FVOCI_OCI_RESERVE_ACCOUNT \<noteq> FX_REALISED_PNL_ACCOUNT"
    by (simp_all add: FX_REALISED_PNL_ACCOUNT_def FX_FVOCI_OCI_RESERVE_ACCOUNT_def)
  show ?thesis
    using net [OF unrealised_not_realised] net [OF acc(1)] net [OF acc(2)]
    unfolding postFxDerecognitionLegs_def postFxNdfFixingLegs_def postFxFvociReclassLegs_def
    by blast
qed

lemma result_transfers_balance_witness:
  "\<exists>d. postFxDerecognitionLegs ''i'' ''t'' ''2026-01-06'' ''GBP'' ''-3.75'' = Inr d \<and>
     net (on_account ''ACC-2100-012'' ''GBP'') d = - 15 / 4"
proof -
  have "decimal_ok ''-3.75''" by code_simp
  then obtain d where d: "postFxDerecognitionLegs ''i'' ''t'' ''2026-01-06'' ''GBP'' ''-3.75'' = Inr d"
    "from_result (ac_unrealisedPnl (resolveFxAccountSet ''GBP'')) ''GBP'' ''-3.75'' d"
    using result_transfers_balance [of "''-3.75''" "''i''" "''t''" "''2026-01-06''" "''GBP''"] by blast
  have "ac_unrealisedPnl (resolveFxAccountSet ''GBP'') = ''ACC-2100-012''"
    "decimal_value ''-3.75'' = - 15 / 4" by code_simp+
  with d show ?thesis by (simp add: from_result_def)
qed

section \<open>Two routes of a settlement\<close>

text \<open>
  What is relied on of the two further operations of decimal.js: the sign test, negation, and
  that only negative numbers print a sign.
\<close>

definition exact_signs :: "'d decimal_js \<Rightarrow> 'd decimal_signs \<Rightarrow> ('d \<Rightarrow> rat) \<Rightarrow> bool" where
  "exact_signs D G v \<longleftrightarrow>
     (\<forall>d. (ds_isNegative G d \<longrightarrow> v d \<le> 0) \<and> (\<not> ds_isNegative G d \<longrightarrow> 0 \<le> v d)) \<and>
     (\<forall>d. v (ds_negated G d) = - v d) \<and>
     (\<forall>d. starts_with ''-'' (dj_toFixed D d) \<longleftrightarrow> v d < 0)"

lemma toDecimal_ok:
  assumes "exact_decimal D v" "plain_decimal s"
  shows "\<exists>d. toDecimal D s = Inr d \<and> v d = decimal_value s"
  using toDecimal_plain [OF assms] by blast

lemma toFixed_ok:
  assumes "exact_decimal D v"
  shows "plain_decimal (dj_toFixed D d)" "decimal_value (dj_toFixed D d) = v d"
  using assms by (simp_all add: exact_decimal_def)

lemma absDecimal_ok:
  assumes "exact_decimal D v" "exact_signs D G v" "plain_decimal s"
  shows "\<exists>t. absDecimal D G s = Inr t \<and> plain_decimal t \<and> decimal_value t = \<bar>decimal_value s\<bar>"
proof -
  obtain d where d: "toDecimal D s = Inr d" "v d = decimal_value s"
    using toDecimal_ok [OF assms(1,3)] by blast
  have "v (if ds_isNegative G d then ds_negated G d else d) = \<bar>v d\<bar>"
    using assms(2) by (cases "ds_isNegative G d") (simp_all add: exact_signs_def)
  then have "v (if ds_isNegative G d then ds_negated G d else d) = \<bar>decimal_value s\<bar>"
    unfolding d(2) .
  with d(1) toFixed_ok [OF assms(1), of "if ds_isNegative G d then ds_negated G d else d"]
  show ?thesis by (simp add: absDecimal_def)
qed

text \<open>
  What a leg books, with its amount as a number; two outcomes are the same when both are refused
  or both book the same.
\<close>

definition booking ::
  "fx_leg \<Rightarrow> string \<times> dc_side \<times> string \<times> rat \<times> string \<times> string \<times> string \<times> string" where
  "booking l = (lg_accountCode l, lg_creditDebit l, lg_currency l, decimal_value (lg_amount l),
     lg_postingDate l, lg_tenantId l, lg_sourceEventId l, lg_postingRuleId l)"

definition same_bookings :: "posting_error + fx_leg list \<Rightarrow> posting_error + fx_leg list \<Rightarrow> bool" where
  "same_bookings x y =
     (case x of Inl _ \<Rightarrow> isl y
      | Inr ls \<Rightarrow> (case y of Inl _ \<Rightarrow> False | Inr ms \<Rightarrow> map booking ls = map booking ms))"

lemma same_bookings_append:
  assumes "same_bookings x x'" "same_bookings y y'"
  shows "same_bookings (res_bind x (\<lambda>a. res_bind y (\<lambda>b. Inr (a @ b))))
    (res_bind x' (\<lambda>a. res_bind y' (\<lambda>b. Inr (a @ b))))"
  using assms by (cases x; cases x'; cases y; cases y') (auto simp: same_bookings_def)

lemma same_movement:
  assumes "decimal_ok (sm_settledAmount mv)" "decimal_ok (sm_bookedAmount mv)"
    "decimal_ok (sm_settledAmount mv')" "decimal_ok (sm_bookedAmount mv')"
    "decimal_value (sm_settledAmount mv) = decimal_value (sm_settledAmount mv')"
    "decimal_value (sm_bookedAmount mv) = decimal_value (sm_bookedAmount mv')"
    "sm_currency mv = sm_currency mv'" "sm_mode mv = sm_mode mv'"
    "decimal_value (sm_settledAmount mv') = 0 \<or> sm_side mv = sm_side mv'"
  shows "same_bookings (postSettlementMovementLegs b mv) (postSettlementMovementLegs b mv')"
  using assms(5-9)
  by (auto simp: movement_exact [OF assms(1,2)] movement_exact [OF assms(3,4)] same_bookings_def
      movement_legs_def booking_def leg_at_def split: prod.splits)

definition amount_ok :: "string \<Rightarrow> bool" where
  "amount_ok s \<longleftrightarrow> plain_decimal s \<and> 0 \<le> decimal_value s"

definition settlement_event_ok :: "fil_fx_settlement \<Rightarrow> bool" where
  "settlement_event_ok s \<longleftrightarrow>
     isFilInstanceUrn (ib_instance s) \<and>
     fm_currency (fs_boughtSettled s) = fm_currency (fs_boughtBooked s) \<and>
     fm_currency (fs_soldSettled s) = fm_currency (fs_soldBooked s) \<and>
     amount_ok (fm_amount (fs_boughtBooked s)) \<and> amount_ok (fm_amount (fs_boughtSettled s)) \<and>
     amount_ok (fm_amount (fs_soldBooked s)) \<and> amount_ok (fm_amount (fs_soldSettled s))"

lemma holdingUrn_ok: "isFilInstanceUrn u \<Longrightarrow> \<exists>h. holdingUrnFor u side = Inr h"
  by (auto simp: holdingUrnFor_def isFilInstanceUrn_def parseInstanceUrn_def)

text \<open>A decomposed movement books what the event books for that side.\<close>

lemma decomposed_movement:
  assumes ex: "exact_decimal D v" "exact_signs D G v"
    and ok: "amount_ok (fm_amount settled)" "amount_ok (fm_amount bookedM)"
      "fm_currency settled = fm_currency bookedM"
    and m: "plain_decimal m" "\<bar>decimal_value m\<bar> = decimal_value (fm_amount settled)"
      "decimal_value (fm_amount settled) = 0 \<or> (starts_with ''-'' m \<longleftrightarrow> sd = SidePay)"
  shows "same_bookings (postTradeSettlementLegs D G (settlement_of s (ib_instance s) h settled bookedM m))
    (postSettlementMovementLegs (take 10 (ib_asOf s), ib_tenant s, ib_instance s, ''PR-FX-SETTLE-V2'')
       \<lparr>sm_currency = fm_currency bookedM, sm_settledAmount = fm_amount settled,
        sm_bookedAmount = fm_amount bookedM, sm_side = sd, sm_mode = ModePvp\<rparr>)"
proof -
  obtain st where st: "absDecimal D G m = Inr st" "plain_decimal st"
    "decimal_value st = decimal_value (fm_amount settled)"
    using absDecimal_ok [OF ex m(1)] m(2) by auto
  obtain bt where bt: "absDecimal D G (fm_amount bookedM) = Inr bt" "plain_decimal bt"
    "decimal_value bt = decimal_value (fm_amount bookedM)"
    using absDecimal_ok [OF ex, of "fm_amount bookedM"] ok(2) by (auto simp: amount_ok_def)
  have t: "trim m = m" by (rule decimal_trim [OF plain_decimal_ok [OF m(1)]])
  have sd: "decimal_value (fm_amount settled) = 0 \<or>
      (if movementIsReceive m then SideReceive else SidePay) = sd"
    using m(3) t by (cases sd) (auto simp: movementIsReceive_def)
  let ?mv = "\<lparr>sm_currency = fm_currency settled, sm_settledAmount = st, sm_bookedAmount = bt,
    sm_side = (if movementIsReceive m then SideReceive else SidePay), sm_mode = ModePvp\<rparr>"
  have "postTradeSettlementLegs D G (settlement_of s (ib_instance s) h settled bookedM m) =
      postSettlementMovementLegs
        (take 10 (ib_asOf s), ib_tenant s, ib_instance s, ''PR-FX-SETTLE-V2'') ?mv"
    using st(1) bt(1) by (simp add: postTradeSettlementLegs_def settlement_of_def)
  moreover have "same_bookings (postSettlementMovementLegs b ?mv)
      (postSettlementMovementLegs b \<lparr>sm_currency = fm_currency bookedM,
        sm_settledAmount = fm_amount settled, sm_bookedAmount = fm_amount bookedM,
        sm_side = sd, sm_mode = ModePvp\<rparr>)" for b
    by (rule same_movement) (use st bt sd ok in \<open>simp_all add: plain_decimal_ok amount_ok_def\<close>)
  ultimately show ?thesis by simp
qed


definition pair_signs :: "(int \<times> nat) decimal_signs" where
  "pair_signs = \<lparr>ds_isNegative = (\<lambda>d. fst d < 0), ds_negated = (\<lambda>d. (- fst d, snd d))\<rparr>"

lemma padded_minus: "CHR ''-'' \<in> set (padStart n CHR ''0'' (nat_str m)) \<Longrightarrow> False"
  using nat_str_digits [of m] by (auto simp: padStart_def list_all_iff is_digit_def less_eq_char_def)

lemma minor_string_sign: "starts_with ''-'' (minor_string n k) \<longleftrightarrow> n < 0"
proof
  show "starts_with ''-'' (minor_string n k)" if "n < 0"
    using that by (simp add: minor_string_def Let_def starts_minus)
  show "n < 0" if s: "starts_with ''-'' (minor_string n k)"
  proof (rule ccontr)
    assume "\<not> n < 0"
    moreover have "CHR ''-'' \<in> set (minor_string n k)" using s by (metis hd_in_set starts_minus)
    moreover have "CHR ''-'' \<notin> set (nat_str m)" for m using padded_minus [of 0 m] by (auto simp: padStart_def)
    ultimately show False
      by (auto simp: minor_string_def int_str_def Let_def split: if_splits
          dest: in_set_takeD in_set_dropD padded_minus)
  qed
qed

lemma pair_signs_exact: "exact_signs pair_decimal pair_signs pair_value"
  by (simp add: exact_signs_def pair_decimal_def pair_signs_def pair_value_def minor_string_sign
      split_paired_all divide_less_0_iff divide_le_0_iff)

definition sample_settlement :: fil_fx_settlement where
  "sample_settlement =
     \<lparr>ib_instance = ''fil:inst:t:a'', ib_type = ''fil:type:fx:spot:vanilla@1.0'', ib_tenant = ''t'',
      ib_asOf = ''2026-01-06'', ib_originatingEvent = \<lparr>er_eventType = ''E'', er_eventId = ''2''\<rparr>,
      fs_legRole = LegSpot,
      fs_boughtBooked = \<lparr>fm_currency = ''USD'', fm_amount = ''10''\<rparr>,
      fs_boughtSettled = \<lparr>fm_currency = ''USD'', fm_amount = ''10.0''\<rparr>,
      fs_soldBooked = \<lparr>fm_currency = ''ZAR'', fm_amount = ''18''\<rparr>,
      fs_soldSettled = \<lparr>fm_currency = ''ZAR'', fm_amount = ''18''\<rparr>, fs_bopCategory = None\<rparr>"


end
