(* ===== verification/FxFoldProps.thy ===== *)
theory FxFoldProps
  imports FxFold FxPostingProps
begin

text \<open>
  What the two derivations of the foreign-exchange postings promise: each as a list of legs, their
  agreement, and what a cancellation leaves.
\<close>

section \<open>The fold over the events\<close>

definition event_type_urn :: "'d fx_world \<Rightarrow> (string, string) jsmap \<Rightarrow> event \<Rightarrow> string option" where
  "event_type_urn w types e =
     (case fw_view w e of TradeSettled p \<Rightarrow> jm_get types (ts_tradeInstance p) | p \<Rightarrow> own_type p)"

text \<open>The events whose legs the fold keeps.\<close>

definition event_applies ::
  "'d fx_world \<Rightarrow> fx_basis \<Rightarrow> (string, string) jsmap \<Rightarrow> event \<Rightarrow> bool" where
  "event_applies w b types e \<longleftrightarrow>
     (is_termination (fw_view w e) \<or>
      (case event_type_urn w types e of None \<Rightarrow> False | Some t \<Rightarrow> isFxInstance t)) \<and>
     fx_verdict w b (groupingKeyOf (fw_view w e))
       (case event_type_urn w types e of None \<Rightarrow> [] | Some t \<Rightarrow> t) (originating_of (fw_view w e)) = None"

definition event_refused :: "'d fx_world \<Rightarrow> event \<Rightarrow> bool" where
  "event_refused w e \<longleftrightarrow> isl (rule_legs (fw_decimal w) (fw_signs w) (fw_view w e))"

text \<open>The legs of an event inside the window.\<close>

definition event_legs :: "'d fx_world \<Rightarrow> fx_fold_args \<Rightarrow> event \<Rightarrow> fx_leg list" where
  "event_legs w a e =
     (case rule_legs (fw_decimal w) (fw_signs w) (fw_view w e) of
        Inl _ \<Rightarrow> [] | Inr ls \<Rightarrow> filter (in_window a) ls)"

definition event_key :: "'d fx_world \<Rightarrow> event \<Rightarrow> string" where
  "event_key w e = groupingKeyOf (fw_view w e)"

definition opening_of :: "opening_legs \<Rightarrow> string \<Rightarrow> fx_leg list" where
  "opening_of m u = (case jm_get m u of None \<Rightarrow> [] | Some ls \<Rightarrow> ls)"

lemma opening_of_Nil [simp]: "opening_of [] u = []"
  by (simp add: opening_of_def)

lemma opening_of_collect [simp]:
  "opening_of (collect inst ls m) u = (if u = inst then opening_of m u @ ls else opening_of m u)"
  by (induction ls arbitrary: m) (simp_all add: collect_def opening_of_def split: option.splits)

definition opened_by :: "'d fx_world \<Rightarrow> fx_fold_args \<Rightarrow> (event \<Rightarrow> bool) \<Rightarrow> event list \<Rightarrow> string \<Rightarrow> fx_leg list" where
  "opened_by w a P evs u =
     concat (map (event_legs w a)
       (filter (\<lambda>e. P e \<and> is_opening (fw_view w e) \<and> event_key w e = u) evs))"

definition tagged_legs :: "'d fx_world \<Rightarrow> fx_fold_args \<Rightarrow> event \<Rightarrow> fx_fold_leg list" where
  "tagged_legs w a e = tagged (event_id e) (event_legs w a e)"

lemma opening_not_termination: "is_opening p \<Longrightarrow> \<not> is_termination p"
  by (cases p rule: is_opening.cases) simp_all

text \<open>One step, by cases.\<close>

lemma event_step_skips:
  assumes "\<not> event_applies w b types e"
  shows "\<exists>sk. event_fold_step w a b types bare settled e st = Inr (st\<lparr>ef_skipped := sk\<rparr>)"
proof -
  have same: "\<exists>sk. st = st\<lparr>ef_skipped := sk\<rparr>" by (rule exI [of _ "ef_skipped st"]) simp
  show ?thesis
    using assms same
    by (cases "fw_view w e")
      (auto simp: event_fold_step_def event_applies_def event_type_urn_def Let_def
        split: option.splits)
qed

lemma event_step_applies:
  assumes "event_applies w b types e"
  shows "event_fold_step w a b types bare settled e st =
     (case rule_legs (fw_decimal w) (fw_signs w) (fw_view w e) of
        Inl err \<Rightarrow> Inl (PostingRefused err)
      | Inr _ \<Rightarrow> Inr
         \<lparr>ef_legs = ef_legs st @ tagged_legs w a e, ef_skipped = ef_skipped st,
          ef_opening = (if jm_has bare (event_key w e) \<and> is_opening (fw_view w e)
            then collect (event_key w e) (event_legs w a e) (ef_opening st) else ef_opening st),
          ef_obsOpening = (if jm_has settled (event_key w e) \<and> is_opening (fw_view w e)
            then collect (event_key w e) (filter isFxObsCommitmentLeg (event_legs w a e)) (ef_obsOpening st)
            else ef_obsOpening st)\<rparr>)"
  using assms
  by (cases "fw_view w e"; cases "rule_legs (fw_decimal w) (fw_signs w) (fw_view w e)")
    (auto simp: event_fold_step_def event_applies_def event_type_urn_def Let_def posted_def
      tagged_legs_def event_legs_def event_key_def split: option.splits)

text \<open>The loop: it fails exactly when a kept event is refused; otherwise its state is explicit.\<close>

definition fold_state_ok ::
  "'d fx_world \<Rightarrow> fx_fold_args \<Rightarrow> (event \<Rightarrow> bool) \<Rightarrow> (string, fx_reversal) jsmap
     \<Rightarrow> (string, fx_reversal) jsmap \<Rightarrow> event list \<Rightarrow> fx_fold_state \<Rightarrow> fx_fold_state \<Rightarrow> bool" where
  "fold_state_ok w a P bare settled evs st st' \<longleftrightarrow>
     ef_legs st' = ef_legs st @ concat (map (tagged_legs w a) (filter P evs)) \<and>
     (\<forall>u. opening_of (ef_opening st') u = opening_of (ef_opening st) u
        @ (if jm_has bare u then opened_by w a P evs u else [])) \<and>
     (\<forall>u. opening_of (ef_obsOpening st') u = opening_of (ef_obsOpening st) u
        @ (if jm_has settled u then filter isFxObsCommitmentLeg (opened_by w a P evs u) else []))"

lemma event_loop:
  "case res_fold (event_fold_step w a b types bare settled) evs st of
     Inl _ \<Rightarrow> \<exists>e \<in> set evs. event_applies w b types e \<and> event_refused w e
   | Inr st' \<Rightarrow> (\<forall>e \<in> set evs. event_applies w b types e \<longrightarrow> \<not> event_refused w e) \<and>
       fold_state_ok w a (event_applies w b types) bare settled evs st st'"
proof (induction evs arbitrary: st)
  case Nil
  show ?case by (simp add: fold_state_ok_def opened_by_def)
next
  case (Cons e evs)
  show ?case
  proof (cases "event_applies w b types e")
    case False
    obtain sk where step: "event_fold_step w a b types bare settled e st = Inr (st\<lparr>ef_skipped := sk\<rparr>)"
      using event_step_skips [OF False] by blast
    with False Cons.IH [of "st\<lparr>ef_skipped := sk\<rparr>"] show ?thesis
      by (auto simp: fold_state_ok_def opened_by_def split: sum.splits)
  next
    case True
    show ?thesis
    proof (cases "rule_legs (fw_decimal w) (fw_signs w) (fw_view w e)")
      case (Inl err)
      with True event_step_applies [OF True] show ?thesis by (auto simp: event_refused_def)
    next
      case (Inr ls)
      then obtain st1 where step: "event_fold_step w a b types bare settled e st = Inr st1"
        and st1: "ef_legs st1 = ef_legs st @ tagged_legs w a e"
          "ef_opening st1 = (if jm_has bare (event_key w e) \<and> is_opening (fw_view w e)
            then collect (event_key w e) (event_legs w a e) (ef_opening st) else ef_opening st)"
          "ef_obsOpening st1 = (if jm_has settled (event_key w e) \<and> is_opening (fw_view w e)
            then collect (event_key w e) (filter isFxObsCommitmentLeg (event_legs w a e)) (ef_obsOpening st)
            else ef_obsOpening st)"
        using event_step_applies [OF True] by simp
      have "\<not> event_refused w e" using Inr by (simp add: event_refused_def)
      with True step st1 Cons.IH [of st1] show ?thesis
        by (auto simp: fold_state_ok_def opened_by_def split: sum.splits)
    qed
  qed
qed

lemma reversal_pass_legs:
  assumes "\<And>c. post [] c = []"
  shows "reversal_pass a post sfx opening m =
     concat (map (\<lambda>(u, c). tagged (u @ sfx) (filter (in_window a) (post (opening_of opening u) c))) m)"
  unfolding reversal_pass_def
  by (rule arg_cong [where f = concat], rule map_cong [OF refl])
    (auto simp: opening_of_def tagged_def assms split: option.splits)

section \<open>The earliest terminations\<close>

lemma keep_earliest_get:
  "jm_get (fold keep_earliest ets m) u \<noteq> None \<longleftrightarrow>
     jm_get m u \<noteq> None \<or> u \<noteq> [] \<and> (\<exists>(e, t) \<in> set ets. ib_instance t = u)"
proof (induction ets arbitrary: m)
  case (Cons et ets)
  obtain e t where et: "et = (e, t)" by (cases et)
  have "jm_get (keep_earliest et m) u \<noteq> None \<longleftrightarrow>
      jm_get m u \<noteq> None \<or> u \<noteq> [] \<and> ib_instance t = u"
    by (auto simp: keep_earliest_def et Let_def split: option.splits prod.splits)
  with Cons.IH [of "keep_earliest et m"] et show ?case by auto
qed simp

lemma keep_earliest_instance:
  assumes "\<And>u x. jm_get m u = Some x \<Longrightarrow> rv_instance (snd x) = u"
    and "jm_get (fold keep_earliest ets m) u = Some x"
  shows "rv_instance (snd x) = u"
  using assms
proof (induction ets arbitrary: m)
  case (Cons et ets)
  have "rv_instance (snd y) = v" if "jm_get (keep_earliest et m) v = Some y" for v y
    using that Cons.prems(1)
    by (auto simp: keep_earliest_def Let_def split: option.splits prod.splits if_splits)
  with Cons.IH [of "keep_earliest et m"] Cons.prems(2) show ?case by simp
qed simp

lemma keep_earliest_distinct:
  "jm_keys_distinct m \<Longrightarrow> jm_keys_distinct (fold keep_earliest ets m)"
proof (induction ets arbitrary: m)
  case (Cons et ets)
  have "jm_keys_distinct (keep_earliest et m)"
    using Cons.prems by (auto simp: keep_earliest_def Let_def split: option.splits prod.splits)
  with Cons.IH show ?case by simp
qed simp

lemma earliest_get:
  "jm_get (earliest_terminations P ts) u = map_option snd (jm_get (fold keep_earliest (filter (\<lambda>(e, t). P t) ts) []) u)"
  by (simp add: earliest_terminations_def map_of_map)

lemma earliest_terminations_has:
  "jm_get (earliest_terminations P ts) u \<noteq> None \<longleftrightarrow> u \<noteq> [] \<and> (\<exists>(e, t) \<in> set ts. P t \<and> ib_instance t = u)"
  using keep_earliest_get [of "filter (\<lambda>(e, t). P t) ts" "[]" u] by (auto simp: earliest_get)

lemma earliest_terminations_instance:
  "jm_get (earliest_terminations P ts) u = Some c \<Longrightarrow> rv_instance c = u"
  using keep_earliest_instance [of "[]" "filter (\<lambda>(e, t). P t) ts" u] by (auto simp: earliest_get)

lemma earliest_terminations_distinct: "jm_keys_distinct (earliest_terminations P ts)"
proof -
  have "map fst (earliest_terminations P ts) = map fst (fold keep_earliest (filter (\<lambda>(e, t). P t) ts) [])"
    by (simp add: earliest_terminations_def split_beta comp_def)
  with keep_earliest_distinct [of "[]" "filter (\<lambda>(e, t). P t) ts"] show ?thesis
    by (simp add: jm_keys_distinct_def)
qed

section \<open>The derivation from the register\<close>

lemma instance_loop:
  "case res_fold (instance_event_step w a) evs st of
     Inl _ \<Rightarrow> \<exists>e \<in> set evs. event_refused w e
   | Inr st' \<Rightarrow> (\<forall>e \<in> set evs. \<not> event_refused w e) \<and>
       st' = \<lparr>is_legs = is_legs st @ concat (map (tagged_legs w a) evs),
              is_opened = is_opened st
                @ concat (map (event_legs w a) (filter (\<lambda>e. is_opening (fw_view w e)) evs))\<rparr>"
proof (induction evs arbitrary: st)
  case (Cons e evs)
  show ?case
  proof (cases "rule_legs (fw_decimal w) (fw_signs w) (fw_view w e)")
    case (Inl err)
    then show ?thesis by (auto simp: instance_event_step_def posted_def event_refused_def)
  next
    case (Inr ls)
    let ?st = "\<lparr>is_legs = is_legs st @ tagged_legs w a e,
      is_opened = (if is_opening (fw_view w e) then is_opened st @ event_legs w a e else is_opened st)\<rparr>"
    have "instance_event_step w a e st = Inr ?st" "\<not> event_refused w e"
      using Inr by (simp_all add: instance_event_step_def posted_def event_refused_def tagged_legs_def
          event_legs_def Let_def)
    with Cons.IH [of ?st] show ?thesis by (cases "is_opening (fw_view w e)") (auto split: sum.splits)
  qed
qed simp

text \<open>The rows that post, and their legs.\<close>

definition row_applies :: "'d fx_world \<Rightarrow> fx_basis \<Rightarrow> string \<Rightarrow> fil_row \<Rightarrow> bool" where
  "row_applies w b inst row \<longleftrightarrow>
     isFxInstance (rw_type row) \<and> fx_verdict w b inst (rw_type row) (rw_originatingEvent row) = None"

definition release_legs ::
  "fx_fold_args \<Rightarrow> (string, fx_reversal) jsmap \<Rightarrow> string \<Rightarrow> fx_leg list \<Rightarrow> fx_fold_leg list" where
  "release_legs a settled u ls =
     (case jm_get settled u of
        None \<Rightarrow> []
      | Some c \<Rightarrow> tagged (u @ ''::obs-commitment-release'')
          (filter (in_window a) (postFxObsCommitmentReleaseLegs ls c)))"

definition undo_legs ::
  "fx_fold_args \<Rightarrow> (string, fx_reversal) jsmap \<Rightarrow> string \<Rightarrow> fx_leg list \<Rightarrow> fx_fold_leg list" where
  "undo_legs a bare u ls =
     (case jm_get bare u of
        None \<Rightarrow> []
      | Some c \<Rightarrow> tagged (u @ ''::cancellation-reversal'')
          (filter (in_window a) (postFxCancellationReversalLegs ls c)))"

definition row_legs ::
  "'d fx_world \<Rightarrow> fx_fold_args \<Rightarrow> (string, fx_reversal) jsmap \<Rightarrow> (string, fx_reversal) jsmap \<Rightarrow> event list
     \<Rightarrow> string \<Rightarrow> fil_row \<Rightarrow> fx_fold_leg list" where
  "row_legs w a bare settled evs u row =
     (let own = filter (\<lambda>e. event_key w e = u) evs; opened = opened_by w a (\<lambda>_. True) evs u
      in concat (map (tagged_legs w a) own)
         @ (if rw_stage row \<in> {SSettled, SMatured} then release_legs a settled u opened else [])
         @ (if rw_stage row = SCancelled then undo_legs a bare u opened else []))"

lemma release_empty: "\<not> list_ex isFxObsCommitmentLeg ls \<Longrightarrow> postFxObsCommitmentReleaseLegs ls c = []"
  by (auto simp: postFxObsCommitmentReleaseLegs_def list_ex_iff filter_empty_conv)

lemma no_legs [simp]:
  "tagged i [] = []" "postFxCancellationReversalLegs [] c = []" "postFxObsCommitmentReleaseLegs [] c = []"
  by (simp_all add: tagged_def postFxCancellationReversalLegs_def postFxObsCommitmentReleaseLegs_def)

lemma reversal_record: "rv_instance c = u \<Longrightarrow> \<lparr>rv_instance = u, rv_tenant = rv_tenant c, rv_asOf = rv_asOf c\<rparr> = c"
  by simp

lemma instance_legs_eq:
  assumes "\<And>c. jm_get bare u = Some c \<Longrightarrow> rv_instance c = u"
    and "\<And>c. jm_get settled u = Some c \<Longrightarrow> rv_instance c = u"
    and "grouped = filter (\<lambda>e. event_key w e = u) evs"
  shows "case instance_legs w a bare settled u row grouped of
     Inl _ \<Rightarrow> \<exists>e \<in> set grouped. event_refused w e
   | Inr ls \<Rightarrow> (\<forall>e \<in> set grouped. \<not> event_refused w e) \<and> ls = row_legs w a bare settled evs u row"
proof (cases "res_fold (instance_event_step w a) grouped \<lparr>is_legs = [], is_opened = []\<rparr>")
  case (Inl err)
  with instance_loop [where w = w and a = a and evs = grouped and st = "\<lparr>is_legs = [], is_opened = []\<rparr>"] show ?thesis
    by (simp add: instance_legs_def)
next
  case (Inr st)
  have f: "filter (\<lambda>e. is_opening (fw_view w e)) grouped =
      filter (\<lambda>e. True \<and> is_opening (fw_view w e) \<and> event_key w e = u) evs"
    unfolding assms(3) by (simp add: conj_commute)
  have st: "is_legs st = concat (map (tagged_legs w a) grouped)"
    "is_opened st = opened_by w a (\<lambda>_. True) evs u" "\<forall>e \<in> set grouped. \<not> event_refused w e"
    using instance_loop [where w = w and a = a and evs = grouped and st = "\<lparr>is_legs = [], is_opened = []\<rparr>"] Inr
    unfolding opened_by_def f [symmetric] by simp_all
  have "instance_legs w a bare settled u row grouped = Inr (row_legs w a bare settled evs u row)"
    using Inr assms(1,2)
    by (auto simp: instance_legs_def row_legs_def Let_def st(1,2) release_empty release_legs_def undo_legs_def
        assms(3) [symmetric] reversal_record split: option.splits)
  with st(3) show ?thesis by simp
qed

lemma row_legs_no_events:
  assumes "filter (\<lambda>e. event_key w e = u) evs = []"
  shows "row_legs w a bare settled evs u row = []"
proof -
  have "opened_by w a (\<lambda>_. True) evs u = []"
    using assms by (auto simp: opened_by_def filter_empty_conv)
  with assms show ?thesis
    by (simp add: row_legs_def release_legs_def undo_legs_def split: option.splits)
qed

lemma grouped_events:
  "jm_get (group_by (groupingKeyOf \<circ> fw_view w) evs) u =
     (let own = filter (\<lambda>e. event_key w e = u) evs in if own = [] then None else Some own)"
  by (simp add: jm_get_group_by event_key_def comp_def Let_def)

lemma row_step:
  assumes "\<And>u c. jm_get bare u = Some c \<Longrightarrow> rv_instance c = u"
    and "\<And>u c. jm_get settled u = Some c \<Longrightarrow> rv_instance c = u"
  shows "case register_row_step w a b bare settled (group_by (groupingKeyOf \<circ> fw_view w) evs) (u, row) res of
     Inl _ \<Rightarrow> row_applies w b u row \<and> (\<exists>e \<in> set evs. event_key w e = u \<and> event_refused w e)
   | Inr res' \<Rightarrow> (row_applies w b u row \<longrightarrow> (\<forall>e \<in> set evs. event_key w e = u \<longrightarrow> \<not> event_refused w e)) \<and>
       fr_legs res' = fr_legs res
         @ (if row_applies w b u row then row_legs w a bare settled evs u row else [])"
proof (cases "row_applies w b u row")
  case False
  then show ?thesis
    by (auto simp: register_row_step_def row_applies_def split: option.splits list.splits)
next
  case True
  let ?own = "filter (\<lambda>e. event_key w e = u) evs"
  show ?thesis
  proof (cases ?own)
    case Nil
    then have "row_legs w a bare settled evs u row = []" by (rule row_legs_no_events)
    with True Nil show ?thesis
      by (auto simp: register_row_step_def grouped_events row_applies_def filter_empty_conv)
  next
    case (Cons g gs)
    have "case instance_legs w a bare settled u row ?own of
       Inl _ \<Rightarrow> \<exists>e \<in> set ?own. event_refused w e
     | Inr ls \<Rightarrow> (\<forall>e \<in> set ?own. \<not> event_refused w e) \<and> ls = row_legs w a bare settled evs u row"
      using assms by (intro instance_legs_eq) auto
    moreover have "register_row_step w a b bare settled (group_by (groupingKeyOf \<circ> fw_view w) evs) (u, row) res =
        res_bind (instance_legs w a bare settled u row ?own) (\<lambda>ls. Inr (res\<lparr>fr_legs := fr_legs res @ ls\<rparr>))"
      using True Cons by (simp add: register_row_step_def grouped_events row_applies_def)
    ultimately show ?thesis using True by (auto split: sum.splits)
  qed
qed

lemma register_loop:
  assumes "\<And>u c. jm_get bare u = Some c \<Longrightarrow> rv_instance c = u"
    and "\<And>u c. jm_get settled u = Some c \<Longrightarrow> rv_instance c = u"
  shows "case res_fold (register_row_step w a b bare settled (group_by (groupingKeyOf \<circ> fw_view w) evs)) reg res of
     Inl _ \<Rightarrow> \<exists>(u, row) \<in> set reg. row_applies w b u row \<and>
       (\<exists>e \<in> set evs. event_key w e = u \<and> event_refused w e)
   | Inr res' \<Rightarrow> (\<forall>(u, row) \<in> set reg. row_applies w b u row \<longrightarrow>
         (\<forall>e \<in> set evs. event_key w e = u \<longrightarrow> \<not> event_refused w e)) \<and>
       fr_legs res' = fr_legs res @ concat (map (\<lambda>(u, row).
         if row_applies w b u row then row_legs w a bare settled evs u row else []) reg)"
proof (induction reg arbitrary: res)
  case Nil
  show ?case by simp
next
  case (Cons x reg)
  obtain u row where x: "x = (u, row)" by (cases x)
  define f where "f = register_row_step w a b bare settled (group_by (groupingKeyOf \<circ> fw_view w) evs)"
  have step: "case f (u, row) res of
     Inl _ \<Rightarrow> row_applies w b u row \<and> (\<exists>e \<in> set evs. event_key w e = u \<and> event_refused w e)
   | Inr res' \<Rightarrow> (row_applies w b u row \<longrightarrow> (\<forall>e \<in> set evs. event_key w e = u \<longrightarrow> \<not> event_refused w e)) \<and>
       fr_legs res' = fr_legs res
         @ (if row_applies w b u row then row_legs w a bare settled evs u row else [])"
    unfolding f_def by (rule row_step) (fact assms)+
  show ?case
  proof (cases "f (u, row) res")
    case (Inl err)
    with step x show ?thesis unfolding f_def [symmetric] by simp
  next
    case (Inr res1)
    with step x Cons.IH [of res1, folded f_def] show ?thesis
      unfolding f_def [symmetric] by (auto split: sum.splits)
  qed
qed

section \<open>Agreement of the two derivations\<close>

text \<open>
  What the agreement needs: the casts respect the event types of terminations; an event is kept by
  the fold exactly when its instrument has a row that posts; and no instrument is ended in two ways.
\<close>

definition terminations_typed :: "'d fx_world \<Rightarrow> event_store \<Rightarrow> bool" where
  "terminations_typed w s \<longleftrightarrow>
     list_all (\<lambda>e. is_termination (fw_view w e)) (replay s (of_type ''FilInstrumentTerminated''))"

definition ended_once :: "'d fx_world \<Rightarrow> event_store \<Rightarrow> bool" where
  "ended_once w s \<longleftrightarrow>
     (\<forall>(e, t) \<in> set (all_terminations (fw_view w) s). \<forall>(e', t') \<in> set (all_terminations (fw_view w) s).
        ib_instance t = ib_instance t' \<longrightarrow> te_terminalStage t = te_terminalStage t')"

definition noted_types :: "'d fx_world \<Rightarrow> fx_fold_args \<Rightarrow> (string, string) jsmap" where
  "noted_types w a = fold (note_type \<circ> fw_view w) (fil_events w a) []"

definition rows_cover_events :: "'d fx_world \<Rightarrow> fx_fold_args \<Rightarrow> fx_basis \<Rightarrow> bool" where
  "rows_cover_events w a b \<longleftrightarrow>
     (\<forall>e \<in> set (fil_events w a). event_applies w b (noted_types w a) e \<longleftrightarrow>
        (case jm_get (state_register w (fa_store a)) (event_key w e) of
           None \<Rightarrow> False | Some row \<Rightarrow> row_applies w b (event_key w e) row))"

text \<open>The stage of a row is that of the last termination of its instrument.\<close>

lemma terminated_stage:
  assumes "jm_get m u = Some r" "\<forall>ev \<in> set evs. \<exists>t. ev = FilInstrumentTerminated t"
  shows "\<exists>r'. jm_get (fold register_step evs m) u = Some r' \<and>
     rw_stage r' = last (rw_stage r # terminal_stages u evs)"
  using assms
proof (induction evs arbitrary: m r)
  case (Cons ev evs)
  then obtain t where ev: "ev = FilInstrumentTerminated t" by auto
  show ?case
  proof (cases "ib_instance t = u")
    case True
    with Cons.prems ev have "jm_get (register_step ev m) u =
        Some (r\<lparr>rw_stage := stage_of (te_terminalStage t), rw_lastAsOf := ib_asOf t\<rparr>)" by simp
    from Cons.IH [OF this] Cons.prems(2) ev True show ?thesis by simp
  next
    case False
    with Cons.prems ev have "jm_get (register_step ev m) u = Some r" by (auto split: option.splits)
    from Cons.IH [OF this] Cons.prems(2) ev False show ?thesis by simp
  qed
qed simp

lemma terminated_none:
  assumes "jm_get m u = None" "\<forall>ev \<in> set evs. \<exists>t. ev = FilInstrumentTerminated t"
  shows "jm_get (fold register_step evs m) u = None"
  using assms
proof (induction evs arbitrary: m)
  case (Cons ev evs)
  then obtain t where ev: "ev = FilInstrumentTerminated t" by auto
  have "jm_get (register_step ev m) u = None" using Cons.prems(1) ev by (auto split: option.splits)
  with Cons.IH Cons.prems(2) show ?case by simp
qed simp

lemma terminal_stages_map:
  "terminal_stages u (map (FilInstrumentTerminated \<circ> snd) ets) =
     map (\<lambda>(e, t). stage_of (te_terminalStage t)) (filter (\<lambda>(e, t). ib_instance t = u) ets)"
  by (induction ets) (simp_all add: split_beta)

lemma row_stage:
  assumes typed: "terminations_typed w s" and once: "ended_once w s"
    and t: "(e, t) \<in> set (all_terminations (fw_view w) s)"
    and row: "jm_get (state_register w s) (ib_instance t) = Some row"
  shows "rw_stage row = stage_of (te_terminalStage t)"
proof -
  let ?block = "\<lambda>ty. concat (map (\<lambda>e. case fw_view w e of Lifecycle ev \<Rightarrow> [ev] | _ \<Rightarrow> [])
    (replay s (of_type ty)))"
  let ?ts = "all_terminations (fw_view w) s"
  define m where "m = fold register_step (?block ''FilInstrumentCreated'' @ ?block ''FilInstrumentAmended'') []"
  have block: "?block ''FilInstrumentTerminated'' = map (FilInstrumentTerminated \<circ> snd) ?ts"
  proof -
    have "concat (map (\<lambda>e. case fw_view w e of Lifecycle ev \<Rightarrow> [ev] | _ \<Rightarrow> []) es) =
        map (FilInstrumentTerminated \<circ> snd) (concat (map (\<lambda>e. case fw_view w e of
          Lifecycle (FilInstrumentTerminated t) \<Rightarrow> [(e, t)] | _ \<Rightarrow> []) es))"
      if "list_all (\<lambda>e. is_termination (fw_view w e)) es" for es
      using that
    proof (induction es)
      case (Cons x es)
      then show ?case by (cases "fw_view w x" rule: is_termination.cases) simp_all
    qed simp
    with typed show ?thesis by (simp add: terminations_typed_def all_terminations_def)
  qed
  have adm: "filter (admitted None) evs = evs" for evs
    by (rule filter_True) (simp add: admitted_def)
  have reg: "state_register w s = fold register_step (map (FilInstrumentTerminated \<circ> snd) ?ts) m"
    by (simp add: state_register_def REGISTER_EVENT_KIND_LIST_def fold_admitted adm m_def block)
  have all: "\<forall>ev \<in> set (map (FilInstrumentTerminated \<circ> snd) ?ts). \<exists>t. ev = FilInstrumentTerminated t"
    by auto
  show ?thesis
  proof (cases "jm_get m (ib_instance t)")
    case None
    with terminated_none [OF None all] row reg show ?thesis by simp
  next
    case (Some r)
    let ?own = "filter (\<lambda>(e, t'). ib_instance t' = ib_instance t) ?ts"
    have own: "?own \<noteq> []" using t by (auto simp: filter_empty_conv)
    obtain e' t' where l: "last ?own = (e', t')" by (cases "last ?own")
    then have "(e', t') \<in> set ?own" using last_in_set [OF own] by simp
    then have "(e', t') \<in> set ?ts" "ib_instance t' = ib_instance t" by auto
    with once t have "te_terminalStage t' = te_terminalStage t"
      unfolding ended_once_def by fast
    with l own have "last (map (\<lambda>(e, t). stage_of (te_terminalStage t)) ?own) =
        stage_of (te_terminalStage t)"
      by (simp add: last_map)
    with terminated_stage [OF Some all] row reg own show ?thesis
      by (simp add: terminal_stages_map)
  qed
qed

lemma sum_over_keys:
  fixes f :: "'k \<Rightarrow> 'v \<Rightarrow> 'a::comm_monoid_add"
  assumes "jm_keys_distinct m"
  shows "(\<Sum>x\<leftarrow>m. f (fst x) (snd x)) = (\<Sum>u \<in> fst ` set m. case jm_get m u of None \<Rightarrow> 0 | Some v \<Rightarrow> f u v)"
  using assms
proof (induction m)
  case (Cons x m)
  have new: "fst x \<notin> fst ` set m" and d: "jm_keys_distinct m"
    using Cons.prems by (auto simp: jm_keys_distinct_def)
  have "(\<Sum>u \<in> fst ` set m. case jm_get (x # m) u of None \<Rightarrow> 0 | Some v \<Rightarrow> f u v) =
      (\<Sum>u \<in> fst ` set m. case jm_get m u of None \<Rightarrow> 0 | Some v \<Rightarrow> f u v)"
  proof (rule sum.cong)
    fix u assume "u \<in> fst ` set m"
    with new have "u \<noteq> fst x" by blast
    then show "(case jm_get (x # m) u of None \<Rightarrow> 0 | Some v \<Rightarrow> f u v) =
        (case jm_get m u of None \<Rightarrow> 0 | Some v \<Rightarrow> f u v)"
      by (cases x) simp
  qed simp
  with Cons.IH [OF d] new show ?case by simp
qed simp

lemma sum_by_key:
  fixes f :: "'e \<Rightarrow> 'a::comm_monoid_add"
  assumes "finite K" "\<forall>e \<in> set es. g e \<in> K"
  shows "(\<Sum>e\<leftarrow>es. f e) = (\<Sum>u \<in> K. \<Sum>e\<leftarrow>filter (\<lambda>e. g e = u) es. f e)"
  using assms(2)
proof (induction es)
  case (Cons x es)
  have "(\<Sum>u \<in> K. \<Sum>e\<leftarrow>filter (\<lambda>e. g e = u) (x # es). f e) =
      (\<Sum>u \<in> K. (if g x = u then f x else 0) + (\<Sum>e\<leftarrow>filter (\<lambda>e. g e = u) es. f e))"
    by (rule sum.cong) auto
  also have "\<dots> = f x + (\<Sum>e\<leftarrow>es. f e)"
    using Cons assms(1) by (simp add: sum.distrib)
  finally show ?case by simp
qed simp

lemma mset_tagged_sum: "mset (concat (map f xs)) = (\<Sum>x\<leftarrow>xs. mset (f x))"
  by (simp add: mset_concat comp_def)

text \<open>The event fold, written out.\<close>

definition event_fold_legs ::
  "'d fx_world \<Rightarrow> fx_fold_args \<Rightarrow> (event \<Rightarrow> bool) \<Rightarrow> (string, fx_reversal) jsmap
     \<Rightarrow> (string, fx_reversal) jsmap \<Rightarrow> fx_fold_leg list" where
  "event_fold_legs w a P bare settled =
     concat (map (tagged_legs w a) (filter P (fil_events w a)))
     @ concat (map (\<lambda>(u, c). undo_legs a bare u (opened_by w a P (fil_events w a) u)) bare)
     @ concat (map (\<lambda>(u, c). release_legs a settled u (opened_by w a P (fil_events w a) u)) settled)"

lemma release_filtered [simp]:
  "postFxObsCommitmentReleaseLegs (filter isFxObsCommitmentLeg ls) c = postFxObsCommitmentReleaseLegs ls c"
  by (simp add: postFxObsCommitmentReleaseLegs_def)

lemma distinct_get: "jm_keys_distinct m \<Longrightarrow> (u, v) \<in> set m \<Longrightarrow> jm_get m u = Some v"
  by (simp add: jm_keys_distinct_def)

lemma event_fold_eq:
  assumes basis: "fx_basis_of w a = Inr b"
  defines "bare \<equiv> findBareCancellations (fw_view w) (fa_store a)"
    and "settled \<equiv> findSettledTerminations (fw_view w) (fa_store a)"
    and "P \<equiv> event_applies w b (noted_types w a)"
  shows "case foldFxContributionLegs w a of
     Inl _ \<Rightarrow> \<exists>e \<in> set (fil_events w a). P e \<and> event_refused w e
   | Inr r \<Rightarrow> (\<forall>e \<in> set (fil_events w a). P e \<longrightarrow> \<not> event_refused w e) \<and>
       fr_legs r = event_fold_legs w a P bare settled"
proof -
  let ?st = "\<lparr>ef_legs = [], ef_skipped = [], ef_opening = [], ef_obsOpening = []\<rparr>"
  let ?evs = "fil_events w a"
  note loop = event_loop [where w = w and a = a and b = b and types = "noted_types w a" and bare = bare
      and settled = settled and evs = ?evs and st = ?st, folded P_def]
  show ?thesis
  proof (cases "res_fold (event_fold_step w a b (noted_types w a) bare settled) ?evs ?st")
    case (Inl err)
    with loop basis show ?thesis
      by (simp add: foldFxContributionLegs_def Let_def bare_def settled_def noted_types_def)
  next
    case (Inr st')
    have ok: "\<forall>e \<in> set ?evs. P e \<longrightarrow> \<not> event_refused w e"
      and st: "fold_state_ok w a P bare settled ?evs ?st st'" using loop Inr by simp_all
    have d: "jm_keys_distinct bare" "jm_keys_distinct settled"
      by (simp_all add: bare_def settled_def findBareCancellations_def findSettledTerminations_def
          earliest_terminations_distinct)
    have undo: "reversal_pass a postFxCancellationReversalLegs ''::cancellation-reversal'' (ef_opening st') bare =
        concat (map (\<lambda>(u, c). undo_legs a bare u (opened_by w a P ?evs u)) bare)"
      unfolding reversal_pass_legs [of postFxCancellationReversalLegs, OF no_legs(2)]
      by (rule arg_cong [where f = concat], rule map_cong [OF refl])
        (use st d in \<open>auto simp: undo_legs_def fold_state_ok_def jm_has_iff distinct_get\<close>)
    have release: "reversal_pass a postFxObsCommitmentReleaseLegs ''::obs-commitment-release''
          (ef_obsOpening st') settled =
        concat (map (\<lambda>(u, c). release_legs a settled u (opened_by w a P ?evs u)) settled)"
      unfolding reversal_pass_legs [of postFxObsCommitmentReleaseLegs, OF no_legs(3)]
      by (rule arg_cong [where f = concat], rule map_cong [OF refl])
        (use st d in \<open>auto simp: release_legs_def fold_state_ok_def jm_has_iff distinct_get\<close>)
    have "foldFxContributionLegs w a = Inr \<lparr>fr_legs = ef_legs st'
         @ reversal_pass a postFxCancellationReversalLegs ''::cancellation-reversal'' (ef_opening st') bare
         @ reversal_pass a postFxObsCommitmentReleaseLegs ''::obs-commitment-release''
             (ef_obsOpening st') settled, fr_skipped = ef_skipped st'\<rparr>"
      using basis Inr
      by (simp add: foldFxContributionLegs_def Let_def bare_def settled_def noted_types_def)
    with ok st undo release show ?thesis
      by (simp add: event_fold_legs_def fold_state_ok_def)
  qed
qed

text \<open>The derivation from the register, written out.\<close>

definition register_fold_legs ::
  "'d fx_world \<Rightarrow> fx_fold_args \<Rightarrow> fx_basis \<Rightarrow> (string, fx_reversal) jsmap \<Rightarrow> (string, fx_reversal) jsmap
     \<Rightarrow> fx_fold_leg list" where
  "register_fold_legs w a b bare settled =
     concat (map (\<lambda>(u, row). if row_applies w b u row
         then row_legs w a bare settled (fil_events w a) u row else []) (state_register w (fa_store a)))"

lemma termination_instances:
  "jm_get (findBareCancellations v s) u = Some c \<Longrightarrow> rv_instance c = u"
  "jm_get (findSettledTerminations v s) u = Some c \<Longrightarrow> rv_instance c = u"
  by (simp_all add: findBareCancellations_def findSettledTerminations_def earliest_terminations_instance)

lemma register_fold_eq:
  assumes basis: "fx_basis_of w a = Inr b"
  defines "bare \<equiv> findBareCancellations (fw_view w) (fa_store a)"
    and "settled \<equiv> findSettledTerminations (fw_view w) (fa_store a)"
  shows "case deriveFxInstanceLegs w a of
     Inl _ \<Rightarrow> \<exists>(u, row) \<in> set (state_register w (fa_store a)). row_applies w b u row \<and>
       (\<exists>e \<in> set (fil_events w a). event_key w e = u \<and> event_refused w e)
   | Inr r \<Rightarrow> (\<forall>(u, row) \<in> set (state_register w (fa_store a)). row_applies w b u row \<longrightarrow>
         (\<forall>e \<in> set (fil_events w a). event_key w e = u \<longrightarrow> \<not> event_refused w e)) \<and>
       fr_legs r = register_fold_legs w a b bare settled"
proof -
  have "deriveFxInstanceLegs w a = res_fold (register_row_step w a b bare settled
      (group_by (groupingKeyOf \<circ> fw_view w) (fil_events w a))) (state_register w (fa_store a))
      \<lparr>fr_legs = [], fr_skipped = []\<rparr>"
    using basis by (simp add: deriveFxInstanceLegs_def bare_def settled_def)
  moreover have "jm_get bare u = Some c \<Longrightarrow> rv_instance c = u" "jm_get settled u = Some c \<Longrightarrow> rv_instance c = u"
    for u c by (simp_all add: bare_def settled_def termination_instances)
  ultimately show ?thesis
    using register_loop [where bare = bare and settled = settled and w = w and a = a and b = b
        and evs = "fil_events w a" and reg = "state_register w (fa_store a)"
        and res = "\<lparr>fr_legs = [], fr_skipped = []\<rparr>"]
    by (simp add: register_fold_legs_def split: sum.splits)
qed

lemma opened_by_none:
  "(\<And>e. e \<in> set evs \<Longrightarrow> event_key w e = u \<Longrightarrow> \<not> P e) \<Longrightarrow> opened_by w a P evs u = []"
  by (auto simp: opened_by_def filter_empty_conv)

lemma opened_by_all:
  assumes "\<And>e. e \<in> set evs \<Longrightarrow> event_key w e = u \<Longrightarrow> P e"
  shows "opened_by w a P evs u = opened_by w a (\<lambda>_. True) evs u"
proof -
  have "filter (\<lambda>e. P e \<and> is_opening (fw_view w e) \<and> event_key w e = u) evs =
      filter (\<lambda>e. True \<and> is_opening (fw_view w e) \<and> event_key w e = u) evs"
    by (rule filter_cong) (use assms in auto)
  then show ?thesis by (simp only: opened_by_def)
qed

lemma release_none [simp]: "release_legs a m u [] = []" "undo_legs a m u [] = []"
  by (simp_all add: release_legs_def undo_legs_def split: option.splits)

lemma pass_sum:
  assumes "jm_keys_distinct m" "finite K" "\<And>u c. u \<notin> K \<Longrightarrow> f u = []"
    and "\<And>u. jm_get m u = None \<Longrightarrow> f u = []"
  shows "mset (concat (map (\<lambda>(u, c). f u) m)) = (\<Sum>u \<in> K. mset (f u))"
proof -
  have "mset (concat (map (\<lambda>(u, c). f u) m)) = (\<Sum>x\<leftarrow>m. mset (f (fst x)))"
    by (simp add: mset_tagged_sum split_beta)
  also have "\<dots> = (\<Sum>u \<in> fst ` set m. case jm_get m u of None \<Rightarrow> {#} | Some c \<Rightarrow> mset (f u))"
    using sum_over_keys [OF assms(1), of "\<lambda>u c. mset (f u)"] by simp
  also have "\<dots> = (\<Sum>u \<in> fst ` set m. mset (f u))"
    by (rule sum.cong) (auto simp: assms(4) split: option.splits)
  also have "\<dots> = (\<Sum>u \<in> fst ` set m \<union> K. mset (f u))"
    using assms(2,4) by (intro sum.mono_neutral_left) (auto simp: map_of_eq_None_iff)
  also have "\<dots> = (\<Sum>u \<in> K. mset (f u))"
    using assms(2,3) by (intro sum.mono_neutral_right) auto
  finally show ?thesis .
qed

lemma ended_stage:
  assumes "terminations_typed w s" "ended_once w s" "jm_get (state_register w s) u = Some row"
  shows "jm_get (findBareCancellations (fw_view w) s) u \<noteq> None \<Longrightarrow> rw_stage row = SCancelled"
    "jm_get (findSettledTerminations (fw_view w) s) u \<noteq> None \<Longrightarrow> rw_stage row \<in> {SSettled, SMatured}"
proof -
  have stage: "rw_stage row = stage_of (te_terminalStage t)"
    if "(e, t) \<in> set (all_terminations (fw_view w) s)" "ib_instance t = u" for e t
    using row_stage [OF assms(1,2) that(1)] that(2) assms(3) by simp
  show "rw_stage row = SCancelled" if "jm_get (findBareCancellations (fw_view w) s) u \<noteq> None"
    using that stage unfolding findBareCancellations_def earliest_terminations_has
    by (auto simp: bare_cancellation_def)
  show "rw_stage row \<in> {SSettled, SMatured}" if "jm_get (findSettledTerminations (fw_view w) s) u \<noteq> None"
    using that stage unfolding findSettledTerminations_def earliest_terminations_has
    by (auto simp: settled_termination_def)
qed

lemma state_register_keys: "jm_keys_distinct (state_register w s)"
  unfolding state_register_def by (rule register_distinct)

lemma fold_legs_agree:
  assumes cover: "rows_cover_events w a b" and typed: "terminations_typed w (fa_store a)"
    and once: "ended_once w (fa_store a)"
  defines "bare \<equiv> findBareCancellations (fw_view w) (fa_store a)"
    and "settled \<equiv> findSettledTerminations (fw_view w) (fa_store a)"
    and "P \<equiv> event_applies w b (noted_types w a)"
  shows "mset (event_fold_legs w a P bare settled) = mset (register_fold_legs w a b bare settled)"
proof -
  let ?evs = "fil_events w a" and ?reg = "state_register w (fa_store a)"
  define K where "K = fst ` set ?reg"
  have fin: "finite K" by (simp add: K_def)
  have cov: "P e \<longleftrightarrow> (case jm_get ?reg (event_key w e) of None \<Rightarrow> False
      | Some row \<Rightarrow> row_applies w b (event_key w e) row)" if "e \<in> set ?evs" for e
    using cover that by (simp add: rows_cover_events_def P_def)
  have out: "\<not> P e" if "e \<in> set ?evs" "event_key w e \<notin> K" for e
    using cov [OF that(1)] that(2) by (simp add: K_def map_of_eq_None_iff [symmetric])
  have none: "opened_by w a P ?evs u = []" if "u \<notin> K" for u
    using out that by (intro opened_by_none) auto
  have d: "jm_keys_distinct bare" "jm_keys_distinct settled"
    by (simp_all add: bare_def settled_def findBareCancellations_def findSettledTerminations_def
        earliest_terminations_distinct)
  let ?T = "\<lambda>u. \<Sum>e\<leftarrow>filter (\<lambda>e. event_key w e = u) (filter P ?evs). mset (tagged_legs w a e)"
  let ?B = "\<lambda>u. mset (undo_legs a bare u (opened_by w a P ?evs u))"
  let ?R = "\<lambda>u. mset (release_legs a settled u (opened_by w a P ?evs u))"
  have "mset (concat (map (tagged_legs w a) (filter P ?evs))) = (\<Sum>u \<in> K. ?T u)"
    unfolding mset_tagged_sum by (rule sum_by_key [OF fin]) (use out in auto)
  moreover have "mset (concat (map (\<lambda>(u, c). undo_legs a bare u (opened_by w a P ?evs u)) bare)) = (\<Sum>u \<in> K. ?B u)"
    by (rule pass_sum [OF d(1) fin]) (simp add: none, simp add: undo_legs_def)
  moreover have "mset (concat (map (\<lambda>(u, c). release_legs a settled u (opened_by w a P ?evs u)) settled)) = (\<Sum>u \<in> K. ?R u)"
    by (rule pass_sum [OF d(2) fin]) (simp add: none, simp add: release_legs_def)
  ultimately have E: "mset (event_fold_legs w a P bare settled) = (\<Sum>u \<in> K. ?T u + (?B u + ?R u))"
    by (simp add: event_fold_legs_def sum.distrib)
  have "mset (register_fold_legs w a b bare settled) =
      (\<Sum>x\<leftarrow>?reg. mset (if row_applies w b (fst x) (snd x)
         then row_legs w a bare settled ?evs (fst x) (snd x) else []))"
    by (simp add: register_fold_legs_def mset_tagged_sum split_beta)
  also have "\<dots> = (\<Sum>u \<in> K. case jm_get ?reg u of None \<Rightarrow> {#}
      | Some row \<Rightarrow> mset (if row_applies w b u row then row_legs w a bare settled ?evs u row else []))"
    using sum_over_keys [OF state_register_keys, of "\<lambda>u row. mset (if row_applies w b u row
        then row_legs w a bare settled ?evs u row else [])"] by (simp add: K_def)
  also have "\<dots> = (\<Sum>u \<in> K. ?T u + (?B u + ?R u))"
  proof (rule sum.cong [OF refl])
    fix u assume "u \<in> K"
    then obtain row where row: "jm_get ?reg u = Some row"
      by (metis K_def map_of_eq_None_iff not_None_eq)
    have own: "P e \<longleftrightarrow> row_applies w b u row" if "e \<in> set ?evs" "event_key w e = u" for e
      using cov [OF that(1)] that(2) row by simp
    show "(case jm_get ?reg u of None \<Rightarrow> {#}
        | Some row \<Rightarrow> mset (if row_applies w b u row then row_legs w a bare settled ?evs u row else [])) =
        ?T u + (?B u + ?R u)"
    proof (cases "row_applies w b u row")
      case True
      have f: "filter (\<lambda>e. P e \<and> event_key w e = u) ?evs = filter (\<lambda>e. event_key w e = u) ?evs"
        using own True by (auto intro!: filter_cong)
      have o: "opened_by w a P ?evs u = opened_by w a (\<lambda>_. True) ?evs u"
        using own True by (intro opened_by_all) auto
      have u: "undo_legs a bare u ls = (if rw_stage row = SCancelled then undo_legs a bare u ls else [])" for ls
        using ended_stage(1) [OF typed once row] by (cases "jm_get bare u") (simp_all add: undo_legs_def bare_def)
      have r: "release_legs a settled u ls =
          (if rw_stage row \<in> {SSettled, SMatured} then release_legs a settled u ls else [])" for ls
        using ended_stage(2) [OF typed once row] by (cases "jm_get settled u") (simp_all add: release_legs_def settled_def)
      show ?thesis
        using True row by (subst u, subst r) (simp add: row_legs_def f o mset_tagged_sum Let_def ac_simps)
    next
      case False
      have f: "filter (\<lambda>e. P e \<and> event_key w e = u) ?evs = []"
        using own False by (auto simp: filter_empty_conv)
      have o: "opened_by w a P ?evs u = []" using own False by (intro opened_by_none) auto
      show ?thesis using False row by (simp add: f o)
    qed
  qed
  finally show ?thesis using E by simp
qed


section \<open>What a cancellation leaves\<close>

lemma source_leg_at [simp]: "lg_sourceEventId (leg_at (d, t, i, r) acc s c m k) = i"
  by (simp add: leg_at_def)

lemma base_instance [simp]:
  "ib_instance (fil_base.truncate c) = ib_instance c"
  by (simp add: fil_base.truncate_def)

lemma movement_sources:
  "postSettlementMovementLegs (d, t, i, r) mv = Inr ls \<Longrightarrow> l \<in> set ls \<Longrightarrow> lg_sourceEventId l = i"
  by (auto simp: postSettlementMovementLegs_def res_bind_Inr_iff Let_def split: if_splits)

lemma settlement_sources:
  "postFxSettlementLegs i mode = Inr ls \<Longrightarrow> l \<in> set ls \<Longrightarrow> lg_sourceEventId l = si_instanceId i"
  by (auto simp: postFxSettlementLegs_def res_bind_Inr_iff Let_def dest: movement_sources)

lemma transfer_sources:
  "transfer_legs (d, t, i, r) cur acc kind amt = Inr ls \<Longrightarrow> l \<in> set ls \<Longrightarrow> lg_sourceEventId l = i"
  by (auto simp: transfer_legs_def res_bind_Inr_iff Let_def split: if_splits)

lemma rebrand_source: "l \<in> set (rebrand r ls) \<Longrightarrow> \<exists>l' \<in> set ls. lg_sourceEventId l = lg_sourceEventId l'"
  by (auto simp: rebrand_def)

text \<open>Every leg of an event names the event's instrument as its source.\<close>

lemma rule_sources:
  assumes "rule_legs D G p = Inr ls" "l \<in> set ls"
  shows "lg_sourceEventId l = groupingKeyOf p"
proof (cases p)
  case (TradeSettled ts)
  with assms show ?thesis
    by (auto simp: postTradeSettlementLegs_def res_bind_Inr_iff dest: movement_sources)
next
  case (Lifecycle ev)
  show ?thesis
  proof (cases ev)
    case (FilInstrumentCreated c)
    with Lifecycle assms show ?thesis
      by (auto simp: postFxInitialRecognitionLegs_def event_base_def Let_def
          split: option.splits if_splits)
  next
    case (FilInstrumentAmended m)
    with Lifecycle assms show ?thesis
      by (auto simp: postFxRevaluationLegs_def event_base_def Let_def split: option.splits if_splits)
  next
    case (FilInstrumentTerminated t)
    with Lifecycle assms show ?thesis
      by (auto simp: postFxTerminationLegs_def postFxCloseLegs_def event_base_def res_bind_Inr_iff Let_def
          postFxDerecognitionLegs_def postFxFvociReclassLegs_def dest: transfer_sources
          split: option.splits if_splits)
  next
    case (FilFxSettlementConfirmed s)
    with Lifecycle assms show ?thesis
      by (auto simp: postFxSettlementConfirmedLegs_def postFxSwapNearLegLegs_def postFxSwapFarLegLegs_def
          res_bind_Inr_iff settlement_input_def split: fx_leg_role.splits
          dest!: settlement_sources rebrand_source)
  next
    case (FilNdfFixingObserved n)
    with Lifecycle assms show ?thesis
      by (auto simp: postFxNdfFixingObservedLegs_def postFxNdfFixingLegs_def dest: transfer_sources)
  qed
qed

lemma event_sources: "l \<in> set (event_legs w a e) \<Longrightarrow> lg_sourceEventId l = event_key w e"
  by (cases "rule_legs (fw_decimal w) (fw_signs w) (fw_view w e)")
    (auto simp: event_legs_def event_key_def dest: rule_sources)

lemma untagged [simp]: "map fl_leg (tagged i ls) = ls"
  by (simp add: tagged_def comp_def)

lemma untagged_events [simp]: "map fl_leg (tagged_legs w a e) = event_legs w a e"
  by (simp add: tagged_legs_def)

lemma map_concat_map: "map f (concat (map g xs)) = concat (map (\<lambda>x. map f (g x)) xs)"
  by (induction xs) simp_all

lemma opened_sources: "l \<in> set (opened_by w a P evs u) \<Longrightarrow> lg_sourceEventId l = u"
  by (auto simp: opened_by_def dest: event_sources)

lemma reversal_sources:
  "l \<in> set (map fl_leg (release_legs a (findSettledTerminations v s) u ls)) \<Longrightarrow> lg_sourceEventId l = u"
  "l \<in> set (map fl_leg (undo_legs a (findBareCancellations v s) u ls)) \<Longrightarrow> lg_sourceEventId l = u"
proof -
  have rev: "l \<in> set (filter Q (map (reverse_leg c rule) xs)) \<Longrightarrow> rv_instance c = u \<Longrightarrow> lg_sourceEventId l = u"
    for c rule xs Q by (auto simp: reverse_leg_def)
  show "lg_sourceEventId l = u"
    if "l \<in> set (map fl_leg (release_legs a (findSettledTerminations v s) u ls))"
  proof (cases "jm_get (findSettledTerminations v s) u")
    case (Some c)
    with that termination_instances(2) [OF Some] show ?thesis
      unfolding release_legs_def postFxObsCommitmentReleaseLegs_def Some option.case untagged
      by (intro rev)
  qed (use that in \<open>simp add: release_legs_def\<close>)
  show "lg_sourceEventId l = u"
    if "l \<in> set (map fl_leg (undo_legs a (findBareCancellations v s) u ls))"
  proof (cases "jm_get (findBareCancellations v s) u")
    case (Some c)
    with that termination_instances(1) [OF Some] show ?thesis
      unfolding undo_legs_def postFxCancellationReversalLegs_def Some option.case untagged
      by (intro rev)
  qed (use that in \<open>simp add: undo_legs_def\<close>)
qed

lemma row_sources:
  assumes "l \<in> set (map fl_leg (row_legs w a (findBareCancellations v s) (findSettledTerminations v s) evs u row))"
  shows "lg_sourceEventId l = u"
proof -
  have "(\<exists>e \<in> set evs. event_key w e = u \<and> l \<in> set (event_legs w a e)) \<or>
      (\<exists>ls. l \<in> set (map fl_leg (release_legs a (findSettledTerminations v s) u ls))) \<or>
      (\<exists>ls. l \<in> set (map fl_leg (undo_legs a (findBareCancellations v s) u ls)))"
    using assms unfolding row_legs_def Let_def map_append map_concat_map set_append
    by (auto split: if_splits)
  then show ?thesis using event_sources reversal_sources by blast
qed

definition net_of_source :: "string \<Rightarrow> string \<Rightarrow> string \<Rightarrow> fx_fold_leg list \<Rightarrow> rat" where
  "net_of_source u acc cur ls =
     net (\<lambda>l. on_account acc cur l \<and> lg_sourceEventId l = u) (map fl_leg ls)"

lemma net_cong: "(\<And>l. l \<in> set ls \<Longrightarrow> P l \<longleftrightarrow> Q l) \<Longrightarrow> net P ls = net Q ls"
  by (simp add: net_def cong: filter_cong)

lemma net_zero: "\<forall>l \<in> set ls. leg_value l = 0 \<Longrightarrow> net P ls = 0"
  by (induction ls) auto

lemma net_none: "(\<And>l. l \<in> set ls \<Longrightarrow> \<not> P l) \<Longrightarrow> net P ls = 0"
  by (simp add: net_def filter_False)

lemma net_source_append [simp]:
  "net_of_source u acc cur (xs @ ys) = net_of_source u acc cur xs + net_of_source u acc cur ys"
  by (simp add: net_of_source_def)

lemma net_of_rows:
  assumes "jm_keys_distinct reg" "jm_get reg u = Some row"
    and "\<And>v r. v \<noteq> u \<Longrightarrow> net_of_source u acc cur (F v r) = 0"
  shows "net_of_source u acc cur (concat (map (\<lambda>(v, r). F v r) reg)) = net_of_source u acc cur (F u row)"
  using assms(1,2)
proof (induction reg)
  case (Cons x reg)
  obtain v r where x: "x = (v, r)" by (cases x)
  have d: "jm_keys_distinct reg" "v \<notin> fst ` set reg"
    using Cons.prems(1) x by (auto simp: jm_keys_distinct_def)
  show ?case
  proof (cases "v = u")
    case True
    have "net_of_source u acc cur (concat (map (\<lambda>(v, r). F v r) reg)) = 0"
      if "u \<notin> fst ` set reg" for reg
      using that assms(3) by (induction reg) (auto simp: net_of_source_def)
    with True d Cons.prems(2) x show ?thesis by simp
  next
    case False
    with Cons d x show ?thesis by (simp add: assms(3))
  qed
qed simp

text \<open>A termination without terms posts amounts of zero.\<close>

definition memo_termination :: "fx_payload \<Rightarrow> bool" where
  "memo_termination p \<longleftrightarrow>
     (case p of Lifecycle (FilInstrumentTerminated t) \<Rightarrow>
        te_derecognitionTerms t = None \<and> te_fvociReclassTerms t = None | _ \<Rightarrow> False)"

lemma memo_net:
  assumes "memo_termination (fw_view w e)"
  shows "net P (event_legs w a e) = 0"
proof -
  obtain t where t: "fw_view w e = Lifecycle (FilInstrumentTerminated t)"
    "te_derecognitionTerms t = None" "te_fvociReclassTerms t = None"
    using assms by (auto simp: memo_termination_def split: fx_payload.splits fil_event.splits)
  have "\<forall>l \<in> set (event_legs w a e). leg_value l = 0"
    by (auto simp: event_legs_def t postFxTerminationLegs_def postFxCloseLegs_def leg_value_at Let_def)
  then show ?thesis by (rule net_zero)
qed

text \<open>What one instrument of the register posts, by account and currency.\<close>

lemma net_of_row:
  assumes "deriveFxInstanceLegs w a = Inr r" "fx_basis_of w a = Inr b"
    "jm_get (state_register w (fa_store a)) u = Some row"
  shows "net_of_source u acc cur (fr_legs r) =
     (if row_applies w b u row
      then net (on_account acc cur) (map fl_leg (row_legs w a (findBareCancellations (fw_view w) (fa_store a))
         (findSettledTerminations (fw_view w) (fa_store a)) (fil_events w a) u row))
      else 0)"
proof -
  let ?rl = "row_legs w a (findBareCancellations (fw_view w) (fa_store a))
    (findSettledTerminations (fw_view w) (fa_store a)) (fil_events w a)"
  let ?F = "\<lambda>v r. if row_applies w b v r then ?rl v r else []"
  have "fr_legs r = concat (map (\<lambda>(v, r). ?F v r) (state_register w (fa_store a)))"
    using register_fold_eq [OF assms(2)] assms(1) by (simp add: register_fold_legs_def)
  moreover have "net_of_source u acc cur (?F v r') = 0" if "v \<noteq> u" for v r'
    using that row_sources [of _ w a "fw_view w" "fa_store a" "fil_events w a" v r']
    by (auto simp: net_of_source_def intro!: net_none)
  ultimately have "net_of_source u acc cur (fr_legs r) = net_of_source u acc cur (?F u row)"
    using net_of_rows [OF state_register_keys assms(3), of acc cur ?F] by simp
  also have "\<dots> = (if row_applies w b u row then net (on_account acc cur) (map fl_leg (?rl u row)) else 0)"
    using row_sources [where w = w and a = a and v = "fw_view w" and s = "fa_store a"
        and evs = "fil_events w a" and u = u and row = row]
    by (auto simp: net_of_source_def intro!: net_cong)
  finally show ?thesis .
qed

text \<open>The window of a day, and a trade of which only openings and a bare cancellation are recorded.\<close>

definition day_in_window :: "fx_fold_args \<Rightarrow> string \<Rightarrow> bool" where
  "day_in_window a d \<longleftrightarrow> d \<noteq> [] \<and> \<not> d < fa_periodStart a \<and> \<not> fa_periodEnd a < d"

definition only_opened_and_cancelled :: "'d fx_world \<Rightarrow> fx_fold_args \<Rightarrow> string \<Rightarrow> bool" where
  "only_opened_and_cancelled w a u \<longleftrightarrow>
     (\<forall>e \<in> set (fil_events w a). event_key w e = u \<longrightarrow>
        is_opening (fw_view w e) \<or> memo_termination (fw_view w e))"

lemma own_net:
  assumes "\<forall>e \<in> set evs. event_key w e = u \<longrightarrow> is_opening (fw_view w e) \<or> memo_termination (fw_view w e)"
  shows "net P (concat (map (event_legs w a) (filter (\<lambda>e. event_key w e = u) evs))) =
     net P (opened_by w a (\<lambda>_. True) evs u)"
  using assms by (induction evs) (auto simp: opened_by_def memo_net)

text \<open>
  C16. A cancelled trade of which only recognition, amendments and bare cancellations are recorded
  nets to zero on every account in every currency when the day of its first cancellation lies in
  the window, and otherwise to exactly its opening legs inside the window.
\<close>

theorem cancelled_trade_nets_to_zero:
  assumes "deriveFxInstanceLegs w a = Inr r" "fx_basis_of w a = Inr b"
    "jm_get (state_register w (fa_store a)) u = Some row" "rw_stage row = SCancelled"
    "jm_get (findBareCancellations (fw_view w) (fa_store a)) u = Some c"
    "only_opened_and_cancelled w a u"
  shows "net_of_source u acc cur (fr_legs r) =
     (if day_in_window a (take 10 (rv_asOf c)) \<or> \<not> row_applies w b u row then 0
      else net (on_account acc cur) (opened_by w a (\<lambda>_. True) (fil_events w a) u))"
proof -
  let ?opened = "opened_by w a (\<lambda>_. True) (fil_events w a) u"
  let ?undone = "postFxCancellationReversalLegs ?opened c"
  have win: "filter (in_window a) ?undone = (if day_in_window a (take 10 (rv_asOf c)) then ?undone else [])"
    by (auto simp: in_window_def day_in_window_def postFxCancellationReversalLegs_def reverse_leg_def
        filter_empty_conv filter_id_conv)
  have undo: "net (on_account acc cur) ?undone = - net (on_account acc cur) ?opened"
    by (simp add: postFxCancellationReversalLegs_def net_reverse)
  have own: "net (on_account acc cur) (concat (map (event_legs w a)
      (filter (\<lambda>e. event_key w e = u) (fil_events w a)))) = net (on_account acc cur) ?opened"
    by (rule own_net) (use assms(6) in \<open>simp add: only_opened_and_cancelled_def\<close>)
  show ?thesis
    unfolding net_of_row [OF assms(1-3)]
    using assms(4,5) own undo win
    by (simp add: row_legs_def Let_def map_concat_map undo_legs_def)
qed

section \<open>Conversions\<close>

lemma conversions_total:
  assumes "\<forall>p \<in> set ps. conversion_ok (conversion_input p) \<and>
      decimal_value (ci_fcyAmount (conversion_input p)) \<noteq> 0"
  shows "\<exists>lss. res_map (\<lambda>p. postFxConversionLegs (conversion_input p)) ps = Inr lss \<and>
     net (\<lambda>l. lg_accountCode l = FX_REALISED_PNL_ACCOUNT) (concat lss) =
       - (\<Sum>p\<leftarrow>ps. decimal_value (fm_amount (cv_zarProceeds p)) - decimal_value (fm_amount (cv_zarCostBasis p))
            + decimal_value (fm_amount (cv_accumulatedUnrealised p))) \<and>
     net (\<lambda>l. lg_accountCode l = FX_UNREALISED_PNL_ACCOUNT) (concat lss) =
       (\<Sum>p\<leftarrow>ps. decimal_value (fm_amount (cv_accumulatedUnrealised p)))"
  using assms
proof (induction ps)
  case (Cons p ps)
  obtain ls where "postFxConversionLegs (conversion_input p) = Inr ls"
    "net (\<lambda>l. lg_accountCode l = FX_REALISED_PNL_ACCOUNT) ls =
       - (decimal_value (fm_amount (cv_zarProceeds p)) - decimal_value (fm_amount (cv_zarCostBasis p)))
       - decimal_value (fm_amount (cv_accumulatedUnrealised p))"
    "net (\<lambda>l. lg_accountCode l = FX_UNREALISED_PNL_ACCOUNT) ls =
       decimal_value (fm_amount (cv_accumulatedUnrealised p))"
    using conversion_legs [of "conversion_input p"] Cons.prems by (auto simp: conversion_input_def)
  with Cons show ?case by auto
qed simp


section \<open>A book with one cancelled trade\<close>

definition sample_fx_created :: fil_created where
  "sample_fx_created =
     \<lparr>ib_instance = ''u'', ib_type = ''fil:type:fx:spot'', ib_tenant = ''t'', ib_asOf = ''2026-01-05'',
      ib_originatingEvent = \<lparr>er_eventType = ''E'', er_eventId = ''x''\<rparr>, cr_initialStage = SActive,
      cr_economicTerms = (sample_terms ''fx'' None)\<lparr>et_fxAgreement := Some
        \<lparr>fxa_buy = \<lparr>fm_currency = ''USD'', fm_amount = ''10''\<rparr>,
         fxa_sell = \<lparr>fm_currency = ''ZAR'', fm_amount = ''18''\<rparr>\<rparr>\<rparr>\<rparr>"

definition sample_fx_cancelled :: fil_terminated where
  "sample_fx_cancelled =
     \<lparr>ib_instance = ''u'', ib_type = ''fil:type:fx:spot'', ib_tenant = ''t'', ib_asOf = ''2026-01-06'',
      ib_originatingEvent = \<lparr>er_eventType = ''E'', er_eventId = ''x''\<rparr>, te_terminalStage = TCancelled,
      te_derecognitionTerms = None, te_fvociReclassTerms = None\<rparr>"

definition sample_module :: treatment_declared where
  "sample_module =
     \<lparr>td_treatmentId = ''m'', td_category = ''posting-rules'', td_scope = [''fil:type:fx:*''],
      td_version = \<lparr>fv_major = 1, fv_minor = 0\<rparr>, td_ifrsCategory = None, td_fairValueHierarchy = None,
      td_businessModel = None, td_prudential = None, td_tax = None,
      td_applicablePostingRuleIds = [''PR-FX-001-V2''], td_cites = [''c'']\<rparr>"

definition sample_fx_world :: "(int \<times> nat) fx_world" where
  "sample_fx_world =
     \<lparr>fw_env = \<lparr>be_phaseOverride = None, be_phaseVar = None, be_modeOverride = Some Combined,
        be_sha256hex = id\<rparr>,
      fw_collation = \<lparr>co_default = flat, co_numeric = flat\<rparr>,
      fw_schemas = \<lparr>sc_declared = (\<lambda>_. Some sample_module), sc_elected = (\<lambda>_. None)\<rparr>,
      fw_decimal = pair_decimal, fw_signs = pair_signs,
      fw_view = (\<lambda>e. if event_id e = ''c'' then Lifecycle (FilInstrumentCreated sample_fx_created)
        else if event_id e = ''k'' then Lifecycle (FilInstrumentTerminated sample_fx_cancelled)
        else Lifecycle (FilInstrumentTerminated (sample_fx_cancelled\<lparr>te_terminalStage := TSettled\<rparr>)))\<rparr>"

definition sample_fx_args :: "row list \<Rightarrow> string \<Rightarrow> string \<Rightarrow> fx_fold_args" where
  "sample_fx_args extra start till =
     \<lparr>fa_store = empty_store\<lparr>es_rows :=
        [sample_row 1 ''d'' ''ReportingTreatmentDeclared'' ''2026-01-01'' [],
         sample_row 2 ''c'' ''FilInstrumentCreated'' ''2026-01-05'' [],
         sample_row 3 ''k'' ''FilInstrumentTerminated'' ''2026-01-06'' []] @ extra\<rparr>,
      fa_treatmentStore = None, fa_periodStart = start, fa_periodEnd = till, fa_filter = None\<rparr>"

definition january :: fx_fold_args where
  "january = sample_fx_args [] ''2026-01-01'' ''2026-01-31''"

lemma january_book:
  "\<exists>b. fx_basis_of sample_fx_world january = Inr b \<and> rows_cover_events sample_fx_world january b"
proof -
  have "case fx_basis_of sample_fx_world january of Inr b \<Rightarrow> rows_cover_events sample_fx_world january b
      | Inl _ \<Rightarrow> False"
    by code_simp
  then show ?thesis by (cases "fx_basis_of sample_fx_world january") simp_all
qed

lemma january_derived:
  "case deriveFxInstanceLegs sample_fx_world january of Inr r \<Rightarrow> length (fr_legs r) = 6 | Inl _ \<Rightarrow> False"
  by code_simp


lemma cancelled_trade_nets_to_zero_witness:
  "\<exists>r. deriveFxInstanceLegs sample_fx_world january = Inr r \<and>
     net_of_source ''u'' ''ACC-9100-001'' ''USD'' (fr_legs r) = 0"
proof -
  obtain b where b: "fx_basis_of sample_fx_world january = Inr b" using january_book by blast
  obtain r where r: "deriveFxInstanceLegs sample_fx_world january = Inr r"
    using january_derived by (cases "deriveFxInstanceLegs sample_fx_world january") auto
  have "case jm_get (state_register sample_fx_world (fa_store january)) ''u'' of
      None \<Rightarrow> False | Some row \<Rightarrow> rw_stage row = SCancelled" by code_simp
  then obtain row where row: "jm_get (state_register sample_fx_world (fa_store january)) ''u'' = Some row"
    "rw_stage row = SCancelled" by (auto split: option.splits)
  have "case jm_get (findBareCancellations (fw_view sample_fx_world) (fa_store january)) ''u'' of
      None \<Rightarrow> False | Some c \<Rightarrow> day_in_window january (take 10 (rv_asOf c))" by code_simp
  then obtain c where c: "jm_get (findBareCancellations (fw_view sample_fx_world) (fa_store january)) ''u'' = Some c"
    "day_in_window january (take 10 (rv_asOf c))" by (auto split: option.splits)
  have "only_opened_and_cancelled sample_fx_world january ''u''" by code_simp
  from cancelled_trade_nets_to_zero [OF r b row c(1) this, of "''ACC-9100-001''" "''USD''"] r c(2)
  show ?thesis by simp
qed

text \<open>
  The opening legs a reversal undoes are those inside the window: of two adjacent windows the
  later shows the cancellation and no reversal, so that their sum keeps the cancelled position
  that one window over both days does not have.
\<close>

definition bought_commitment :: "string \<Rightarrow> string \<Rightarrow> rat option" where
  "bought_commitment start till =
     (case deriveFxInstanceLegs sample_fx_world (sample_fx_args [] start till) of
        Inl _ \<Rightarrow> None
      | Inr r \<Rightarrow> Some (net_of_source ''u'' ''ACC-9100-001'' ''USD'' (fr_legs r)))"

lemma reversal_lost_between_windows:
  "bought_commitment ''2026-01-01'' ''2026-01-31'' = Some 0"
  "bought_commitment ''2026-01-01'' ''2026-01-05'' = Some 10"
  "bought_commitment ''2026-01-06'' ''2026-01-31'' = Some 0"
  by code_simp+

text \<open>
  An instrument that is cancelled and later settled is reversed twice by the fold over the events,
  and once by the derivation from the register, which reads its last stage.
\<close>

definition ended_twice :: fx_fold_args where
  "ended_twice = sample_fx_args [sample_row 4 ''s'' ''FilInstrumentTerminated'' ''2026-01-07'' []]
     ''2026-01-01'' ''2026-01-31''"

lemma ended_twice_overreverses:
  "map_sum id (\<lambda>r. net_of_source ''u'' ''ACC-9100-001'' ''USD'' (fr_legs r))
     (foldFxContributionLegs sample_fx_world ended_twice) = Inr (- 10)"
  "map_sum id (\<lambda>r. net_of_source ''u'' ''ACC-9100-001'' ''USD'' (fr_legs r))
     (deriveFxInstanceLegs sample_fx_world ended_twice) = Inr 0"
  by code_simp+

definition sample_conversion :: fx_conversion where
  "sample_conversion =
     \<lparr>cv_cashInstance = ''u'', cv_fcyCurrency = ''USD'', cv_reportingCurrency = ''ZAR'',
      cv_fcyAmount = \<lparr>fm_currency = ''USD'', fm_amount = ''2''\<rparr>,
      cv_zarProceeds = \<lparr>fm_currency = ''ZAR'', fm_amount = ''38''\<rparr>,
      cv_zarCostBasis = \<lparr>fm_currency = ''ZAR'', fm_amount = ''36''\<rparr>,
      cv_accumulatedUnrealised = \<lparr>fm_currency = ''ZAR'', fm_amount = ''1''\<rparr>, cv_fullConversion = True,
      cv_tenant = ''t'', cv_asOf = ''2026-01-07'',
      cv_originatingEvent = \<lparr>er_eventType = ''E'', er_eventId = ''x''\<rparr>\<rparr>"


end
