(* ===== verification/MoneyArith.thy ===== *)
theory MoneyArith
  imports DecimalMoney
begin

text \<open>
  Arithmetic on exact money (\<open>platform/core/decimal-money.ts\<close> over \<open>decimal-engine.ts\<close>): sums,
  scaling, rounding, conversion and the allocation of a total over weights.  The operations of
  decimal.js are the fields of \<open>decimal_arith\<close>; \<open>exact_arith\<close> states the documented behaviour
  relied on.  A scale is a natural number, so the check of its sign is left out.
\<close>

section \<open>Operations of the kernel\<close>

datatype rounding_mode = HALF_UP | HALF_EVEN | DOWN | UP

record 'd decimal_arith =
  da_plus :: "'d \<Rightarrow> 'd \<Rightarrow> 'd"
  da_minus :: "'d \<Rightarrow> 'd \<Rightarrow> 'd"
  da_negated :: "'d \<Rightarrow> 'd"
  da_isZero :: "'d \<Rightarrow> bool"
  da_isNegative :: "'d \<Rightarrow> bool"
  da_cmp :: "'d \<Rightarrow> 'd \<Rightarrow> int"
  da_div :: "'d \<Rightarrow> 'd \<Rightarrow> 'd"
  da_toDecimalPlaces :: "'d \<Rightarrow> nat \<Rightarrow> rounding_mode \<Rightarrow> 'd"

datatype arith_error = BadAmount money_error | CurrencyMismatch | DivisionByZero | WeightsSumToZero

definition as_amount :: "money_error + 'a \<Rightarrow> arith_error + 'a" where
  "as_amount r = (case r of Inl e \<Rightarrow> Inl (BadAmount e) | Inr x \<Rightarrow> Inr x)"

definition divD :: "'d decimal_arith \<Rightarrow> 'd \<Rightarrow> 'd \<Rightarrow> arith_error + 'd" where
  "divD A a b = (if da_isZero A b then Inl DivisionByZero else Inr (da_div A a b))"

section \<open>Money\<close>

definition zeroMoney :: "string \<Rightarrow> money_value" where
  "zeroMoney currency = \<lparr>mv_amount = ''0'', mv_currency = currency\<rparr>"

definition dec :: "'d decimal_js \<Rightarrow> money_value \<Rightarrow> arith_error + 'd" where
  "dec D m = as_amount (toDecimal D (mv_amount m))"

definition lift_money :: "'d decimal_js \<Rightarrow> 'd \<Rightarrow> string \<Rightarrow> money_value" where
  "lift_money D d currency = \<lparr>mv_amount = dj_toFixed D d, mv_currency = currency\<rparr>"

definition guard_currency :: "money_value \<Rightarrow> money_value \<Rightarrow> arith_error + unit" where
  "guard_currency a b =
     (if mv_currency a \<noteq> mv_currency b then Inl CurrencyMismatch else Inr ())"

definition both :: "'d decimal_js \<Rightarrow> money_value \<Rightarrow> money_value \<Rightarrow> ('d \<Rightarrow> 'd \<Rightarrow> 'a) \<Rightarrow> arith_error + 'a" where
  "both D a b f = res_bind (dec D a) (\<lambda>x. res_bind (dec D b) (\<lambda>y. Inr (f x y)))"

definition add_money ::
  "'d decimal_js \<Rightarrow> 'd decimal_arith \<Rightarrow> money_value \<Rightarrow> money_value \<Rightarrow> arith_error + money_value" where
  "add_money D A a b =
     res_bind (guard_currency a b) (\<lambda>_.
       both D a b (\<lambda>x y. lift_money D (da_plus A x y) (mv_currency a)))"

definition sub_money ::
  "'d decimal_js \<Rightarrow> 'd decimal_arith \<Rightarrow> money_value \<Rightarrow> money_value \<Rightarrow> arith_error + money_value" where
  "sub_money D A a b =
     res_bind (guard_currency a b) (\<lambda>_.
       both D a b (\<lambda>x y. lift_money D (da_minus A x y) (mv_currency a)))"

definition neg_money ::
  "'d decimal_js \<Rightarrow> 'd decimal_arith \<Rightarrow> money_value \<Rightarrow> arith_error + money_value" where
  "neg_money D A a =
     res_bind (dec D a) (\<lambda>x. Inr (lift_money D (da_negated A x) (mv_currency a)))"

definition sum_money ::
  "'d decimal_js \<Rightarrow> 'd decimal_arith \<Rightarrow> money_value list \<Rightarrow> string \<Rightarrow> arith_error + money_value" where
  "sum_money D A items currency =
     res_fold (\<lambda>m acc. add_money D A acc m) items (zeroMoney currency)"

definition eq_money ::
  "'d decimal_js \<Rightarrow> 'd decimal_arith \<Rightarrow> money_value \<Rightarrow> money_value \<Rightarrow> arith_error + bool" where
  "eq_money D A a b =
     (if mv_currency a \<noteq> mv_currency b then Inr False
      else both D a b (\<lambda>x y. da_cmp A x y = 0))"

definition compare_money ::
  "'d decimal_js \<Rightarrow> 'd decimal_arith \<Rightarrow> money_value \<Rightarrow> money_value \<Rightarrow> arith_error + int" where
  "compare_money D A a b = res_bind (guard_currency a b) (\<lambda>_. both D a b (da_cmp A))"

definition isZero_money :: "'d decimal_js \<Rightarrow> 'd decimal_arith \<Rightarrow> money_value \<Rightarrow> arith_error + bool" where
  "isZero_money D A m = res_bind (dec D m) (\<lambda>d. Inr (da_isZero A d))"

definition isNegative_money ::
  "'d decimal_js \<Rightarrow> 'd decimal_arith \<Rightarrow> money_value \<Rightarrow> arith_error + bool" where
  "isNegative_money D A m = res_bind (dec D m) (\<lambda>d. Inr (da_isNegative A d))"

definition mulScalar :: "'d decimal_js \<Rightarrow> money_value \<Rightarrow> string \<Rightarrow> arith_error + money_value" where
  "mulScalar D m scalar =
     res_bind (dec D m) (\<lambda>d. res_bind (as_amount (toDecimal D scalar)) (\<lambda>s.
       Inr (lift_money D (dj_times D d s) (mv_currency m))))"

section \<open>Rounding at a boundary\<close>

record rounding_context =
  rc_mode :: rounding_mode
  rc_scale :: "nat option"

definition ROUNDING_INTEREST :: rounding_context where
  "ROUNDING_INTEREST = \<lparr>rc_mode = HALF_EVEN, rc_scale = None\<rparr>"

definition ROUNDING_SETTLEMENT :: rounding_context where
  "ROUNDING_SETTLEMENT = \<lparr>rc_mode = HALF_UP, rc_scale = None\<rparr>"

definition ROUNDING_PRO_RATA :: rounding_context where
  "ROUNDING_PRO_RATA = \<lparr>rc_mode = HALF_UP, rc_scale = None\<rparr>"

definition ROUNDING_FX :: rounding_context where
  "ROUNDING_FX = \<lparr>rc_mode = HALF_UP, rc_scale = None\<rparr>"

definition ROUNDING_RWA :: rounding_context where
  "ROUNDING_RWA = \<lparr>rc_mode = HALF_UP, rc_scale = None\<rparr>"

definition resolveScale :: "string \<Rightarrow> rounding_context \<Rightarrow> nat" where
  "resolveScale currency ctx = (case rc_scale ctx of Some s \<Rightarrow> s | None \<Rightarrow> scaleFor currency)"

definition round_money ::
  "'d decimal_js \<Rightarrow> 'd decimal_arith \<Rightarrow> money_value \<Rightarrow> rounding_context \<Rightarrow> arith_error + money_value" where
  "round_money D A m ctx =
     res_bind (dec D m) (\<lambda>d.
       Inr (lift_money D (da_toDecimalPlaces A d (resolveScale (mv_currency m) ctx) (rc_mode ctx))
         (mv_currency m)))"

definition divideRounded ::
  "'d decimal_js \<Rightarrow> 'd decimal_arith \<Rightarrow> money_value \<Rightarrow> string \<Rightarrow> rounding_context
     \<Rightarrow> arith_error + money_value" where
  "divideRounded D A m divisor ctx =
     res_bind (dec D m) (\<lambda>d. res_bind (as_amount (toDecimal D divisor)) (\<lambda>x.
     res_bind (divD A d x) (\<lambda>quotient.
       Inr (lift_money D
         (da_toDecimalPlaces A quotient (resolveScale (mv_currency m) ctx) (rc_mode ctx))
         (mv_currency m)))))"

definition convertFx ::
  "'d decimal_js \<Rightarrow> 'd decimal_arith \<Rightarrow> money_value \<Rightarrow> string \<Rightarrow> string \<Rightarrow> rounding_context
     \<Rightarrow> arith_error + money_value" where
  "convertFx D A source rate target ctx =
     res_bind (dec D source) (\<lambda>d. res_bind (as_amount (toDecimal D rate)) (\<lambda>r.
       Inr (lift_money D
         (da_toDecimalPlaces A (dj_times D d r) (resolveScale target ctx) (rc_mode ctx)) target)))"

definition settleWithResidual ::
  "'d decimal_js \<Rightarrow> 'd decimal_arith \<Rightarrow> money_value \<Rightarrow> rounding_context
     \<Rightarrow> arith_error + (money_value \<times> money_value)" where
  "settleWithResidual D A m ctx =
     res_bind (round_money D A m ctx) (\<lambda>settled.
     res_bind (sub_money D A m settled) (\<lambda>roundingDifference.
       Inr (settled, roundingDifference)))"

definition format_money ::
  "'d decimal_js \<Rightarrow> 'd decimal_arith \<Rightarrow> money_value \<Rightarrow> rounding_context \<Rightarrow> arith_error + string" where
  "format_money D A m ctx =
     res_bind (round_money D A m ctx) (\<lambda>r. Inr (mv_currency m @ '' '' @ mv_amount r))"

section \<open>Allocation\<close>

definition unit_text :: "nat \<Rightarrow> string" where
  "unit_text scale =
     (if scale = 0 then ''1'' else ''0.'' @ replicate (scale - 1) CHR ''0'' @ ''1'')"

text \<open>One slice: the share cut to the scale, and what was cut off.\<close>

definition floor_slice ::
  "'d decimal_js \<Rightarrow> 'd decimal_arith \<Rightarrow> 'd \<Rightarrow> 'd \<Rightarrow> nat \<Rightarrow> 'd \<Rightarrow> arith_error + ('d \<times> 'd)" where
  "floor_slice D A totalD weightSum scale w =
     res_bind (divD A (dj_times D totalD w) weightSum) (\<lambda>share.
       let down = da_toDecimalPlaces A share scale DOWN in Inr (down, da_minus A share down))"

text \<open>The order of the remainders: larger first, then by index.\<close>

definition rem_before :: "'d decimal_arith \<Rightarrow> nat \<times> 'd \<Rightarrow> nat \<times> 'd \<Rightarrow> bool" where
  "rem_before A a b \<longleftrightarrow>
     (let c = da_cmp A (snd b) (snd a) in c < 0 \<or> c = 0 \<and> fst a < fst b)"

fun insert_rem :: "'d decimal_arith \<Rightarrow> nat \<times> 'd \<Rightarrow> (nat \<times> 'd) list \<Rightarrow> (nat \<times> 'd) list" where
  "insert_rem A x [] = [x]"
| "insert_rem A x (y # ys) = (if rem_before A x y then x # y # ys else y # insert_rem A x ys)"

definition sort_rems :: "'d decimal_arith \<Rightarrow> (nat \<times> 'd) list \<Rightarrow> (nat \<times> 'd) list" where
  "sort_rems A xs = foldr (insert_rem A) xs []"

definition distribute :: "'d decimal_arith \<Rightarrow> 'd \<Rightarrow> nat list \<Rightarrow> nat \<Rightarrow> 'd list \<Rightarrow> 'd list" where
  "distribute A u order n floored =
     fold (\<lambda>k fl. let i = order ! (k mod length order) in fl[i := da_plus A (fl ! i) u])
       [0..<n] floored"

text \<open>\<open>Number(...)\<close> of the count and the bound of the loop: no round for what is not positive.\<close>

definition rounds_of :: "string \<Rightarrow> nat" where
  "rounds_of s = (case bigint_of s of Inr z \<Rightarrow> nat z | Inl _ \<Rightarrow> 0)"

definition allocate ::
  "'d decimal_js \<Rightarrow> 'd decimal_arith \<Rightarrow> money_value \<Rightarrow> string list \<Rightarrow> rounding_context
     \<Rightarrow> arith_error + money_value list" where
  "allocate D A tot weights ctx =
     (if weights = [] then Inr [] else
      let scale = resolveScale (mv_currency tot) ctx in
      res_bind (dec D tot) (\<lambda>totalD.
      res_bind (as_amount (res_map (toDecimal D) weights)) (\<lambda>weightD.
      res_bind (as_amount (toDecimal D ''0'')) (\<lambda>zero.
      let weightSum = foldl (da_plus A) zero weightD in
      if da_isZero A weightSum then Inl WeightsSumToZero else
      res_bind (as_amount (toDecimal D (unit_text scale))) (\<lambda>u.
      res_bind (res_map (floor_slice D A totalD weightSum scale) weightD) (\<lambda>parts.
      let floored = map fst parts;
          shortfall = da_minus A totalD (foldl (da_plus A) zero floored);
          order = map fst (sort_rems A (enumerate 0 (map snd parts)))
      in res_bind (divD A shortfall u) (\<lambda>q.
      let n = rounds_of (dj_toFixed0 D (da_toDecimalPlaces A q 0 HALF_UP))
      in Inr (map (\<lambda>d. lift_money D d (mv_currency tot)) (distribute A u order n floored)))))))))"

end
