(* ===== verification/MoneyArithProps.thy ===== *)
theory MoneyArithProps
  imports MoneyArith "HOL-Library.Multiset"
begin

text \<open>
  What the arithmetic on money promises, given decimal.js as documented: a settlement and its
  rounding difference add up, an allocation conserves a total that is not negative and stays within
  one unit of each exact share, and where it does not conserve a negative one.
\<close>

section \<open>decimal.js as documented\<close>

text \<open>
  Rounding of a number to an integer: to the nearest with ties away from zero or to the even
  neighbour, toward zero, or away from zero.
\<close>

definition magnitude :: "rounding_mode \<Rightarrow> rat \<Rightarrow> int" where
  "magnitude mode a =
     (let f = \<lfloor>a\<rfloor>; r = a - of_int f
      in case mode of
           HALF_UP \<Rightarrow> if 1 / 2 \<le> r then f + 1 else f
         | HALF_EVEN \<Rightarrow> if 1 / 2 < r \<or> r = 1 / 2 \<and> odd f then f + 1 else f
         | DOWN \<Rightarrow> f
         | UP \<Rightarrow> if 0 < r then f + 1 else f)"

definition rounded :: "rounding_mode \<Rightarrow> rat \<Rightarrow> int" where
  "rounded mode q = (if q < 0 then - magnitude mode (- q) else magnitude mode q)"

text \<open>
  A number of at most 60 significant digits, 30 of them after the point.  Sums, differences and
  products that are such numbers are exact, and a difference has the right sign; a quotient is at least as near to the exact one as any
  of them; rounding to \<open>k\<close> places is exact.
\<close>

definition held :: "rat \<Rightarrow> bool" where
  "held q \<longleftrightarrow> (\<exists>z::int. \<bar>z\<bar> < 10 ^ 60 \<and> q = of_int z / 10 ^ 30)"

definition exact_arith :: "'d decimal_js \<Rightarrow> 'd decimal_arith \<Rightarrow> ('d \<Rightarrow> rat) \<Rightarrow> bool" where
  "exact_arith D A v \<longleftrightarrow>
     (\<forall>a b. held (v a + v b) \<longrightarrow> v (da_plus A a b) = v a + v b) \<and>
     (\<forall>a b. held (v a - v b) \<longrightarrow> v (da_minus A a b) = v a - v b) \<and>
     (\<forall>a b. 0 < v (da_minus A a b) \<longleftrightarrow> v b < v a) \<and>
     (\<forall>a b. held (v a * v b) \<longrightarrow> v (dj_times D a b) = v a * v b) \<and>
     (\<forall>a. da_isZero A a \<longleftrightarrow> v a = 0) \<and>
     (\<forall>a b. (da_cmp A a b < 0 \<longleftrightarrow> v a < v b) \<and> (da_cmp A a b = 0 \<longleftrightarrow> v a = v b)) \<and>
     (\<forall>a b r. v b \<noteq> 0 \<longrightarrow> held r \<longrightarrow> \<bar>v (da_div A a b) - v a / v b\<bar> \<le> \<bar>r - v a / v b\<bar>) \<and>
     (\<forall>a k m. v (da_toDecimalPlaces A a k m) = of_int (rounded m (v a * 10 ^ k)) / 10 ^ k)"

lemma arith_plus: "exact_arith D A v \<Longrightarrow> held (v a + v b) \<Longrightarrow> v (da_plus A a b) = v a + v b"
  and arith_minus: "exact_arith D A v \<Longrightarrow> held (v a - v b) \<Longrightarrow> v (da_minus A a b) = v a - v b"
  and arith_sign: "exact_arith D A v \<Longrightarrow> 0 < v (da_minus A a b) \<longleftrightarrow> v b < v a"
  and arith_times: "exact_arith D A v \<Longrightarrow> held (v a * v b) \<Longrightarrow> v (dj_times D a b) = v a * v b"
  and arith_zero: "exact_arith D A v \<Longrightarrow> da_isZero A a \<longleftrightarrow> v a = 0"
  and arith_cmp: "exact_arith D A v \<Longrightarrow>
    (da_cmp A a b < 0 \<longleftrightarrow> v a < v b) \<and> (da_cmp A a b = 0 \<longleftrightarrow> v a = v b)"
  and arith_div: "exact_arith D A v \<Longrightarrow> v b \<noteq> 0 \<Longrightarrow> held r \<Longrightarrow>
    \<bar>v (da_div A a b) - v a / v b\<bar> \<le> \<bar>r - v a / v b\<bar>"
  and arith_places: "exact_arith D A v \<Longrightarrow>
    v (da_toDecimalPlaces A a k m) = of_int (rounded m (v a * 10 ^ k)) / 10 ^ k"
  by (simp_all add: exact_arith_def)

lemma heldI: "\<bar>z\<bar> < 10 ^ 60 \<Longrightarrow> held (of_int z / 10 ^ 30)"
  by (auto simp: held_def)

lemma held_places:
  assumes "k \<le> 30" "\<bar>z\<bar> * 10 ^ (30 - k) < 10 ^ 60"
  shows "held (of_int z / 10 ^ k)"
proof -
  have "(of_int z / 10 ^ k :: rat) = of_int (z * 10 ^ (30 - k)) / 10 ^ 30"
    using assms(1) by (simp add: field_simps flip: power_add)
  moreover have "\<bar>z * 10 ^ (30 - k)\<bar> < 10 ^ 60" using assms(2) by (simp add: abs_mult)
  ultimately show ?thesis by (metis heldI)
qed

lemma held_int: "\<bar>z\<bar> < 10 ^ 30 \<Longrightarrow> held (of_int z)"
  using held_places [of 0 z] by simp

lemma dec_plain:
  assumes "exact_decimal D v" "plain_decimal (mv_amount m)"
  shows "dec D m = Inr (dj_new D (mv_amount m))" "v (dj_new D (mv_amount m)) = decimal_value (mv_amount m)"
  using toDecimal_plain [OF assms] by (simp_all add: dec_def as_amount_def)

lemma lift_value:
  assumes "exact_decimal D v"
  shows "plain_decimal (mv_amount (lift_money D d c))" "decimal_value (mv_amount (lift_money D d c)) = v d"
    "mv_currency (lift_money D d c) = c"
  using assms by (simp_all add: lift_money_def exact_decimal_def)

section \<open>Settlement with its rounding difference\<close>

lemma magnitude_near:
  "\<bar>of_int (magnitude m a) - a\<bar> < 1"
  "m \<in> {HALF_UP, HALF_EVEN} \<Longrightarrow> \<bar>of_int (magnitude m a) - a\<bar> \<le> 1 / 2"
proof -
  define f where "f = \<lfloor>a\<rfloor>"
  have "of_int f \<le> a" "a < of_int f + 1" using floor_correct [of a] by (simp_all add: f_def)
  then show "\<bar>of_int (magnitude m a) - a\<bar> < 1"
    "m \<in> {HALF_UP, HALF_EVEN} \<Longrightarrow> \<bar>of_int (magnitude m a) - a\<bar> \<le> 1 / 2"
    by (cases m; simp add: magnitude_def Let_def abs_less_iff abs_le_iff flip: f_def; linarith)+
qed

lemma rounded_diff:
  "of_int (rounded m q) - q =
     (if q < 0 then - (of_int (magnitude m (- q)) - - q) else of_int (magnitude m q) - q)"
  by (simp add: rounded_def)

lemma rounded_near:
  "\<bar>of_int (rounded m q) - q\<bar> < 1"
  "m \<in> {HALF_UP, HALF_EVEN} \<Longrightarrow> \<bar>of_int (rounded m q) - q\<bar> \<le> 1 / 2"
  using magnitude_near [of m q] magnitude_near [of m "- q"]
  unfolding rounded_diff by (cases "q < 0"; simp only: if_True if_False abs_minus_cancel)+

lemma magnitude_int [simp]: "magnitude m (of_int z) = z"
  by (cases m) (simp_all add: magnitude_def Let_def)

lemma rounded_int [simp]: "rounded m (of_int z) = z"
  using magnitude_int [of m "- z"] by (auto simp: rounded_def)

lemma rounded_down: "0 \<le> q \<Longrightarrow> rounded DOWN q = \<lfloor>q\<rfloor>"
  by (simp add: rounded_def magnitude_def Let_def)

lemma settle_residual:
  assumes D: "exact_decimal D v" and A: "exact_arith D A v" and m: "plain_decimal (mv_amount m)"
    and h: "held (decimal_value (mv_amount m) - of_int (rounded (rc_mode ctx) (decimal_value (mv_amount m)
        * 10 ^ resolveScale (mv_currency m) ctx)) / 10 ^ resolveScale (mv_currency m) ctx)"
  shows "\<exists>settled diff. settleWithResidual D A m ctx = Inr (settled, diff) \<and>
     decimal_value (mv_amount settled) + decimal_value (mv_amount diff) = decimal_value (mv_amount m) \<and>
     \<bar>decimal_value (mv_amount diff)\<bar> * 10 ^ resolveScale (mv_currency m) ctx < 1 \<and>
     (rc_mode ctx \<in> {HALF_UP, HALF_EVEN} \<longrightarrow>
       \<bar>decimal_value (mv_amount diff)\<bar> * 10 ^ resolveScale (mv_currency m) ctx \<le> 1 / 2)"
proof -
  let ?k = "resolveScale (mv_currency m) ctx" and ?x = "decimal_value (mv_amount m)"
  let ?d = "dj_new D (mv_amount m)"
  let ?r = "da_toDecimalPlaces A ?d ?k (rc_mode ctx)"
  let ?s = "lift_money D ?r (mv_currency m)"
  let ?R = "of_int (rounded (rc_mode ctx) (?x * 10 ^ ?k)) :: rat"
  have d: "dec D m = Inr ?d" "v ?d = ?x" using dec_plain [OF D m] by auto
  have s: "v ?r = ?R / 10 ^ ?k" using arith_places [OF A] d(2) by simp
  have settled: "round_money D A m ctx = Inr ?s" using d(1) by (simp add: round_money_def)
  note lifted = lift_value [OF D, of ?r "mv_currency m"]
  have sd: "dec D ?s = Inr (dj_new D (mv_amount ?s))" "v (dj_new D (mv_amount ?s)) = ?R / 10 ^ ?k"
    using dec_plain [OF D lifted(1)] lifted(2) s by auto
  let ?diff = "lift_money D (da_minus A ?d (dj_new D (mv_amount ?s))) (mv_currency m)"
  have "settleWithResidual D A m ctx = Inr (?s, ?diff)"
    using settled d(1) sd(1) lifted(3)
    by (simp add: settleWithResidual_def sub_money_def guard_currency_def both_def)
  moreover have "v (da_minus A ?d (dj_new D (mv_amount ?s))) = ?x - ?R / 10 ^ ?k"
    using arith_minus [OF A, of ?d "dj_new D (mv_amount ?s)"] h d(2) sd(2) by simp
  then have diff: "decimal_value (mv_amount ?diff) = ?x - ?R / 10 ^ ?k"
    using lift_value [OF D] by simp
  moreover have "decimal_value (mv_amount ?s) = ?R / 10 ^ ?k" using lifted(2) s by simp
  moreover have "\<bar>?x - ?R / 10 ^ ?k\<bar> * 10 ^ ?k = \<bar>?R - ?x * 10 ^ ?k\<bar>"
  proof -
    have "\<bar>?x - ?R / 10 ^ ?k\<bar> * 10 ^ ?k = \<bar>(?x - ?R / 10 ^ ?k) * 10 ^ ?k\<bar>" by (simp add: abs_mult)
    also have "(?x - ?R / 10 ^ ?k) * 10 ^ ?k = ?x * 10 ^ ?k - ?R" by (simp add: algebra_simps)
    finally show ?thesis by (simp add: abs_minus_commute)
  qed
  ultimately show ?thesis
    using rounded_near [of "rc_mode ctx" "?x * 10 ^ ?k"] by auto
qed

section \<open>Shares and their floors\<close>

text \<open>
  A quotient \<open>x\<close> that stands for the exact share \<open>t\<close>, both in units: it does not cross an integer
  and is near.
\<close>

definition close_share :: "rat \<Rightarrow> rat \<Rightarrow> bool" where
  "close_share t x \<longleftrightarrow> of_int \<lfloor>t\<rfloor> \<le> x \<and> x \<le> of_int \<lceil>t\<rceil> \<and> \<bar>x - t\<bar> \<le> 1 / 10 ^ 20"

lemma share_floor:
  assumes "close_share t x"
  shows "t < of_int \<lfloor>x\<rfloor> + 1" "of_int \<lfloor>x\<rfloor> - t \<le> 1 / 10 ^ 20"
    "of_int \<lfloor>x\<rfloor> < x \<Longrightarrow> of_int \<lfloor>x\<rfloor> < t" "\<not> of_int \<lfloor>x\<rfloor> < x \<Longrightarrow> t - of_int \<lfloor>x\<rfloor> \<le> 1 / 10 ^ 20"
proof -
  define f where "f = \<lfloor>x\<rfloor>"
  have c: "of_int \<lfloor>t\<rfloor> \<le> x" "x \<le> of_int \<lceil>t\<rceil>" "\<bar>x - t\<bar> \<le> 1 / 10 ^ 20"
    using assms by (simp_all add: close_share_def)
  have f: "of_int f \<le> x" "x < of_int f + 1" using floor_correct [of x] by (simp_all add: f_def)
  show "t < of_int \<lfloor>x\<rfloor> + 1"
  proof (rule ccontr)
    assume "\<not> t < of_int \<lfloor>x\<rfloor> + 1"
    then have "f + 1 \<le> \<lfloor>t\<rfloor>" by (simp add: f_def le_floor_iff)
    then have "(of_int (f + 1) :: rat) \<le> of_int \<lfloor>t\<rfloor>" by (simp only: of_int_le_iff)
    with c(1) f(2) show False by simp
  qed
  show "of_int \<lfloor>x\<rfloor> < t" if "of_int \<lfloor>x\<rfloor> < x"
  proof (rule ccontr)
    assume "\<not> of_int \<lfloor>x\<rfloor> < t"
    then have "\<lceil>t\<rceil> \<le> f" by (simp add: f_def ceiling_le_iff)
    then have "(of_int \<lceil>t\<rceil> :: rat) \<le> of_int f" by (simp only: of_int_le_iff)
    with c(2) that show False by (simp add: f_def)
  qed
  show "of_int \<lfloor>x\<rfloor> - t \<le> 1 / 10 ^ 20" "\<not> of_int \<lfloor>x\<rfloor> < x \<Longrightarrow> t - of_int \<lfloor>x\<rfloor> \<le> 1 / 10 ^ 20"
  proof -
    have "x - t \<le> 1 / 10 ^ 20" "t - x \<le> 1 / 10 ^ 20" using c(3) unfolding abs_le_iff by linarith+
    then show "of_int \<lfloor>x\<rfloor> - t \<le> 1 / 10 ^ 20"
      "\<not> of_int \<lfloor>x\<rfloor> < x \<Longrightarrow> t - of_int \<lfloor>x\<rfloor> \<le> 1 / 10 ^ 20"
      using f(1) unfolding f_def [symmetric] by linarith+
  qed
qed

lemma floors_sum:
  assumes "list_all2 close_share ts xs"
  shows "of_int (\<Sum>x\<leftarrow>xs. \<lfloor>x\<rfloor>) \<le> sum_list ts + of_nat (length xs) / 10 ^ 20"
    "sum_list ts \<le> of_int (\<Sum>x\<leftarrow>xs. \<lfloor>x\<rfloor>) + of_nat (length (filter (\<lambda>x. of_int \<lfloor>x\<rfloor> < x) xs))
       + of_nat (length xs) / 10 ^ 20"
  using assms
proof (induction rule: list_all2_induct)
  case (Cons t ts x xs)
  note f = share_floor [OF Cons.hyps(1)]
  {
    case 1
    show ?case using Cons.IH(1) f(2) by (simp add: add_divide_distrib)
  next
    case 2
    show ?case using Cons.IH(2) f(1,4) by (cases "of_int \<lfloor>x\<rfloor> < x") (simp_all add: add_divide_distrib)
  }
qed simp_all

lemma units_left:
  assumes "list_all2 close_share ts xs" "sum_list ts = of_int n" "length xs \<le> 10 ^ 6"
  shows "0 \<le> n - (\<Sum>x\<leftarrow>xs. \<lfloor>x\<rfloor>)"
    "n - (\<Sum>x\<leftarrow>xs. \<lfloor>x\<rfloor>) \<le> int (length (filter (\<lambda>x. of_int \<lfloor>x\<rfloor> < x) xs))"
proof -
  let ?F = "\<Sum>x\<leftarrow>xs. \<lfloor>x\<rfloor>" and ?p = "length (filter (\<lambda>x. of_int \<lfloor>x\<rfloor> < x) xs)"
  have "(of_nat (length xs) :: rat) \<le> of_nat (10 ^ 6)" using assms(3) by (simp only: of_nat_le_iff)
  then have e: "(of_nat (length xs) :: rat) / 10 ^ 20 < 1" by simp
  have "(of_int ?F :: rat) < of_int (n + 1)" using floors_sum(1) [OF assms(1)] assms(2) e by simp
  then show "0 \<le> n - ?F" by (simp only: of_int_less_iff)
  have "(of_int n :: rat) < of_int (?F + int ?p + 1)"
    using floors_sum(2) [OF assms(1)] assms(2) e by simp
  then show "n - ?F \<le> int ?p" by (simp only: of_int_less_iff)
qed

section \<open>The order of the remainders and the distribution\<close>

lemma insert_rem_mset [simp]: "mset (insert_rem A x ys) = add_mset x (mset ys)"
  by (induction ys) auto

lemma sort_rems_mset [simp]: "mset (sort_rems A xs) = mset xs"
  by (induction xs) (simp_all add: sort_rems_def)

lemma insert_rem_sorted:
  assumes "exact_arith D A v" "sorted_wrt (\<lambda>a b. v (snd b) \<le> v (snd a)) ys"
  shows "sorted_wrt (\<lambda>a b. v (snd b) \<le> v (snd a)) (insert_rem A x ys)"
  using assms(2)
proof (induction ys)
  case (Cons y ys)
  have mem: "set (insert_rem A x ys) = insert x (set ys)"
    using insert_rem_mset [of A x ys] by (metis set_mset_mset set_mset_add_mset_insert)
  have le: "rem_before A x y \<Longrightarrow> v (snd y) \<le> v (snd x)" "\<not> rem_before A x y \<Longrightarrow> v (snd x) \<le> v (snd y)"
    using arith_cmp [OF assms(1), of "snd y" "snd x"] by (auto simp: rem_before_def Let_def not_less)
  show ?case
  proof (cases "rem_before A x y")
    case True
    then show ?thesis using Cons.prems le by (auto intro: order_trans)
  next
    case False
    then show ?thesis using Cons mem le by simp
  qed
qed simp

lemma sort_rems_sorted:
  "exact_arith D A v \<Longrightarrow> sorted_wrt (\<lambda>a b. v (snd b) \<le> v (snd a)) (sort_rems A xs)"
  by (induction xs) (auto simp: sort_rems_def intro: insert_rem_sorted)

lemma leading_positive:
  fixes g :: "'a \<Rightarrow> rat"
  assumes "sorted_wrt (\<lambda>a b. g b \<le> g a) xs" "n \<le> length (filter (\<lambda>x. 0 < g x) xs)"
  shows "\<forall>x \<in> set (take n xs). 0 < g x"
  using assms
proof (induction xs arbitrary: n)
  case (Cons x xs)
  show ?case
  proof (cases "0 < g x")
    case True
    show ?thesis
    proof (cases n)
      case (Suc m)
      have "\<forall>y \<in> set (take m xs). 0 < g y"
        using Cons.prems True Suc by (intro Cons.IH) simp_all
      with True Suc show ?thesis by simp
    qed simp
  next
    case False
    have "\<not> 0 < g y" if "y \<in> set xs" for y
    proof -
      have "g y \<le> g x" using Cons.prems(1) that by simp
      with False show ?thesis by linarith
    qed
    then have "filter (\<lambda>x. 0 < g x) xs = []" by (simp add: filter_empty_conv)
    with False Cons.prems(2) have "n = 0" by simp
    then show ?thesis by simp
  qed
qed simp

lemma distribute_eq:
  assumes "distinct order" "set order = {..<length fl}" "n \<le> length order"
  shows "distribute A u order n fl =
     map (\<lambda>i. if i \<in> set (take n order) then da_plus A (fl ! i) u else fl ! i) [0..<length fl]"
  using assms(3)
proof (induction n)
  case 0
  show ?case by (simp add: distribute_def map_nth)
next
  case (Suc n)
  let ?g = "\<lambda>n i. if i \<in> set (take n order) then da_plus A (fl ! i) u else fl ! i"
  let ?i = "order ! n"
  have n: "n < length order" using Suc.prems by simp
  then have i: "?i < length fl" using assms(2) nth_mem by blast
  have fresh: "?i \<notin> set (take n order)"
    using assms(1) n by (metis id_take_nth_drop distinct.simps(2) distinct_append
        append_Cons not_distinct_conv_prefix)
  have take: "set (take (Suc n) order) = insert ?i (set (take n order))"
    using n by (simp add: take_Suc_conv_app_nth)
  have "distribute A u order (Suc n) fl =
      (let fl' = distribute A u order n fl in fl'[?i := da_plus A (fl' ! ?i) u])"
    using n by (simp add: distribute_def Let_def)
  also have "\<dots> = (map (?g n) [0..<length fl])[?i := da_plus A (fl ! ?i) u]"
    using Suc i fresh by (simp add: Let_def)
  also have "\<dots> = map (?g (Suc n)) [0..<length fl]"
    using i take by (intro nth_equalityI) (auto simp: nth_list_update)
  finally show ?case .
qed

lemma foldl_plus_value:
  assumes "exact_arith D A v" "\<forall>d \<in> set ds. \<exists>z. v d = of_int z / 10 ^ 30 \<and> \<bar>z\<bar> \<le> b"
    "v acc = of_int a / 10 ^ 30" "\<bar>a\<bar> + int (length ds) * b < 10 ^ 60"
  shows "v (foldl (da_plus A) acc ds) = v acc + (\<Sum>d\<leftarrow>ds. v d)"
  using assms(2-4)
proof (induction ds arbitrary: acc a)
  case (Cons d ds)
  obtain z where z: "v d = of_int z / 10 ^ 30" "\<bar>z\<bar> \<le> b" using Cons.prems(1) by auto
  have sum: "v acc + v d = of_int (a + z) / 10 ^ 30" using z Cons.prems(2) by (simp add: add_divide_distrib)
  have "0 \<le> b" using z(2) by linarith
  then have "0 \<le> int (length ds) * b" by simp
  then have bound: "\<bar>a + z\<bar> + int (length ds) * b < 10 ^ 60"
    using z(2) Cons.prems(3) by (simp add: algebra_simps)
  then have "\<bar>a + z\<bar> < 10 ^ 60" using \<open>0 \<le> int (length ds) * b\<close> by linarith
  then have v: "v (da_plus A acc d) = of_int (a + z) / 10 ^ 30"
    using arith_plus [OF assms(1), of acc d] heldI sum by metis
  from Cons.IH [OF _ v bound] Cons.prems(1) have
    "v (foldl (da_plus A) (da_plus A acc d) ds) = v (da_plus A acc d) + (\<Sum>d\<leftarrow>ds. v d)" by auto
  with v sum show ?case by simp
qed simp

section \<open>Allocation\<close>

lemma quotient_close:
  assumes A: "exact_arith D A v" and b: "v b \<noteq> 0" and T: "0 \<le> v a / v b" "v a / v b \<le> 10 ^ 15"
    and s: "s \<le> 10"
  shows "close_share (v a / v b * 10 ^ s) (v (da_div A a b) * 10 ^ s)"
proof -
  define T where "T = v a / v b"
  define q where "q = v (da_div A a b)"
  have near: "\<bar>q - T\<bar> \<le> \<bar>r - T\<bar>" if "held r" for r
    using arith_div [OF A b that, of a] by (simp add: q_def T_def)
  have T0: "0 \<le> T" "T \<le> 10 ^ 15" using T by (simp_all add: T_def)
  have p: "(10 :: rat) ^ s \<le> 10 ^ 10" using s by (intro power_increasing) simp_all
  have t: "0 \<le> T * 10 ^ s" "T * 10 ^ s \<le> 10 ^ 25"
    using T0 mult_mono [OF T0(2) p] by simp_all
  have held: "held (of_int k / 10 ^ s)" if "0 \<le> k" "k \<le> 10 ^ 25" for k :: int
  proof (rule held_places)
    have "(10 :: int) ^ (30 - s) \<le> 10 ^ 30" by (intro power_increasing) simp_all
    then have "\<bar>k\<bar> * 10 ^ (30 - s) \<le> 10 ^ 25 * 10 ^ 30" using that by (intro mult_mono) simp_all
    then show "\<bar>k\<bar> * 10 ^ (30 - s) < 10 ^ 60" by simp
  qed (use s in simp)
  have "\<lfloor>T * 10 ^ s\<rfloor> \<le> 10 ^ 25" "\<lceil>T * 10 ^ s\<rceil> \<le> 10 ^ 25" "0 \<le> \<lfloor>T * 10 ^ s\<rfloor>" "0 \<le> \<lceil>T * 10 ^ s\<rceil>"
    using t by (simp_all add: floor_le_iff ceiling_le_iff le_ceiling_iff)
  then have "held (of_int \<lfloor>T * 10 ^ s\<rfloor> / 10 ^ s)" "held (of_int \<lceil>T * 10 ^ s\<rceil> / 10 ^ s)"
    by (simp_all add: held)
  note near' = near [OF this(1)] near [OF this(2)]
  have "of_int \<lfloor>T * 10 ^ s\<rfloor> / 10 ^ s \<le> T" "T \<le> of_int \<lceil>T * 10 ^ s\<rceil> / 10 ^ s"
    by (simp_all add: field_simps)
  with near' have "of_int \<lfloor>T * 10 ^ s\<rfloor> / 10 ^ s \<le> q" "q \<le> of_int \<lceil>T * 10 ^ s\<rceil> / 10 ^ s" by linarith+
  then have bounds: "of_int \<lfloor>T * 10 ^ s\<rfloor> \<le> q * 10 ^ s" "q * 10 ^ s \<le> of_int \<lceil>T * 10 ^ s\<rceil>"
    by (simp_all add: field_simps)
  let ?z = "\<lfloor>T * 10 ^ 30\<rfloor>"
  have "T * 10 ^ 30 \<le> 10 ^ 15 * 10 ^ 30" using T0(2) by (rule mult_right_mono) simp
  then have "0 \<le> ?z" "?z \<le> 10 ^ 45" using T0(1) by (simp_all add: floor_le_iff)
  then have "held (of_int ?z / 10 ^ 30)" by (intro heldI) simp
  note n = near [OF this]
  have "of_int ?z \<le> T * 10 ^ 30" "T * 10 ^ 30 < of_int ?z + 1" using floor_correct [of "T * 10 ^ 30"] by simp_all
  then have "of_int ?z / 10 ^ 30 \<le> T" "T - of_int ?z / 10 ^ 30 \<le> 1 / 10 ^ 30" by simp_all
  with n have "\<bar>q - T\<bar> \<le> 1 / 10 ^ 30" by linarith
  then have "\<bar>q - T\<bar> * 10 ^ s \<le> 1 / 10 ^ 30 * 10 ^ 10" using p by (intro mult_mono) simp_all
  moreover have "\<bar>q * 10 ^ s - T * 10 ^ s\<bar> = \<bar>q - T\<bar> * 10 ^ s" by (simp add: abs_mult flip: left_diff_distrib)
  ultimately have "\<bar>q * 10 ^ s - T * 10 ^ s\<bar> \<le> 1 / 10 ^ 20" by simp
  with bounds show ?thesis unfolding close_share_def q_def T_def by blast
qed

lemma unit_text_value: "plain_decimal (unit_text s)" "decimal_value (unit_text s) = 1 / 10 ^ s"
proof -
  have one: "nat_str (Suc 0) = ''1''" by code_simp
  have "unit_text s = minor_string 1 s"
    by (cases s) (simp_all add: unit_text_def minor_string_def padStart_def int_str_def Let_def one)
  then show "plain_decimal (unit_text s)" "decimal_value (unit_text s) = 1 / 10 ^ s"
    using minor_string_ok [of 1 s] by simp_all
qed

text \<open>The totals and weights considered: up to \<open>10 ^ 15\<close> units of at most ten places.\<close>

definition allocatable :: "money_value \<Rightarrow> string list \<Rightarrow> nat \<Rightarrow> int \<Rightarrow> bool" where
  "allocatable tot weights scale n \<longleftrightarrow>
     plain_decimal (mv_amount tot) \<and> decimal_value (mv_amount tot) = of_int n / 10 ^ scale \<and>
     0 \<le> n \<and> n \<le> 10 ^ 15 \<and> scale \<le> 10 \<and> length weights \<le> 10 ^ 6 \<and>
     (\<forall>w \<in> set weights. plain_decimal w \<and>
        0 \<le> decimal_value w \<and> decimal_value w \<le> 10 ^ 9 \<and> decimal_value w * 10 ^ 10 \<in> \<int>) \<and>
     (\<exists>w \<in> set weights. decimal_value w \<noteq> 0)"

lemma res_map_Inr: "(\<forall>x \<in> set xs. f x = Inr (g x)) \<Longrightarrow> res_map f xs = Inr (map g xs)"
  by (induction xs) auto

lemma sum_positive:
  fixes g :: "'a \<Rightarrow> rat"
  assumes "\<forall>x \<in> set xs. 0 \<le> g x" "x \<in> set xs"
  shows "g x \<le> (\<Sum>x\<leftarrow>xs. g x)"
  using assms
proof (induction xs)
  case (Cons y ys)
  have "0 \<le> (\<Sum>x\<leftarrow>ys. g x)" using Cons.prems(1) by (intro sum_list_nonneg) auto
  with Cons show ?case by auto
qed simp

lemma weights_sum:
  assumes D: "exact_decimal D v" and A: "exact_arith D A v"
    and w: "\<forall>w \<in> set ws. plain_decimal w \<and> 0 \<le> decimal_value w \<and> decimal_value w \<le> 10 ^ 9
      \<and> decimal_value w * 10 ^ 10 \<in> \<int>" "length ws \<le> 10 ^ 6"
  shows "v (foldl (da_plus A) (dj_new D ''0'') (map (dj_new D) ws)) = (\<Sum>w\<leftarrow>ws. decimal_value w)"
proof -
  have new: "v (dj_new D w) = decimal_value w" if "plain_decimal w" for w
    using D that by (simp add: exact_decimal_def)
  have zero: "v (dj_new D ''0'') = 0"
  proof -
    have "plain_decimal ''0''" "decimal_value ''0'' = 0" by code_simp+
    with new show ?thesis by metis
  qed
  have "v (foldl (da_plus A) (dj_new D ''0'') (map (dj_new D) ws)) =
      v (dj_new D ''0'') + (\<Sum>d\<leftarrow>map (dj_new D) ws. v d)"
  proof (rule foldl_plus_value [OF A])
    show "\<forall>d \<in> set (map (dj_new D) ws). \<exists>z. v d = of_int z / 10 ^ 30 \<and> \<bar>z\<bar> \<le> 10 ^ 39"
    proof
      fix d assume "d \<in> set (map (dj_new D) ws)"
      then obtain x where x: "x \<in> set ws" "d = dj_new D x" by auto
      with w(1) obtain z where z: "decimal_value x * 10 ^ 10 = of_int z" by (metis Ints_cases)
      have v: "v d = decimal_value x" using x w(1) new by simp
      have "0 \<le> decimal_value x" "decimal_value x \<le> 10 ^ 9" using x(1) w(1) by auto
      then have "(of_int 0 :: rat) \<le> of_int z" "(of_int z :: rat) \<le> of_int (10 ^ 19)"
        using z by simp_all
      then have "0 \<le> z" "z \<le> 10 ^ 19" by (simp_all only: of_int_le_iff)
      then have "\<bar>z * 10 ^ 20\<bar> \<le> 10 ^ 39" by simp
      moreover have "v d = of_int (z * 10 ^ 20) / 10 ^ 30" using z unfolding v by simp
      ultimately show "\<exists>z. v d = of_int z / 10 ^ 30 \<and> \<bar>z\<bar> \<le> 10 ^ 39" by blast
    qed
    show "v (dj_new D ''0'') = of_int 0 / 10 ^ 30" using zero by simp
    have "int (length (map (dj_new D) ws)) \<le> 10 ^ 6" using w(2) by simp
    then have "int (length (map (dj_new D) ws)) * 10 ^ 39 \<le> 10 ^ 6 * 10 ^ 39" by (rule mult_right_mono) simp
    then show "\<bar>0\<bar> + int (length (map (dj_new D) ws)) * 10 ^ 39 < 10 ^ 60" by simp
  qed
  also have "map v (map (dj_new D) ws) = map decimal_value ws" using w(1) new by simp
  finally show ?thesis using zero by simp
qed

lemma slice_facts:
  assumes D: "exact_decimal D v" and A: "exact_arith D A v"
    and T: "v tD = of_int n / 10 ^ s" "0 \<le> n" "n \<le> 10 ^ 15" "s \<le> 10"
    and w: "0 \<le> v d" "v d \<le> 10 ^ 9" "v d * 10 ^ 10 \<in> \<int>" "v d \<le> v W" "0 < v W"
  shows "close_share (of_int n * (v d / v W)) (v (da_div A (dj_times D tD d) W) * 10 ^ s)"
    "v (da_toDecimalPlaces A (da_div A (dj_times D tD d) W) s DOWN) =
       of_int \<lfloor>v (da_div A (dj_times D tD d) W) * 10 ^ s\<rfloor> / 10 ^ s"
    "0 \<le> \<lfloor>v (da_div A (dj_times D tD d) W) * 10 ^ s\<rfloor>"
    "\<lfloor>v (da_div A (dj_times D tD d) W) * 10 ^ s\<rfloor> \<le> 10 ^ 15"
proof -
  define q where "q = da_div A (dj_times D tD d) W"
  have n: "(0 :: rat) \<le> of_int n" "(of_int n :: rat) \<le> 10 ^ 15"
  proof -
    show "(0 :: rat) \<le> of_int n" using T(2) by simp
    have "(of_int n :: rat) \<le> of_int (10 ^ 15)" using T(3) by (simp only: of_int_le_iff)
    then show "(of_int n :: rat) \<le> 10 ^ 15" by simp
  qed
  obtain z where z: "v d * 10 ^ 10 = of_int z" using w(3) by (metis Ints_cases)
  have zb: "0 \<le> z" "z \<le> 10 ^ 19"
  proof -
    have "(of_int 0 :: rat) \<le> of_int z" "(of_int z :: rat) \<le> of_int (10 ^ 19)" using z w(1,2) by simp_all
    then show "0 \<le> z" "z \<le> 10 ^ 19" by (simp_all only: of_int_le_iff)
  qed
  have "held (of_int (n * z) / 10 ^ (s + 10))"
  proof (rule held_places)
    have "n * z \<le> 10 ^ 15 * 10 ^ 19" using T(2,3) zb by (intro mult_mono) simp_all
    moreover have "(10 :: int) ^ (30 - (s + 10)) \<le> 10 ^ 20" by (intro power_increasing) simp_all
    moreover have "0 \<le> n * z" using T(2) zb(1) by simp
    ultimately have "\<bar>n * z\<bar> * 10 ^ (30 - (s + 10)) \<le> (10 ^ 15 * 10 ^ 19) * 10 ^ 20"
      by (intro mult_mono) simp_all
    then show "\<bar>n * z\<bar> * 10 ^ (30 - (s + 10)) < 10 ^ 60" by simp
  qed (use T(4) in simp)
  moreover have "of_int (n * z) / 10 ^ (s + 10) = v tD * v d"
    using T(1) by (simp add: power_add flip: z)
  ultimately have prod: "v (dj_times D tD d) = v tD * v d" using arith_times [OF A] by metis
  have ratio: "0 \<le> v d / v W" "v d / v W \<le> 1" using w by simp_all
  have share: "v (dj_times D tD d) / v W * 10 ^ s = of_int n * (v d / v W)"
    using prod T(1) by simp
  have nw: "of_int n * (v d / v W) \<le> 10 ^ 15" "0 \<le> of_int n * (v d / v W)"
  proof -
    have "of_int n * (v d / v W) \<le> 10 ^ 15 * 1" using n ratio by (intro mult_mono) simp_all
    then show "of_int n * (v d / v W) \<le> 10 ^ 15" by simp
    show "0 \<le> of_int n * (v d / v W)" by (rule mult_nonneg_nonneg [OF n(1) ratio(1)])
  qed
  have pos: "0 \<le> v (dj_times D tD d) / v W"
  proof -
    have "0 \<le> v (dj_times D tD d)" using prod T(1) n(1) w(1) by simp
    with w(5) show ?thesis by simp
  qed
  then have "v (dj_times D tD d) / v W * 1 \<le> v (dj_times D tD d) / v W * 10 ^ s"
    by (intro mult_left_mono) simp_all
  then have "v (dj_times D tD d) / v W \<le> 10 ^ 15" using nw(1) unfolding share by simp
  from quotient_close [OF A _ pos this T(4)] w(5)
  have close: "close_share (of_int n * (v d / v W)) (v q * 10 ^ s)"
    unfolding share q_def by simp
  then show "close_share (of_int n * (v d / v W)) (v (da_div A (dj_times D tD d) W) * 10 ^ s)"
    by (simp add: q_def)
  define t where "t = of_int n * (v d / v W)"
  have "0 \<le> \<lfloor>t\<rfloor>" "\<lceil>t\<rceil> \<le> 10 ^ 15" using nw unfolding t_def [symmetric] by (simp_all add: ceiling_le_iff)
  then have "(of_int 0 :: rat) \<le> of_int \<lfloor>t\<rfloor>" "(of_int \<lceil>t\<rceil> :: rat) \<le> of_int (10 ^ 15)"
    by (simp_all only: of_int_le_iff)
  moreover have "of_int \<lfloor>t\<rfloor> \<le> v q * 10 ^ s" "v q * 10 ^ s \<le> of_int \<lceil>t\<rceil>"
    using close unfolding t_def [symmetric] close_share_def by simp_all
  ultimately have "of_int 0 \<le> v q * 10 ^ s" "v q * 10 ^ s \<le> of_int (10 ^ 15)"
    by (blast intro: order_trans)+
  then have q: "0 \<le> v q * 10 ^ s" "v q * 10 ^ s \<le> 10 ^ 15" by simp_all
  then show "v (da_toDecimalPlaces A (da_div A (dj_times D tD d) W) s DOWN) =
       of_int \<lfloor>v (da_div A (dj_times D tD d) W) * 10 ^ s\<rfloor> / 10 ^ s"
    "0 \<le> \<lfloor>v (da_div A (dj_times D tD d) W) * 10 ^ s\<rfloor>"
    "\<lfloor>v (da_div A (dj_times D tD d) W) * 10 ^ s\<rfloor> \<le> 10 ^ 15"
    using arith_places [OF A, of q s DOWN] by (simp_all add: rounded_down floor_le_iff flip: q_def)
qed

lemma order_facts:
  assumes A: "exact_arith D A v" and k: "k \<le> length (filter (\<lambda>d. 0 < v d) rems)"
  defines "order \<equiv> map fst (sort_rems A (enumerate 0 rems))"
  shows "distinct order" "set order = {..<length rems}" "length order = length rems" "k \<le> length order"
    "set (take k order) \<subseteq> {i. i < length rems \<and> 0 < v (rems ! i)}" "card (set (take k order)) = k"
proof -
  let ?s = "sort_rems A (enumerate 0 rems)"
  have ms: "mset ?s = mset (enumerate 0 rems)" by simp
  then have "mset order = mset (map fst (enumerate 0 rems))"
    by (simp add: order_def del: map_fst_enumerate)
  then have mo: "mset order = mset [0..<length rems]" by (simp only: map_fst_enumerate) simp
  then show d: "distinct order" using mset_eq_imp_distinct_iff distinct_upt by blast
  have "set order = set [0..<length rems]" by (rule mset_eq_setD [OF mo])
  then show "set order = {..<length rems}" by (simp only: set_upt atLeast0LessThan)
  have "length order = length [0..<length rems]" by (rule mset_eq_length [OF mo])
  then show len: "length order = length rems" by (simp only: length_upt diff_zero)
  have pos: "length (filter (\<lambda>x. 0 < v (snd x)) ?s) = length (filter (\<lambda>d. 0 < v d) rems)"
  proof -
    have "size (filter_mset (\<lambda>x. 0 < v (snd x)) (mset ?s)) =
        size (filter_mset (\<lambda>x. 0 < v (snd x)) (mset (enumerate 0 rems)))" by (simp only: ms)
    then have "length (filter (\<lambda>x. 0 < v (snd x)) ?s) =
        length (filter (\<lambda>x. 0 < v (snd x)) (enumerate 0 rems))"
      by (metis mset_filter size_mset)
    also have "\<dots> = length (filter (\<lambda>d. 0 < v d) (map snd (enumerate 0 rems)))"
      by (simp add: filter_map comp_def del: map_snd_enumerate)
    finally show ?thesis by simp
  qed
  show k': "k \<le> length order" unfolding len by (rule order_trans [OF k length_filter_le])
  have lead: "\<forall>x \<in> set (take k ?s). 0 < v (snd x)"
    by (rule leading_positive [OF sort_rems_sorted [OF A]]) (simp only: pos k)
  have mem: "x \<in> set ?s \<Longrightarrow> fst x < length rems \<and> snd x = rems ! fst x" for x
    using mset_eq_setD [OF ms] by (auto simp: in_set_enumerate_eq)
  show "set (take k order) \<subseteq> {i. i < length rems \<and> 0 < v (rems ! i)}"
  proof
    fix i assume "i \<in> set (take k order)"
    then obtain x where x: "x \<in> set (take k ?s)" "i = fst x" by (auto simp: order_def take_map)
    have "0 < v (snd x)" "fst x < length rems \<and> snd x = rems ! fst x"
      using lead mem [OF in_set_takeD [OF x(1)]] x(1) by blast+
    with x(2) show "i \<in> {i. i < length rems \<and> 0 < v (rems ! i)}" by simp
  qed
  show "card (set (take k order)) = k"
    using d k' by (simp add: distinct_card distinct_take)
qed

lemma distributed:
  assumes A: "exact_arith D A v" and k: "k \<le> length (filter (\<lambda>d. 0 < v d) rems)"
    and fl: "length fl = length rems" "\<And>i. i < length fl \<Longrightarrow> v (fl ! i) = of_int (F i) / 10 ^ s"
      "\<And>i. i < length fl \<Longrightarrow> 0 \<le> F i \<and> F i \<le> 10 ^ 15"
    and u: "v u = 1 / 10 ^ s" "s \<le> 10"
  defines "out \<equiv> distribute A u (map fst (sort_rems A (enumerate 0 rems))) k fl"
  obtains S where "length out = length fl" "S \<subseteq> {i. i < length rems \<and> 0 < v (rems ! i)}" "card S = k"
    "\<And>i. i < length fl \<Longrightarrow> v (out ! i) = of_int (F i + (if i \<in> S then 1 else 0)) / 10 ^ s"
proof -
  let ?order = "map fst (sort_rems A (enumerate 0 rems))"
  let ?S = "set (take k ?order)"
  note o = order_facts [OF A k]
  have out: "out = map (\<lambda>i. if i \<in> ?S then da_plus A (fl ! i) u else fl ! i) [0..<length fl]"
    unfolding out_def using o(1,2,4) fl(1) by (intro distribute_eq) simp_all
  have "v (da_plus A (fl ! i) u) = of_int (F i + 1) / 10 ^ s" if "i < length fl" for i
  proof -
    have sum: "v (fl ! i) + v u = of_int (F i + 1) / 10 ^ s"
      using fl(2) [OF that] u(1) by (simp add: add_divide_distrib)
    have "held (of_int (F i + 1) / 10 ^ s)"
    proof (rule held_places)
      have "(10 :: int) ^ (30 - s) \<le> 10 ^ 30" by (intro power_increasing) simp_all
      then have "\<bar>F i + 1\<bar> * 10 ^ (30 - s) \<le> (10 ^ 15 + 1) * 10 ^ 30"
        using fl(3) [OF that] by (intro mult_mono) simp_all
      then show "\<bar>F i + 1\<bar> * 10 ^ (30 - s) < 10 ^ 60" by simp
    qed (use u(2) in simp)
    then show ?thesis using arith_plus [OF A, of "fl ! i" u] sum by simp
  qed
  then have "v (out ! i) = of_int (F i + (if i \<in> ?S then 1 else 0)) / 10 ^ s" if "i < length fl" for i
    using that fl(2) by (simp add: out)
  moreover have "length out = length fl" by (simp add: out)
  ultimately show thesis using that o(5,6) by blast
qed

lemma share_after:
  assumes "close_share t x" "of_int \<lfloor>x\<rfloor> < x \<or> \<not> extra"
  shows "\<bar>of_int (\<lfloor>x\<rfloor> + (if extra then 1 else 0)) - t\<bar> < 1"
proof -
  note f = share_floor [OF assms(1)]
  have "(1 :: rat) / 10 ^ 20 < 1" by simp
  then have "of_int \<lfloor>x\<rfloor> - t < 1" using f(2) by (rule order_le_less_trans [rotated])
  then show ?thesis using f(1,3) assms(2) by (cases extra) (auto simp: abs_less_iff)
qed

lemma of_int_sum: "(of_int (\<Sum>x\<leftarrow>xs. f x) :: rat) = (\<Sum>x\<leftarrow>xs. of_int (f x))"
  by (induction xs) simp_all

lemma rounds_left:
  assumes D: "exact_decimal D v" and A: "exact_arith D A v" and s: "s \<le> 10"
    and n: "v tD = of_int n / 10 ^ s" and z: "v z = 0" and u: "v u = 1 / 10 ^ s"
    and fl: "\<And>d. d \<in> set fl \<Longrightarrow> \<exists>f. v d = of_int f / 10 ^ s \<and> 0 \<le> f \<and> f \<le> 10 ^ 15" "length fl \<le> 10 ^ 6"
    and m: "(\<Sum>d\<leftarrow>fl. v d) = of_int m / 10 ^ s" "0 \<le> n - m" "n - m \<le> 10 ^ 6"
  shows "rounds_of (dj_toFixed0 D (da_toDecimalPlaces A
    (da_div A (da_minus A tD (foldl (da_plus A) z fl)) u) 0 HALF_UP)) = nat (n - m)"
proof -
  let ?sum = "foldl (da_plus A) z fl"
  have p: "(10 :: int) ^ (30 - s) \<le> 10 ^ 30" by (intro power_increasing) simp_all
  have "v ?sum = v z + (\<Sum>d\<leftarrow>fl. v d)"
  proof (rule foldl_plus_value [OF A])
    show "\<forall>d \<in> set fl. \<exists>z. v d = of_int z / 10 ^ 30 \<and> \<bar>z\<bar> \<le> 10 ^ 45"
    proof
      fix d assume "d \<in> set fl"
      with fl(1) obtain f where f: "v d = of_int f / 10 ^ s" "0 \<le> f" "f \<le> 10 ^ 15" by blast
      have "v d = of_int (f * 10 ^ (30 - s)) / 10 ^ (30 - s + s)" unfolding f(1) power_add by simp
      also have "30 - s + s = 30" using s by simp
      finally have "v d = of_int (f * 10 ^ (30 - s)) / 10 ^ 30" .
      moreover have "\<bar>f * 10 ^ (30 - s)\<bar> \<le> 10 ^ 15 * 10 ^ 30"
        unfolding abs_mult using f p by (intro mult_mono) simp_all
      ultimately show "\<exists>z. v d = of_int z / 10 ^ 30 \<and> \<bar>z\<bar> \<le> 10 ^ 45" by fastforce
    qed
    show "v z = of_int 0 / 10 ^ 30" using z by simp
    have "int (length fl) * 10 ^ 45 \<le> 10 ^ 6 * 10 ^ 45" using fl(2) by (intro mult_right_mono) simp_all
    then show "\<bar>0\<bar> + int (length fl) * 10 ^ 45 < 10 ^ 60" by simp
  qed
  then have diff: "v tD - v ?sum = of_int (n - m) / 10 ^ s"
    using n z m(1) by (simp add: diff_divide_distrib)
  have "held (of_int (n - m) / 10 ^ s)"
  proof (rule held_places)
    have "\<bar>n - m\<bar> * 10 ^ (30 - s) \<le> 10 ^ 6 * 10 ^ 30" using m(2,3) p by (intro mult_mono) simp_all
    then show "\<bar>n - m\<bar> * 10 ^ (30 - s) < 10 ^ 60" by simp
  qed (use s in simp)
  then have short: "v (da_minus A tD ?sum) = of_int (n - m) / 10 ^ s"
    using arith_minus [OF A, of tD ?sum] diff by simp
  have "held (of_int (n - m))" using m(2,3) by (intro held_int) simp
  then have "v (da_div A (da_minus A tD ?sum) u) = of_int (n - m)"
    using arith_div [OF A, of u "of_int (n - m)" "da_minus A tD ?sum"] short u by simp
  then have "v (da_toDecimalPlaces A (da_div A (da_minus A tD ?sum) u) 0 HALF_UP) = of_int (n - m)"
    using arith_places [OF A, of "da_div A (da_minus A tD ?sum) u" 0 HALF_UP] by (simp flip: of_int_diff)
  then have "dj_toFixed0 D (da_toDecimalPlaces A (da_div A (da_minus A tD ?sum) u) 0 HALF_UP) = int_str (n - m)"
    using D by (simp add: exact_decimal_def)
  then show ?thesis by (simp add: rounds_of_def)
qed

lemma scaled_near:
  fixes x :: rat
  assumes "\<bar>x - y * r\<bar> < 1" "0 < c"
  shows "\<bar>x / c - y / c * r\<bar> < 1 / c"
proof -
  have "x / c - y / c * r = (x - y * r) / c" by (simp add: diff_divide_distrib)
  then have "\<bar>x / c - y / c * r\<bar> = \<bar>x - y * r\<bar> / c" using assms(2) by simp
  then show ?thesis using divide_strict_right_mono [OF assms] by simp
qed

text \<open>The values of the slices: floors of the shares, in units, and one more unit for some.\<close>

lemma allocate_values:
  assumes D: "exact_decimal D v" and A: "exact_arith D A v"
    and ok: "allocatable tot weights (resolveScale (mv_currency tot) ctx) n"
  defines "s \<equiv> resolveScale (mv_currency tot) ctx"
    and "t \<equiv> \<lambda>w. of_int n * (decimal_value w / (\<Sum>w\<leftarrow>weights. decimal_value w))"
  shows "\<exists>out xs S. allocate D A tot weights ctx = Inr (map (\<lambda>d. lift_money D d (mv_currency tot)) out) \<and>
     list_all2 close_share (map t weights) xs \<and> length out = length weights \<and>
     S \<subseteq> {i. i < length weights \<and> of_int \<lfloor>xs ! i\<rfloor> < xs ! i} \<and> int (card S) = n - (\<Sum>x\<leftarrow>xs. \<lfloor>x\<rfloor>) \<and>
     (\<forall>i < length weights. v (out ! i) = of_int (\<lfloor>xs ! i\<rfloor> + (if i \<in> S then 1 else 0)) / 10 ^ s)"
proof -
  let ?W = "\<Sum>w\<leftarrow>weights. decimal_value w"
  note ok = ok [unfolded allocatable_def, folded s_def]
  have new: "v (dj_new D w) = decimal_value w" "toDecimal D w = Inr (dj_new D w)" if "plain_decimal w" for w
    using toDecimal_plain [OF D that] by simp_all
  define ws where "ws = map (dj_new D) weights"
  define z where "z = dj_new D ''0''"
  define W where "W = foldl (da_plus A) z ws"
  define tD where "tD = dj_new D (mv_amount tot)"
  define u where "u = dj_new D (unit_text s)"
  define share where "share = (\<lambda>d. da_div A (dj_times D tD d) W)"
  define down where "down = (\<lambda>d. da_toDecimalPlaces A (share d) s DOWN)"
  define xs where "xs = map (\<lambda>d. v (share d) * 10 ^ s) ws"
  define fl where "fl = map down ws"
  define rems where "rems = map (\<lambda>d. da_minus A (share d) (down d)) ws"
  have zero: "toDecimal D ''0'' = Inr z" "v z = 0"
  proof -
    have "plain_decimal ''0''" "decimal_value ''0'' = 0" by code_simp+
    then show "toDecimal D ''0'' = Inr z" "v z = 0" using new by (simp_all add: z_def)
  qed
  have u: "toDecimal D (unit_text s) = Inr u" "v u = 1 / 10 ^ s"
    using new [OF unit_text_value(1)] unit_text_value(2) by (simp_all add: u_def)
  have tD: "dec D tot = Inr tD" "v tD = of_int n / 10 ^ s" using dec_plain [OF D] ok by (simp_all add: tD_def)
  have vW: "v W = ?W" unfolding W_def z_def ws_def using ok by (intro weights_sum [OF D A]) auto
  have Wpos: "0 < ?W"
  proof -
    obtain w where "w \<in> set weights" "decimal_value w \<noteq> 0" using ok by blast
    with sum_positive [of weights decimal_value w] ok show ?thesis by force
  qed
  have fact: "close_share (t w) (v (share (dj_new D w)) * 10 ^ s)"
    "v (down (dj_new D w)) = of_int \<lfloor>v (share (dj_new D w)) * 10 ^ s\<rfloor> / 10 ^ s"
    "0 \<le> \<lfloor>v (share (dj_new D w)) * 10 ^ s\<rfloor>" "\<lfloor>v (share (dj_new D w)) * 10 ^ s\<rfloor> \<le> 10 ^ 15"
    if "w \<in> set weights" for w
    unfolding t_def share_def down_def vW [symmetric]
    using slice_facts [OF D A tD(2), of "dj_new D w" W] that ok Wpos vW new(1) [of w]
      sum_positive [of weights decimal_value w] by simp_all
  have close: "list_all2 close_share (map t weights) xs"
    using fact(1) by (simp add: xs_def ws_def list_all2_conv_all_nth)
  have len: "length xs = length weights" "length fl = length weights" "length rems = length weights"
    by (simp_all add: xs_def fl_def rems_def ws_def)
  have sum_t: "sum_list (map t weights) = of_int n"
  proof -
    have "map t weights = map (\<lambda>w. of_int n / ?W * decimal_value w) weights" by (simp add: t_def)
    then have "sum_list (map t weights) = of_int n / ?W * ?W" by (simp only: sum_list_const_mult)
    with Wpos show ?thesis by simp
  qed
  have "length xs \<le> 10 ^ 6" using len ok by simp
  note left = units_left [OF close sum_t this]
  define k where "k = nat (n - (\<Sum>x\<leftarrow>xs. \<lfloor>x\<rfloor>))"
  have sign: "0 < v (rems ! i) \<longleftrightarrow> of_int \<lfloor>xs ! i\<rfloor> < xs ! i" if "i < length weights" for i
    using that fact(2) [of "weights ! i"] arith_sign [OF A]
    by (simp add: rems_def xs_def ws_def divide_less_eq)
  have "k \<le> length (filter (\<lambda>d. 0 < v d) rems)"
  proof -
    have "{i. i < length rems \<and> 0 < v (rems ! i)} = {i. i < length xs \<and> of_int \<lfloor>xs ! i\<rfloor> < xs ! i}"
      using sign len by auto
    then show ?thesis using left(2) by (simp add: k_def length_filter_conv_card)
  qed
  from distributed [OF A this, of fl "\<lambda>i. \<lfloor>xs ! i\<rfloor>" s u] u(2) ok len fact
  obtain S where S: "length (distribute A u (map fst (sort_rems A (enumerate 0 rems))) k fl) = length weights"
    "S \<subseteq> {i. i < length weights \<and> 0 < v (rems ! i)}" "card S = k"
    "\<And>i. i < length weights \<Longrightarrow> v (distribute A u (map fst (sort_rems A (enumerate 0 rems))) k fl ! i) =
       of_int (\<lfloor>xs ! i\<rfloor> + (if i \<in> S then 1 else 0)) / 10 ^ s"
    by (auto simp: fl_def xs_def ws_def)
  have "rounds_of (dj_toFixed0 D (da_toDecimalPlaces A
      (da_div A (da_minus A tD (foldl (da_plus A) z fl)) u) 0 HALF_UP)) = k"
    unfolding k_def
  proof (rule rounds_left [OF D A _ tD(2) zero(2) u(2)])
    show "\<exists>f. v d = of_int f / 10 ^ s \<and> 0 \<le> f \<and> f \<le> 10 ^ 15" if "d \<in> set fl" for d
      using that fact by (auto simp: fl_def ws_def)
    have "map v fl = map (\<lambda>x. 1 / 10 ^ s * of_int \<lfloor>x\<rfloor>) xs" using fact(2) by (simp add: fl_def xs_def ws_def)
    then show "(\<Sum>d\<leftarrow>fl. v d) = of_int (\<Sum>x\<leftarrow>xs. \<lfloor>x\<rfloor>) / 10 ^ s"
      by (simp only: sum_list_const_mult) (simp add: of_int_sum)
    have "length (filter (\<lambda>x. of_int \<lfloor>x\<rfloor> < x) xs) \<le> 10 ^ 6"
      using length_filter_le [of "\<lambda>x. of_int \<lfloor>x\<rfloor> < x" xs] len(1) ok by linarith
    with left(2) show "n - (\<Sum>x\<leftarrow>xs. \<lfloor>x\<rfloor>) \<le> 10 ^ 6" by simp
  qed (use ok len left(1) in simp_all)
  moreover have "res_map (floor_slice D A tD W s) ws = Inr (map (\<lambda>d. (down d, da_minus A (share d) (down d))) ws)"
    using Wpos vW arith_zero [OF A]
    by (intro res_map_Inr) (simp add: floor_slice_def divD_def share_def down_def Let_def)
  moreover have "res_map (toDecimal D) weights = Inr ws"
    unfolding ws_def using ok new(2) by (intro res_map_Inr) auto
  moreover have "weights \<noteq> []" "\<not> da_isZero A W" "\<not> da_isZero A u"
    using Wpos vW u(2) arith_zero [OF A] by auto
  ultimately have "allocate D A tot weights ctx = Inr (map (\<lambda>d. lift_money D d (mv_currency tot))
      (distribute A u (map fst (sort_rems A (enumerate 0 rems))) k fl))"
    using tD(1) zero(1) u(1)
    by (simp add: allocate_def as_amount_def divD_def comp_def fl_def rems_def Let_def
        flip: s_def W_def)
  then show ?thesis
    using close S sign left(1) by (intro exI [of _ xs] exI [of _ S] exI conjI) (auto simp: k_def)
qed


section \<open>Decimals as pairs\<close>

text \<open>
  A Decimal as digits and places, with quotients to 30 places: an instance of what is assumed.
\<close>

fun pair_plus :: "int \<times> nat \<Rightarrow> int \<times> nat \<Rightarrow> int \<times> nat" where
  "pair_plus (c, p) (d, q) = (c * 10 ^ (max p q - p) + d * 10 ^ (max p q - q), max p q)"

fun pair_minus :: "int \<times> nat \<Rightarrow> int \<times> nat \<Rightarrow> int \<times> nat" where
  "pair_minus (c, p) (d, q) = (c * 10 ^ (max p q - p) - d * 10 ^ (max p q - q), max p q)"

fun pair_div :: "int \<times> nat \<Rightarrow> int \<times> nat \<Rightarrow> int \<times> nat" where
  "pair_div (c, p) (d, q) =
     (let n = c * 10 ^ q * 10 ^ 30 * sgn d; m = \<bar>d\<bar> * 10 ^ p in ((2 * n + m) div (2 * m), 30))"

definition magnitude_div :: "rounding_mode \<Rightarrow> int \<Rightarrow> int \<Rightarrow> int" where
  "magnitude_div mode a b =
     (let f = a div b; r = 2 * (a mod b)
      in case mode of
           HALF_UP \<Rightarrow> if b \<le> r then f + 1 else f
         | HALF_EVEN \<Rightarrow> if b < r \<or> r = b \<and> odd f then f + 1 else f
         | DOWN \<Rightarrow> f
         | UP \<Rightarrow> if 0 < r then f + 1 else f)"

fun pair_places :: "int \<times> nat \<Rightarrow> nat \<Rightarrow> rounding_mode \<Rightarrow> int \<times> nat" where
  "pair_places (c, p) k m =
     (if c < 0 then - magnitude_div m (- c * 10 ^ k) (10 ^ p) else magnitude_div m (c * 10 ^ k) (10 ^ p), k)"

definition pair_arith :: "(int \<times> nat) decimal_arith" where
  "pair_arith =
     \<lparr>da_plus = pair_plus, da_minus = pair_minus, da_negated = (\<lambda>(c, p). (- c, p)),
      da_isZero = (\<lambda>x. fst x = 0), da_isNegative = (\<lambda>x. fst x < 0),
      da_cmp = (\<lambda>x y. sgn (fst (pair_minus x y))),
      da_div = pair_div,
      da_toDecimalPlaces = pair_places\<rparr>"

lemma pair_rescale:
  assumes "p \<le> k"
  shows "of_int (c * 10 ^ (k - p)) / 10 ^ k = pair_value (c, p)"
proof -
  have "of_int (c * 10 ^ (k - p)) / 10 ^ (k - p + p) = pair_value (c, p)"
    unfolding power_add pair_value_def by simp
  then show ?thesis using assms by simp
qed

lemma pair_value_plus: "pair_value (pair_plus x y) = pair_value x + pair_value y"
  by (cases x; cases y)
    (simp add: pair_value_def [of "(_, max _ _)"] add_divide_distrib pair_rescale [simplified])

lemma pair_value_minus: "pair_value (pair_minus x y) = pair_value x - pair_value y"
  by (cases x; cases y)
    (simp add: pair_value_def [of "(_, max _ _)"] diff_divide_distrib pair_rescale [simplified])

lemma pair_value_sign: "pair_value x = 0 \<longleftrightarrow> fst x = 0" "0 < pair_value x \<longleftrightarrow> 0 < fst x"
  "pair_value x < 0 \<longleftrightarrow> fst x < 0"
  by (simp_all add: pair_value_def zero_less_divide_iff divide_less_0_iff)

lemma magnitude_div_eq:
  assumes "0 < b"
  shows "magnitude m (of_int a / of_int b) = magnitude_div m a b"
proof -
  have f: "\<lfloor>of_int a / of_int b :: rat\<rfloor> = a div b" by (rule floor_divide_of_int_eq)
  have "(of_int a :: rat) = of_int (a div b * b + a mod b)" by simp
  then have r: "(of_int a / of_int b :: rat) - of_int (a div b) = of_int (a mod b) / of_int b"
    using assms by (simp only: of_int_add of_int_mult) (simp add: add_divide_distrib)
  have "(1 / 2 \<le> (of_int (a mod b) / of_int b :: rat)) = (of_int b \<le> (of_int (2 * (a mod b)) :: rat))"
    "(1 / 2 < (of_int (a mod b) / of_int b :: rat)) = (of_int b < (of_int (2 * (a mod b)) :: rat))"
    "(of_int (a mod b) / of_int b = (1 / 2 :: rat)) = ((of_int (2 * (a mod b)) :: rat) = of_int b)"
    "(0 < (of_int (a mod b) / of_int b :: rat)) = ((of_int 0 :: rat) < of_int (2 * (a mod b)))"
    using assms by (auto simp: field_simps)
  then show ?thesis
    unfolding magnitude_def magnitude_div_def Let_def f r
    by (simp only: of_int_le_iff of_int_less_iff of_int_eq_iff)
qed

lemma pair_places_value: "pair_value (pair_places x k m) = of_int (rounded m (pair_value x * 10 ^ k)) / 10 ^ k"
proof -
  obtain c p where x: "x = (c, p)" by (cases x)
  have e: "pair_value (c, p) * 10 ^ k = of_int (c * 10 ^ k) / of_int (10 ^ p)" by (simp add: pair_value_def)
  have neg: "pair_value (c, p) * 10 ^ k < 0 \<longleftrightarrow> c < 0"
    by (simp add: pair_value_def mult_less_0_iff divide_less_0_iff)
  have "rounded m (pair_value (c, p) * 10 ^ k) = fst (pair_places (c, p) k m)"
    unfolding rounded_def neg unfolding e
    using magnitude_div_eq [of "10 ^ p" m "c * 10 ^ k"] magnitude_div_eq [of "10 ^ p" m "- c * 10 ^ k"]
    by simp
  then show ?thesis by (simp add: x pair_value_def)
qed

lemma pair_div_value:
  assumes "pair_value y \<noteq> 0"
  shows "pair_value (pair_div x y) = of_int (round (pair_value x / pair_value y * 10 ^ 30)) / 10 ^ 30"
proof -
  obtain c p d q where x: "x = (c, p)" and y: "y = (d, q)" by (cases x; cases y)
  define n where "n = c * 10 ^ q * 10 ^ 30 * sgn d"
  define m where "m = \<bar>d\<bar> * 10 ^ p"
  have d: "d \<noteq> 0" using assms by (simp add: y pair_value_def)
  then have m: "0 < m" by (simp add: m_def)
  have "pair_value x / pair_value y * 10 ^ 30 = of_int n / of_int m"
    using d by (cases "d < 0") (simp_all add: x y pair_value_def n_def m_def sgn_if field_simps)
  then have "round (pair_value x / pair_value y * 10 ^ 30) = \<lfloor>of_int n / of_int m + 1 / 2 :: rat\<rfloor>"
    by (simp add: round_def)
  also have "of_int n / of_int m + 1 / 2 = (of_int (2 * n + m) / of_int (2 * m) :: rat)"
    using m by (simp add: field_simps)
  also have "\<lfloor>\<dots>\<rfloor> = (2 * n + m) div (2 * m)" by (rule floor_divide_of_int_eq)
  finally show ?thesis by (simp add: x y pair_value_def n_def m_def Let_def)
qed

lemma scaled_abs:
  fixes k q c :: rat
  assumes "0 < c"
  shows "\<bar>k / c - q\<bar> = \<bar>k - q * c\<bar> / c"
proof -
  have "k / c - q = (k - q * c) / c" using assms by (simp add: field_simps)
  then show ?thesis using assms by (simp only: abs_divide abs_of_pos)
qed

lemma pair_arith_exact: "exact_arith pair_decimal pair_arith pair_value"
proof -
  have times: "pair_value (dj_times pair_decimal x y) = pair_value x * pair_value y" for x y
    by (cases x; cases y) (simp add: pair_decimal_def pair_value_def power_add)
  have cmp: "(sgn (fst (pair_minus x y)) < 0 \<longleftrightarrow> pair_value x < pair_value y) \<and>
      (sgn (fst (pair_minus x y)) = 0 \<longleftrightarrow> pair_value x = pair_value y)" for x y
    using pair_value_sign [of "pair_minus x y"] by (auto simp: pair_value_minus sgn_if)
  have near: "\<bar>of_int (round (q * 10 ^ 30)) / 10 ^ 30 - q\<bar> \<le> \<bar>r - q\<bar>" if held: "held r" for q r :: rat
  proof -
    obtain z where z: "r = of_int z / 10 ^ 30" using held by (auto simp: held_def)
    have scale: "\<bar>of_int k / 10 ^ 30 - q\<bar> = \<bar>of_int k - q * 10 ^ 30\<bar> / 10 ^ 30" for k :: int
      by (rule scaled_abs) simp
    have "\<bar>of_int (round (q * 10 ^ 30)) - q * 10 ^ 30\<bar> \<le> \<bar>of_int z - q * 10 ^ 30\<bar>"
      using round_diff_minimal [of "q * 10 ^ 30" z] by (simp add: abs_minus_commute)
    then show ?thesis unfolding z scale by (rule divide_right_mono) simp
  qed
  have sign: "0 < pair_value (pair_minus x y) \<longleftrightarrow> pair_value y < pair_value x" for x y
    by (simp add: pair_value_minus)
  have quot: "\<bar>pair_value (pair_div x y) - pair_value x / pair_value y\<bar> \<le> \<bar>r - pair_value x / pair_value y\<bar>"
    if "pair_value y \<noteq> 0" "held r" for x y r
    unfolding pair_div_value [OF that(1)] by (rule near [OF that(2)])
  have zero: "fst x = 0 \<longleftrightarrow> pair_value x = 0" for x using pair_value_sign(1) by blast
  show ?thesis
    unfolding exact_arith_def pair_arith_def decimal_arith.simps
    by (intro conjI allI impI; (rule quot, assumption+ | rule pair_value_plus | rule pair_value_minus
        | rule times | rule sign | rule zero | rule cmp [THEN conjunct1] | rule cmp [THEN conjunct2]
        | rule pair_places_value))
qed

definition rand :: "string \<Rightarrow> money_value" where
  "rand s = \<lparr>mv_amount = s, mv_currency = ''ZAR''\<rparr>"


text \<open>
  A negative total is not conserved: the shares are cut toward zero, the units left are negative,
  and the loop that hands them out does not run.
\<close>

definition allocated_sum :: "string \<Rightarrow> string list \<Rightarrow> rat option" where
  "allocated_sum tot weights =
     (case allocate pair_decimal pair_arith (rand tot) weights ROUNDING_PRO_RATA of
        Inl _ \<Rightarrow> None
      | Inr slices \<Rightarrow> Some (\<Sum>m\<leftarrow>slices. decimal_value (mv_amount m)))"

lemma negative_total_not_conserved:
  "allocated_sum ''1'' [''1'', ''1'', ''1''] = Some 1"
  "allocated_sum ''-1'' [''1'', ''1'', ''1''] = Some (- 99 / 100)"
  by code_simp+

end
