(* ===== verification/JsonText.thy ===== *)
theory JsonText
  imports JsValue
begin

text \<open>
  \<open>JSON.stringify\<close> and \<open>JSON.parse\<close> on the values the program stores as text: \<open>null\<close>, booleans,
  integers, strings, arrays and objects.  The printer leaves out absent fields; the parser skips
  white space and reads every escape of a character below 0x100.  Numbers with a fraction or an
  exponent are left out of both.
\<close>

section \<open>Printing\<close>

definition hex_char :: "nat \<Rightarrow> char" where
  "hex_char n = ''0123456789abcdef'' ! n"

definition escape_char :: "char \<Rightarrow> string" where
  "escape_char c =
     (if c = CHR 0x22 then [CHR 0x5C, CHR 0x22]
      else if c = CHR 0x5C then [CHR 0x5C, CHR 0x5C]
      else if c = CHR 0x08 then [CHR 0x5C, CHR ''b'']
      else if c = CHR 0x09 then [CHR 0x5C, CHR ''t'']
      else if c = CHR 0x0A then [CHR 0x5C, CHR ''n'']
      else if c = CHR 0x0C then [CHR 0x5C, CHR ''f'']
      else if c = CHR 0x0D then [CHR 0x5C, CHR ''r'']
      else if of_char c < (32 :: nat)
      then CHR 0x5C # ''u00'' @ [hex_char (of_char c div 16), hex_char (of_char c mod 16)]
      else [c])"

definition string_text :: "string \<Rightarrow> string" where
  "string_text s = CHR 0x22 # concat (map escape_char s) @ [CHR 0x22]"

fun commas :: "string list \<Rightarrow> string" where
  "commas [] = []"
| "commas [x] = x"
| "commas (x # y # zs) = x @ '','' @ commas (y # zs)"

fun json_text :: "jsval \<Rightarrow> string" where
  "json_text JNull = ''null''"
| "json_text (JBool b) = (if b then ''true'' else ''false'')"
| "json_text (JNum q) = int_str \<lfloor>q\<rfloor>"
| "json_text (JStr s) = string_text s"
| "json_text (JArr xs) = ''['' @ commas (map json_text xs) @ '']''"
| "json_text (JObj fs) =
     ''{'' @ commas (map (\<lambda>(k, v). string_text k @ '':'' @ json_text v)
       (filter (\<lambda>(k, v). \<not> json_absent v) fs)) @ ''}''"
| "json_text _ = ''null''"

section \<open>Parsing\<close>

definition json_space :: "char \<Rightarrow> bool" where
  "json_space c \<longleftrightarrow> c = CHR '' '' \<or> c = CHR 0x09 \<or> c = CHR 0x0A \<or> c = CHR 0x0D"

definition skip :: "string \<Rightarrow> string" where
  "skip s = dropWhile json_space s"

definition hex_value :: "char \<Rightarrow> nat option" where
  "hex_value c =
     (let n = of_char c :: nat in
      if 48 \<le> n \<and> n \<le> 57 then Some (n - 48)
      else if 97 \<le> n \<and> n \<le> 102 then Some (n - 87)
      else if 65 \<le> n \<and> n \<le> 70 then Some (n - 55) else None)"

text \<open>The rest of a string literal after its opening quote.\<close>

fun parse_chars :: "string \<Rightarrow> (string \<times> string) option" where
  "parse_chars [] = None"
| "parse_chars (c # s) =
     (if c = CHR 0x22 then Some ([], s)
      else if c = CHR 0x5C then
        (case s of
           [] \<Rightarrow> None
         | e # t \<Rightarrow>
             (if e = CHR ''u'' then
                (case t of
                   a # b # x # y # u \<Rightarrow>
                     (case (hex_value a, hex_value b, hex_value x, hex_value y) of
                        (Some 0, Some 0, Some m, Some n) \<Rightarrow>
                          map_option (apfst ((#) (char_of (16 * m + n)))) (parse_chars u)
                      | _ \<Rightarrow> None)
                 | _ \<Rightarrow> None)
              else case map_of [(CHR 0x22, CHR 0x22), (CHR 0x5C, CHR 0x5C), (CHR ''/'', CHR ''/''),
                     (CHR ''b'', CHR 0x08), (CHR ''t'', CHR 0x09), (CHR ''n'', CHR 0x0A),
                     (CHR ''f'', CHR 0x0C), (CHR ''r'', CHR 0x0D)] e of
                None \<Rightarrow> None
              | Some d \<Rightarrow> map_option (apfst ((#) d)) (parse_chars t)))
      else if of_char c < (32 :: nat) then None
      else map_option (apfst ((#) c)) (parse_chars s))"

definition parse_int :: "string \<Rightarrow> (jsval \<times> string) option" where
  "parse_int s =
     (let neg = (s \<noteq> [] \<and> hd s = CHR ''-''); u = (if neg then tl s else s);
          ds = takeWhile is_digit u; n = of_int (int (parse_nat ds))
      in if ds = [] \<or> ds \<noteq> ''0'' \<and> hd ds = CHR ''0'' then None
         else Some (JNum (if neg then - n else n), dropWhile is_digit u))"

definition keyword :: "string \<Rightarrow> (jsval \<times> string) option" where
  "keyword s =
     (if starts_with ''null'' s then Some (JNull, drop 4 s)
      else if starts_with ''true'' s then Some (JBool True, drop 4 s)
      else if starts_with ''false'' s then Some (JBool False, drop 5 s) else None)"

text \<open>A value, the rest of an array and the rest of an object; each value takes a step.\<close>

fun parse_value :: "nat \<Rightarrow> string \<Rightarrow> (jsval \<times> string) option"
  and parse_items :: "nat \<Rightarrow> string \<Rightarrow> (jsval list \<times> string) option"
  and parse_fields :: "nat \<Rightarrow> string \<Rightarrow> ((string \<times> jsval) list \<times> string) option"
where
  "parse_value 0 s = None"
| "parse_value (Suc n) s =
     (case skip s of
        [] \<Rightarrow> None
      | c # t \<Rightarrow>
          (if c = CHR 0x22 then map_option (apfst JStr) (parse_chars t)
           else if c = CHR ''['' then
             (case skip t of
                [] \<Rightarrow> None
              | d # u \<Rightarrow> if d = CHR '']'' then Some (JArr [], u)
                         else map_option (apfst JArr) (parse_items n (d # u)))
           else if c = CHR ''{'' then
             (case skip t of
                [] \<Rightarrow> None
              | d # u \<Rightarrow> if d = CHR ''}'' then Some (JObj [], u)
                         else map_option (apfst JObj) (parse_fields n (d # u)))
           else if c = CHR ''-'' \<or> is_digit c then parse_int (c # t)
           else keyword (c # t)))"
| "parse_items 0 s = None"
| "parse_items (Suc n) s =
     (case parse_value n s of
        None \<Rightarrow> None
      | Some (v, t) \<Rightarrow>
          (case skip t of
             [] \<Rightarrow> None
           | d # u \<Rightarrow>
               (if d = CHR '','' then map_option (apfst ((#) v)) (parse_items n u)
                else if d = CHR '']'' then Some ([v], u) else None)))"
| "parse_fields 0 s = None"
| "parse_fields (Suc n) s =
     (case skip s of
        [] \<Rightarrow> None
      | q # t \<Rightarrow>
          (if q \<noteq> CHR 0x22 then None
           else case parse_chars t of
             None \<Rightarrow> None
           | Some (k, u) \<Rightarrow>
               (case skip u of
                  [] \<Rightarrow> None
                | d # w \<Rightarrow>
                    (if d \<noteq> CHR '':'' then None
                     else case parse_value n w of
                       None \<Rightarrow> None
                     | Some (v, x) \<Rightarrow>
                         (case skip x of
                            [] \<Rightarrow> None
                          | e # y \<Rightarrow>
                              (if e = CHR '','' then map_option (apfst ((#) (k, v))) (parse_fields n y)
                               else if e = CHR ''}'' then Some ([(k, v)], y) else None))))))"

text \<open>Each step reads a character, so twice the length is enough.\<close>

definition json_parse :: "string \<Rightarrow> jsval option" where
  "json_parse s =
     (case parse_value (2 * length s + 2) s of
        Some (v, rest) \<Rightarrow> if skip rest = [] then Some v else None
      | None \<Rightarrow> None)"

section \<open>Round trip\<close>

lemma hex_roundtrip: "n < 16 \<Longrightarrow> hex_value (hex_char n) = Some n"
proof -
  have "\<forall>n \<in> set [0..<16]. hex_value (hex_char n) = Some n" by code_simp
  then show "n < 16 \<Longrightarrow> hex_value (hex_char n) = Some n" by simp
qed

lemma parse_escape: "parse_chars (escape_char c @ rest) = map_option (apfst ((#) c)) (parse_chars rest)"
proof -
  consider (named) "c \<in> {CHR 0x22, CHR 0x5C, CHR 0x08, CHR 0x09, CHR 0x0A, CHR 0x0C, CHR 0x0D}"
    | (control) "c \<notin> {CHR 0x22, CHR 0x5C, CHR 0x08, CHR 0x09, CHR 0x0A, CHR 0x0C, CHR 0x0D}" "of_char c < (32 :: nat)"
    | (plain) "c \<notin> {CHR 0x22, CHR 0x5C}" "\<not> of_char c < (32 :: nat)"
    by auto
  then show ?thesis
  proof cases
    case named
    then show ?thesis by (auto simp: escape_char_def)
  next
    case control
    let ?n = "of_char c :: nat"
    have "hex_value (CHR ''0'') = Some 0" by code_simp
    moreover have "?n div 16 < 16" "?n mod 16 < 16" using control(2) by auto
    moreover have "char_of (16 * (?n div 16) + ?n mod 16) = c" by simp
    ultimately show ?thesis using control by (simp add: escape_char_def hex_roundtrip)
  next
    case plain
    then have "escape_char c = [c]" by (auto simp: escape_char_def)
    with plain show ?thesis by simp
  qed
qed

lemma parse_string: "parse_chars (concat (map escape_char s) @ CHR 0x22 # rest) = Some (s, rest)"
  by (induction s) (simp_all add: parse_escape)

definition ends :: "string \<Rightarrow> bool" where
  "ends rest \<longleftrightarrow> rest = [] \<or> \<not> is_digit (hd rest)"

lemma nat_str_zero_head: "hd (nat_str n) = CHR ''0'' \<Longrightarrow> n = 0"
proof (induction n rule: nat_str.induct)
  case (1 n)
  show ?case
  proof (cases "n < 10")
    case True
    then have "n \<in> set [0..<10]" by simp
    moreover have "\<forall>n \<in> set [0..<10]. digit_char n = CHR ''0'' \<longrightarrow> n = 0" by code_simp
    moreover have "digit_char n = CHR ''0''" using "1.prems" True by (subst (asm) nat_str.simps) simp
    ultimately show ?thesis by blast
  next
    case False
    have "nat_str (n div 10) \<noteq> []" using nat_str_digits by blast
    with "1.prems" False have "hd (nat_str (n div 10)) = CHR ''0''" by (subst (asm) nat_str.simps) simp
    with "1.IH" False have "n div 10 = 0" by simp
    with False show ?thesis by simp
  qed
qed

lemma take_digits:
  assumes "ends rest"
  shows "takeWhile is_digit (nat_str n @ rest) = nat_str n" "dropWhile is_digit (nat_str n @ rest) = rest"
proof -
  have d: "\<forall>c \<in> set (nat_str n). is_digit c" using nat_str_digits by (simp add: list_all_iff)
  moreover have "takeWhile is_digit rest = []" "dropWhile is_digit rest = rest"
    using assms by (cases rest; simp add: ends_def)+
  ultimately show "takeWhile is_digit (nat_str n @ rest) = nat_str n"
    "dropWhile is_digit (nat_str n @ rest) = rest"
    by (simp_all add: takeWhile_append2 dropWhile_append2)
qed

lemma parse_int_text:
  assumes "ends rest"
  shows "parse_int (int_str z @ rest) = Some (JNum (of_int z), rest)"
proof -
  let ?n = "nat \<bar>z\<bar>"
  have ne: "nat_str ?n \<noteq> []" using nat_str_digits by blast
  have z0: "nat_str 0 = ''0''" by code_simp
  have zero: "nat_str ?n = ''0'' \<or> hd (nat_str ?n) \<noteq> CHR ''0''"
    using nat_str_zero_head [of ?n] z0 by metis
  have hd: "hd (nat_str ?n @ rest) \<noteq> CHR ''-''" using ne nat_str_not_minus [of ?n "tl (nat_str ?n)"]
    by (cases "nat_str ?n") auto
  show ?thesis
  proof (cases "z < 0")
    case True
    then show ?thesis using take_digits [OF assms, of ?n] ne zero
      by (simp add: parse_int_def int_str_def Let_def abs_if)
  next
    case False
    then show ?thesis using take_digits [OF assms, of ?n] ne zero hd
      by (simp add: parse_int_def int_str_def Let_def)
  qed
qed

fun json_plain :: "jsval \<Rightarrow> bool" where
  "json_plain (JNum q) \<longleftrightarrow> q = of_int \<lfloor>q\<rfloor>"
| "json_plain (JArr xs) \<longleftrightarrow> (\<forall>x \<in> set xs. json_plain x)"
| "json_plain (JObj fs) \<longleftrightarrow> (\<forall>(k, v) \<in> set fs. json_plain v)"
| "json_plain JUndefined \<longleftrightarrow> False"
| "json_plain JFun \<longleftrightarrow> False"
| "json_plain (JBig i) \<longleftrightarrow> False"
| "json_plain _ \<longleftrightarrow> True"

fun steps :: "jsval \<Rightarrow> nat" where
  "steps (JArr xs) = Suc (\<Sum>x\<leftarrow>xs. Suc (steps x))"
| "steps (JObj fs) = Suc (\<Sum>(k, v)\<leftarrow>fs. Suc (steps v))"
| "steps _ = 1"

lemma int_str_head: "\<exists>c s. int_str z = c # s \<and> (c = CHR ''-'' \<or> is_digit c)"
proof (cases "z < 0")
  case False
  then show ?thesis using nat_str_digits [of "nat z"]
    by (cases "nat_str (nat z)") (auto simp: int_str_def)
qed (simp add: int_str_def)

lemma digit_char_facts:
  "is_digit c \<Longrightarrow> \<not> json_space c \<and> c \<noteq> CHR 0x22 \<and> c \<noteq> CHR ''['' \<and> c \<noteq> CHR ''{'' \<and> c \<noteq> CHR '']''"
  by (auto simp: is_digit_def json_space_def less_eq_char_def)

lemma skip_Cons: "\<not> json_space c \<Longrightarrow> skip (c # s) = c # s"
  by (simp add: skip_def)

lemma plain_head:
  "json_plain v \<Longrightarrow> \<exists>c s. json_text v = c # s \<and> \<not> json_space c \<and> c \<noteq> CHR '']''"
proof (cases v)
  case (JNum q)
  then show ?thesis using int_str_head [of "\<lfloor>q\<rfloor>"] digit_char_facts by (force simp: json_space_def)
qed (auto simp: json_space_def string_text_def)

lemma skip_value: "json_plain v \<Longrightarrow> skip (json_text v @ s) = json_text v @ s"
  using plain_head [of v] by (auto simp: skip_Cons)

lemma ends_simps [simp]:
  "ends []" "ends (CHR '','' # s)" "ends (CHR '']'' # s)" "ends (CHR ''}'' # s)"
  by (simp_all add: ends_def is_digit_def less_eq_char_def)

lemma skip_simps [simp]:
  "skip (CHR '','' # s) = CHR '','' # s" "skip (CHR '']'' # s) = CHR '']'' # s"
  "skip (CHR ''}'' # s) = CHR ''}'' # s" "skip (CHR '':'' # s) = CHR '':'' # s"
  "skip (CHR 0x22 # s) = CHR 0x22 # s" "skip (CHR ''['' # s) = CHR ''['' # s"
  "skip (CHR ''{'' # s) = CHR ''{'' # s"
  by (simp_all add: skip_def json_space_def)

definition value_reads :: "jsval \<Rightarrow> bool" where
  "value_reads v \<longleftrightarrow> (\<forall>n rest. steps v \<le> n \<longrightarrow> ends rest \<longrightarrow> parse_value n (json_text v @ rest) = Some (v, rest))"

lemma value_readsD:
  "value_reads v \<Longrightarrow> steps v \<le> n \<Longrightarrow> ends rest \<Longrightarrow> parse_value n (json_text v @ rest) = Some (v, rest)"
  by (simp add: value_reads_def)

lemma items_read:
  assumes "\<forall>x \<in> set xs. value_reads x" "xs \<noteq> []" "(\<Sum>x\<leftarrow>xs. Suc (steps x)) \<le> n"
  shows "parse_items n (commas (map json_text xs) @ CHR '']'' # rest) = Some (xs, rest)"
  using assms(2,1,3)
proof (induction xs arbitrary: n rule: list_nonempty_induct)
  case (single x)
  then obtain m where n: "n = Suc m" "steps x \<le> m" by (cases n) auto
  with single value_readsD [of x m "CHR '']'' # rest"] show ?case by simp
next
  case (cons x xs)
  then obtain m where n: "n = Suc m" "steps x \<le> m" "(\<Sum>x\<leftarrow>xs. Suc (steps x)) \<le> m" by (cases n) auto
  obtain y ys where xs: "xs = y # ys" using cons.hyps by (cases xs) auto
  have printed: "commas (map json_text (x # xs)) = json_text x @ CHR '','' # commas (map json_text xs)"
    by (simp add: xs)
  show ?case using cons.IH [of m] cons.prems n value_readsD [of x m "CHR '','' # commas (map json_text xs) @ CHR '']'' # rest"]
    unfolding printed by simp
qed

definition field_text :: "string \<times> jsval \<Rightarrow> string" where
  "field_text f = string_text (fst f) @ '':'' @ json_text (snd f)"

lemma fields_read:
  assumes "\<forall>f \<in> set fs. value_reads (snd f)" "fs \<noteq> []" "(\<Sum>f\<leftarrow>fs. Suc (steps (snd f))) \<le> n"
  shows "parse_fields n (commas (map field_text fs) @ CHR ''}'' # rest) = Some (fs, rest)"
proof -
  have one: "parse_fields (Suc m) (field_text f @ d # w) =
      (if d = CHR '','' then map_option (apfst ((#) f)) (parse_fields m w)
       else if d = CHR ''}'' then Some ([f], w) else None)"
    if "value_reads (snd f)" "steps (snd f) \<le> m" "d \<in> {CHR '','', CHR ''}''}" for f m d w
  proof -
    have "parse_value m (json_text (snd f) @ d # w) = Some (snd f, d # w)"
      by (rule value_readsD [OF that(1,2)]) (use that(3) in auto)
    moreover have "skip (d # w) = d # w" using that(3) by auto
    ultimately show ?thesis
      using parse_string [of "fst f" "CHR '':'' # json_text (snd f) @ d # w"]
      by (simp add: field_text_def string_text_def)
  qed
  show ?thesis
    using assms(2,1,3)
  proof (induction fs arbitrary: n rule: list_nonempty_induct)
    case (single f)
    then obtain m where n: "n = Suc m" "steps (snd f) \<le> m" by (cases n) auto
    with single one [of f m "CHR ''}''" rest] show ?case by simp
  next
    case (cons f fs)
    then obtain m where n: "n = Suc m" "steps (snd f) \<le> m" "(\<Sum>f\<leftarrow>fs. Suc (steps (snd f))) \<le> m"
      by (cases n) auto
    obtain g gs where fs: "fs = g # gs" using cons.hyps by (cases fs) auto
    have printed: "commas (map field_text (f # fs)) = field_text f @ CHR '','' # commas (map field_text fs)"
      by (simp add: fs)
    show ?case using cons.IH [of m] cons.prems n one [of f m "CHR '',''" "commas (map field_text fs) @ CHR ''}'' # rest"]
      unfolding printed by simp
  qed
qed

lemma plain_reads: "json_plain v \<Longrightarrow> value_reads v"
proof (induction v)
  case (JNum q)
  show ?case
    unfolding value_reads_def
  proof (intro allI impI)
    fix n rest assume n: "steps (JNum q) \<le> n" and rest: "ends rest"
    obtain c s where c: "int_str \<lfloor>q\<rfloor> = c # s" "c = CHR ''-'' \<or> is_digit c" using int_str_head by blast
    have "\<not> json_space c \<and> c \<noteq> CHR 0x22 \<and> c \<noteq> CHR ''['' \<and> c \<noteq> CHR ''{''"
      using c(2) digit_char_facts [of c] by (auto simp: json_space_def)
    with c n JNum parse_int_text [OF rest, of "\<lfloor>q\<rfloor>"]
    show "parse_value n (json_text (JNum q) @ rest) = Some (JNum q, rest)"
      by (cases n) (simp_all add: skip_Cons)
  qed
next
  case (JStr s)
  show ?case
    unfolding value_reads_def
    using parse_string by (auto simp: string_text_def Suc_le_eq gr0_conv_Suc)
next
  case (JArr xs)
  then have vs: "\<forall>x \<in> set xs. value_reads x" "\<forall>x \<in> set xs. json_plain x" by auto
  show ?case
    unfolding value_reads_def
  proof (intro allI impI)
    fix n rest assume n: "steps (JArr xs) \<le> n"
    then obtain m where m: "n = Suc m" "(\<Sum>x\<leftarrow>xs. Suc (steps x)) \<le> m" by (cases n) auto
    show "parse_value n (json_text (JArr xs) @ rest) = Some (JArr xs, rest)"
    proof (cases xs)
      case Nil
      with m show ?thesis by simp
    next
      case (Cons x ys)
      obtain c s where c: "json_text x = c # s" "\<not> json_space c" "c \<noteq> CHR '']''"
        using plain_head [of x] vs(2) Cons by auto
      obtain w where "commas (map json_text xs) @ CHR '']'' # rest = c # w"
        using c(1) Cons by (cases ys) auto
      with items_read [OF vs(1) _ m(2), of rest] Cons m(1) c(2,3) show ?thesis by (simp add: skip_Cons)
    qed
  qed
next
  case (JObj fs)
  then have vs: "\<forall>f \<in> set fs. value_reads (snd f)" and ps: "\<forall>f \<in> set fs. json_plain (snd f)"
    by (auto intro: snds.intros)
  have "filter (\<lambda>(k, v). \<not> json_absent v) fs = fs" using ps by (force simp: json_absent_def filter_id_conv)
  then have printed: "json_text (JObj fs) = ''{'' @ commas (map field_text fs) @ ''}''"
    by (simp add: field_text_def [abs_def] case_prod_unfold)
  show ?case
    unfolding value_reads_def
  proof (intro allI impI)
    fix n rest assume n: "steps (JObj fs) \<le> n"
    then obtain m where m: "n = Suc m" "(\<Sum>f\<leftarrow>fs. Suc (steps (snd f))) \<le> m"
      by (cases n) (auto simp: case_prod_unfold)
    show "parse_value n (json_text (JObj fs) @ rest) = Some (JObj fs, rest)"
    proof (cases fs)
      case Nil
      with m show ?thesis unfolding printed by simp
    next
      case (Cons f gs)
      obtain w where "commas (map field_text fs) @ CHR ''}'' # rest = CHR 0x22 # w"
        using Cons by (cases gs) (auto simp: field_text_def string_text_def)
      with fields_read [OF vs _ m(2), of rest] Cons m(1) show ?thesis unfolding printed by simp
    qed
  qed
qed (auto simp: value_reads_def Suc_le_eq gr0_conv_Suc skip_def json_space_def keyword_def starts_with_def is_digit_def
    less_eq_char_def)

lemma commas_length: "(\<Sum>x\<leftarrow>xs. length x) \<le> length (commas xs)"
  by (induction xs rule: commas.induct) simp_all

lemma steps_bound: "json_plain v \<Longrightarrow> Suc (steps v) \<le> 2 * length (json_text v)"
proof (induction v)
  case (JNum q)
  then show ?case using int_str_head [of "\<lfloor>q\<rfloor>"] by auto
next
  case (JArr xs)
  have "(\<Sum>x\<leftarrow>xs. Suc (steps x)) \<le> (\<Sum>x\<leftarrow>xs. 2 * length (json_text x))"
    using JArr by (intro sum_list_mono) auto
  also have "\<dots> = 2 * (\<Sum>x\<leftarrow>map json_text xs. length x)" by (simp add: sum_list_const_mult comp_def)
  also have "\<dots> \<le> 2 * length (commas (map json_text xs))"
    by (intro mult_le_mono2 commas_length)
  finally show ?case by simp
next
  case (JObj fs)
  then have ps: "\<forall>f \<in> set fs. json_plain (snd f)" by auto
  have keep: "filter (\<lambda>(k, v). \<not> json_absent v) fs = fs" using ps by (force simp: json_absent_def filter_id_conv)
  have "(\<Sum>f\<leftarrow>fs. Suc (steps (snd f))) \<le> (\<Sum>f\<leftarrow>fs. 2 * length (field_text f))"
  proof (rule sum_list_mono)
    fix f assume f: "f \<in> set fs"
    then have "snd f \<in> Basic_BNFs.snds f" by (cases f) (auto intro: snds.intros)
    with JObj.IH [OF f this] ps f have "Suc (steps (snd f)) \<le> 2 * length (json_text (snd f))" by blast
    then show "Suc (steps (snd f)) \<le> 2 * length (field_text f)" by (simp add: field_text_def)
  qed
  also have "\<dots> = 2 * (\<Sum>x\<leftarrow>map field_text fs. length x)" by (simp add: sum_list_const_mult comp_def)
  also have "\<dots> \<le> 2 * length (commas (map field_text fs))"
    by (intro mult_le_mono2 commas_length)
  finally show ?case using keep by (simp add: field_text_def [abs_def] case_prod_unfold)
qed (simp_all add: string_text_def)

theorem json_roundtrip: "json_plain v \<Longrightarrow> json_parse (json_text v) = Some v"
  using value_readsD [OF plain_reads, of v "2 * length (json_text v) + 2" "[]"] steps_bound [of v]
  by (simp add: json_parse_def skip_def)

end
