(* ===== verification/OutputCache.thy ===== *)
theory OutputCache
  imports Projections JsonText
begin

text \<open>
  The cache of computed outputs (\<open>platform/projections/output-snapshot-cache.ts\<close>): the output of a
  projection is kept as a snapshot together with the number of events it was computed from, and
  served while the store still counts as many.  A computation may throw.
\<close>

section \<open>The cache\<close>

record cache_envelope =
  ce_count :: nat
  ce_asOf :: string
  ce_output :: jsval

record 'o cache_opts =
  oc_streamKey :: string
  oc_asOf :: string
  oc_encode :: "'o \<Rightarrow> string"
  oc_decode :: "string \<Rightarrow> 'o"
  oc_provenanceFilter :: "provenance_filter option"
  oc_cadenceEventType :: "string option"

record 'o cache_result =
  cr_output :: 'o
  cr_cacheHit :: bool
  cr_snapshotWritten :: bool
  cr_count :: nat

text \<open>The process: its settings, the cadence of event types, and \<open>Date.parse\<close>.\<close>

record cache_world =
  cw_env :: bank_env
  cw_cadence :: "string \<Rightarrow> cadence option"
  cw_dateParse :: "string \<Rightarrow> int option"

datatype 'e cache_error = ComputeFailed 'e | NotJson | CacheStoreFailed store_error

definition envelope_json :: "cache_envelope \<Rightarrow> jsval" where
  "envelope_json e =
     JObj [(''v'', JNum 1), (''count'', JNum (of_nat (ce_count e))), (''asOf'', JStr (ce_asOf e)),
           (''output'', ce_output e)]"

text \<open>\<open>isCachedOutputEnvelope\<close>, and the fields read; a count that is no number of rows never agrees.\<close>

definition isCachedOutputEnvelope :: "jsval \<Rightarrow> cache_envelope option" where
  "isCachedOutputEnvelope x =
     (if \<not> is_object x then None
      else case (prop_get x ''v'', prop_get x ''count'', prop_get x ''asOf'', prop_get x ''output'') of
        (Some (JNum one), Some (JNum n), Some (JStr d), Some out) \<Rightarrow>
          if one = 1 \<and> n = of_nat (nat \<lfloor>n\<rfloor>)
          then Some \<lparr>ce_count = nat \<lfloor>n\<rfloor>, ce_asOf = d, ce_output = out\<rparr> else None
      | _ \<Rightarrow> None)"

definition read_envelope :: "string \<Rightarrow> cache_envelope option" where
  "read_envelope body = Option.bind (json_parse body) isCachedOutputEnvelope"

definition cache_stream :: "cache_world \<Rightarrow> 'o cache_opts \<Rightarrow> string" where
  "cache_stream w opts =
     effectiveStreamKey (cw_env w) (oc_streamKey opts) (given_filter (cw_env w) (oc_provenanceFilter opts))"

definition cached_output :: "cache_world \<Rightarrow> 'o cache_opts \<Rightarrow> event_store \<Rightarrow> 'o option" where
  "cached_output w opts s =
     (case loadSnapshot s (cache_stream w opts) (oc_asOf opts) of
        None \<Rightarrow> None
      | Some snap \<Rightarrow>
          (case read_envelope (snap_payload snap) of
             None \<Rightarrow> None
           | Some e \<Rightarrow>
               if ce_count e = count s \<and> ce_asOf e = oc_asOf opts
               then Some (oc_decode opts (json_text (ce_output e))) else None))"

definition readWithOutputSnapshot ::
  "cache_world \<Rightarrow> string \<Rightarrow> 'o cache_opts \<Rightarrow> (event_store \<Rightarrow> 'e + 'o) \<Rightarrow> event_store
     \<Rightarrow> 'e cache_error + ('o cache_result \<times> event_store)" where
  "readWithOutputSnapshot w now opts compute s =
     (case cached_output w opts s of
        Some out \<Rightarrow>
          Inr (\<lparr>cr_output = out, cr_cacheHit = True, cr_snapshotWritten = False, cr_count = count s\<rparr>, s)
      | None \<Rightarrow>
          (case compute s of
             Inl e \<Rightarrow> Inl (ComputeFailed e)
           | Inr out \<Rightarrow>
               (case json_parse (oc_encode opts out) of
                  None \<Rightarrow> Inl NotJson
                | Some v \<Rightarrow>
                    (let eff = cache_stream w opts;
                         body = json_text (envelope_json
                           \<lparr>ce_count = count s, ce_asOf = oc_asOf opts, ce_output = v\<rparr>);
                         missed = \<lparr>cr_output = out, cr_cacheHit = False, cr_snapshotWritten = False,
                           cr_count = count s\<rparr>
                     in if fst (shouldSnapshot (cw_cadence w) (cw_dateParse w) now s eff
                                 (oc_cadenceEventType opts) None)
                        then (case snapshot now s eff (oc_asOf opts) (int (count s)) body of
                                Inl err \<Rightarrow> Inl (CacheStoreFailed err)
                              | Inr (_, s') \<Rightarrow> Inr (missed\<lparr>cr_snapshotWritten := True\<rparr>, s'))
                        else Inr (missed, s)))))"

section \<open>A cached read is a computed one\<close>

text \<open>
  The computation is a function of the event rows, and its output survives the text: what is
  decoded from the text is what was encoded.
\<close>

definition pure_projection :: "'o cache_opts \<Rightarrow> (event_store \<Rightarrow> 'e + 'o) \<Rightarrow> bool" where
  "pure_projection opts compute \<longleftrightarrow>
     (\<forall>s s'. es_rows s = es_rows s' \<longrightarrow> compute s = compute s') \<and>
     (\<forall>s out. compute s = Inr out \<longrightarrow>
        (\<exists>v. json_plain v \<and> oc_encode opts out = json_text v \<and> oc_decode opts (json_text v) = out))"

text \<open>Every envelope of the stream holds the output over the rows it counted.\<close>

definition cache_sound :: "cache_world \<Rightarrow> 'o cache_opts \<Rightarrow> (event_store \<Rightarrow> 'e + 'o) \<Rightarrow> event_store \<Rightarrow> bool" where
  "cache_sound w opts compute s \<longleftrightarrow>
     (\<forall>r \<in> set (snapshots_of s (cache_stream w opts)). \<forall>e. read_envelope (snap_payload r) = Some e \<longrightarrow>
        ce_count e \<le> count s \<and>
        compute (s\<lparr>es_rows := take (ce_count e) (es_rows s)\<rparr>) = Inr (oc_decode opts (json_text (ce_output e))))"

lemma envelope_reads:
  assumes "json_plain (ce_output e)"
  shows "read_envelope (json_text (envelope_json e)) = Some e"
proof -
  have "json_plain (envelope_json e)" using assms by (simp add: envelope_json_def)
  then show ?thesis
    by (simp add: read_envelope_def json_roundtrip) (simp add: isCachedOutputEnvelope_def envelope_json_def)
qed

lemma pure_rows: "pure_projection opts compute \<Longrightarrow> es_rows s = es_rows s' \<Longrightarrow> compute s = compute s'"
  unfolding pure_projection_def by blast

lemma pure_text:
  "pure_projection opts compute \<Longrightarrow> compute s = Inr out \<Longrightarrow>
    \<exists>v. json_plain v \<and> oc_encode opts out = json_text v \<and> oc_decode opts (json_text v) = out"
  unfolding pure_projection_def by blast

lemma cached_output_computes:
  assumes pure: "pure_projection opts compute" and sound: "cache_sound w opts compute s"
    and hit: "cached_output w opts s = Some out"
  shows "compute s = Inr out"
proof -
  obtain snap e where snap: "loadSnapshot s (cache_stream w opts) (oc_asOf opts) = Some snap"
    and e: "read_envelope (snap_payload snap) = Some e" "ce_count e = count s"
      "out = oc_decode opts (json_text (ce_output e))"
    using hit by (auto simp: cached_output_def split: option.splits if_splits)
  have "snap \<in> set (snapshots_of s (cache_stream w opts))"
    using loadSnapshot_Some [OF snap] by (simp add: snapshots_of_def)
  with sound e have "compute (s\<lparr>es_rows := take (count s) (es_rows s)\<rparr>) = Inr out"
    by (auto simp: cache_sound_def)
  moreover have "compute (s\<lparr>es_rows := take (count s) (es_rows s)\<rparr>) = compute s"
    by (rule pure_rows [OF pure]) (simp add: count_def)
  ultimately show ?thesis by simp
qed

lemma prune_subset: "set (es_snapshots (snd (pruneSnapshots s k n))) \<subseteq> set (es_snapshots s)"
  by (auto simp: pruneSnapshots_def Let_def)

lemma snapshot_members:
  assumes "snapshot now s key asOf n body = Inr (r, s')"
  shows "\<forall>x \<in> set (es_snapshots s'). x \<in> set (es_snapshots s) \<or> streamKey x = key \<and> snap_payload x = body"
  using assms
proof (cases rule: snapshot_cases)
  case 2
  show ?thesis
  proof
    fix x assume "x \<in> set (es_snapshots s')"
    then have "x \<in> set (es_snapshots s @ [r])" using prune_subset 2(3) by fastforce
    with 2(2) show "x \<in> set (es_snapshots s) \<or> streamKey x = key \<and> snap_payload x = body" by auto
  qed
qed simp

lemma cache_sound_step:
  assumes pure: "pure_projection opts compute" and sound: "cache_sound w opts compute s"
    and rows: "es_rows s' = es_rows s @ new"
    and snaps: "\<forall>x \<in> set (es_snapshots s'). x \<in> set (es_snapshots s) \<or> streamKey x \<noteq> cache_stream w opts
      \<or> (\<exists>v. snap_payload x = json_text (envelope_json \<lparr>ce_count = count s, ce_asOf = oc_asOf opts, ce_output = v\<rparr>)
           \<and> json_plain v \<and> compute s = Inr (oc_decode opts (json_text v)))"
  shows "cache_sound w opts compute s'"
  unfolding cache_sound_def
proof (intro ballI allI impI)
  fix x e assume "x \<in> set (snapshots_of s' (cache_stream w opts))" and e: "read_envelope (snap_payload x) = Some e"
  then have x: "x \<in> set (es_snapshots s')" "streamKey x = cache_stream w opts" by (simp_all add: snapshots_of_def)
  have "ce_count e \<le> count s \<and>
      compute (s\<lparr>es_rows := take (ce_count e) (es_rows s)\<rparr>) = Inr (oc_decode opts (json_text (ce_output e)))"
  proof (cases "x \<in> set (es_snapshots s)")
    case True
    with x(2) sound e show ?thesis by (simp add: cache_sound_def snapshots_of_def)
  next
    case False
    then obtain v where v: "snap_payload x = json_text (envelope_json \<lparr>ce_count = count s, ce_asOf = oc_asOf opts, ce_output = v\<rparr>)"
      "json_plain v" "compute s = Inr (oc_decode opts (json_text v))" using snaps x by blast
    with e have "e = \<lparr>ce_count = count s, ce_asOf = oc_asOf opts, ce_output = v\<rparr>"
      using envelope_reads [of "\<lparr>ce_count = count s, ce_asOf = oc_asOf opts, ce_output = v\<rparr>"] by simp
    moreover have "compute (s\<lparr>es_rows := take (count s) (es_rows s)\<rparr>) = compute s"
      by (rule pure_rows [OF pure]) (simp add: count_def)
    ultimately show ?thesis using v(3) by simp
  qed
  moreover have "take (ce_count e) (es_rows s') = take (ce_count e) (es_rows s)" if "ce_count e \<le> count s"
    using that rows by (simp add: count_def)
  moreover have "compute (s'\<lparr>es_rows := take (ce_count e) (es_rows s)\<rparr>) =
      compute (s\<lparr>es_rows := take (ce_count e) (es_rows s)\<rparr>)"
    by (rule pure_rows [OF pure]) simp
  ultimately show "ce_count e \<le> count s' \<and>
      compute (s'\<lparr>es_rows := take (ce_count e) (es_rows s')\<rparr>) = Inr (oc_decode opts (json_text (ce_output e)))"
    using rows by (simp add: count_def)
qed

lemma read_cases:
  assumes "readWithOutputSnapshot w now opts compute s = Inr (r, s')"
  obtains (hit) "cached_output w opts s = Some (cr_output r)" "s' = s"
  | (miss) v where "compute s = Inr (cr_output r)" "json_parse (oc_encode opts (cr_output r)) = Some v"
    "s' = s \<or> (\<exists>row. snapshot now s (cache_stream w opts) (oc_asOf opts) (int (count s))
        (json_text (envelope_json \<lparr>ce_count = count s, ce_asOf = oc_asOf opts, ce_output = v\<rparr>)) = Inr (row, s'))"
  using assms
  by (auto simp: readWithOutputSnapshot_def Let_def split: option.splits sum.splits if_splits)

lemma read_computes:
  assumes pure: "pure_projection opts compute" and sound: "cache_sound w opts compute s"
    and read: "readWithOutputSnapshot w now opts compute s = Inr (r, s')"
  shows "compute s = Inr (cr_output r)" "es_rows s' = es_rows s" "cache_sound w opts compute s'"
proof -
  have "compute s = Inr (cr_output r) \<and> es_rows s' = es_rows s \<and> cache_sound w opts compute s'"
    using read
  proof (cases rule: read_cases)
    case hit
    with cached_output_computes [OF pure sound] sound show ?thesis by simp
  next
    case (miss v)
    obtain v' where v': "json_plain v'" "oc_encode opts (cr_output r) = json_text v'"
      "oc_decode opts (json_text v') = cr_output r"
      using pure_text [OF pure miss(1)] by blast
    with miss(2) have v: "v = v'" by (simp add: json_roundtrip)
    show ?thesis
    proof (cases "s' = s")
      case False
      then obtain row where snap: "snapshot now s (cache_stream w opts) (oc_asOf opts) (int (count s))
          (json_text (envelope_json \<lparr>ce_count = count s, ce_asOf = oc_asOf opts, ce_output = v\<rparr>)) = Inr (row, s')"
        using miss(3) by blast
      have rows: "es_rows s' = es_rows s @ []" using snapshot_rows [OF snap] by simp
      have "cache_sound w opts compute s'"
        by (rule cache_sound_step [OF pure sound rows]) (use snapshot_members [OF snap] miss(1) v v' in metis)
      with rows miss(1) show ?thesis by simp
    qed (use miss(1) sound in simp)
  qed
  then show "compute s = Inr (cr_output r)" "es_rows s' = es_rows s" "cache_sound w opts compute s'" by auto
qed

text \<open>
  The histories of a store: events are appended, and outputs are read through the cache, those of
  the projection at hand and those of other streams.
\<close>

inductive cached_run ::
  "store_config \<Rightarrow> cache_world \<Rightarrow> 'o cache_opts \<Rightarrow> (event_store \<Rightarrow> 'e + 'o) \<Rightarrow> event_store \<Rightarrow> event_store \<Rightarrow> bool"
  for cfg w opts compute where
  cached_start: "cached_run cfg w opts compute s s"
| cached_append: "cached_run cfg w opts compute s t \<Longrightarrow> append cfg now t e = Inr t' \<Longrightarrow>
    cached_run cfg w opts compute s t'"
| cached_read: "cached_run cfg w opts compute s t \<Longrightarrow>
    readWithOutputSnapshot w now opts compute t = Inr (r, t') \<Longrightarrow> cached_run cfg w opts compute s t'"
| cached_other: "cached_run cfg w opts compute s t \<Longrightarrow> key \<noteq> cache_stream w opts \<Longrightarrow>
    snapshot now t key asOf n body = Inr (row, t') \<Longrightarrow> cached_run cfg w opts compute s t'"

lemma cached_run_sound:
  assumes "pure_projection opts compute" "cached_run cfg w opts compute s t" "cache_sound w opts compute s"
  shows "cache_sound w opts compute t"
  using assms(2,3)
proof (induction rule: cached_run.induct)
  case (cached_append s t now e t')
  from cached_append(2) obtain r where t': "es_rows t' = es_rows t @ [r]" "es_snapshots t' = es_snapshots t"
    by (elim append_InrE) auto
  show ?case
    by (rule cache_sound_step [OF assms(1) cached_append(3) [OF cached_append(4)] t'(1)]) (simp add: t'(2))
next
  case (cached_read s t now r t')
  show ?case by (rule read_computes(3) [OF assms(1) cached_read(3) [OF cached_read(4)] cached_read(2)])
next
  case (cached_other s t key now asOf n body row t')
  have "es_rows t' = es_rows t @ []" using snapshot_rows [OF cached_other(3)] by simp
  then show ?case
    by (rule cache_sound_step [OF assms(1) cached_other(4) [OF cached_other(5)]])
      (use snapshot_members [OF cached_other(3)] cached_other(2) in blast)
qed

lemma cache_sound_empty: "es_snapshots s = [] \<Longrightarrow> cache_sound w opts compute s"
  by (simp add: cache_sound_def snapshots_of_def)


section \<open>A cache in use\<close>

definition number_text :: "nat \<Rightarrow> string" where
  "number_text n = json_text (JNum (of_nat n))"

definition text_number :: "string \<Rightarrow> nat" where
  "text_number s = (case json_parse s of Some (JNum q) \<Rightarrow> nat \<lfloor>q\<rfloor> | _ \<Rightarrow> 0)"

definition counting_cache :: "nat cache_opts" where
  "counting_cache =
     \<lparr>oc_streamKey = ''k'', oc_asOf = ''2026-02-28'', oc_encode = number_text, oc_decode = text_number,
      oc_provenanceFilter = None, oc_cadenceEventType = None\<rparr>"

definition count_production :: "event_store \<Rightarrow> unit + nat" where
  "count_production s = Inr (count_kind s Production)"

definition sample_cache_world :: cache_world where
  "sample_cache_world = \<lparr>cw_env = sample_bank_env, cw_cadence = (\<lambda>_. None), cw_dateParse = (\<lambda>_. None)\<rparr>"

definition one_event :: event_store where
  "one_event = empty_store\<lparr>es_rows := [sample_row 1 ''e1'' ''T'' ''2026-01-10'' []], es_autoinc := 1\<rparr>"

definition cached_event :: event_store where
  "cached_event = one_event\<lparr>
     es_snapshots := [\<lparr>snap_id = 1, streamKey = effectiveStreamKey sample_bank_env ''k'' operatingBookFilter,
        snap_asOf = ''2026-02-28'', uptoSequence = 1,
        snap_payload = json_text (envelope_json \<lparr>ce_count = 1, ce_asOf = ''2026-02-28'', ce_output = JNum 0\<rparr>),
        snap_recordedAt = ''now''\<rparr>],
     es_snap_autoinc := 1\<rparr>"

lemma counting_pure: "pure_projection counting_cache count_production"
proof -
  have "text_number (json_text (JNum (of_nat n))) = n" for n
    using json_roundtrip [of "JNum (of_nat n)"] by (simp add: text_number_def)
  then have "\<exists>v. json_plain v \<and> number_text n = json_text v \<and> text_number (json_text v) = n" for n
    by (intro exI [of _ "JNum (of_nat n)"]) (simp add: number_text_def)
  then show ?thesis
    unfolding pure_projection_def
    by (intro conjI allI impI) (simp_all add: counting_cache_def count_production_def count_kind_def)
qed

lemma first_read: "readWithOutputSnapshot sample_cache_world ''now'' counting_cache count_production one_event =
    Inr (\<lparr>cr_output = 0, cr_cacheHit = False, cr_snapshotWritten = True, cr_count = 1\<rparr>, cached_event)"
  by code_simp

lemma second_read: "readWithOutputSnapshot sample_cache_world ''later'' counting_cache count_production cached_event =
    Inr (\<lparr>cr_output = 0, cr_cacheHit = True, cr_snapshotWritten = False, cr_count = 1\<rparr>, cached_event)"
  by code_simp


text \<open>
  A reclassification changes rows in place and not their number, so the cache then serves an output
  that a computation would not return.
\<close>

definition production_tag :: provenance_tag where
  "production_tag = UNTAGGED_AS_SIMULATED\<lparr>pt_kind := Production, pt_scenario := None\<rparr>"

definition stale_read :: "(bool \<times> nat \<times> nat) option" where
  "stale_read =
     (case reclassifyProvenance open_config cached_event ''e1'' production_tag of
        Inl _ \<Rightarrow> None
      | Inr (_, s) \<Rightarrow>
          (case readWithOutputSnapshot sample_cache_world ''later'' counting_cache count_production s of
             Inl _ \<Rightarrow> None
           | Inr (r, _) \<Rightarrow> Some (cr_cacheHit r, cr_output r, count_kind s Production)))"

lemma reclassified_read_is_stale: "stale_read = Some (True, 0, 1)"
  by code_simp

end
