(* ===== verification/Spec2Isabelle.thy ===== *)
theory Spec2Isabelle
  imports EventArchiveInv Projections EventBus SlaEval SlaPosting TradeLifecycleView
    CreditLimitProps CronSchedule BusinessCalendar FilInstances FilComposition
    FxTreatmentProps FxFoldProps MoneyArithProps OutputCache
begin

text \<open>
  A verification library for the event-sourced core of the banking prototype under
  \<open>src/prototype\<close>.

  The program.  Every fact of the bank is an event in an append-only SQLite store
  (\<open>platform/event-store\<close>).  State is computed from events by projections
  (\<open>platform/projections\<close>), work is triggered by events through a bus
  (\<open>platform/event-trigger-bus\<close>), old events move to archive files, and accounting entries are
  derived from events by posting rules that are data under version and approval control
  (\<open>platform/accounting/sla\<close>) and compute in exact money (\<open>platform/core\<close>).

  Theories and the code they model.
   \<^item> \<open>Prelude\<close>: JavaScript maps as association lists, sums as results, strings and numerals,
     grouping, and the interfaces \<open>keyed_projection\<close> and \<open>claim_registry\<close>.
   \<^item> \<open>JsValue\<close>: dynamically typed values, property access, the JSON round trip.
   \<^item> \<open>Event\<close>, \<open>EventStore\<close>, \<open>EventStoreInv\<close>: the event envelope and provenance tags
     (\<open>types.ts\<close>, \<open>provenance.ts\<close>) and the store (\<open>store.ts\<close>).  The state is the record
     \<open>event_store\<close>, one field per table; each method is a definition that returns the new state
     or a \<open>store_error\<close>.  The lemmas show that the log is append-only under every interleaving of
     the operations, that batches are atomic, that dispatch claims are won once, and what
     snapshots and recon cursors promise.
   \<^item> \<open>EventArchive\<close>, \<open>EventArchiveInv\<close>: archival, extraction and the partitioned replay
     (\<open>store.ts\<close>, \<open>partitioned-store.ts\<close>).  The world is the hot store and the files; other
     processes and faults at each step are parameters.  The lemmas show that no event is lost or
     changed, under which condition, and what happens without it.
   \<^item> \<open>Projections\<close>: provenance filters (\<open>filter.ts\<close>) and the projector (\<open>runtime.ts\<close>), with the
     refinement from the snapshot path to the naive fold.
   \<^item> \<open>JsonText\<close>, \<open>OutputCache\<close>: \<open>JSON.stringify\<close> and \<open>JSON.parse\<close> with their round trip, and the cache
     of computed outputs (\<open>output-snapshot-cache.ts\<close>): a cached read returns what a computation
     would, over histories that only append; a reclassification makes it stale.
   \<^item> \<open>EventBus\<close>: the bus (\<open>bus.ts\<close>) over the store's claims: at most once, nothing skipped.
   \<^item> \<open>SlaExpression\<close>, \<open>SlaGrammar\<close>, \<open>SlaEval\<close>: the expression language of the posting rules
     (\<open>expression.ts\<close>): totality, the grammar, precedence, and the evaluator.
   \<^item> \<open>SlaRules\<close>, \<open>SlaGovernance\<close>: rule versions and approvals (\<open>versioning.ts\<close>, \<open>approval.ts\<close>,
     \<open>approval-loader.ts\<close>).
   \<^item> \<open>DecimalMoney\<close>: exact money and minor units (\<open>iso4217.ts\<close>, \<open>decimal-engine.ts\<close>,
     \<open>decimal-money.ts\<close>, \<open>money-codec.ts\<close>) over an interface to decimal.js.
   \<^item> \<open>MoneyArith\<close>, \<open>MoneyArithProps\<close>: arithmetic on exact money, rounding at a boundary, conversion and
     the allocation of a total (\<open>decimal-money.ts\<close>): slices add up to a total that is not negative
     and stay within a unit of their exact shares; a negative total is not conserved.
   \<^item> \<open>SlaResolver\<close>, \<open>SlaInterpreter\<close>, \<open>SlaPosting\<close>: the account tables, the interpreter and the
     replay of past postings (\<open>resolver.ts\<close>, \<open>interpreter.ts\<close>, \<open>reproduce.ts\<close>): balance,
     governance, suspense reporting, isolation of accounting bases, reproducibility.
   \<^item> \<open>TradeLifecycle\<close>, \<open>TradeLifecycleView\<close>: the registry of trade lifecycles, the status
     resolver and the view (\<open>platform/lifecycle/trade-lifecycle-*.ts\<close>).  The resolver is an
     instance of \<open>keyed_projection\<close>, interpreted as \<open>lifecycle\<close>; the lemmas give both projections
     declaratively, so that the order of the log matters for the view and not for the resolver.
   \<^item> \<open>CivilDate\<close>: UTC dates as day numbers (the ECMAScript \<open>MakeDay\<close>), with the uniqueness of
     the civil date of a day.
   \<^item> \<open>CreditLimit\<close>, \<open>CreditLimitProps\<close>: limits, exposure, the pre-deal gate, breach detection and
     connected groups (\<open>platform/risk/credit-limit-engine\<close>).  The fold per counterparty is
     \<open>keyed_projection\<close> again, interpreted as \<open>credit\<close>.
   \<^item> \<open>CronSchedule\<close>, \<open>BusinessCalendar\<close>: cron expressions and their next firing, public holidays and
     business days (\<open>platform/scheduler/cron-parse.ts\<close>, \<open>calendar.ts\<close>).
   \<^item> \<open>FilUrn\<close>: the URNs of financial instruments, their patterns and parsers, scope patterns and
     the taxonomy order (\<open>v2-core/fil-core/urn.ts\<close>, \<open>taxonomy.ts\<close>).
   \<^item> \<open>FilInstances\<close>: the register of instruments, derived liveness and trade families
     (\<open>v2-core/fil-instances\<close>); the register is \<open>keyed_projection\<close>, interpreted as \<open>fil\<close>.
   \<^item> \<open>FilComposition\<close>: composites, their factory and the alias registry (\<open>v2-core/fil-core\<close>).
   \<^item> \<open>FxPosting\<close>, \<open>FxPostingProps\<close>: the posting rules of foreign exchange
     (\<open>v2-core/posting-rules/fx.ts\<close>, \<open>fx-settlement.ts\<close>, \<open>trade-settlement.ts\<close>): exact decimal
     texts, balance of conversions and transfers, reversals, and the agreement of a settlement
     with its decomposition into movements.
   \<^item> \<open>FxTreatment\<close>, \<open>FxTreatmentProps\<close>: the registers of reporting treatments and of elections per
     instrument (\<open>v2-core/reporting-treatments\<close>), the composition of a product's treatments
     (\<open>platform/accounting/reporting-treatment-dispatcher.ts\<close>) and the decision whether the rules
     apply.  The register of elections is \<open>keyed_projection\<close>, interpreted as \<open>elections\<close>.
   \<^item> \<open>FxFold\<close>, \<open>FxFoldProps\<close>: the ledger contribution of foreign exchange from the event store, by a
     fold over the events, by a derivation from the register of instruments, and for conversions
     (\<open>platform/accounting/posting-rules-v2/fx-fold.ts\<close>, \<open>fx-instance-fold.ts\<close>,
     \<open>fx-conversion-fold.ts\<close>): when both derivations give the same legs, that a cancelled trade
     nets to zero, what conversions realise, and where the agreement fails.

  Bounds and fuel.  The parser takes \<open>parse_fuel ts = 8 * length ts + 8\<close> steps, which
  \<open>SlaGrammar.parse_total\<close> proves to be always enough.  The group search and the cron scan end by
  a measure; the thirty iterations of the holiday shift are the code's own bound, and
  \<open>BusinessCalendar.shift_finds_first_business_day\<close> proves that they are never used up. 
  Minor-unit amounts are exact below
  \<open>10 ^ 60\<close>, the precision the decimal kernel configures.

  Parameters.  The clock, identifiers, file hashes, the payload schemas of the event registry, the
  category table, the handlers of the bus, decimal.js, the schema parsers of treatments
  (\<open>schemas\<close>), \<open>localeCompare\<close> (\<open>collation\<close>) and the casts of payloads (\<open>fw_view\<close>) are arguments; what is relied on is a
  named hypothesis (\<open>exact_decimal\<close>, \<open>exact_arith\<close>, \<open>runner_keeps_claims\<close> and the fields of \<open>archive_env\<close>), and
  each has a concrete instance in a witness.

  Not modelled.  The texts of error messages; SQLite beyond its tables, keys and transactions;
  strings outside 8-bit characters; non-finite numbers.  Dashboards, report builders, agents,
  scenario drivers and seed data are left aside: they call the parts above or hold data.
\<close>

end
